(* ===== verification/Prelude.thy ===== *)
theory Prelude
  imports Main "HOL-Library.Word"
begin

text \<open>
  Shared vocabulary of the development: the machine integers of the C++ code, the exceptions it
  throws, results that are either an exception or a value, decimal printing (what the code does
  through \<^verbatim>\<open>boost::format\<close> and \<^verbatim>\<open>std::to_string\<close>), and the generic list lemmas the component
  theories share.
\<close>

section \<open>Collections of rules\<close>

named_theorems result_simps \<open>evaluation of the result combinators\<close>
named_theorems component_defs \<open>definitions of operations, for evaluating closed terms\<close>

section \<open>Machine integers\<close>

type_synonym u8 = "8 word"
type_synonym u16 = "16 word"
type_synonym u64 = "64 word"

section \<open>Exceptions and results\<close>

text \<open>
  The exceptions the modelled code can raise. \<open>BaseException\<close> and \<open>SerializerException\<close> carry the
  whole text \<^verbatim>\<open>what()\<close> returns; the others come from the standard library or from Boost.
  \<open>UndefinedBehaviour\<close> is not an exception of the program: it marks a branch where the C++ code
  dereferences an end iterator or a null pointer, which no handler catches.
\<close>

datatype exn =
    BaseException string
  | SerializerException string
  | OutOfRange
  | PtreeBadPath string
  | PtreeBadData
  | JsonParserError
  | UndefinedBehaviour

type_synonym 'a result = "exn + 'a"

fun bindr :: "'a result \<Rightarrow> ('a \<Rightarrow> 'b result) \<Rightarrow> 'b result" where
  "bindr (Inl e) f = Inl e"
| "bindr (Inr x) f = f x"

text \<open>\<^verbatim>\<open>std::transform\<close> with a function that may throw: the first exception ends the traversal.\<close>

fun transform :: "('a \<Rightarrow> 'b result) \<Rightarrow> 'a list \<Rightarrow> 'b list result" where
  "transform f [] = Inr []"
| "transform f (x # xs) = bindr (f x) (\<lambda>y. bindr (transform f xs) (\<lambda>ys. Inr (y # ys)))"

lemma bindr_assoc [result_simps]: "bindr (bindr r f) g = bindr r (\<lambda>x. bindr (f x) g)"
  by (cases r) simp_all

lemma bindr_eq_Inr [simp]: "bindr r f = Inr y \<longleftrightarrow> (\<exists>x. r = Inr x \<and> f x = Inr y)"
  by (cases r) simp_all

lemma bindr_eq_Inl [simp]: "bindr r f = Inl e \<longleftrightarrow> r = Inl e \<or> (\<exists>x. r = Inr x \<and> f x = Inl e)"
  by (cases r) simp_all

lemma bindr_cong [fundef_cong]:
  "r = r' \<Longrightarrow> (\<And>x. r' = Inr x \<Longrightarrow> f x = g x) \<Longrightarrow> bindr r f = bindr r' g"
  by (cases r') simp_all

lemma transform_all_ok:
  assumes "\<And>x. x \<in> set xs \<Longrightarrow> f x = Inr (g x)"
  shows "transform f xs = Inr (map g xs)"
  using assms by (induction xs) simp_all

lemma transform_map: "transform f (map h xs) = transform (\<lambda>x. f (h x)) xs"
  by (induction xs) simp_all

lemma transform_Inr_iff:
  "transform f xs = Inr ys \<longleftrightarrow> list_all2 (\<lambda>x y. f x = Inr y) xs ys"
proof (induction xs arbitrary: ys)
  case Nil
  then show ?case by auto
next
  case (Cons x xs)
  then show ?case by (cases ys) auto
qed

lemma transform_Inr_length: "transform f xs = Inr ys \<Longrightarrow> length ys = length xs"
  by (auto simp: transform_Inr_iff dest: list_all2_lengthD)

lemma transform_Inl: "transform f xs = Inl e \<Longrightarrow> \<exists>x \<in> set xs. f x = Inl e"
  by (induction xs) auto

lemma transform_throws:
  assumes "x \<in> set xs" and "f x = Inl e"
  shows "\<exists>e'. transform f xs = Inl e'"
  using assms by (induction xs) (auto, metis bindr.simps sum.exhaust)

text \<open>A sequence of calls on a state, the first exception ends it.\<close>

fun fold_result :: "('d \<Rightarrow> 's \<Rightarrow> 's result) \<Rightarrow> 'd list \<Rightarrow> 's \<Rightarrow> 's result" where
  "fold_result f [] s = Inr s"
| "fold_result f (d # ds) s = bindr (f d s) (fold_result f ds)"

section \<open>Effects\<close>

text \<open>An operation that keeps the changes made before an exception returns the new state together with
  the exception that ended it, if any.\<close>

type_synonym 's outcome = "'s \<times> exn option"

fun and_then :: "'s outcome \<Rightarrow> ('s \<Rightarrow> 's outcome) \<Rightarrow> 's outcome" where
  "and_then (s, None) f = f s"
| "and_then (s, Some e) f = (s, Some e)"

fun fold_outcome :: "('d \<Rightarrow> 's \<Rightarrow> 's outcome) \<Rightarrow> 'd list \<Rightarrow> 's \<Rightarrow> 's outcome" where
  "fold_outcome f [] s = (s, None)"
| "fold_outcome f (d # ds) s = and_then (f d s) (fold_outcome f ds)"

text \<open>A call on a component of the state, which the exception leaves as it was.\<close>

definition update_by :: "('c \<Rightarrow> 's \<Rightarrow> 's) \<Rightarrow> 'c result \<Rightarrow> 's \<Rightarrow> 's outcome" where
  "update_by put r s = (case r of Inl e \<Rightarrow> (s, Some e) | Inr c \<Rightarrow> (put c s, None))"

lemma update_by_simps [simp]:
  "update_by put (Inl e) s = (s, Some e)"
  "update_by put (Inr c) s = (put c s, None)"
  by (simp_all add: update_by_def)

lemma and_then_assoc: "and_then (and_then r f) g = and_then r (\<lambda>s. and_then (f s) g)"
  by (cases "(r, f)" rule: and_then.cases) auto

lemma and_then_keeps:
  assumes "I (fst r)" and "\<And>s. I s \<Longrightarrow> I (fst (f s))"
  shows "I (fst (and_then r f))"
  using assms by (cases r; cases "snd r") auto

lemma update_by_keeps:
  "I s \<Longrightarrow> (\<And>c. r = Inr c \<Longrightarrow> I (put c s)) \<Longrightarrow> I (fst (update_by put r s))"
  by (cases r) simp_all

section \<open>Decimal text\<close>

definition digit_char :: "nat \<Rightarrow> char" where
  "digit_char d = char_of (48 + d)"

fun show_nat :: "nat \<Rightarrow> string" where
  "show_nat n = (if n < 10 then [digit_char n] else show_nat (n div 10) @ [digit_char (n mod 10)])"

declare show_nat.simps [simp del]

definition show_word :: "'w::len word \<Rightarrow> string" where
  "show_word w = show_nat (unat w)"

definition show_int :: "int \<Rightarrow> string" where
  "show_int i = (if i < 0 then ''-'' @ show_nat (nat (- i)) else show_nat (nat i))"

text \<open>Text in single quotes, as the messages of the code print identifiers.\<close>

definition quoted :: "string \<Rightarrow> string" where
  "quoted s = CHR 0x27 # s @ [CHR 0x27]"

section \<open>Lists\<close>

definition swap_at :: "'a list \<Rightarrow> nat \<Rightarrow> nat \<Rightarrow> 'a list" where
  "swap_at xs i j = xs[i := xs ! j, j := xs ! i]"

lemma length_swap_at [simp]: "length (swap_at xs i j) = length xs"
  by (simp add: swap_at_def)

lemma swap_at_adjacent:
  "swap_at (ys @ x # y # zs) (length ys) (Suc (length ys)) = ys @ y # x # zs"
  by (simp add: swap_at_def nth_append list_update_append)

text \<open>An index splits a list.\<close>

lemma nth_split: "i < length xs \<Longrightarrow> xs = take i xs @ xs ! i # drop (Suc i) xs"
  by (simp add: id_take_nth_drop)

lemma takeWhile_length_le: "length (takeWhile P xs) \<le> length xs"
  by (simp add: length_takeWhile_le)

lemma takeWhile_filter_partition:
  assumes "sorted_wrt (\<lambda>x y. P y \<longrightarrow> P x) xs"
  shows "takeWhile P xs = filter P xs" and "dropWhile P xs = filter (\<lambda>x. \<not> P x) xs"
  using assms by (induction xs) (auto simp: filter_empty_conv filter_id_conv)

lemma map_filter_cong:
  assumes "\<And>x. x \<in> set xs \<Longrightarrow> f x = g x \<and> (P x \<longleftrightarrow> Q x)"
  shows "map f (filter P xs) = map g (filter Q xs)"
  using assms by (induction xs) auto

end
