(* ===== verification/Ranking_Order.thy ===== *)
theory Ranking_Order
  imports Prelude
begin

text \<open>
  The contract the rating table puts on its comparator (the template argument \<^verbatim>\<open>Comp\<close> of
  \<^verbatim>\<open>MultiKeyVolatileContainer\<close>): on the values that may be ranked it is a strict weak order. Inside
  the locale: what a binary search and a shift do on a sequence that this order sorts. The locale
  is interpreted on \<^verbatim>\<open>std::greater<float>\<close> in theory \<open>Float32\<close>.
\<close>

section \<open>Searching and shifting, on any sequence\<close>

text \<open>
  \<^verbatim>\<open>std::lower_bound\<close>: the binary search that halves \<open>len\<close>, as the standard library's
  implementation does it; \<open>before i\<close> compares the element at position \<open>i\<close> with the searched value.
\<close>

function lower_bound_loop :: "(nat \<Rightarrow> bool) \<Rightarrow> nat \<Rightarrow> nat \<Rightarrow> nat" where
  "lower_bound_loop before first len =
     (if len = 0 then first
      else if before (first + len div 2)
      then lower_bound_loop before (first + len div 2 + 1) (len - len div 2 - 1)
      else lower_bound_loop before first (len div 2))"
  by pat_completeness auto
termination
  by (relation "measure (\<lambda>(before, first, len). len)") auto

declare lower_bound_loop.simps [simp del]

definition lower_bound :: "('a \<Rightarrow> bool) \<Rightarrow> 'a list \<Rightarrow> nat" where
  "lower_bound before xs = lower_bound_loop (\<lambda>i. before (xs ! i)) 0 (length xs)"

lemma lower_bound_loop_range:
  "first \<le> lower_bound_loop before first len \<and> lower_bound_loop before first len \<le> first + len"
proof (induction before first len rule: lower_bound_loop.induct)
  case (1 before first len)
  show ?case
  proof (cases "len = 0")
    case True
    then show ?thesis by (simp add: lower_bound_loop.simps)
  next
    case False
    with 1 show ?thesis
      by (auto simp: lower_bound_loop.simps [of before first len])
  qed
qed

lemma lower_bound_le: "lower_bound before xs \<le> length xs"
  using lower_bound_loop_range [of 0 "\<lambda>i. before (xs ! i)" "length xs"] by (simp add: lower_bound_def)

lemma lower_bound_loop_partition:
  assumes "\<And>i j. i < j \<Longrightarrow> j < first + len \<Longrightarrow> before j \<Longrightarrow> before i"
  shows "(\<forall>i. first \<le> i \<and> i < lower_bound_loop before first len \<longrightarrow> before i) \<and>
         (\<forall>i. lower_bound_loop before first len \<le> i \<and> i < first + len \<longrightarrow> \<not> before i)"
  using assms
proof (induction before first len rule: lower_bound_loop.induct)
  case (1 before first len)
  let ?mid = "first + len div 2"
  show ?case
  proof (cases "len = 0")
    case True
    then show ?thesis by (auto simp: lower_bound_loop.simps)
  next
    case pos: False
    then have mid: "?mid < first + len" by simp
    show ?thesis
    proof (cases "before ?mid")
      case True
      have sum: "?mid + 1 + (len - len div 2 - 1) = first + len" using pos by simp
      have IH: "(\<forall>i. ?mid + 1 \<le> i \<and> i < lower_bound_loop before (?mid + 1) (len - len div 2 - 1) \<longrightarrow> before i) \<and>
        (\<forall>i. lower_bound_loop before (?mid + 1) (len - len div 2 - 1) \<le> i \<and> i < first + len \<longrightarrow> \<not> before i)"
        using "1.IH"(1) [OF pos True] "1.prems" unfolding sum by blast
      have left: "before i" if "i \<le> ?mid" for i
        using that True "1.prems" [of i ?mid] mid by (cases "i = ?mid") auto
      from pos True have eq: "lower_bound_loop before first len =
          lower_bound_loop before (?mid + 1) (len - len div 2 - 1)"
        by (simp add: lower_bound_loop.simps [of before first len])
      show ?thesis unfolding eq using IH left by (metis Suc_eq_plus1 not_less_eq_eq)
    next
      case False
      have right: "\<not> before i" if "?mid \<le> i" "i < first + len" for i
        using that False "1.prems" [of ?mid i] by (cases "i = ?mid") auto
      have IH: "(\<forall>i. first \<le> i \<and> i < lower_bound_loop before first (len div 2) \<longrightarrow> before i) \<and>
        (\<forall>i. lower_bound_loop before first (len div 2) \<le> i \<and> i < ?mid \<longrightarrow> \<not> before i)"
        using "1.IH"(2) [OF pos False] "1.prems" mid by (meson less_trans)
      from pos False have eq: "lower_bound_loop before first len = lower_bound_loop before first (len div 2)"
        by (simp add: lower_bound_loop.simps [of before first len])
      show ?thesis unfolding eq using IH right by (meson not_le)
    qed
  qed
qed

text \<open>On a partitioned sequence the result is the length of the leading part.\<close>

lemma lower_bound_takeWhile:
  assumes "sorted_wrt (\<lambda>x y. before y \<longrightarrow> before x) xs"
  shows "lower_bound before xs = length (takeWhile before xs)"
proof -
  let ?n = "lower_bound before xs"
  have "before (xs ! i)" if "i < j" "j < 0 + length xs" "before (xs ! j)" for i j
    using assms that by (auto simp: sorted_wrt_iff_nth_less)
  then have part: "(\<forall>i. 0 \<le> i \<and> i < ?n \<longrightarrow> before (xs ! i)) \<and>
      (\<forall>i. ?n \<le> i \<and> i < 0 + length xs \<longrightarrow> \<not> before (xs ! i))"
    unfolding lower_bound_def by (rule lower_bound_loop_partition)
  have "takeWhile before xs = take ?n xs"
  proof (rule takeWhile_eq_take_P_nth)
    show "before (xs ! i)" if "i < ?n" "i < length xs" for i
      using part that by auto
    show "\<not> before (xs ! ?n)" if "?n < length xs"
      using part that by auto
  qed
  then show ?thesis using lower_bound_le [of before xs] by simp
qed

text \<open>
  The two shift loops of the update: exchange with the left neighbour until it is \<open>greater\<close> than
  the moved element, or with the right neighbour as long as it is.
\<close>

fun move_left :: "('a \<Rightarrow> 'a \<Rightarrow> bool) \<Rightarrow> 'a list \<Rightarrow> nat \<Rightarrow> 'a list" where
  "move_left gr xs 0 = xs"
| "move_left gr xs (Suc i) =
     (if gr (xs ! i) (xs ! Suc i) then xs else move_left gr (swap_at xs i (Suc i)) i)"

function move_right :: "('a \<Rightarrow> 'a \<Rightarrow> bool) \<Rightarrow> 'a list \<Rightarrow> nat \<Rightarrow> 'a list" where
  "move_right gr xs i =
     (if Suc i < length xs
      then (if gr (xs ! Suc i) (xs ! i)
            then move_right gr (swap_at xs (Suc i) i) (Suc i) else xs)
      else xs)"
  by pat_completeness auto
termination
  by (relation "measure (\<lambda>(gr, xs, i). length xs - i)") auto

declare move_right.simps [simp del]

lemma move_left_split:
  "move_left gr (ys @ p # zs) (length ys) =
     rev (dropWhile (\<lambda>q. \<not> gr q p) (rev ys)) @ p # rev (takeWhile (\<lambda>q. \<not> gr q p) (rev ys)) @ zs"
proof (induction ys arbitrary: zs rule: rev_induct)
  case Nil
  then show ?case by simp
next
  case (snoc y ys)
  then show ?case
    using swap_at_adjacent [of ys y p zs] by (simp add: nth_append)
qed

lemma move_right_split:
  "move_right gr (ys @ p # zs) (length ys) =
     ys @ takeWhile (\<lambda>q. gr q p) zs @ p # dropWhile (\<lambda>q. gr q p) zs"
proof (induction zs arbitrary: ys)
  case Nil
  then show ?case by (simp add: move_right.simps)
next
  case (Cons z zs)
  have swap: "swap_at (ys @ p # z # zs) (Suc (length ys)) (length ys) = (ys @ [z]) @ p # zs"
    by (simp add: swap_at_def nth_append list_update_append)
  show ?case
    using Cons [of "ys @ [z]"]
    by (simp add: move_right.simps [of gr "ys @ p # z # zs"] nth_append swap)
qed

section \<open>The contract of the comparator\<close>

locale ranking_order =
  fixes ok :: "'s \<Rightarrow> bool"
    and gt :: "'s \<Rightarrow> 's \<Rightarrow> bool"
  assumes gt_irrefl: "ok x \<Longrightarrow> \<not> gt x x"
    and gt_trans: "ok x \<Longrightarrow> ok y \<Longrightarrow> ok z \<Longrightarrow> gt x y \<Longrightarrow> gt y z \<Longrightarrow> gt x z"
    and neg_trans: "ok x \<Longrightarrow> ok y \<Longrightarrow> ok z \<Longrightarrow> gt x z \<Longrightarrow> gt x y \<or> gt y z"
begin

lemma gt_asym: "ok x \<Longrightarrow> ok y \<Longrightarrow> gt x y \<Longrightarrow> \<not> gt y x"
  using gt_irrefl gt_trans by blast

text \<open>A sequence is ranked by \<open>f\<close> when no element has a greater one behind it.\<close>

definition ranked :: "('a \<Rightarrow> 's) \<Rightarrow> 'a list \<Rightarrow> bool" where
  "ranked f xs \<longleftrightarrow> (\<forall>x \<in> set xs. ok (f x)) \<and> sorted_wrt (\<lambda>x y. \<not> gt (f y) (f x)) xs"

lemma ranked_partition:
  assumes "ranked f xs" and "ok v"
  shows "sorted_wrt (\<lambda>x y. gt (f y) v \<longrightarrow> gt (f x) v) xs"
  using assms unfolding ranked_def
  by (auto intro: sorted_wrt_mono_rel [rotated] dest: neg_trans [of "f y" for y, rotated 3])

lemma ranked_append:
  "ranked f (xs @ ys) \<longleftrightarrow> ranked f xs \<and> ranked f ys \<and> (\<forall>x \<in> set xs. \<forall>y \<in> set ys. \<not> gt (f y) (f x))"
  by (auto simp: ranked_def sorted_wrt_append)

lemma ranked_filter: "ranked f xs \<Longrightarrow> ranked f (filter P xs)"
  by (auto simp: ranked_def sorted_wrt_filter)

text \<open>Where a value belongs: behind the greater ones, before all the others.\<close>

definition place :: "('a \<Rightarrow> 's) \<Rightarrow> 'a \<Rightarrow> 'a list \<Rightarrow> 'a list" where
  "place f x xs = filter (\<lambda>y. gt (f y) (f x)) xs @ x # filter (\<lambda>y. \<not> gt (f y) (f x)) xs"

lemma place_ranked:
  assumes "ranked f xs" and "ok (f x)"
  shows "ranked f (place f x xs)"
proof -
  have "\<not> gt (f z) (f y)" if "y \<in> set xs" "z \<in> set xs" "gt (f y) (f x)" "\<not> gt (f z) (f x)" for y z
    using assms that gt_trans [of "f z" "f y" "f x"] by (auto simp: ranked_def)
  then show ?thesis
    using assms gt_asym
    by (auto simp: place_def ranked_def sorted_wrt_append sorted_wrt_filter)
qed

lemma place_take_drop:
  assumes "ranked f xs" and "ok (f x)"
  shows "take (lower_bound (\<lambda>y. gt (f y) (f x)) xs) xs @ x # drop (lower_bound (\<lambda>y. gt (f y) (f x)) xs) xs
    = place f x xs"
proof -
  let ?P = "\<lambda>y. gt (f y) (f x)"
  note part = ranked_partition [OF assms]
  have "take (length (takeWhile ?P xs)) xs = filter ?P xs"
    and "drop (length (takeWhile ?P xs)) xs = filter (\<lambda>y. \<not> ?P y) xs"
    using takeWhile_filter_partition [OF part] takeWhile_eq_take [of ?P xs] dropWhile_eq_drop [of ?P xs]
    by simp_all
  then show ?thesis
    by (simp add: lower_bound_takeWhile [OF part] place_def)
qed

lemma rev_scan:
  assumes "sorted_wrt (\<lambda>x y. P y \<longrightarrow> P x) xs"
  shows "rev (dropWhile (\<lambda>x. \<not> P x) (rev xs)) = filter P xs"
    and "rev (takeWhile (\<lambda>x. \<not> P x) (rev xs)) = filter (\<lambda>x. \<not> P x) xs"
proof -
  have "sorted_wrt (\<lambda>x y. \<not> P y \<longrightarrow> \<not> P x) (rev xs)"
    using assms by (simp add: sorted_wrt_rev, elim sorted_wrt_mono_rel [rotated]) blast
  from takeWhile_filter_partition [OF this]
  show "rev (dropWhile (\<lambda>x. \<not> P x) (rev xs)) = filter P xs"
    and "rev (takeWhile (\<lambda>x. \<not> P x) (rev xs)) = filter (\<lambda>x. \<not> P x) xs"
    by (simp_all add: rev_filter)
qed

end

end
