(* ===== verification/Float32.thy ===== *)
theory Float32
  imports Ranking_Order
begin

text \<open>
  The C++ type \<^verbatim>\<open>float\<close> (IEEE 754 binary32), as far as the rating table uses it: the comparison
  \<^verbatim>\<open>std::greater<float>\<close>, the addition \<^verbatim>\<open>std::plus<float>\<close> and equality. A value is its 32-bit
  pattern. Every finite value is an integer multiple of \<open>2 ^ -149\<close>; \<open>f32_scaled\<close> is that integer,
  and addition adds the integers and rounds to the nearest pattern, ties to even.
\<close>

type_synonym f32 = "32 word"

section \<open>Reading a pattern\<close>

definition f32_inf_bits :: nat where
  "f32_inf_bits = 255 * 2 ^ 23"

definition f32_mag :: "f32 \<Rightarrow> nat" where
  "f32_mag x = unat x mod 2 ^ 31"

definition f32_neg :: "f32 \<Rightarrow> bool" where
  "f32_neg x \<longleftrightarrow> 2 ^ 31 \<le> unat x"

definition f32_is_nan :: "f32 \<Rightarrow> bool" where
  "f32_is_nan x \<longleftrightarrow> f32_inf_bits < f32_mag x"

definition f32_is_inf :: "f32 \<Rightarrow> bool" where
  "f32_is_inf x \<longleftrightarrow> f32_mag x = f32_inf_bits"

definition f32_finite :: "f32 \<Rightarrow> bool" where
  "f32_finite x \<longleftrightarrow> f32_mag x < f32_inf_bits"

text \<open>The magnitude of the pattern \<open>n\<close> in units of \<open>2 ^ -149\<close>; infinity reads as \<open>2 ^ 277\<close>.\<close>

definition scaled_mag :: "nat \<Rightarrow> nat" where
  "scaled_mag n =
     (let e = n div 2 ^ 23; m = n mod 2 ^ 23
      in if e = 0 then m else (2 ^ 23 + m) * 2 ^ (e - 1))"

definition f32_scaled :: "f32 \<Rightarrow> int" where
  "f32_scaled x = (if f32_neg x then - int (scaled_mag (f32_mag x)) else int (scaled_mag (f32_mag x)))"

section \<open>Rounding and arithmetic\<close>

fun bit_len :: "nat \<Rightarrow> nat" where
  "bit_len n = (if n = 0 then 0 else Suc (bit_len (n div 2)))"

declare bit_len.simps [simp del]

text \<open>The pattern of the magnitude nearest to \<open>k\<close> units, ties to even, infinity on overflow.\<close>

definition round_mag :: "nat \<Rightarrow> nat" where
  "round_mag k =
     (if k < 2 ^ 24 then k
      else let sh = bit_len k - 24; q = k div 2 ^ sh; r = k mod 2 ^ sh; h = 2 ^ (sh - 1);
               q' = (if h < r \<or> (r = h \<and> odd q) then Suc q else q)
           in min f32_inf_bits (sh * 2 ^ 23 + q'))"

definition f32_of_mag :: "bool \<Rightarrow> nat \<Rightarrow> f32" where
  "f32_of_mag s n = of_nat (n + (if s then 2 ^ 31 else 0))"

definition f32_nan :: f32 where
  "f32_nan = 0x7FC00000"

text \<open>\<^verbatim>\<open>std::plus<float>\<close>.\<close>

definition f32_add :: "f32 \<Rightarrow> f32 \<Rightarrow> f32" where
  "f32_add x y =
     (if f32_is_nan x then x
      else if f32_is_nan y then y
      else if f32_is_inf x then (if f32_is_inf y \<and> f32_neg x \<noteq> f32_neg y then f32_nan else x)
      else if f32_is_inf y then y
      else let s = f32_scaled x + f32_scaled y
           in if s = 0 then f32_of_mag (f32_neg x \<and> f32_neg y) 0
              else f32_of_mag (s < 0) (round_mag (nat \<bar>s\<bar>)))"

text \<open>\<^verbatim>\<open>std::greater<float>\<close>: false as soon as one side is not a number.\<close>

definition f32_greater :: "f32 \<Rightarrow> f32 \<Rightarrow> bool" where
  "f32_greater x y \<longleftrightarrow> \<not> f32_is_nan x \<and> \<not> f32_is_nan y \<and> f32_scaled y < f32_scaled x"

definition f32_eq :: "f32 \<Rightarrow> f32 \<Rightarrow> bool" where
  "f32_eq x y \<longleftrightarrow> \<not> f32_is_nan x \<and> \<not> f32_is_nan y \<and> f32_scaled x = f32_scaled y"

text \<open>A value that \<^verbatim>\<open>amount >= 0\<close> accepts, with the sign bit clear: what a won deal carries.\<close>

definition f32_nonneg :: "f32 \<Rightarrow> bool" where
  "f32_nonneg x \<longleftrightarrow> \<not> f32_neg x \<and> \<not> f32_is_nan x"

lemmas f32_defs [component_defs] =
  f32_inf_bits_def f32_mag_def f32_neg_def f32_is_nan_def f32_is_inf_def f32_finite_def
  scaled_mag_def f32_scaled_def round_mag_def f32_of_mag_def f32_nan_def f32_add_def
  f32_greater_def f32_eq_def f32_nonneg_def

section \<open>Rounding is monotone and exact on patterns\<close>

lemma bit_len_bounds: "0 < n \<Longrightarrow> 2 ^ (bit_len n - 1) \<le> n \<and> n < 2 ^ bit_len n"
proof (induction n rule: bit_len.induct)
  case (1 n)
  show ?case
  proof (cases "n = 1")
    case True
    then show ?thesis by (simp add: bit_len.simps)
  next
    case False
    with "1.prems" have pos: "0 < n div 2" by simp
    with "1.IH" "1.prems" have "2 ^ (bit_len (n div 2) - 1) \<le> n div 2" "n div 2 < 2 ^ bit_len (n div 2)"
      by auto
    moreover have "0 < bit_len (n div 2)" using pos by (simp add: bit_len.simps [of "n div 2"])
    ultimately show ?thesis
      using "1.prems"
      by (cases "bit_len (n div 2)") (auto simp: bit_len.simps [of n])
  qed
qed

lemma bit_len_shift:
  assumes "2 ^ 24 \<le> k" and "sh = bit_len k - 24"
  shows "0 < sh" and "2 ^ 23 \<le> k div 2 ^ sh" and "k div 2 ^ sh < 2 ^ 24"
    and "2 ^ 23 * 2 ^ sh \<le> k" and "k < 2 ^ 24 * 2 ^ sh"
proof -
  from assms(1) have "0 < k" by simp
  with bit_len_bounds have b: "2 ^ (bit_len k - 1) \<le> k" "k < 2 ^ bit_len k" by auto
  have "24 < bit_len k"
  proof (rule ccontr)
    assume "\<not> 24 < bit_len k"
    then have "(2::nat) ^ bit_len k \<le> 2 ^ 24" by (intro power_increasing) auto
    with b(2) assms(1) show False by simp
  qed
  then obtain j where j: "bit_len k = j + 25"
    by (metis add.commute less_iff_Suc_add add_Suc_right numeral_eq_Suc pred_numeral_simps(3) semiring_norm(26-28) BitM.simps)
  with assms(2) have sh: "sh = Suc j" by simp
  show lo: "2 ^ 23 * 2 ^ sh \<le> k" and hi: "k < 2 ^ 24 * 2 ^ sh"
    using b by (simp_all add: j sh power_add)
  show "0 < sh" by (simp add: sh)
  show "2 ^ 23 \<le> k div 2 ^ sh" using lo by (simp add: less_eq_div_iff_mult_less_eq)
  show "k div 2 ^ sh < 2 ^ 24" using hi by (simp add: div_less_iff_less_mult)
qed

lemma round_mag_le_inf: "round_mag k \<le> f32_inf_bits"
  by (auto simp: round_mag_def Let_def f32_inf_bits_def)

lemma round_mag_lower:
  assumes "2 ^ 24 \<le> k" and "sh = bit_len k - 24"
  shows "min f32_inf_bits (sh * 2 ^ 23 + k div 2 ^ sh) \<le> round_mag k"
  using assms by (auto simp: round_mag_def Let_def)

text \<open>A pattern that is not above \<open>k\<close> is not above the rounded pattern of \<open>k\<close>.\<close>

lemma round_mag_ge:
  assumes "scaled_mag n \<le> k" and "n \<le> f32_inf_bits"
  shows "n \<le> round_mag k"
proof -
  define e m where "e = n div 2 ^ 23" and "m = n mod 2 ^ 23"
  have n: "n = e * 2 ^ 23 + m" and m: "m < 2 ^ 23"
    by (simp_all add: e_def m_def)
  have sm: "scaled_mag n = (if e = 0 then m else (2 ^ 23 + m) * 2 ^ (e - 1))"
    by (simp only: scaled_mag_def Let_def e_def m_def)
  show ?thesis
  proof (cases "k < 2 ^ 24")
    case small: True
    have "n = scaled_mag n" if "e \<le> 1"
      using that n sm by (cases e) auto
    moreover have "e \<le> 1"
    proof (rule ccontr)
      assume "\<not> e \<le> 1"
      then have "(2::nat) ^ 1 \<le> 2 ^ (e - 1)" by (intro power_increasing) auto
      then have "2 ^ 23 * 2 ^ 1 \<le> (2 ^ 23 + m) * 2 ^ (e - 1)" by (intro mult_le_mono) auto
      moreover have "scaled_mag n = (2 ^ 23 + m) * 2 ^ (e - 1)"
        using \<open>\<not> e \<le> 1\<close> sm by simp
      ultimately show False using small assms(1) by simp
    qed
    ultimately show ?thesis using small assms(1) by (simp add: round_mag_def)
  next
    case large: False
    define sh where "sh = bit_len k - 24"
    note bl = bit_len_shift [OF _ sh_def, simplified linorder_not_less [symmetric], OF large]
    have key: "n \<le> sh * 2 ^ 23 + k div 2 ^ sh"
    proof (cases "e - 1 < sh")
      case True
      then have "e \<le> sh" by simp
      then have "n \<le> sh * 2 ^ 23 + m" unfolding n by (intro add_mono mult_le_mono) auto
      with m bl(2) show ?thesis by simp
    next
      case False
      with bl(1) have e: "0 < e" by simp
      then have sc: "(2 ^ 23 + m) * 2 ^ (e - 1) \<le> k"
        using assms(1) sm by simp
      show ?thesis
      proof (cases "e - 1 = sh")
        case True
        with sc have "2 ^ 23 + m \<le> k div 2 ^ sh" by (simp add: less_eq_div_iff_mult_less_eq)
        moreover have "n = sh * 2 ^ 23 + (2 ^ 23 + m)"
          using True e unfolding n by (cases e) auto
        ultimately show ?thesis by simp
      next
        case False
        with \<open>\<not> e - 1 < sh\<close> have "Suc sh \<le> e - 1" by simp
        then have "(2::nat) ^ Suc sh \<le> 2 ^ (e - 1)" by (intro power_increasing) auto
        then have "2 ^ 23 * 2 ^ Suc sh \<le> (2 ^ 23 + m) * 2 ^ (e - 1)" by (intro mult_le_mono) auto
        with sc bl(5) show ?thesis by simp
      qed
    qed
    have "n \<le> min f32_inf_bits (sh * 2 ^ 23 + k div 2 ^ sh)" using key assms(2) by simp
    also have "\<dots> \<le> round_mag k" using large by (intro round_mag_lower [OF _ sh_def]) simp
    finally show ?thesis .
  qed
qed

text \<open>Larger patterns have larger magnitudes.\<close>

lemma scaled_mag_mono: "a \<le> b \<Longrightarrow> scaled_mag a \<le> scaled_mag b"
proof -
  assume ab: "a \<le> b"
  define e m where "e = a div 2 ^ 23" and "m = a mod 2 ^ 23"
  define f l where "f = b div 2 ^ 23" and "l = b mod 2 ^ 23"
  have a: "a = e * 2 ^ 23 + m" "m < 2 ^ 23" and b: "b = f * 2 ^ 23 + l" "l < 2 ^ 23"
    by (simp_all add: e_def m_def f_def l_def)
  have sa: "scaled_mag a = (if e = 0 then m else (2 ^ 23 + m) * 2 ^ (e - 1))"
    by (simp only: scaled_mag_def Let_def e_def m_def)
  have sb: "scaled_mag b = (if f = 0 then l else (2 ^ 23 + l) * 2 ^ (f - 1))"
    by (simp only: scaled_mag_def Let_def f_def l_def)
  have "e \<le> f" using ab by (simp add: e_def f_def div_le_mono)
  show ?thesis
  proof (cases "e = f")
    case True
    with ab a b have "m \<le> l" by simp
    with True sa sb show ?thesis by simp
  next
    case False
    with \<open>e \<le> f\<close> have lt: "e < f" by simp
    have "scaled_mag a \<le> 2 ^ 23 * 2 ^ e"
      using a(2) by (cases e) (auto simp: sa)
    also have "\<dots> \<le> 2 ^ 23 * 2 ^ (f - 1)"
      using lt by (intro mult_le_mono2 power_increasing) auto
    also have "\<dots> \<le> scaled_mag b" using lt by (simp add: sb)
    finally show ?thesis .
  qed
qed

section \<open>Facts about the operations\<close>

lemma f32_mag_less: "f32_mag x < 2 ^ 31"
  by (simp add: f32_mag_def)

lemma f32_bits_of_mag:
  assumes "n < 2 ^ 31"
  shows "f32_mag (f32_of_mag s n) = n" and "f32_neg (f32_of_mag s n) \<longleftrightarrow> s"
proof -
  have "unat (f32_of_mag s n) = n + (if s then 2 ^ 31 else 0)"
    using assms unfolding f32_of_mag_def by (subst unat_of_nat) auto
  then show "f32_mag (f32_of_mag s n) = n" and "f32_neg (f32_of_mag s n) \<longleftrightarrow> s"
    using assms by (auto simp: f32_mag_def f32_neg_def)
qed

lemma f32_inf_bits_less: "f32_inf_bits < 2 ^ 31"
  by (simp add: f32_inf_bits_def)

lemma round_mag_less: "round_mag k < 2147483648"
  using round_mag_le_inf [of k] by (simp add: f32_inf_bits_def)

text \<open>Adding two non-negative values gives a non-negative value not below either of them.\<close>

lemma f32_add_nonneg_cases:
  assumes "f32_nonneg x" and "f32_nonneg y"
  shows "f32_nonneg (f32_add x y)" and "f32_scaled x \<le> f32_scaled (f32_add x y)"
proof -
  let ?s = "scaled_mag (f32_mag x) + scaled_mag (f32_mag y)"
  have nat_s: "nat (int (scaled_mag (f32_mag x)) + int (scaled_mag (f32_mag y))) = ?s" by simp
  from assms have nn: "\<not> f32_is_nan x" "\<not> f32_is_nan y" "\<not> f32_neg x" "\<not> f32_neg y"
    by (auto simp: f32_nonneg_def)
  have le_inf: "f32_mag x \<le> f32_inf_bits" "f32_mag y \<le> f32_inf_bits"
    using nn by (auto simp: f32_is_nan_def)
  have "f32_nonneg (f32_add x y) \<and> f32_scaled x \<le> f32_scaled (f32_add x y)"
  proof (cases "f32_is_inf x")
    case True
    with nn assms show ?thesis by (simp add: f32_add_def)
  next
    case x: False
    show ?thesis
    proof (cases "f32_is_inf y")
      case True
      with nn x assms le_inf show ?thesis
        by (simp add: f32_add_def f32_scaled_def f32_is_inf_def scaled_mag_mono)
    next
      case y: False
      have sum: "f32_scaled x + f32_scaled y = int ?s"
        using nn by (simp add: f32_scaled_def)
      have "f32_mag x \<le> round_mag ?s" by (rule round_mag_ge) (use le_inf in auto)
      with nn x y sum show ?thesis
        by (auto simp: f32_add_def Let_def f32_nonneg_def f32_is_nan_def f32_scaled_def
            nat_s f32_bits_of_mag round_mag_less round_mag_le_inf linorder_not_less scaled_mag_mono)
    qed
  qed
  then show "f32_nonneg (f32_add x y)" and "f32_scaled x \<le> f32_scaled (f32_add x y)" by auto
qed

lemma f32_add_nonneg: "f32_nonneg x \<Longrightarrow> f32_nonneg y \<Longrightarrow> f32_nonneg (f32_add x y)"
  by (rule f32_add_nonneg_cases)

lemma f32_add_not_less: "f32_nonneg x \<Longrightarrow> f32_nonneg y \<Longrightarrow> \<not> f32_greater x (f32_add x y)"
  using f32_add_nonneg_cases(2) [of x y] by (auto simp: f32_greater_def)

lemma f32_nonneg_not_nan: "f32_nonneg x \<Longrightarrow> \<not> f32_is_nan x"
  by (simp add: f32_nonneg_def)

lemma f32_nonneg_zero: "f32_nonneg 0"
  by (simp add: f32_defs)

lemma f32_finite_not_nan: "f32_finite x \<Longrightarrow> \<not> f32_is_nan x"
  by (simp add: f32_finite_def f32_is_nan_def)

section \<open>The comparator contract\<close>

text \<open>
  \<^verbatim>\<open>std::greater<float>\<close> is a strict weak order on everything but NaN. The second interpretation is
  the same order on the non-negative values, the domain that won deals never leave.
\<close>

interpretation f32_order: ranking_order "\<lambda>x. \<not> f32_is_nan x" f32_greater
  by unfold_locales (auto simp: f32_greater_def)

interpretation f32_won: ranking_order f32_nonneg f32_greater
  by unfold_locales (auto simp: f32_greater_def f32_nonneg_def)

end
