(* ===== verification/Core_Types.thy ===== *)
theory Core_Types
  imports Float32
begin

text \<open>
  The data of \<^verbatim>\<open>core/Types.hpp\<close> and \<^verbatim>\<open>core/Model.hpp\<close>: the structures the service exchanges, their
  equality operators, the message types and the messages themselves; and the two exception classes
  that carry text. A message holds a type tag and a payload, and nothing in the class hierarchy ties
  the two together: the casts of the code are partial, and \<open>well_typed\<close> says when they succeed.
\<close>

section \<open>Exception classes\<close>

definition base_exception :: "string \<Rightarrow> exn" where
  "base_exception errorMessage = BaseException (''Base error occurred: '' @ errorMessage)"

definition serializer_exception :: "string \<Rightarrow> exn" where
  "serializer_exception errorMessage =
     SerializerException (''Serializer exception occurred: '' @ errorMessage)"

text \<open>\<^verbatim>\<open>what()\<close>, for the two classes that define it.\<close>

fun what :: "exn \<Rightarrow> string option" where
  "what (BaseException m) = Some m"
| "what (SerializerException m) = Some m"
| "what _ = None"

text \<open>Every exception value is a \<^verbatim>\<open>std::exception\<close>; undefined behaviour is caught by nothing.\<close>

definition is_std_exception :: "exn \<Rightarrow> bool" where
  "is_std_exception e \<longleftrightarrow> e \<noteq> UndefinedBehaviour"

section \<open>Structures\<close>

type_synonym user_identifier = u64

record user_id_information =
  uid_id :: user_identifier

record user_information =
  ui_id :: user_identifier
  ui_name :: string

record deal_information =
  di_userId :: user_identifier
  di_timestamp :: u64
  di_amount :: f32

record user_position =
  up_userInformation :: user_information
  up_position :: u64
  up_amount :: f32

type_synonym user_positions_collection = "user_position list"

record user_relative_rating =
  ur_userPosition :: user_position
  ur_headPositions :: user_positions_collection
  ur_highPositions :: user_positions_collection
  ur_lowPositions :: user_positions_collection

subsection \<open>Equality operators\<close>

definition user_id_information_eq :: "user_id_information \<Rightarrow> user_id_information \<Rightarrow> bool" where
  "user_id_information_eq a b \<longleftrightarrow> uid_id a = uid_id b"

definition user_information_eq :: "user_information \<Rightarrow> user_information \<Rightarrow> bool" where
  "user_information_eq a b \<longleftrightarrow> ui_id a = ui_id b \<and> ui_name a = ui_name b"

definition deal_information_eq :: "deal_information \<Rightarrow> deal_information \<Rightarrow> bool" where
  "deal_information_eq a b \<longleftrightarrow>
     di_userId a = di_userId b \<and> di_timestamp a = di_timestamp b \<and> f32_eq (di_amount a) (di_amount b)"

definition user_position_eq :: "user_position \<Rightarrow> user_position \<Rightarrow> bool" where
  "user_position_eq a b \<longleftrightarrow>
     user_information_eq (up_userInformation a) (up_userInformation b) \<and>
     up_position a = up_position b \<and> f32_eq (up_amount a) (up_amount b)"

definition user_relative_rating_eq :: "user_relative_rating \<Rightarrow> user_relative_rating \<Rightarrow> bool" where
  "user_relative_rating_eq a b \<longleftrightarrow>
     user_position_eq (ur_userPosition a) (ur_userPosition b) \<and>
     list_all2 user_position_eq (ur_headPositions a) (ur_headPositions b) \<and>
     list_all2 user_position_eq (ur_highPositions a) (ur_highPositions b) \<and>
     list_all2 user_position_eq (ur_lowPositions a) (ur_lowPositions b)"

section \<open>Messages\<close>

datatype message_type =
    UserRegistered
  | UserRenamed
  | UserConnected
  | UserDisconnected
  | UserDealWon
  | UserRelativeRating

text \<open>The underlying value of the enumeration, \<^verbatim>\<open>static_cast<std::uint8_t>\<close>.\<close>

fun message_type_value :: "message_type \<Rightarrow> nat" where
  "message_type_value UserRegistered = 0"
| "message_type_value UserRenamed = 1"
| "message_type_value UserConnected = 2"
| "message_type_value UserDisconnected = 3"
| "message_type_value UserDealWon = 4"
| "message_type_value UserRelativeRating = 5"

lemma message_type_value_inj: "message_type_value a = message_type_value b \<Longrightarrow> a = b"
  by (cases a; cases b) simp_all

text \<open>The enumeration is a key of \<^verbatim>\<open>std::map\<close>, ordered by its underlying value.\<close>

instantiation message_type :: linorder
begin

definition less_eq_message_type :: "message_type \<Rightarrow> message_type \<Rightarrow> bool" where
  "less_eq_message_type a b \<longleftrightarrow> message_type_value a \<le> message_type_value b"

definition less_message_type :: "message_type \<Rightarrow> message_type \<Rightarrow> bool" where
  "less_message_type a b \<longleftrightarrow> message_type_value a < message_type_value b"

instance
  by intro_classes
    (auto simp: less_eq_message_type_def less_message_type_def intro: message_type_value_inj)

end

text \<open>The payload of \<^verbatim>\<open>Message<T>\<close>, one constructor per instance of the template.\<close>

datatype payload =
    PUserInformation user_information
  | PUserIdInformation user_id_information
  | PDealInformation deal_information
  | PUserRelativeRating user_relative_rating

record base_message =
  msg_type :: message_type
  msg_data :: payload

text \<open>
  \<^verbatim>\<open>std::dynamic_pointer_cast<Message<T>>(m)->getData()\<close>: the cast gives a null pointer when the
  payload is another one, and dereferencing it is undefined.
\<close>

fun as_user_information :: "base_message \<Rightarrow> user_information result" where
  "as_user_information m = (case msg_data m of PUserInformation d \<Rightarrow> Inr d | _ \<Rightarrow> Inl UndefinedBehaviour)"

fun as_user_id_information :: "base_message \<Rightarrow> user_id_information result" where
  "as_user_id_information m = (case msg_data m of PUserIdInformation d \<Rightarrow> Inr d | _ \<Rightarrow> Inl UndefinedBehaviour)"

fun as_deal_information :: "base_message \<Rightarrow> deal_information result" where
  "as_deal_information m = (case msg_data m of PDealInformation d \<Rightarrow> Inr d | _ \<Rightarrow> Inl UndefinedBehaviour)"

fun as_user_relative_rating :: "base_message \<Rightarrow> user_relative_rating result" where
  "as_user_relative_rating m =
     (case msg_data m of PUserRelativeRating d \<Rightarrow> Inr d | _ \<Rightarrow> Inl UndefinedBehaviour)"

text \<open>The payload is the one the code expects for the tag.\<close>

fun well_typed :: "base_message \<Rightarrow> bool" where
  "well_typed m = (case (msg_type m, msg_data m) of
       (UserRegistered, PUserInformation _) \<Rightarrow> True
     | (UserRenamed, PUserInformation _) \<Rightarrow> True
     | (UserConnected, PUserIdInformation _) \<Rightarrow> True
     | (UserDisconnected, PUserIdInformation _) \<Rightarrow> True
     | (UserDealWon, PDealInformation _) \<Rightarrow> True
     | (UserRelativeRating, PUserRelativeRating _) \<Rightarrow> True
     | _ \<Rightarrow> False)"

fun payload_eq :: "payload \<Rightarrow> payload \<Rightarrow> bool" where
  "payload_eq (PUserInformation a) (PUserInformation b) = user_information_eq a b"
| "payload_eq (PUserIdInformation a) (PUserIdInformation b) = user_id_information_eq a b"
| "payload_eq (PDealInformation a) (PDealInformation b) = deal_information_eq a b"
| "payload_eq (PUserRelativeRating a) (PUserRelativeRating b) = user_relative_rating_eq a b"
| "payload_eq _ _ = False"

definition message_eq :: "base_message \<Rightarrow> base_message \<Rightarrow> bool" where
  "message_eq lhs rhs \<longleftrightarrow> msg_type lhs = msg_type rhs \<and> payload_eq (msg_data lhs) (msg_data rhs)"

lemma well_typed_cases:
  assumes "well_typed m"
  obtains (user) d where "msg_type m \<in> {UserRegistered, UserRenamed}" "msg_data m = PUserInformation d"
    | (userId) d where "msg_type m \<in> {UserConnected, UserDisconnected}" "msg_data m = PUserIdInformation d"
    | (deal) d where "msg_type m = UserDealWon" "msg_data m = PDealInformation d"
    | (rating) d where "msg_type m = UserRelativeRating" "msg_data m = PUserRelativeRating d"
  using assms by (cases "msg_type m"; cases "msg_data m") auto

section \<open>Messages whose numbers are ordinary\<close>

text \<open>All amounts of a message are finite: neither infinite nor not-a-number.\<close>

definition position_finite :: "user_position \<Rightarrow> bool" where
  "position_finite p \<longleftrightarrow> f32_finite (up_amount p)"

definition rating_finite :: "user_relative_rating \<Rightarrow> bool" where
  "rating_finite r \<longleftrightarrow> position_finite (ur_userPosition r) \<and>
     list_all position_finite (ur_headPositions r) \<and>
     list_all position_finite (ur_highPositions r) \<and> list_all position_finite (ur_lowPositions r)"

fun payload_finite :: "payload \<Rightarrow> bool" where
  "payload_finite (PDealInformation d) = f32_finite (di_amount d)"
| "payload_finite (PUserRelativeRating r) = rating_finite r"
| "payload_finite _ = True"

text \<open>On ordinary numbers the equality operators are reflexive; a NaN amount breaks that.\<close>

lemma f32_eq_refl: "f32_eq x x \<longleftrightarrow> \<not> f32_is_nan x"
  by (simp add: f32_eq_def)

lemma user_position_eq_refl: "position_finite p \<Longrightarrow> user_position_eq p p"
  by (simp add: position_finite_def user_position_eq_def user_information_eq_def f32_eq_refl
      f32_finite_not_nan)

lemma positions_eq_refl: "list_all position_finite ps \<Longrightarrow> list_all2 user_position_eq ps ps"
  by (induction ps) (simp_all add: user_position_eq_refl)

lemma payload_eq_refl: "payload_finite d \<Longrightarrow> payload_eq d d"
  by (cases d) (simp_all add: user_information_eq_def user_id_information_eq_def
      deal_information_eq_def user_relative_rating_eq_def rating_finite_def f32_eq_refl
      f32_finite_not_nan user_position_eq_refl positions_eq_refl)

lemma message_eq_refl: "payload_finite (msg_data m) \<Longrightarrow> message_eq m m"
  by (simp add: message_eq_def payload_eq_refl)

end
