(* ===== verification/Time_Helper.thy ===== *)
theory Time_Helper
  imports Prelude
begin

text \<open>
  \<^verbatim>\<open>core/TimeHelper.hpp\<close> and \<^verbatim>\<open>core/src/TimeHelper.cpp\<close>: week days found through \<^verbatim>\<open>gmtime\<close> and
  \<^verbatim>\<open>timegm\<close>. A time point is the number of nanoseconds since the epoch (the representation of
  \<^verbatim>\<open>std::chrono::system_clock\<close> in libstdc++), a \<^verbatim>\<open>time_t\<close> a number of seconds; both are \<open>int\<close>, as the
  64-bit clock only leaves its range in the year 2262. The broken-down time of the C library is
  modelled on the proleptic Gregorian calendar, with \<^verbatim>\<open>timegm\<close> normalising fields out of range.
\<close>

section \<open>The calendar of the C library\<close>

type_synonym time_point = int
type_synonym time_t = int

record tm =
  tm_sec :: int
  tm_min :: int
  tm_hour :: int
  tm_mday :: int
  tm_mon :: int
  tm_year :: int
  tm_wday :: int

definition is_leap :: "int \<Rightarrow> bool" where
  "is_leap y \<longleftrightarrow> y mod 4 = 0 \<and> (y mod 100 \<noteq> 0 \<or> y mod 400 = 0)"

text \<open>Days from 1 January of year 1 to 1 January of year \<open>y\<close>.\<close>

definition days_before_year :: "int \<Rightarrow> int" where
  "days_before_year y = 365 * (y - 1) + (y - 1) div 4 - (y - 1) div 100 + (y - 1) div 400"

definition epoch_days :: int where
  "epoch_days = 719162"

definition year_of_days :: "int \<Rightarrow> int" where
  "year_of_days d =
     (let y = 400 * d div 146097 + 1
      in if d < days_before_year y then y - 1 else if days_before_year (y + 1) \<le> d then y + 1 else y)"

text \<open>Days of a year ahead of each month, and the month a day of the year falls in.\<close>

definition days_before_month :: "bool \<Rightarrow> int \<Rightarrow> int" where
  "days_before_month leap m =
     [0, 31, 59, 90, 120, 151, 181, 212, 243, 273, 304, 334] ! nat m + (if leap \<and> 1 < m then 1 else 0)"

definition month_of_day :: "bool \<Rightarrow> int \<Rightarrow> int" where
  "month_of_day leap n =
     int (length (takeWhile (\<lambda>m. days_before_month leap m \<le> n) [1, 2, 3, 4, 5, 6, 7, 8, 9, 10, 11]))"

definition gmtime :: "time_t \<Rightarrow> tm" where
  "gmtime t =
     (let d = t div 86400; s = t mod 86400; n = d + epoch_days; y = year_of_days n;
          yday = n - days_before_year y; m = month_of_day (is_leap y) yday
      in \<lparr>tm_sec = s mod 60, tm_min = s div 60 mod 60, tm_hour = s div 3600,
          tm_mday = yday - days_before_month (is_leap y) m + 1, tm_mon = m, tm_year = y - 1900,
          tm_wday = (d + 4) mod 7\<rparr>)"

definition timegm :: "tm \<Rightarrow> time_t" where
  "timegm x =
     (let y = tm_year x + 1900 + tm_mon x div 12; m = tm_mon x mod 12
      in 86400 * (days_before_year y + days_before_month (is_leap y) m + tm_mday x - 1 - epoch_days)
         + 3600 * tm_hour x + 60 * tm_min x + tm_sec x)"

section \<open>The helper class\<close>

datatype week_day = Monday | Tuesday | Wednesday | Thursday | Friday | Saturday | Sunday

fun week_day_value :: "week_day \<Rightarrow> u8" where
  "week_day_value Monday = 1"
| "week_day_value Tuesday = 2"
| "week_day_value Wednesday = 3"
| "week_day_value Thursday = 4"
| "week_day_value Friday = 5"
| "week_day_value Saturday = 6"
| "week_day_value Sunday = 0"

text \<open>\<^verbatim>\<open>system_clock::to_time_t\<close> is a \<^verbatim>\<open>duration_cast\<close>: it rounds toward zero.\<close>

definition to_time_t :: "time_point \<Rightarrow> time_t" where
  "to_time_t p = (if p < 0 then - (- p div 1000000000) else p div 1000000000)"

definition from_time_t :: "time_t \<Rightarrow> time_point" where
  "from_time_t t = 1000000000 * t"

definition getPreviousWeekDay :: "time_point \<Rightarrow> week_day \<Rightarrow> time_point" where
  "getPreviousWeekDay timePoint weekDay =
     (let tTime = to_time_t timePoint;
          tmTime = gmtime tTime;
          shiftDays = tm_wday tmTime - uint (week_day_value weekDay);
          shiftDays = (if shiftDays \<ge> 0 then shiftDays else shiftDays + 7);
          resultTmTime = tmTime\<lparr>tm_hour := 0, tm_min := 0, tm_sec := 0, tm_mday := tm_mday tmTime - shiftDays\<rparr>
      in from_time_t (timegm resultTmTime))"

definition getNextWeekDay :: "time_point \<Rightarrow> week_day \<Rightarrow> time_point" where
  "getNextWeekDay timePoint weekDay =
     getPreviousWeekDay timePoint weekDay + 7 * (86400 * 1000000000)"

definition two_digits :: "int \<Rightarrow> string" where
  "two_digits n = [digit_char (nat n div 10), digit_char (nat n mod 10)]"

text \<open>\<^verbatim>\<open>strftime\<close> with \<^verbatim>\<open>"%d-%m-%Y %H:%M:%S"\<close>.\<close>

definition toString :: "time_point \<Rightarrow> string" where
  "toString timePoint =
     (let x = gmtime (to_time_t timePoint); y = tm_year x + 1900
      in two_digits (tm_mday x) @ ''-'' @ two_digits (tm_mon x + 1) @ ''-''
         @ (if y < 0 then ''-'' else '''') @ show_nat (nat \<bar>y\<bar>) @ '' ''
         @ two_digits (tm_hour x) @ '':'' @ two_digits (tm_min x) @ '':'' @ two_digits (tm_sec x))"

section \<open>Decomposing and recomposing a day\<close>

lemma leap_days:
  fixes y a b c :: int
  assumes "a - a' = (if p then 1 else 0)" and "b - b' = (if q then 1 else 0)" and "c - c' = (if r then 1 else 0)"
    and "r \<longrightarrow> q" and "q \<longrightarrow> p"
  shows "365 * y + a - b + c =
    365 * (y - 1) + a' - b' + c' + (if p \<and> (\<not> q \<or> r) then 366 else 365)"
  using assms by (cases p; cases q; cases r) simp_all

lemma days_before_year_step:
  "days_before_year (y + 1) = days_before_year y + (if is_leap y then 366 else 365)"
proof -
  have step: "y div k - (y - 1) div k = (if y mod k = 0 then 1 else 0)" if "0 < k" for k :: int
  proof (cases "y mod k = 0")
    case True
    then obtain q where "y = k * q" by auto
    moreover have "(k * q - 1) div k = q - 1"
      using that by (intro int_div_pos_eq [where r = "k - 1"]) (auto simp: algebra_simps)
    ultimately show ?thesis using that by simp
  next
    case False
    have "(y - 1) div k = y div k"
      using that False pos_mod_bound [OF that, of y] pos_mod_sign [OF that, of y] div_mult_mod_eq [of y k]
      by (intro int_div_pos_eq [where r = "y mod k - 1"]) (auto simp: algebra_simps)
    with False show ?thesis by simp
  qed
  have k: "y div 4 - (y - 1) div 4 = (if y mod 4 = 0 then 1 else 0)"
    "y div 100 - (y - 1) div 100 = (if y mod 100 = 0 then 1 else 0)"
    "y div 400 - (y - 1) div 400 = (if y mod 400 = 0 then 1 else 0)"
    by (rule step, rule zero_less_numeral)+
  have m: "y mod 400 = 0 \<longrightarrow> y mod 100 = 0" "y mod 100 = 0 \<longrightarrow> y mod 4 = 0"
    using mod_mod_cancel [of 100 400 y] mod_mod_cancel [of 4 100 y] by auto
  show ?thesis
    using leap_days [OF k m, of y] by (simp only: days_before_year_def is_leap_def add_diff_cancel_right')
qed

lemma div_bounds: "0 < k \<Longrightarrow> k * (z div k) \<le> z \<and> z < k * (z div k) + k" for z k :: int
  using mult_div_mod_eq [of k z] pos_mod_bound [of k z] pos_mod_sign [of k z] by linarith

lemma days_before_year_approx:
  "146097 * (y - 1) - 699 \<le> 400 * days_before_year y \<and> 400 * days_before_year y \<le> 146097 * (y - 1) + 396"
proof -
  have approx: "146097 * z - 699 \<le> 400 * (365 * z + a - b + c) \<and> 400 * (365 * z + a - b + c) \<le> 146097 * z + 396"
    if "4 * a \<le> z \<and> z < 4 * a + 4" "100 * b \<le> z \<and> z < 100 * b + 100" "400 * c \<le> z \<and> z < 400 * c + 400"
    for z a b c :: int using that by auto
  show ?thesis unfolding days_before_year_def by (intro approx div_bounds) simp_all
qed

lemma year_of_days_bounds:
  "days_before_year (year_of_days d) \<le> d \<and> d < days_before_year (year_of_days d + 1)"
proof -
  define y where "y = 400 * d div 146097 + 1"
  have "146097 * (y - 1) \<le> 400 * d" "400 * d < 146097 * y"
    using div_mult_mod_eq [of "400 * d" 146097] pos_mod_bound [of 146097 "400 * d"]
      pos_mod_sign [of 146097 "400 * d"] unfolding y_def by simp_all
  then have "400 * days_before_year (y - 1) \<le> 400 * d" "400 * d < 400 * days_before_year (y + 2)"
    using days_before_year_approx [of "y - 1"] days_before_year_approx [of "y + 2"] by auto
  then have "days_before_year (y - 1) \<le> d" "d < days_before_year (y + 2)" by simp_all
  then show ?thesis
    unfolding year_of_days_def Let_def y_def [symmetric]
    by (auto simp only: not_less not_le diff_add_cancel add.assoc one_add_one split: if_split)
qed

lemma day_of_year_bounds:
  "0 \<le> d - days_before_year (year_of_days d) \<and>
   d - days_before_year (year_of_days d) < (if is_leap (year_of_days d) then 366 else 365)"
  using year_of_days_bounds [of d] days_before_year_step [of "year_of_days d"] by (simp split: if_splits)

lemma month_of_day_range: "0 \<le> month_of_day leap n \<and> month_of_day leap n \<le> 11"
proof -
  have "length (takeWhile P [1, 2, 3, 4, 5, 6, 7, 8, 9, 10, 11 :: int]) \<le> 11" for P
    using takeWhile_length_le [of P "[1, 2, 3, 4, 5, 6, 7, 8, 9, 10, 11]"] by simp
  then show ?thesis unfolding month_of_day_def by (simp del: takeWhile.simps)
qed

text \<open>\<^verbatim>\<open>timegm\<close> undoes \<^verbatim>\<open>gmtime\<close>, day and time of day apart, and shifts of the day carry over.\<close>

lemma timegm_gmtime_fields:
  "timegm ((gmtime t)\<lparr>tm_hour := h, tm_min := mi, tm_sec := s, tm_mday := tm_mday (gmtime t) - k\<rparr>) =
   86400 * (t div 86400 - k) + 3600 * h + 60 * mi + s"
proof -
  define y where "y = year_of_days (t div 86400 + epoch_days)"
  define m where "m = month_of_day (is_leap y) (t div 86400 + epoch_days - days_before_year y)"
  have "m div 12 = 0" "m mod 12 = m"
    using month_of_day_range [of "is_leap y" "t div 86400 + epoch_days - days_before_year y"]
    unfolding m_def by auto
  then show ?thesis
    by (simp add: timegm_def gmtime_def Let_def y_def [symmetric] m_def [symmetric])
qed

lemma gmtime_wday: "tm_wday (gmtime t) = (t div 86400 + 4) mod 7"
  by (simp add: gmtime_def Let_def)

lemma to_from_time_t [simp]: "to_time_t (from_time_t t) = t"
proof -
  have "- (1000000000 * t) div 1000000000 = - t"
    using nonzero_mult_div_cancel_left [of 1000000000 "- t"] by simp
  then show ?thesis by (simp add: to_time_t_def from_time_t_def)
qed

lemma week_day_value_range: "uint (week_day_value w) \<le> 6"
  by (cases w) simp_all

text \<open>The closed form of the search: the start of the day, shifted back by the distance to the week
  day.\<close>

lemma getPreviousWeekDay_eq:
  "getPreviousWeekDay p w = from_time_t (86400 * (to_time_t p div 86400
     - (tm_wday (gmtime (to_time_t p)) - uint (week_day_value w)) mod 7))"
proof -
  let ?x = "tm_wday (gmtime (to_time_t p)) - uint (week_day_value w)"
  have "0 \<le> tm_wday (gmtime (to_time_t p))" "tm_wday (gmtime (to_time_t p)) \<le> 6" by (simp_all add: gmtime_wday)
  then have "- 6 \<le> ?x" "?x \<le> 6" using week_day_value_range [of w] uint_ge_0 [of "week_day_value w"] by linarith+
  then have "(if ?x \<ge> 0 then ?x else ?x + 7) = ?x mod 7" by presburger
  then show ?thesis
    by (simp only: getPreviousWeekDay_def Let_def timegm_gmtime_fields) simp
qed

lemma timegm_gmtime: "timegm (gmtime t) = t"
proof -
  let ?s = "t mod 86400"
  have "timegm (gmtime t) =
      86400 * (t div 86400) + (3600 * (?s div 3600) + 60 * (?s div 60 mod 60) + ?s mod 60)"
    using timegm_gmtime_fields [where t = t and h = "tm_hour (gmtime t)" and mi = "tm_min (gmtime t)"
        and s = "tm_sec (gmtime t)" and k = 0]
    by (simp add: gmtime_def Let_def)
  also have "3600 * (?s div 3600) + 60 * (?s div 60 mod 60) = 60 * (60 * (?s div 60 div 60) + ?s div 60 mod 60)"
    by (simp flip: zdiv_zmult2_eq)
  finally show ?thesis by (simp only: mult_div_mod_eq add.assoc)
qed

text \<open>The facts the clients use: the result is the last midnight of the week day.\<close>

lemma to_time_t_previous:
  "to_time_t (getPreviousWeekDay p w) = 86400 * (to_time_t p div 86400
     - (tm_wday (gmtime (to_time_t p)) - uint (week_day_value w)) mod 7)"
  by (simp add: getPreviousWeekDay_eq)

lemma previous_bounds:
  "to_time_t (getPreviousWeekDay p w) \<le> to_time_t p \<and>
   to_time_t p < to_time_t (getPreviousWeekDay p w) + 604800"
proof -
  define t where "t = to_time_t p"
  define x where "x = (tm_wday (gmtime t) - uint (week_day_value w)) mod 7"
  have "0 \<le> x" "x \<le> 6" by (simp_all add: x_def)
  then show ?thesis
    using div_bounds [of 86400 t]
    unfolding to_time_t_previous t_def [symmetric] x_def [symmetric] by auto
qed

lemma previous_is_midnight:
  "to_time_t (getPreviousWeekDay p w) mod 86400 = 0"
  by (simp add: to_time_t_previous)

lemma previous_wday:
  "tm_wday (gmtime (to_time_t (getPreviousWeekDay p w))) = uint (week_day_value w)"
proof -
  have "(d + 4 - ((d + 4) mod 7 - v) mod 7) mod 7 = v mod 7" for d v :: int
    by (simp add: mod_simps)
  from this [of "to_time_t p div 86400" "uint (week_day_value w)"]
  show ?thesis
    using week_day_value_range [of w] by (simp add: to_time_t_previous gmtime_wday diff_add_eq)
qed

lemma getNextWeekDay_seconds:
  "to_time_t (getNextWeekDay p w) = to_time_t (getPreviousWeekDay p w) + 604800"
proof -
  have "getNextWeekDay p w = from_time_t (to_time_t (getPreviousWeekDay p w) + 604800)"
    by (simp add: getNextWeekDay_def getPreviousWeekDay_eq) (simp add: from_time_t_def)
  then show ?thesis by simp
qed

lemma gmtime_midnight: "t mod 86400 = 0 \<Longrightarrow> tm_hour (gmtime t) = 0 \<and> tm_min (gmtime t) = 0 \<and> tm_sec (gmtime t) = 0"
  by (simp add: gmtime_def Let_def)

lemma gmtime_wday_week: "tm_wday (gmtime (t + 604800)) = tm_wday (gmtime t)"
proof -
  have "(t + 604800) div 86400 = t div 86400 + 7" by simp
  then have "(t + 604800) div 86400 + 4 = t div 86400 + 4 + 7" by simp
  then show ?thesis by (simp only: gmtime_wday mod_add_self2)
qed

section \<open>Properties\<close>

text \<open>The previous week day is a midnight (UTC) of the requested week day, not after the given
  second and less than seven days before it: today counts when it is the requested day.\<close>

theorem previous_week_day_correct:
  "let r = to_time_t (getPreviousWeekDay p w)
   in tm_wday (gmtime r) = uint (week_day_value w) \<and>
      tm_hour (gmtime r) = 0 \<and> tm_min (gmtime r) = 0 \<and> tm_sec (gmtime r) = 0 \<and>
      r \<le> to_time_t p \<and> to_time_t p < r + 7 * 24 * 3600 \<and> getPreviousWeekDay p w = from_time_t r"
  using previous_wday [of p w] gmtime_midnight [OF previous_is_midnight [of p w]] previous_bounds [of p w]
  by (simp add: getPreviousWeekDay_eq)

text \<open>The next week day is a midnight of the requested week day, strictly after the given second
  and at most seven days after it: today never counts.\<close>

theorem next_week_day_correct:
  "let r = to_time_t (getNextWeekDay p w)
   in tm_wday (gmtime r) = uint (week_day_value w) \<and>
      tm_hour (gmtime r) = 0 \<and> tm_min (gmtime r) = 0 \<and> tm_sec (gmtime r) = 0 \<and>
      to_time_t p < r \<and> r \<le> to_time_t p + 7 * 24 * 3600"
proof -
  have "(to_time_t (getPreviousWeekDay p w) + 604800) mod 86400 = 0"
    using previous_is_midnight [of p w] mod_mult_self2 [of "to_time_t (getPreviousWeekDay p w)" 86400 7] by simp
  from gmtime_midnight [OF this] show ?thesis
    using previous_wday [of p w] previous_bounds [of p w]
    by (simp add: getNextWeekDay_seconds gmtime_wday_week)
qed

text \<open>The two dates of the unit tests: Sunday 14 January 2018, 12:12:12, the Monday before it and the
  Friday after it.\<close>

lemma week_day_tests:
  "let t = from_time_t (timegm \<lparr>tm_sec = 12, tm_min = 12, tm_hour = 12, tm_mday = 14, tm_mon = 0, tm_year = 118, tm_wday = 0\<rparr>)
   in to_time_t (getPreviousWeekDay t Monday) =
        timegm \<lparr>tm_sec = 0, tm_min = 0, tm_hour = 0, tm_mday = 8, tm_mon = 0, tm_year = 118, tm_wday = 0\<rparr> \<and>
      to_time_t (getNextWeekDay t Friday) =
        timegm \<lparr>tm_sec = 0, tm_min = 0, tm_hour = 0, tm_mday = 19, tm_mon = 0, tm_year = 118, tm_wday = 0\<rparr> \<and>
      toString t = ''14-01-2018 12:12:12''"
  by code_simp

end
