(* ===== verification/Logging.thy ===== *)
theory Logging
  imports Core_Types Time_Helper
begin

text \<open>
  \<^verbatim>\<open>core/ulog.c\<close> and the macros of \<^verbatim>\<open>core/ulog.h\<close>: the lines the program logs. \<^verbatim>\<open>vsnprintf\<close> is modelled for the
  conversions the program uses; every other use of the format, a conversion without an argument or with one
  of another type among them, is undefined in C. \<open>localtime\<close>, which knows the time zone, is a parameter.
\<close>

section \<open>Formatting\<close>

text \<open>The arguments of a log statement: \<^verbatim>\<open>int\<close> and smaller ones, \<^verbatim>\<open>size_t\<close>, text, and the pointers and objects that
  no conversion used takes.\<close>

datatype log_argument =
    IntArgument int
  | SizeArgument u64
  | TextArgument string
  | PointerArgument u64
  | ObjectArgument

definition c_string :: "string \<Rightarrow> string" where
  "c_string s = takeWhile (\<lambda>c. c \<noteq> CHR 0x00) s"

definition put_text :: "string \<Rightarrow> string result \<Rightarrow> string result" where
  "put_text t r = bindr r (\<lambda>s. Inr (t @ s))"

fun format_text :: "string \<Rightarrow> log_argument list \<Rightarrow> string result" where
  "format_text [] arguments = Inr []"
| "format_text (c # format) arguments =
     (if c \<noteq> CHR ''%'' then put_text [c] (format_text format arguments)
      else case format of
          [] \<Rightarrow> Inl UndefinedBehaviour
        | d # format \<Rightarrow>
            if d = CHR ''%'' then put_text [d] (format_text format arguments)
            else case arguments of
                [] \<Rightarrow> Inl UndefinedBehaviour
              | TextArgument t # arguments \<Rightarrow>
                  if d = CHR ''s'' then put_text (c_string t) (format_text format arguments) else Inl UndefinedBehaviour
              | IntArgument i # arguments \<Rightarrow>
                  if d = CHR ''d'' then put_text (show_int i) (format_text format arguments) else Inl UndefinedBehaviour
              | SizeArgument n # arguments \<Rightarrow>
                  (case format of
                     e # format \<Rightarrow>
                       if d = CHR ''l'' \<and> e = CHR ''u'' then put_text (show_word n) (format_text format arguments)
                       else Inl UndefinedBehaviour
                   | [] \<Rightarrow> Inl UndefinedBehaviour)
              | _ \<Rightarrow> Inl UndefinedBehaviour)"

definition max_input_size :: nat where
  "max_input_size = 4096"

text \<open>\<^verbatim>\<open>BUILD_BUFFER\<close>: the text, cut to what fits beside the terminating zero.\<close>

definition build_buffer :: "string \<Rightarrow> log_argument list \<Rightarrow> string result" where
  "build_buffer format arguments =
     bindr (format_text (c_string format) arguments) (\<lambda>text. Inr (take (max_input_size - 1) text))"

text \<open>\<^verbatim>\<open>strftime\<close> with \<^verbatim>\<open>"%Y-%m-%d %H:%M:%S"\<close>; where the text and its zero do not fit, the buffer holds nothing certain.\<close>

definition getCurrentTime :: "(time_t \<Rightarrow> tm) \<Rightarrow> time_t \<Rightarrow> nat \<Rightarrow> string result" where
  "getCurrentTime localtime timer bufferSize =
     (let tm_info = localtime timer; y = tm_year tm_info + 1900;
          text = show_int y @ ''-'' @ two_digits (tm_mon tm_info + 1) @ ''-'' @ two_digits (tm_mday tm_info) @ '' '' @
            two_digits (tm_hour tm_info) @ '':'' @ two_digits (tm_min tm_info) @ '':'' @ two_digits (tm_sec tm_info)
      in if length text < bufferSize then Inr text else Inl UndefinedBehaviour)"

section \<open>Log lines\<close>

datatype zlog_level = ZLOG_LEVEL_INFO | ZLOG_LEVEL_NOTICE | ZLOG_LEVEL_WARN | ZLOG_LEVEL_ERROR

text \<open>How the program was compiled: with which version of the library zlog if any, and with \<^verbatim>\<open>ULOG_INFO\<close> or not.\<close>

record log_build =
  zlog_ver :: "nat option"
  info_printed :: bool

datatype log_output =
    Stdout string
  | Stderr string
  | Zlog string string string int zlog_level string
  | ZlogShort string string int zlog_level string

definition color_error :: string where "color_error = CHR 0x1B # ''[31m''"
definition color_info :: string where "color_info = CHR 0x1B # ''[32m''"
definition color_warn :: string where "color_warn = CHR 0x1B # ''[33m''"
definition endline :: string where "endline = CHR 0x1B # ''[0m'' @ [CHR 0x0A]"

definition zlog_call :: "nat \<Rightarrow> string \<Rightarrow> string \<Rightarrow> string \<Rightarrow> int \<Rightarrow> zlog_level \<Rightarrow> string \<Rightarrow> log_output" where
  "zlog_call version category file_name func_name line level buf =
     (if 1 \<le> version then Zlog category file_name func_name line level buf
      else ZlogShort category file_name line level buf)"

definition console_line :: "(time_t \<Rightarrow> tm) \<Rightarrow> time_t \<Rightarrow> string \<Rightarrow> string \<Rightarrow> string result" where
  "console_line localtime timer color buf =
     bindr (getCurrentTime localtime timer 26) (\<lambda>time. Inr (time @ '' '' @ color @ c_string buf @ endline))"

definition ulog_info ::
  "log_build \<Rightarrow> (time_t \<Rightarrow> tm) \<Rightarrow> time_t \<Rightarrow> string \<Rightarrow> string \<Rightarrow> string \<Rightarrow> int \<Rightarrow> string \<Rightarrow> log_argument list
    \<Rightarrow> log_output list result" where
  "ulog_info build localtime timer category file_name func_name line format arguments =
     bindr (build_buffer format arguments) (\<lambda>buf.
       case zlog_ver build of
         Some v \<Rightarrow> Inr [zlog_call v category file_name func_name line ZLOG_LEVEL_INFO buf]
       | None \<Rightarrow>
           if info_printed build then bindr (console_line localtime timer color_info buf) (\<lambda>l. Inr [Stdout l])
           else Inr [])"

definition ulog_error ::
  "log_build \<Rightarrow> (time_t \<Rightarrow> tm) \<Rightarrow> time_t \<Rightarrow> string \<Rightarrow> string \<Rightarrow> string \<Rightarrow> int \<Rightarrow> string \<Rightarrow> log_argument list
    \<Rightarrow> log_output list result" where
  "ulog_error build localtime timer category file_name func_name line format arguments =
     bindr (build_buffer format arguments) (\<lambda>buf.
       case zlog_ver build of
         Some v \<Rightarrow> Inr [zlog_call v category file_name func_name line ZLOG_LEVEL_ERROR buf]
       | None \<Rightarrow> bindr (console_line localtime timer color_error buf) (\<lambda>l. Inr [Stderr l]))"

definition ulog_common ::
  "log_build \<Rightarrow> (time_t \<Rightarrow> tm) \<Rightarrow> time_t \<Rightarrow> zlog_level \<Rightarrow> string \<Rightarrow> string \<Rightarrow> string \<Rightarrow> int \<Rightarrow> string \<Rightarrow> log_argument list
    \<Rightarrow> log_output list result" where
  "ulog_common build localtime timer level category file_name func_name line format arguments =
     bindr (build_buffer format arguments) (\<lambda>buf.
       case zlog_ver build of
         Some v \<Rightarrow> Inr [zlog_call v category file_name func_name line level buf]
       | None \<Rightarrow> bindr (console_line localtime timer color_warn buf) (\<lambda>l. Inr [Stderr l]))"

text \<open>\<^verbatim>\<open>ulog_init\<close>, with what \<^verbatim>\<open>zlog_init\<close> returned; a failure is only reported. \<^verbatim>\<open>ulog_clean\<close> prints nothing.\<close>

definition ulog_init :: "log_build \<Rightarrow> int \<Rightarrow> log_output list" where
  "ulog_init build ret =
     (if zlog_ver build \<noteq> None \<and> ret \<noteq> 0
      then [Stderr (''ulog_init(): Error in zlog_init(), ret='' @ show_int ret @ [CHR 0x0A])] else [])"

definition ulog_clean :: "log_build \<Rightarrow> log_output list" where
  "ulog_clean build = []"

text \<open>The macros; file, function and line are those of the statement.\<close>

record log_place =
  place_file :: string
  place_function :: string
  place_line :: int

definition mdebug_error where
  "mdebug_error build localtime timer p = ulog_error build localtime timer ''ulog'' (place_file p) (place_function p) (place_line p)"

definition mdebug_notice where
  "mdebug_notice build localtime timer p =
     ulog_common build localtime timer ZLOG_LEVEL_NOTICE ''ulog'' (place_file p) (place_function p) (place_line p)"

definition mdebug_info where
  "mdebug_info build localtime timer p = ulog_info build localtime timer ''ulog'' (place_file p) (place_function p) (place_line p)"

definition mdebug_warn where
  "mdebug_warn build localtime timer p =
     ulog_common build localtime timer ZLOG_LEVEL_WARN ''ulog'' (place_file p) (place_function p) (place_line p)"

lemmas log_defs =
  mdebug_error_def mdebug_notice_def mdebug_info_def mdebug_warn_def ulog_error_def ulog_common_def ulog_info_def

section \<open>What is shown\<close>

lemma put_text_simps [simp]: "put_text t (Inr s) = Inr (t @ s)" "put_text t (Inl e) = Inl e"
  by (simp_all add: put_text_def)

lemma put_text_error [simp]: "put_text t r = Inl e \<longleftrightarrow> r = Inl e"
  by (cases r) simp_all

lemma format_text_error: "format_text format arguments = Inl e \<Longrightarrow> e = UndefinedBehaviour"
proof (induction format arguments rule: format_text.induct)
  case (2 c format arguments)
  show ?case
  proof (cases "c = CHR ''%'' \<and> format \<noteq> [] \<and> hd format \<noteq> CHR ''%''")
    case True
    then obtain d f where f: "format = d # f" "d \<noteq> CHR ''%''" "c = CHR ''%''" by (cases format) auto
    show ?thesis
    proof (cases arguments)
      case Nil
      with "2.prems" f show ?thesis by simp
    next
      case (Cons a as)
      note args = Cons
      show ?thesis
      proof (cases a)
        case (TextArgument t)
        with "2.prems" f args "2.IH"(5) [OF _ f(1,2) args TextArgument] show ?thesis by (auto split: if_splits)
      next
        case (IntArgument i)
        with "2.prems" f args "2.IH"(3) [OF _ f(1,2) args IntArgument] show ?thesis by (auto split: if_splits)
      next
        case (SizeArgument n)
        with "2.prems" f args "2.IH"(4) [OF _ f(1,2) args SizeArgument] show ?thesis by (auto split: if_splits list.splits)
      qed (use "2.prems" f args in simp_all)
    qed
  next
    case False
    with 2 show ?thesis by (cases format) (auto split: if_splits)
  qed
qed simp

text \<open>A text used as its own format, without arguments: percent signs must come in pairs, and each pair prints one.\<close>

lemma format_plain: "CHR ''%'' \<notin> set s \<Longrightarrow> format_text (s @ format) arguments = put_text s (format_text format arguments)"
  by (induction s) (cases "format_text format arguments", auto)+

lemma format_text_itself: "CHR ''%'' \<notin> set s \<Longrightarrow> format_text s arguments = Inr s"
  using format_plain [of s "[]"] by simp

fun percents_paired :: "string \<Rightarrow> bool" where
  "percents_paired [] = True"
| "percents_paired (c # s) = (if c \<noteq> CHR ''%'' then percents_paired s else s \<noteq> [] \<and> hd s = CHR ''%'' \<and> percents_paired (tl s))"

lemma format_without_arguments: "(\<exists>t. format_text s [] = Inr t) = percents_paired s"
  by (induction s "[] :: log_argument list" rule: format_text.induct)
    (auto simp: put_text_def split: list.splits sum.splits; metis sum.distinct)+

text \<open>The time always fits the buffer for the years \<^verbatim>\<open>tm_year\<close> can tell, from the year 0 on.\<close>

lemma show_nat_length: "n < 10 ^ Suc k \<Longrightarrow> length (show_nat n) \<le> Suc k"
proof (induction k arbitrary: n)
  case (Suc k)
  have "n div 10 < 10 ^ Suc k" using Suc.prems by simp
  with Suc.IH [of "n div 10"] show ?case by (simp add: show_nat.simps [of n])
qed (simp add: show_nat.simps)

lemma two_digits_length [simp]: "length (two_digits n) = 2"
  by (simp add: two_digits_def)

lemma current_time_fits:
  assumes "0 \<le> tm_year (localtime timer) + 1900" and "tm_year (localtime timer) < 2 ^ 31"
  shows "\<exists>time. getCurrentTime localtime timer 26 = Inr time \<and> length time \<le> 25"
proof -
  have "nat (tm_year (localtime timer) + 1900) < 10 ^ Suc 9" using assms by simp
  from show_nat_length [OF this] assms(1) show ?thesis by (simp add: getCurrentTime_def Let_def show_int_def)
qed

text \<open>An error is one line on the standard error stream: the time, the text as far as it fits, and the end of the
  colour, which is there also when the text was cut.\<close>

lemma error_line:
  assumes "zlog_ver build = None" and "0 \<le> tm_year (localtime timer) + 1900" and "tm_year (localtime timer) < 2 ^ 31"
    and "format_text (c_string format) arguments = Inr text" and "CHR 0x00 \<notin> set text"
  shows "\<exists>time. mdebug_error build localtime timer p format arguments =
      Inr [Stderr (time @ '' '' @ color_error @ take 4095 text @ endline)] \<and> length time \<le> 25"
proof -
  have "c_string (take 4095 text) = take 4095 text"
    using assms(5) by (auto simp: c_string_def takeWhile_eq_all_conv dest: in_set_takeD)
  with current_time_fits [of localtime timer, OF assms(2,3)] assms(1,4) show ?thesis
    by (auto simp: log_defs build_buffer_def console_line_def max_input_size_def)
qed

text \<open>On the console a notice is not told from a warning, and without \<^verbatim>\<open>ULOG_INFO\<close> information is dropped.\<close>

lemma notice_is_warning:
  "zlog_ver build = None \<Longrightarrow>
    mdebug_notice build localtime timer p format arguments = mdebug_warn build localtime timer p format arguments"
  by (simp add: log_defs)

lemma info_dropped:
  "zlog_ver build = None \<Longrightarrow> \<not> info_printed build \<Longrightarrow> build_buffer format arguments = Inr buf \<Longrightarrow>
    mdebug_info build localtime timer p format arguments = Inr []"
  by (simp add: log_defs)

section \<open>Statements with arguments of another type\<close>

text \<open>The handlers of the WebSocket server print a pointer with \<^verbatim>\<open>%x\<close>, and an \<^verbatim>\<open>error_code\<close>, an object, with \<^verbatim>\<open>%d\<close>; the
  second also where a message could not be sent. In C this is undefined; the rest of the development takes it to
  print some text. The 16 bits of an identifier are an \<^verbatim>\<open>int\<close> when they are passed.\<close>

definition connection_error_log :: "u64 \<Rightarrow> string \<Rightarrow> string result" where
  "connection_error_log connection message =
     build_buffer ''Error in connection 0x%x. Error: %s (%d).'' [PointerArgument connection, TextArgument message, ObjectArgument]"

definition send_failed_log :: "string \<Rightarrow> string result" where
  "send_failed_log message = build_buffer (''Couldn'' @ [CHR 0x27] @ ''t send message. Error: %s(%d).'') [TextArgument message, ObjectArgument]"

definition data_sent_log :: "u16 \<Rightarrow> string result" where
  "data_sent_log messageId =
     build_buffer (''Going to send '' @ quoted ''DATA'' @ '' message: '' @ quoted ''%d'' @ ''.'') [IntArgument (uint messageId)]"

lemma mismatched_arguments:
  "connection_error_log connection message = Inl UndefinedBehaviour" "send_failed_log message = Inl UndefinedBehaviour"
  by (simp_all add: connection_error_log_def send_failed_log_def build_buffer_def c_string_def)

lemma data_sent_line:
  "data_sent_log messageId = Inr (take 4095 (''Going to send '' @ quoted ''DATA'' @ '' message: '' @ quoted (show_int (uint messageId)) @ ''.''))"
  by (simp add: data_sent_log_def build_buffer_def c_string_def quoted_def max_input_size_def)

end
