(* ===== verification/Application.thy ===== *)
theory Application
  imports Logging
begin

text \<open>
  \<^verbatim>\<open>service/src/Application.cpp\<close>: the command line and the choice of the transport. What
  \<^verbatim>\<open>boost::program_options\<close> makes of the arguments is the parameter \<open>parse\<close>, which gets the defaults;
  \<open>serve\<close> stands for \<^verbatim>\<open>ApplicationService::run\<close> on the transport chosen. The port of the WebSocket server
  is an \<^verbatim>\<open>unsigned short\<close> that the \<^verbatim>\<open>int\<close> option is assigned to. \<open>log_line\<close> is \<^verbatim>\<open>mdebug_error\<close> at the time of the error.
\<close>

record options =
  opt_port :: int
  opt_period :: int
  opt_threads :: u64
  opt_transport :: string
  opt_kafkaBrokers :: string
  opt_kafkaTopic :: string
  opt_rabbitHost :: string
  opt_help :: bool

definition default_options :: options where
  "default_options = \<lparr>opt_port = 88888, opt_period = 5, opt_threads = 5, opt_transport = ''ws'',
     opt_kafkaBrokers = ''localhost:9092'', opt_kafkaTopic = ''rating.events.in'', opt_rabbitHost = ''localhost'',
     opt_help = False\<rparr>"

datatype transport_choice =
    UseWs int u64
  | UseGrpc int
  | UseKafka string string
  | UseRabbit string int

datatype configuration = ShowHelp | Configured transport_choice int

definition parseArguments ::
  "(string list \<Rightarrow> options \<Rightarrow> options result) \<Rightarrow> string list \<Rightarrow> configuration result" where
  "parseArguments parse argv =
     bindr (parse argv default_options) (\<lambda>opt.
       if opt_help opt then Inr ShowHelp
       else if opt_period opt \<le> 0 then
         Inl (base_exception ''Negative or zero timeout values are not supported. Please provide a positive integer value.'')
       else if opt_transport opt = ''ws'' then Inr (Configured (UseWs (opt_port opt) (opt_threads opt)) (opt_period opt))
       else if opt_transport opt = ''grpc'' then Inr (Configured (UseGrpc (opt_port opt)) (opt_period opt))
       else if opt_transport opt = ''kafka'' then
         Inr (Configured (UseKafka (opt_kafkaBrokers opt) (opt_kafkaTopic opt)) (opt_period opt))
       else if opt_transport opt = ''rabbitmq'' then
         Inr (Configured (UseRabbit (opt_rabbitHost opt) (opt_port opt)) (opt_period opt))
       else Inl (base_exception (''Unknown transport '' @ quoted (opt_transport opt) @
         ''. Valid values: ws, grpc, kafka, rabbitmq.'')))"

text \<open>The exit code and what is logged, or the undefined behaviour that no handler stops. The text of a
  \<^verbatim>\<open>BaseException\<close> is logged as a format; that of another exception, \<open>what_other\<close>, as an argument.\<close>

definition application_run ::
  "(string \<Rightarrow> log_argument list \<Rightarrow> log_output list result) \<Rightarrow> (exn \<Rightarrow> string)
    \<Rightarrow> (string list \<Rightarrow> options \<Rightarrow> options result) \<Rightarrow> (transport_choice \<Rightarrow> int \<Rightarrow> int result)
    \<Rightarrow> string list \<Rightarrow> (log_output list \<times> int) result" where
  "application_run log_line what_other parse serve argv =
     (case bindr (parseArguments parse argv)
             (\<lambda>c. case c of ShowHelp \<Rightarrow> Inr 0 | Configured transport period \<Rightarrow> serve transport period) of
        Inr rc \<Rightarrow> Inr ([], rc)
      | Inl UndefinedBehaviour \<Rightarrow> Inl UndefinedBehaviour
      | Inl (BaseException text) \<Rightarrow> bindr (log_line text []) (\<lambda>output. Inr (output, - 1))
      | Inl e \<Rightarrow> bindr (log_line ''Unknown error occurred. %s'' [TextArgument (what_other e)]) (\<lambda>output. Inr (output, - 1)))"

text \<open>\<^verbatim>\<open>main\<close>, with \<^verbatim>\<open>ULogWrapper\<close> around \<^verbatim>\<open>Application::run\<close>.\<close>

definition service_main ::
  "log_build \<Rightarrow> int \<Rightarrow> (string list \<Rightarrow> (log_output list \<times> int) result) \<Rightarrow> string list \<Rightarrow> (log_output list \<times> int) result" where
  "service_main build zlog_init run argv =
     bindr (run argv) (\<lambda>(output, rc). Inr (ulog_init build zlog_init @ output @ ulog_clean build, rc))"

definition ws_config_port :: "int \<Rightarrow> u16" where
  "ws_config_port port = word_of_int port"

lemmas application_defs [component_defs] =
  default_options_def parseArguments_def application_run_def ws_config_port_def

lemma percents_append: "CHR ''%'' \<notin> set s \<Longrightarrow> percents_paired (s @ t) = percents_paired t"
  by (induction s) auto

lemma percents_around: "CHR ''%'' \<notin> set t \<Longrightarrow> percents_paired (s @ t) = percents_paired s"
proof (induction s rule: percents_paired.induct)
  case 1
  then show ?case using percents_append [of t "[]"] by simp
next
  case (2 c s)
  then show ?case by (cases s) (auto, cases t, auto)
qed

definition unknown_transport_text :: "string \<Rightarrow> string" where
  "unknown_transport_text name = ''Base error occurred: Unknown transport '' @ quoted name @ ''. Valid values: ws, grpc, kafka, rabbitmq.''"

lemma unknown_transport_report:
  "(\<exists>t. format_text (unknown_transport_text name) [] = Inr t) = percents_paired name"
  unfolding format_without_arguments unknown_transport_text_def quoted_def
  by (simp add: percents_append percents_around)

text \<open>A service is only ever started with a positive update period and one of the four transports; a period
  that is not positive is logged and ends with exit code -1, the request for help with 0.\<close>

theorem arguments_checked:
  assumes "parse argv default_options = Inr opt"
  shows "(\<forall>transport period. parseArguments parse argv = Inr (Configured transport period) \<longrightarrow>
      period = opt_period opt \<and> 0 < period \<and> \<not> opt_help opt \<and>
      opt_transport opt \<in> {''ws'', ''grpc'', ''kafka'', ''rabbitmq''}) \<and>
    (\<not> opt_help opt \<and> opt_period opt \<le> 0 \<longrightarrow>
      (\<exists>text. application_run log_line what_other parse serve argv = bindr (log_line text []) (\<lambda>output. Inr (output, - 1)) \<and>
        percents_paired text)) \<and>
    (opt_help opt \<longrightarrow> application_run log_line what_other parse serve argv = Inr ([], 0))"
  using assms
  by (auto simp: parseArguments_def application_run_def base_exception_def split: if_splits)

text \<open>C16. An unknown transport is reported: one line on the standard error stream, and exit code -1. But the name
  comes into the text that is used as a format, and a percent sign in it that is not one of a pair makes the
  behaviour undefined.\<close>

theorem unknown_transport_report_iff:
  assumes "parse argv default_options = Inr opt" and "\<not> opt_help opt" and "0 < opt_period opt"
    and "opt_transport opt \<notin> {''ws'', ''grpc'', ''kafka'', ''rabbitmq''}" and "CHR 0x00 \<notin> set (opt_transport opt)"
    and "zlog_ver build = None"
    and "0 \<le> tm_year (localtime timer) + 1900" and "tm_year (localtime timer) < 2 ^ 31"
  shows "((\<exists>line. application_run (mdebug_error build localtime timer p) what_other parse serve argv = Inr ([Stderr line], - 1)) \<longleftrightarrow>
      percents_paired (opt_transport opt)) \<and>
    (\<not> percents_paired (opt_transport opt) \<longrightarrow>
      application_run (mdebug_error build localtime timer p) what_other parse serve argv = Inl UndefinedBehaviour)"
proof -
  let ?text = "unknown_transport_text (opt_transport opt)"
  have "parseArguments parse argv = Inl (BaseException ?text)"
    using assms(1-4) by (simp add: parseArguments_def base_exception_def unknown_transport_text_def)
  then have run: "application_run (mdebug_error build localtime timer p) what_other parse serve argv =
      bindr (mdebug_error build localtime timer p ?text []) (\<lambda>output. Inr (output, - 1))"
    by (simp add: application_run_def)
  have "c_string ?text = ?text"
    using assms(5) by (auto simp: c_string_def takeWhile_eq_all_conv unknown_transport_text_def quoted_def)
  then have buffer: "build_buffer ?text [] = bindr (format_text ?text []) (\<lambda>text. Inr (take (max_input_size - 1) text))"
    by (simp add: build_buffer_def)
  show ?thesis
  proof (cases "format_text ?text []")
    case (Inl e)
    then have "\<not> percents_paired (opt_transport opt)" using unknown_transport_report [of "opt_transport opt"] by simp
    then show ?thesis using Inl format_text_error [OF Inl] unfolding run by (simp add: log_defs buffer)
  next
    case (Inr t)
    then have "percents_paired (opt_transport opt)" using unknown_transport_report [of "opt_transport opt"] by blast
    moreover obtain time where "getCurrentTime localtime timer 26 = Inr time"
      using current_time_fits [of localtime timer, OF assms(7,8)] by blast
    ultimately show ?thesis using Inr assms(6) unfolding run by (simp add: log_defs buffer console_line_def)
  qed
qed

text \<open>The transport \<^verbatim>\<open>50%s\<close>, and the transport \<^verbatim>\<open>udp\<close>.\<close>

theorem unknown_transport_report_iff_witness:
  "application_run (mdebug_error \<lparr>zlog_ver = None, info_printed = False\<rparr> gmtime 0 \<lparr>place_file = '''', place_function = '''', place_line = 40\<rparr>)
      (\<lambda>e. '''') (\<lambda>argv opt. Inr (opt\<lparr>opt_transport := ''50%s''\<rparr>)) (\<lambda>t p. Inr 0) [''service''] = Inl UndefinedBehaviour \<and>
   (\<exists>line. application_run (mdebug_error \<lparr>zlog_ver = None, info_printed = False\<rparr> gmtime 0 \<lparr>place_file = '''', place_function = '''', place_line = 40\<rparr>)
      (\<lambda>e. '''') (\<lambda>argv opt. Inr (opt\<lparr>opt_transport := ''udp''\<rparr>)) (\<lambda>t p. Inr 0) [''service''] = Inr ([Stderr line], - 1))"
proof -
  have "tm_year (gmtime 0) = 70" by code_simp
  then have year: "0 \<le> tm_year (gmtime 0) + 1900" "tm_year (gmtime 0) < 2 ^ 31" by simp_all
  let ?log = "mdebug_error \<lparr>zlog_ver = None, info_printed = False\<rparr> gmtime 0 \<lparr>place_file = '''', place_function = '''', place_line = 40\<rparr>"
  have "((\<exists>line. application_run ?log (\<lambda>e. '''') (\<lambda>argv opt. Inr (opt\<lparr>opt_transport := name\<rparr>)) (\<lambda>t p. Inr 0) [''service''] =
        Inr ([Stderr line], - 1)) \<longleftrightarrow> percents_paired name) \<and>
      (\<not> percents_paired name \<longrightarrow>
        application_run ?log (\<lambda>e. '''') (\<lambda>argv opt. Inr (opt\<lparr>opt_transport := name\<rparr>)) (\<lambda>t p. Inr 0) [''service''] = Inl UndefinedBehaviour)"
    if "name \<notin> {''ws'', ''grpc'', ''kafka'', ''rabbitmq''}" "CHR 0x00 \<notin> set name" for name
    using unknown_transport_report_iff [of "\<lambda>argv opt. Inr (opt\<lparr>opt_transport := name\<rparr>)" "[''service'']"
        "default_options\<lparr>opt_transport := name\<rparr>" "\<lparr>zlog_ver = None, info_printed = False\<rparr>" gmtime 0
        "\<lparr>place_file = '''', place_function = '''', place_line = 40\<rparr>" "\<lambda>e. ''''" "\<lambda>t p. Inr 0"] year that
    by (simp add: default_options_def)
  from this [of "''50%s''"] this [of "''udp''"] show ?thesis by simp
qed

theorem arguments_checked_witness:
  "application_run (\<lambda>format arguments. Inr [Stderr format]) (\<lambda>e. '''') (\<lambda>argv opt. Inr (opt\<lparr>opt_help := True\<rparr>)) (\<lambda>t p. Inr 0) [''service''] = Inr ([], 0)"
  using arguments_checked [of "\<lambda>argv opt. Inr (opt\<lparr>opt_help := True\<rparr>)" "[''service'']"]
  by (simp add: default_options_def)

text \<open>A failure of the logging library changes what is printed, not what the program does.\<close>

lemma exit_code_of_main:
  "map_sum id snd (service_main build ret run argv) = map_sum id snd (run argv)"
  by (cases "run argv") (auto simp: service_main_def)

text \<open>The default port does not fit the type the server keeps it in.\<close>

lemma default_port_wraps:
  "ws_config_port (opt_port default_options) = 23352 \<and> uint (ws_config_port (opt_port default_options)) \<noteq> opt_port default_options"
  by (simp add: ws_config_port_def default_options_def)

end
