(* ===== verification/Transport_Interface.thy ===== *)
theory Transport_Interface
  imports Core_Types
begin

text \<open>
  \<^verbatim>\<open>core/ITransportServer.hpp\<close> as a contract: pushing a message to a user reaches the destination the
  user is routed to, in order, and does nothing for a user without one. The gRPC and the WebSocket
  server each prove it of their own model. \<open>received\<close> is what a destination has been handed, read back
  as application messages; \<open>sendable\<close> are the messages a transport carries.
\<close>

locale transport_server =
  fixes send :: "user_identifier \<Rightarrow> base_message \<Rightarrow> 't \<Rightarrow> 't outcome"
    and route :: "'t \<Rightarrow> user_identifier \<Rightarrow> 'c option"
    and received :: "'t \<Rightarrow> 'c \<Rightarrow> base_message list"
    and sendable :: "base_message \<Rightarrow> bool"
    and ok :: "'t \<Rightarrow> bool"
  assumes unrouted: "route t k = None \<Longrightarrow> send k m t = (t, None)"
    and routed: "ok t \<Longrightarrow> route t k = Some c \<Longrightarrow> sendable m \<Longrightarrow>
      \<exists>t'. send k m t = (t', None) \<and> ok t' \<and> route t' = route t \<and>
        received t' = (received t)(c := received t c @ [m])"
begin

definition pushed :: "'t \<Rightarrow> 'c \<Rightarrow> (user_identifier \<times> base_message) list \<Rightarrow> base_message list" where
  "pushed t c ms = map snd (filter (\<lambda>p. route t (fst p) = Some c) ms)"

lemma send_total: "ok t \<Longrightarrow> sendable m \<Longrightarrow> \<exists>t'. send k m t = (t', None) \<and> ok t' \<and> route t' = route t"
  using unrouted [of t k m] routed [of t k _ m] by (cases "route t k") auto

lemma send_received:
  assumes "ok t" and "sendable m"
  shows "\<exists>t'. send k m t = (t', None) \<and> ok t' \<and> route t' = route t \<and>
    (\<forall>c. received t' c = received t c @ (if route t k = Some c then [m] else []))"
proof (cases "route t k")
  case None
  with assms show ?thesis by (simp add: unrouted)
next
  case (Some c)
  from routed [OF assms(1) Some assms(2)] Some show ?thesis by auto
qed

lemma send_all:
  assumes "ok t" and "\<forall>p \<in> set ms. sendable (snd p)"
  shows "\<exists>t'. fold_outcome (\<lambda>p. send (fst p) (snd p)) ms t = (t', None) \<and> ok t' \<and> route t' = route t \<and>
    (\<forall>c. received t' c = received t c @ pushed t c ms)"
  using assms
proof (induction ms arbitrary: t)
  case Nil
  then show ?case by (simp add: pushed_def)
next
  case (Cons p ms)
  then obtain t1 where t1: "send (fst p) (snd p) t = (t1, None)" "ok t1" "route t1 = route t"
    "\<forall>c. received t1 c = received t c @ (if route t (fst p) = Some c then [snd p] else [])"
    using send_received [of t "snd p" "fst p"] by auto
  from Cons.IH [OF t1(2)] Cons.prems(2) obtain t' where "fold_outcome (\<lambda>p. send (fst p) (snd p)) ms t1 = (t', None)" "ok t'"
    "route t' = route t1" "\<forall>c. received t' c = received t1 c @ pushed t1 c ms" by auto
  with t1 show ?case by (auto simp: pushed_def)
qed

end

end
