(* ===== verification/Grpc_Transport.thy ===== *)
theory Grpc_Transport
  imports Transport_Interface
begin

text \<open>
  \<^verbatim>\<open>grpcapi/src/GrpcTransportServer.cpp\<close> and \<^verbatim>\<open>grpcapi/src/GrpcTransportClient.cpp\<close>: the conversion
  between application messages and the messages of \<^verbatim>\<open>grpcapi/proto/rating.proto\<close>, and the routing of
  users to streams. The generated classes are modelled by the proto file: a \<^verbatim>\<open>oneof\<close> is a datatype with
  a constructor for the unset case. What a stream accepts on the wire belongs to gRPC; the model keeps
  the events the code hands to \<^verbatim>\<open>Write\<close>, whose result the code only logs.
\<close>

section \<open>The messages of the proto file\<close>

datatype client_event =
    PayloadNotSet
  | CUserRegistered user_identifier string
  | CUserRenamed user_identifier string
  | CUserConnected user_identifier
  | CUserDisconnected user_identifier
  | CUserDealWon user_identifier u64 f32

record rpc_user_position =
  rp_user_id :: u64
  rp_user_name :: string
  rp_position :: u64
  rp_amount :: f32

record rpc_user_relative_rating =
  rr_user_position :: rpc_user_position
  rr_head_positions :: "rpc_user_position list"
  rr_high_positions :: "rpc_user_position list"
  rr_low_positions :: "rpc_user_position list"

type_synonym server_event = "rpc_user_relative_rating option"

section \<open>Conversions of the server\<close>

fun extractUserId :: "client_event \<Rightarrow> user_identifier" where
  "extractUserId (CUserRegistered u n) = u"
| "extractUserId (CUserRenamed u n) = u"
| "extractUserId (CUserConnected u) = u"
| "extractUserId (CUserDisconnected u) = u"
| "extractUserId (CUserDealWon u t a) = u"
| "extractUserId PayloadNotSet = 0"

fun parseClientEvent :: "client_event \<Rightarrow> base_message option" where
  "parseClientEvent (CUserRegistered u n) =
     Some \<lparr>msg_type = UserRegistered, msg_data = PUserInformation \<lparr>ui_id = u, ui_name = n\<rparr>\<rparr>"
| "parseClientEvent (CUserRenamed u n) =
     Some \<lparr>msg_type = UserRenamed, msg_data = PUserInformation \<lparr>ui_id = u, ui_name = n\<rparr>\<rparr>"
| "parseClientEvent (CUserConnected u) =
     Some \<lparr>msg_type = UserConnected, msg_data = PUserIdInformation \<lparr>uid_id = u\<rparr>\<rparr>"
| "parseClientEvent (CUserDisconnected u) =
     Some \<lparr>msg_type = UserDisconnected, msg_data = PUserIdInformation \<lparr>uid_id = u\<rparr>\<rparr>"
| "parseClientEvent (CUserDealWon u t a) =
     Some \<lparr>msg_type = UserDealWon, msg_data = PDealInformation \<lparr>di_userId = u, di_timestamp = t, di_amount = a\<rparr>\<rparr>"
| "parseClientEvent PayloadNotSet = None"

definition fillRpcPosition :: "user_position \<Rightarrow> rpc_user_position" where
  "fillRpcPosition pos =
     \<lparr>rp_user_id = ui_id (up_userInformation pos), rp_user_name = ui_name (up_userInformation pos),
      rp_position = up_position pos, rp_amount = up_amount pos\<rparr>"

definition toServerEvent :: "base_message \<Rightarrow> server_event" where
  "toServerEvent message =
     (if msg_type message \<noteq> UserRelativeRating then None
      else case msg_data message of
        PUserRelativeRating rating \<Rightarrow>
          Some \<lparr>rr_user_position = fillRpcPosition (ur_userPosition rating),
                rr_head_positions = map fillRpcPosition (ur_headPositions rating),
                rr_high_positions = map fillRpcPosition (ur_highPositions rating),
                rr_low_positions = map fillRpcPosition (ur_lowPositions rating)\<rparr>
      | _ \<Rightarrow> None)"

section \<open>Conversions of the client\<close>

definition toClientEvent :: "base_message \<Rightarrow> client_event result" where
  "toClientEvent message =
     (case msg_type message of
        UserRegistered \<Rightarrow> bindr (as_user_information message) (\<lambda>d. Inr (CUserRegistered (ui_id d) (ui_name d)))
      | UserRenamed \<Rightarrow> bindr (as_user_information message) (\<lambda>d. Inr (CUserRenamed (ui_id d) (ui_name d)))
      | UserConnected \<Rightarrow> bindr (as_user_id_information message) (\<lambda>d. Inr (CUserConnected (uid_id d)))
      | UserDisconnected \<Rightarrow> bindr (as_user_id_information message) (\<lambda>d. Inr (CUserDisconnected (uid_id d)))
      | UserDealWon \<Rightarrow> bindr (as_deal_information message)
          (\<lambda>d. Inr (CUserDealWon (di_userId d) (di_timestamp d) (di_amount d)))
      | _ \<Rightarrow> Inr PayloadNotSet)"

definition fromRpcPosition :: "rpc_user_position \<Rightarrow> user_position" where
  "fromRpcPosition p = \<lparr>up_userInformation = \<lparr>ui_id = rp_user_id p, ui_name = rp_user_name p\<rparr>,
     up_position = rp_position p, up_amount = rp_amount p\<rparr>"

definition fromServerEvent :: "server_event \<Rightarrow> base_message option" where
  "fromServerEvent event =
     (case event of
        None \<Rightarrow> None
      | Some r \<Rightarrow> Some \<lparr>msg_type = UserRelativeRating, msg_data = PUserRelativeRating
          \<lparr>ur_userPosition = fromRpcPosition (rr_user_position r),
           ur_headPositions = map fromRpcPosition (rr_head_positions r),
           ur_highPositions = map fromRpcPosition (rr_high_positions r),
           ur_lowPositions = map fromRpcPosition (rr_low_positions r)\<rparr>\<rparr>)"

text \<open>\<^verbatim>\<open>sendMessage\<close> of the client, on the events written to its stream so far.\<close>

definition client_sendMessage :: "base_message \<Rightarrow> client_event list \<Rightarrow> client_event list result" where
  "client_sendMessage message written =
     bindr (toClientEvent message) (\<lambda>event.
       if event = PayloadNotSet then Inr written else Inr (written @ [event]))"

text \<open>The receive thread of the client: what the handler is given for an event.\<close>

definition client_received :: "server_event list \<Rightarrow> base_message list" where
  "client_received events = List.map_filter fromServerEvent events"

section \<open>The server\<close>

text \<open>
  A stream is identified by its address. There is one handle per stream, made by the first event of
  its session, so the handle of a stream is that address too. \<open>sessions\<close> holds the local variable
  \<^verbatim>\<open>sessionUsers\<close> of every running call of \<^verbatim>\<open>Connect\<close>.
\<close>

type_synonym stream_id = nat

record grpc_server =
  streamHandles :: "stream_id set"
  userToHandle :: "user_identifier \<rightharpoonup> stream_id"
  sessions :: "stream_id \<rightharpoonup> user_identifier set"
  written :: "(stream_id \<times> server_event) list"

definition new_grpc_server :: grpc_server where
  "new_grpc_server = \<lparr>streamHandles = {}, userToHandle = Map.empty, sessions = Map.empty, written = []\<rparr>"

text \<open>The three parts of \<^verbatim>\<open>Connect\<close>: the start of the call, one turn of its loop (the caller passes the
  parsed message to the handler), and the cleanup after the loop.\<close>

definition connect_begin :: "stream_id \<Rightarrow> grpc_server \<Rightarrow> grpc_server" where
  "connect_begin stream t = t\<lparr>sessions := (sessions t)(stream \<mapsto> {})\<rparr>"

definition connect_event :: "stream_id \<Rightarrow> client_event \<Rightarrow> grpc_server \<Rightarrow> grpc_server \<times> base_message option" where
  "connect_event stream event t =
     (let userId = extractUserId event
      in (t\<lparr>streamHandles := insert stream (streamHandles t),
            userToHandle := (userToHandle t)(userId \<mapsto> stream),
            sessions := (sessions t)(stream := map_option (insert userId) (sessions t stream))\<rparr>,
          parseClientEvent event))"

definition connect_end :: "stream_id \<Rightarrow> grpc_server \<Rightarrow> grpc_server" where
  "connect_end stream t =
     (let sessionUsers = (case sessions t stream of None \<Rightarrow> {} | Some us \<Rightarrow> us)
      in t\<lparr>userToHandle := (userToHandle t) |` (- sessionUsers),
           streamHandles := streamHandles t - {stream},
           sessions := (sessions t)(stream := None)\<rparr>)"

definition grpc_sendToUser :: "user_identifier \<Rightarrow> base_message \<Rightarrow> grpc_server \<Rightarrow> grpc_server outcome" where
  "grpc_sendToUser userId message t =
     (case userToHandle t userId of
        None \<Rightarrow> (t, None)
      | Some handle \<Rightarrow>
          (let ev = toServerEvent message
           in if ev = None then (t, None) else (t\<lparr>written := written t @ [(handle, ev)]\<rparr>, None)))"

lemmas grpc_defs [component_defs] =
  fillRpcPosition_def toServerEvent_def toClientEvent_def fromRpcPosition_def fromServerEvent_def
  new_grpc_server_def connect_begin_def connect_event_def connect_end_def grpc_sendToUser_def

section \<open>The contract\<close>

definition grpc_received :: "grpc_server \<Rightarrow> stream_id \<Rightarrow> base_message list" where
  "grpc_received t stream = client_received (map snd (filter (\<lambda>p. fst p = stream) (written t)))"

definition is_rating :: "base_message \<Rightarrow> bool" where
  "is_rating m \<longleftrightarrow> well_typed m \<and> msg_type m = UserRelativeRating"

lemma position_roundtrip [simp]: "fromRpcPosition (fillRpcPosition p) = p"
  by (simp add: fromRpcPosition_def fillRpcPosition_def)

lemma rating_roundtrip:
  assumes "is_rating m"
  shows "fromServerEvent (toServerEvent m) = Some m"
proof -
  have "well_typed m" using assms unfolding is_rating_def by blast
  then obtain r where "m = \<lparr>msg_type = UserRelativeRating, msg_data = PUserRelativeRating r\<rparr>"
  proof (cases rule: well_typed_cases)
    case (rating d)
    then show ?thesis by (intro that [of d]) (cases m, simp)
  qed (use assms in \<open>auto simp: is_rating_def\<close>)
  then show ?thesis by (simp add: toServerEvent_def fromServerEvent_def comp_def)
qed

lemma client_received_append: "client_received (es @ [e]) =
    client_received es @ (case fromServerEvent e of None \<Rightarrow> [] | Some m \<Rightarrow> [m])"
  by (simp add: client_received_def map_filter_def split: option.split)

interpretation grpc: transport_server grpc_sendToUser userToHandle grpc_received is_rating "\<lambda>t. True"
proof unfold_locales
  show "grpc_sendToUser k m t = (t, None)" if "userToHandle t k = None" for t k m
    using that by (simp add: grpc_sendToUser_def)
  show "\<exists>t'. grpc_sendToUser k m t = (t', None) \<and> True \<and> userToHandle t' = userToHandle t \<and>
      grpc_received t' = (grpc_received t)(c := grpc_received t c @ [m])"
    if "userToHandle t k = Some c" "is_rating m" for t k c m
  proof -
    from rating_roundtrip [OF that(2)] have "toServerEvent m \<noteq> None" by (auto simp: fromServerEvent_def split: option.splits)
    with that rating_roundtrip [OF that(2)] show ?thesis
      by (auto simp: grpc_sendToUser_def Let_def grpc_received_def fun_eq_iff client_received_append)
  qed
qed

lemma grpc_send_total: "\<exists>t'. grpc_sendToUser k m t = (t', None)"
  by (simp add: grpc_sendToUser_def Let_def split: option.split)

section \<open>Runs of the server\<close>

datatype grpc_event =
    Opened stream_id
  | EventRead stream_id client_event
  | Closed stream_id
  | Pushed user_identifier base_message

inductive grpc_step :: "grpc_server \<Rightarrow> grpc_event \<Rightarrow> grpc_server \<Rightarrow> bool" where
  opened: "sessions t stream = None \<Longrightarrow> grpc_step t (Opened stream) (connect_begin stream t)"
| event_read: "sessions t stream \<noteq> None \<Longrightarrow> grpc_step t (EventRead stream ev) (fst (connect_event stream ev t))"
| closed: "sessions t stream \<noteq> None \<Longrightarrow> grpc_step t (Closed stream) (connect_end stream t)"
| pushed: "grpc_sendToUser k m t = (t', None) \<Longrightarrow> grpc_step t (Pushed k m) t'"

inductive grpc_reachable :: "grpc_server \<Rightarrow> bool" where
  initial: "grpc_reachable new_grpc_server"
| stepped: "grpc_reachable t \<Longrightarrow> grpc_step t e t' \<Longrightarrow> grpc_reachable t'"

definition routes_live :: "grpc_server \<Rightarrow> bool" where
  "routes_live t \<longleftrightarrow> (\<forall>k stream. userToHandle t k = Some stream \<longrightarrow>
     stream \<in> streamHandles t \<and> (\<exists>us. sessions t stream = Some us \<and> k \<in> us))"

lemma grpc_send_state:
  "grpc_sendToUser k m t = (t', None) \<Longrightarrow> userToHandle t' = userToHandle t \<and> streamHandles t' = streamHandles t \<and>
    sessions t' = sessions t"
  by (auto simp: grpc_sendToUser_def Let_def split: option.splits if_splits)

lemma routes_live_begin: "routes_live t \<Longrightarrow> sessions t stream = None \<Longrightarrow> routes_live (connect_begin stream t)"
  by (fastforce simp: routes_live_def connect_begin_def)

lemma routes_live_event:
  "routes_live t \<Longrightarrow> sessions t stream \<noteq> None \<Longrightarrow> routes_live (fst (connect_event stream ev t))"
  by (fastforce simp: routes_live_def connect_event_def Let_def)

lemma routes_live_end: "routes_live t \<Longrightarrow> routes_live (connect_end stream t)"
  by (fastforce simp: routes_live_def connect_end_def Let_def restrict_map_def split: if_splits)

lemma routes_live_step: "grpc_step t e t' \<Longrightarrow> routes_live t \<Longrightarrow> routes_live t'"
proof (induction rule: grpc_step.induct)
  case (pushed k m t t')
  then show ?case by (simp add: routes_live_def grpc_send_state)
qed (simp_all only: routes_live_begin routes_live_event routes_live_end not_False_eq_True)

lemma reachable_routes_live: "grpc_reachable t \<Longrightarrow> routes_live t"
  by (induction rule: grpc_reachable.induct) (simp add: routes_live_def new_grpc_server_def, rule routes_live_step)

section \<open>Properties\<close>

text \<open>An application message survives the gRPC client and server: what \<^verbatim>\<open>toClientEvent\<close> writes,
  \<^verbatim>\<open>parseClientEvent\<close> turns back into the same message, for every message a client may send, and the
  user it is attributed to is the user it is about.\<close>

theorem client_event_roundtrip:
  assumes "well_typed m" and "msg_type m \<noteq> UserRelativeRating"
  shows "\<exists>ev. toClientEvent m = Inr ev \<and> parseClientEvent ev = Some m \<and>
    extractUserId ev = (case msg_data m of
      PUserInformation d \<Rightarrow> ui_id d | PUserIdInformation d \<Rightarrow> uid_id d
    | PDealInformation d \<Rightarrow> di_userId d | PUserRelativeRating r \<Rightarrow> 0)"
proof -
  obtain t d where m: "m = \<lparr>msg_type = t, msg_data = d\<rparr>" by (cases m)
  show ?thesis using assms(1) by (cases rule: well_typed_cases) (use m assms(2) in \<open>auto simp: toClientEvent_def\<close>)
qed

theorem client_event_roundtrip_witness:
  "\<exists>ev. toClientEvent \<lparr>msg_type = UserRenamed, msg_data = PUserInformation \<lparr>ui_id = 7, ui_name = ''x''\<rparr>\<rparr> = Inr ev \<and>
    parseClientEvent ev = Some \<lparr>msg_type = UserRenamed, msg_data = PUserInformation \<lparr>ui_id = 7, ui_name = ''x''\<rparr>\<rparr>"
  using client_event_roundtrip [of "\<lparr>msg_type = UserRenamed, msg_data = PUserInformation \<lparr>ui_id = 7, ui_name = ''x''\<rparr>\<rparr>"]
  by auto

text \<open>A sequence of ratings pushed over gRPC reaches, for every stream, exactly the messages
  addressed to users routed to that stream, decoded by the client to the messages sent, in order and
  behind what the stream got before.\<close>

theorem grpc_pushes_arrive:
  assumes "\<forall>p \<in> set ms. is_rating (snd p)"
  shows "\<exists>t'. fold_outcome (\<lambda>p. grpc_sendToUser (fst p) (snd p)) ms t = (t', None) \<and>
    userToHandle t' = userToHandle t \<and>
    (\<forall>stream. grpc_received t' stream = grpc_received t stream @
       map snd (filter (\<lambda>p. userToHandle t (fst p) = Some stream) ms))"
  using grpc.send_all [where t = t and ms = ms] assms by (simp add: grpc.pushed_def)

definition example_rating :: base_message where
  "example_rating = \<lparr>msg_type = UserRelativeRating, msg_data = PUserRelativeRating
     \<lparr>ur_userPosition = \<lparr>up_userInformation = \<lparr>ui_id = 7, ui_name = ''x''\<rparr>, up_position = 0, up_amount = 0x3F800000\<rparr>,
      ur_headPositions = [], ur_highPositions = [], ur_lowPositions = []\<rparr>\<rparr>"

theorem grpc_pushes_arrive_witness:
  "\<exists>t'. fold_outcome (\<lambda>p. grpc_sendToUser (fst p) (snd p)) [(7, example_rating), (8, example_rating), (9, example_rating)]
      (new_grpc_server\<lparr>userToHandle := [7 \<mapsto> 1, 8 \<mapsto> 2]\<rparr>) = (t', None) \<and>
    grpc_received t' 1 = [example_rating]"
proof -
  have "\<forall>p \<in> set [(7, example_rating), (8, example_rating), (9, example_rating)]. is_rating (snd p)"
    by (simp add: is_rating_def example_rating_def)
  from grpc_pushes_arrive [OF this, of "new_grpc_server\<lparr>userToHandle := [7 \<mapsto> 1, 8 \<mapsto> 2]\<rparr>"] show ?thesis
    by (auto simp: grpc_received_def new_grpc_server_def client_received_def map_filter_def)
qed

text \<open>C18. No route of a reachable gRPC server dangles: the stream a user is routed to has a running
  session that the user belongs to, whatever order of sessions, events and pushes led there.\<close>

theorem grpc_routes_live:
  assumes "grpc_reachable t" and "userToHandle t k = Some stream"
  shows "stream \<in> streamHandles t \<and> (\<exists>us. sessions t stream = Some us \<and> k \<in> us)"
  using reachable_routes_live [OF assms(1)] assms(2) by (simp add: routes_live_def)

theorem grpc_routes_live_witness:
  "\<exists>t. grpc_reachable t \<and> userToHandle t 7 = Some 1 \<and> sessions t 1 \<noteq> None"
proof -
  let ?t = "fst (connect_event 1 (CUserConnected 7) (connect_begin 1 new_grpc_server))"
  have "grpc_reachable ?t"
    by (rule stepped [OF stepped [OF initial opened] event_read]) (simp_all add: new_grpc_server_def connect_begin_def)
  moreover have "userToHandle ?t 7 = Some 1" by (simp add: connect_event_def Let_def)
  ultimately show ?thesis using grpc_routes_live [of ?t 7 1] by blast
qed

text \<open>A session that ends takes away the routes of all users it ever saw, also of a user who has
  moved to another stream since: that user stays in a running session, yet nothing pushed to the user
  is written any more.\<close>

theorem grpc_close_unroutes_moved_user:
  assumes "sessions t a = Some us" and "k \<in> us" and "a \<noteq> b" and "sessions t b = Some vs"
    and "extractUserId ev = k"
  shows "let t1 = fst (connect_event b ev t); t2 = connect_end a t1
         in userToHandle t1 k = Some b \<and> sessions t2 b = Some (insert k vs) \<and> grpc_sendToUser k m t2 = (t2, None)"
  using assms by (simp add: connect_event_def connect_end_def grpc_sendToUser_def Let_def)

theorem grpc_close_unroutes_moved_user_witness:
  "let t = connect_begin 2 (fst (connect_event 1 (CUserConnected 7) (connect_begin 1 new_grpc_server)));
       t1 = fst (connect_event 2 (CUserConnected 7) t); t2 = connect_end 1 t1
   in userToHandle t1 7 = Some 2 \<and> sessions t2 2 = Some {7} \<and> grpc_sendToUser 7 example_rating t2 = (t2, None)"
  using grpc_close_unroutes_moved_user
    [of "connect_begin 2 (fst (connect_event 1 (CUserConnected 7) (connect_begin 1 new_grpc_server)))" 1 "{7}" 7 2 "{}"
        "CUserConnected 7" example_rating]
  by (simp add: connect_event_def connect_begin_def new_grpc_server_def Let_def)

text \<open>Every event routes a user, whatever it says: after a user's own disconnection the user is still
  routed to the stream, and an event without a payload routes the user with identifier zero and is
  passed on to nobody.\<close>

theorem grpc_every_event_routes:
  "userToHandle (fst (connect_event stream (CUserDisconnected k) t)) k = Some stream \<and>
   userToHandle (fst (connect_event stream PayloadNotSet t)) 0 = Some stream \<and>
   snd (connect_event stream PayloadNotSet t) = None"
  by (simp add: connect_event_def Let_def)

end
