(* ===== verification/MultiKey_Container.thy ===== *)
theory MultiKey_Container
  imports Core_Types
begin

text \<open>
  \<^verbatim>\<open>core/MultiKeyVolatileContainer.hpp\<close>: values with an access key and a sort key, kept in a hash map by
  access key and in a vector in the order of the comparator. Both hold \<^verbatim>\<open>std::shared_ptr\<close>s to the same
  nodes and an update writes through one of them, so the nodes live in an explicit \<open>heap\<close> and a
  pointer is an index into it. The sort key type, \<^verbatim>\<open>Modify\<close> and \<^verbatim>\<open>Comp\<close> stay parameters, as in the
  template; the access key is \<^verbatim>\<open>UserIdentifier\<close>, the only one it is used with.
\<close>

section \<open>State\<close>

type_synonym ptr = nat

record 's multi_key_data =
  mk_id :: user_identifier
  mk_amount :: 's

record 's container =
  heap :: "'s multi_key_data list"
  sortData :: "ptr list"
  accessData :: "user_identifier \<rightharpoonup> ptr"

record 's positioned_data =
  pd_position :: nat
  pd_value :: "'s multi_key_data"

definition empty_container :: "'s container" where
  "empty_container = \<lparr>heap = [], sortData = [], accessData = Map.empty\<rparr>"

text \<open>\<^verbatim>\<open>clear()\<close>: the vector and the map are emptied; the nodes lose their last owner.\<close>

definition clear :: "'s container \<Rightarrow> 's container" where
  "clear c = c\<lparr>sortData := [], accessData := Map.empty\<rparr>"

definition compPtr ::
  "('s \<Rightarrow> 's \<Rightarrow> bool) \<Rightarrow> 's multi_key_data list \<Rightarrow> ptr \<Rightarrow> ptr \<Rightarrow> bool" where
  "compPtr cmp h lhs rhs = cmp (mk_amount (h ! lhs)) (mk_amount (h ! rhs))"

section \<open>Finding a node\<close>

text \<open>
  The loop behind \<^verbatim>\<open>std::lower_bound\<close> in \<^verbatim>\<open>findInSortContainer\<close>. It reads \<^verbatim>\<open>**iter\<close> before it compares
  \<^verbatim>\<open>iter\<close> with \<^verbatim>\<open>cend()\<close>, so running past the last element dereferences the end iterator: the
  exception of the loop body is never reached in a defined execution.
\<close>

function scan_for_key ::
  "'s multi_key_data list \<Rightarrow> ptr list \<Rightarrow> user_identifier \<Rightarrow> nat \<Rightarrow> nat result" where
  "scan_for_key h xs k i =
     (if i < length xs
      then (if mk_id (h ! (xs ! i)) \<noteq> k then scan_for_key h xs k (Suc i) else Inr i)
      else Inl UndefinedBehaviour)"
  by pat_completeness auto
termination
  by (relation "measure (\<lambda>(h, xs, k, i). length xs - i)") auto

declare scan_for_key.simps [simp del]

definition findInSortContainer_ptr ::
  "('s \<Rightarrow> 's \<Rightarrow> bool) \<Rightarrow> 's container \<Rightarrow> ptr \<Rightarrow> nat result" where
  "findInSortContainer_ptr cmp c p =
     scan_for_key (heap c) (sortData c) (mk_id (heap c ! p))
       (lower_bound (\<lambda>q. compPtr cmp (heap c) q p) (sortData c))"

definition findInSortContainer_key ::
  "('s \<Rightarrow> 's \<Rightarrow> bool) \<Rightarrow> 's container \<Rightarrow> user_identifier \<Rightarrow> nat result" where
  "findInSortContainer_key cmp c key =
     (case accessData c key of
        None \<Rightarrow> Inl (base_exception
          (''Item with access key '' @ quoted (show_word key) @ '' is not present in access container.''))
      | Some p \<Rightarrow> findInSortContainer_ptr cmp c p)"

definition getSortNode ::
  "('s \<Rightarrow> 's \<Rightarrow> bool) \<Rightarrow> 's container \<Rightarrow> 's multi_key_data \<Rightarrow> nat result" where
  "getSortNode cmp c v =
     (case accessData c (mk_id v) of
        None \<Rightarrow> Inl (base_exception (''Item with access key '' @ quoted (show_word (mk_id v)) @
          '' is not present in the access container.''))
      | Some p \<Rightarrow> findInSortContainer_ptr cmp c p)"

section \<open>Insertion and update\<close>

definition insert_value ::
  "('s \<Rightarrow> 's \<Rightarrow> 's) \<Rightarrow> ('s \<Rightarrow> 's \<Rightarrow> bool) \<Rightarrow> 's multi_key_data \<Rightarrow> 's container \<Rightarrow> 's container result" where
  "insert_value modify cmp value c =
     (if accessData c (mk_id value) \<noteq> None
      then bindr (getSortNode cmp c value) (\<lambda>i.
        let p = sortData c ! i;
            oldValue = mk_amount (heap c ! p);
            newValue = modify oldValue (mk_amount value);
            h = (heap c)[p := (heap c ! p)\<lparr>mk_amount := newValue\<rparr>]
        in if cmp newValue oldValue
           then Inr (c\<lparr>heap := h, sortData := move_left (compPtr cmp h) (sortData c) i\<rparr>)
           else Inr (c\<lparr>heap := h, sortData := move_right (compPtr cmp h) (sortData c) i\<rparr>))
      else
        let valuePtr = length (heap c);
            h = heap c @ [value];
            iter = lower_bound (\<lambda>q. compPtr cmp h q valuePtr) (sortData c)
        in Inr \<lparr>heap = h,
                sortData = take iter (sortData c) @ valuePtr # drop iter (sortData c),
                accessData = (accessData c)(mk_id value \<mapsto> valuePtr)\<rparr>)"

section \<open>Queries\<close>

definition positioned :: "'s container \<Rightarrow> nat \<Rightarrow> 's positioned_data" where
  "positioned c i = \<lparr>pd_position = i, pd_value = heap c ! (sortData c ! i)\<rparr>"

definition getPosition ::
  "('s \<Rightarrow> 's \<Rightarrow> bool) \<Rightarrow> user_identifier \<Rightarrow> 's container \<Rightarrow> 's positioned_data result" where
  "getPosition cmp key c = bindr (findInSortContainer_key cmp c key) (\<lambda>i. Inr (positioned c i))"

definition getHeadPositions :: "nat \<Rightarrow> 's container \<Rightarrow> 's positioned_data list" where
  "getHeadPositions nPositions c = map (positioned c) [0..<min nPositions (length (sortData c))]"

definition getHighPositions ::
  "('s \<Rightarrow> 's \<Rightarrow> bool) \<Rightarrow> user_identifier \<Rightarrow> nat \<Rightarrow> 's container \<Rightarrow> 's positioned_data list result" where
  "getHighPositions cmp key nPositions c =
     bindr (findInSortContainer_key cmp c key) (\<lambda>position.
       let beginIter = (if nPositions \<le> position then position - nPositions else 0)
       in Inr (map (positioned c) [beginIter..<position]))"

text \<open>The positions a loop \<^verbatim>\<open>for (iter = i; iter != endIter && iter != end(); ++iter)\<close> visits.\<close>

function iterate_until :: "nat \<Rightarrow> nat \<Rightarrow> nat \<Rightarrow> nat list" where
  "iterate_until i endIter n =
     (if i \<noteq> endIter \<and> i < n then i # iterate_until (Suc i) endIter n else [])"
  by pat_completeness auto
termination
  by (relation "measure (\<lambda>(i, endIter, n). n - i)") auto

declare iterate_until.simps [simp del]

definition getLowPositions ::
  "('s \<Rightarrow> 's \<Rightarrow> bool) \<Rightarrow> user_identifier \<Rightarrow> nat \<Rightarrow> 's container \<Rightarrow> 's positioned_data list result" where
  "getLowPositions cmp key nPositions c =
     bindr (findInSortContainer_key cmp c key) (\<lambda>i.
       let size = length (sortData c);
           positionFromEnd = (size - 1) - i;
           endIter = (if nPositions \<le> positionFromEnd then i + 1 + nPositions else size - 1)
       in Inr (map (positioned c) (iterate_until (i + 1) endIter size)))"

definition isPresent :: "user_identifier \<Rightarrow> 's container \<Rightarrow> bool" where
  "isPresent key c \<longleftrightarrow> accessData c key \<noteq> None"

lemmas container_defs [component_defs] =
  empty_container_def clear_def compPtr_def findInSortContainer_ptr_def findInSortContainer_key_def
  getSortNode_def insert_value_def positioned_def getPosition_def getHeadPositions_def
  getHighPositions_def getLowPositions_def isPresent_def lower_bound_def swap_at_def

lemmas container_loops = scan_for_key.simps lower_bound_loop.simps move_right.simps iterate_until.simps

section \<open>Views of the state and the invariant\<close>

text \<open>The ranking: the values in the order of the vector.\<close>

definition table :: "'s container \<Rightarrow> 's multi_key_data list" where
  "table c = map ((!) (heap c)) (sortData c)"

text \<open>The rating map: what the hash map says of a key, read through its pointer.\<close>

definition rating_of :: "'s container \<Rightarrow> user_identifier \<rightharpoonup> 's" where
  "rating_of c k = map_option (\<lambda>p. mk_amount (heap c ! p)) (accessData c k)"

text \<open>Vector and map point to the same nodes, one node per key.\<close>

definition well_linked :: "'s container \<Rightarrow> bool" where
  "well_linked c \<longleftrightarrow> distinct (sortData c) \<and> (\<forall>p \<in> set (sortData c). p < length (heap c)) \<and>
     (\<forall>k p. accessData c k = Some p \<longleftrightarrow> p \<in> set (sortData c) \<and> mk_id (heap c ! p) = k)"

definition amount_at :: "'s container \<Rightarrow> ptr \<Rightarrow> 's" where
  "amount_at c p = mk_amount (heap c ! p)"

definition container_inv :: "('s \<Rightarrow> bool) \<Rightarrow> ('s \<Rightarrow> 's \<Rightarrow> bool) \<Rightarrow> 's container \<Rightarrow> bool" where
  "container_inv ok cmp c \<longleftrightarrow> well_linked c \<and> (\<forall>v \<in> set (table c). ok (mk_amount v)) \<and>
     sorted_wrt (\<lambda>x y. \<not> cmp (mk_amount y) (mk_amount x)) (table c)"

section \<open>The abstract ranking\<close>

text \<open>
  What a rating table promises, on a plain list of values: a key enters (or re-enters, when its
  amount changes) behind the greater amounts and before the equal ones; an update that leaves the
  amount as it is, as far as the comparator can tell, keeps the place.
\<close>

definition rank_in ::
  "('s \<Rightarrow> 's \<Rightarrow> bool) \<Rightarrow> 's multi_key_data \<Rightarrow> 's multi_key_data list \<Rightarrow> 's multi_key_data list" where
  "rank_in cmp v xs = filter (\<lambda>w. cmp (mk_amount w) (mk_amount v)) xs @ v #
     filter (\<lambda>w. \<not> cmp (mk_amount w) (mk_amount v)) xs"

definition spec_insert ::
  "('s \<Rightarrow> 's \<Rightarrow> 's) \<Rightarrow> ('s \<Rightarrow> 's \<Rightarrow> bool) \<Rightarrow> 's multi_key_data \<Rightarrow> 's multi_key_data list
    \<Rightarrow> 's multi_key_data list" where
  "spec_insert modify cmp v xs =
     (case find (\<lambda>w. mk_id w = mk_id v) xs of
        None \<Rightarrow> rank_in cmp v xs
      | Some w \<Rightarrow>
          let new = w\<lparr>mk_amount := modify (mk_amount w) (mk_amount v)\<rparr>
          in if cmp (mk_amount new) (mk_amount w) \<or> cmp (mk_amount w) (mk_amount new)
             then rank_in cmp new (filter (\<lambda>u. mk_id u \<noteq> mk_id v) xs)
             else map (\<lambda>u. if mk_id u = mk_id v then new else u) xs)"

definition rank_of :: "user_identifier \<Rightarrow> 's multi_key_data list \<Rightarrow> nat" where
  "rank_of k xs = length (takeWhile (\<lambda>w. mk_id w \<noteq> k) xs)"

definition enumerated :: "nat \<Rightarrow> 's multi_key_data list \<Rightarrow> 's positioned_data list" where
  "enumerated i xs = map2 (\<lambda>p v. \<lparr>pd_position = p, pd_value = v\<rparr>) [i..<i + length xs] xs"

section \<open>Links\<close>

lemma length_table [simp]: "length (table c) = length (sortData c)"
  by (simp add: table_def)

lemma table_nth: "i < length (sortData c) \<Longrightarrow> table c ! i = heap c ! (sortData c ! i)"
  by (simp add: table_def)

lemma well_linked_mem:
  "well_linked c \<Longrightarrow> accessData c k = Some p \<Longrightarrow> p \<in> set (sortData c) \<and> p < length (heap c) \<and> mk_id (heap c ! p) = k"
  by (auto simp: well_linked_def)

lemma well_linked_id_inj:
  assumes "well_linked c" and "p \<in> set (sortData c)" "q \<in> set (sortData c)"
    and "mk_id (heap c ! p) = mk_id (heap c ! q)"
  shows "p = q"
proof -
  from assms have "accessData c (mk_id (heap c ! q)) = Some p" "accessData c (mk_id (heap c ! q)) = Some q"
    by (auto simp: well_linked_def)
  then show ?thesis by simp
qed

lemma table_distinct_ids:
  assumes "well_linked c"
  shows "distinct (map mk_id (table c))"
proof -
  have "inj_on (\<lambda>p. mk_id (heap c ! p)) (set (sortData c))"
    using well_linked_id_inj [OF assms] by (auto simp: inj_on_def)
  then show ?thesis
    using assms by (simp add: table_def distinct_map well_linked_def comp_def)
qed

lemma multi_key_data_eq: "\<lparr>mk_id = k, mk_amount = a\<rparr> = v \<longleftrightarrow> mk_id v = k \<and> mk_amount v = a"
  by (cases v) auto

lemma rating_of_iff:
  assumes "well_linked c"
  shows "rating_of c k = Some a \<longleftrightarrow> \<lparr>mk_id = k, mk_amount = a\<rparr> \<in> set (table c)"
proof -
  have "accessData c k = Some p \<longleftrightarrow> p \<in> set (sortData c) \<and> mk_id (heap c ! p) = k" for p
    using assms by (simp add: well_linked_def)
  then show ?thesis
    by (auto simp: rating_of_def table_def image_iff multi_key_data_eq)
qed

lemma present_iff:
  "well_linked c \<Longrightarrow> accessData c k \<noteq> None \<longleftrightarrow> k \<in> mk_id ` set (table c)"
  by (force simp: well_linked_def table_def)

lemma scan_for_key_found:
  assumes "j \<le> i" and "i < length xs" and "mk_id (h ! (xs ! i)) = k"
    and "\<And>l. j \<le> l \<Longrightarrow> l < i \<Longrightarrow> mk_id (h ! (xs ! l)) \<noteq> k"
  shows "scan_for_key h xs k j = Inr i"
  using assms
proof (induction h xs k j rule: scan_for_key.induct)
  case (1 h xs k j)
  show ?case
  proof (cases "j = i")
    case True
    with "1.prems" show ?thesis by (simp add: scan_for_key.simps)
  next
    case False
    with "1.prems" have "j < length xs" "mk_id (h ! (xs ! j)) \<noteq> k" "Suc j \<le> i" by auto
    with 1 show ?thesis by (simp add: scan_for_key.simps [of h xs k j])
  qed
qed

lemma lower_bound_loop_cong:
  assumes "\<And>i. i < first + len \<Longrightarrow> b i = b' i"
  shows "lower_bound_loop b first len = lower_bound_loop b' first len"
  using assms
proof (induction b first len rule: lower_bound_loop.induct)
  case (1 b first len)
  show ?case
  proof (cases "len = 0")
    case True
    then show ?thesis by (simp add: lower_bound_loop.simps)
  next
    case False
    let ?mid = "first + len div 2"
    have mid: "b ?mid = b' ?mid" using "1.prems" False by simp
    have "lower_bound_loop b (?mid + 1) (len - len div 2 - 1) = lower_bound_loop b' (?mid + 1) (len - len div 2 - 1)"
      if "b ?mid" using False that by (intro "1.IH"(1)) (simp_all add: "1.prems")
    moreover have "lower_bound_loop b first (len div 2) = lower_bound_loop b' first (len div 2)"
      if "\<not> b ?mid" using False that by (intro "1.IH"(2)) (simp_all add: "1.prems")
    ultimately show ?thesis
      using False mid
      by (subst lower_bound_loop.simps, subst (2) lower_bound_loop.simps) simp
  qed
qed

lemma lower_bound_cong:
  assumes "\<And>x. x \<in> set xs \<Longrightarrow> b x = b' x"
  shows "lower_bound b xs = lower_bound b' xs"
  unfolding lower_bound_def by (rule lower_bound_loop_cong) (use assms in auto)

lemma rank_of_nth:
  assumes "distinct (map mk_id xs)" and "i < length xs" and "mk_id (xs ! i) = k"
  shows "rank_of k xs = i"
proof -
  have "takeWhile (\<lambda>w. mk_id w \<noteq> k) xs = take i xs"
    using assms by (intro takeWhile_eq_take_P_nth) (auto simp: distinct_conv_nth)
  then show ?thesis using assms(2) by (simp add: rank_of_def)
qed

lemma rank_of_less: "k \<in> mk_id ` set xs \<Longrightarrow> rank_of k xs < length xs \<and> mk_id (xs ! rank_of k xs) = k"
proof (induction xs)
  case Nil
  then show ?case by simp
next
  case (Cons x xs)
  then show ?case by (cases "mk_id x = k") (auto simp: rank_of_def)
qed

lemma enumerated_positioned:
  assumes "j \<le> length (sortData c)"
  shows "map (positioned c) [i..<j] = enumerated i (drop i (take j (table c)))"
  using assms
  by (intro nth_equalityI) (auto simp: enumerated_def positioned_def table_nth)

lemma iterate_until_upt:
  "iterate_until i e n = (if i \<le> e then [i..<min e n] else [i..<n])"
proof (induction i e n rule: iterate_until.induct)
  case (1 i e n)
  show ?case
  proof (cases "i \<noteq> e \<and> i < n")
    case True
    with 1 have "iterate_until i e n = i # (if Suc i \<le> e then [Suc i..<min e n] else [Suc i..<n])"
      by (simp add: iterate_until.simps [of i e n])
    with True show ?thesis by (auto simp: upt_conv_Cons)
  next
    case False
    then show ?thesis by (auto simp: iterate_until.simps [of i e n])
  qed
qed

lemma find_table:
  assumes "well_linked c"
  shows "find (\<lambda>w. mk_id w = k) (table c) =
    map_option (\<lambda>a. \<lparr>mk_id = k, mk_amount = a\<rparr>) (rating_of c k)"
proof (cases "rating_of c k")
  case None
  then have "accessData c k = None" by (simp add: rating_of_def)
  with present_iff [OF assms, of k] None show ?thesis
    by (auto simp: find_None_iff)
next
  case (Some a)
  with rating_of_iff [OF assms] have mem: "\<lparr>mk_id = k, mk_amount = a\<rparr> \<in> set (table c)" by simp
  then obtain w where w: "find (\<lambda>w. mk_id w = k) (table c) = Some w"
    by (cases "find (\<lambda>w. mk_id w = k) (table c)") (auto simp: find_None_iff)
  then have "w \<in> set (table c)" "mk_id w = k" by (auto simp: find_Some_iff)
  moreover have inj: "inj_on mk_id (set (table c))"
    using table_distinct_ids [OF assms] by (simp add: distinct_map)
  ultimately have "w = \<lparr>mk_id = k, mk_amount = a\<rparr>"
    using mem by (intro inj_onD [OF inj]) simp_all
  with w Some show ?thesis by simp
qed

text \<open>The amount a key has after an insertion.\<close>

definition new_amount ::
  "('s \<Rightarrow> 's \<Rightarrow> 's) \<Rightarrow> 's multi_key_data \<Rightarrow> 's container \<Rightarrow> 's" where
  "new_amount modify v c =
     (case rating_of c (mk_id v) of None \<Rightarrow> mk_amount v | Some a \<Rightarrow> modify a (mk_amount v))"

section \<open>Writing through a pointer\<close>

text \<open>The heap after the node of key \<open>k\<close>, reached through its pointer \<open>p\<close>, got the amount \<open>a\<close>.\<close>

definition written :: "'s container \<Rightarrow> ptr \<Rightarrow> user_identifier \<Rightarrow> 's \<Rightarrow> 's multi_key_data list" where
  "written c p k a = (heap c)[p := \<lparr>mk_id = k, mk_amount = a\<rparr>]"

lemma pick_id:
  assumes "well_linked c" and "accessData c k = Some p" and "q \<in> set (sortData c)"
  shows "mk_id (heap c ! q) = k \<longleftrightarrow> q = p"
  using assms well_linked_mem well_linked_id_inj by metis

lemma written_node:
  assumes "well_linked c" and "accessData c k = Some p"
  shows "written c p k a ! p = \<lparr>mk_id = k, mk_amount = a\<rparr>"
    and "q \<noteq> p \<Longrightarrow> written c p k a ! q = heap c ! q"
    and "mk_id (written c p k a ! q) = mk_id (heap c ! q)"
    and "written c p k a = (heap c)[p := (heap c ! p)\<lparr>mk_amount := a\<rparr>]"
  using well_linked_mem [OF assms]
  by (auto simp: written_def nth_list_update multi_key_data_eq intro!: arg_cong [where f = "list_update _ _"])

lemma table_without:
  assumes "well_linked c" and "accessData c k = Some p"
  shows "filter (\<lambda>w. mk_id w \<noteq> k) (table c) = map ((!) (written c p k a)) (filter (\<lambda>q. q \<noteq> p) (sortData c))"
  unfolding table_def filter_map comp_def
  using pick_id [OF assms] written_node(2) [OF assms]
  by (simp cong: filter_cong)

lemma table_written:
  assumes "well_linked c" and "accessData c k = Some p"
  shows "map ((!) (written c p k a)) (sortData c) =
    map (\<lambda>w. if mk_id w = k then \<lparr>mk_id = k, mk_amount = a\<rparr> else w) (table c)"
  using pick_id [OF assms] written_node(1,2) [OF assms] by (auto simp: table_def)

lemma rating_written:
  assumes "well_linked c" and "accessData c k = Some p"
  shows "rating_of (c\<lparr>heap := written c p k a, sortData := sd\<rparr>) = (rating_of c)(k \<mapsto> a)"
proof
  fix j
  have "q \<noteq> p" if "accessData c j = Some q" "j \<noteq> k" for q
    using that well_linked_mem [OF assms(1)] assms(2) by metis
  then show "rating_of (c\<lparr>heap := written c p k a, sortData := sd\<rparr>) j = ((rating_of c)(k \<mapsto> a)) j"
    using assms(2) written_node(1,2) [OF assms]
    by (cases "accessData c j") (auto simp: rating_of_def)
qed

lemma linked_written:
  assumes "well_linked c" and "accessData c k = Some p"
    and "set sd = set (sortData c)" and "distinct sd"
  shows "well_linked (c\<lparr>heap := written c p k a, sortData := sd\<rparr>)"
proof -
  have "mk_id (written c p k a ! q) = mk_id (heap c ! q)" for q
    by (rule written_node(3) [OF assms(1,2)])
  moreover have "length (written c p k a) = length (heap c)" by (simp add: written_def)
  ultimately show ?thesis using assms by (simp add: well_linked_def)
qed

section \<open>Correctness under the comparator's contract\<close>

context ranking_order
begin

lemma inv_iff: "container_inv ok gt c \<longleftrightarrow> well_linked c \<and> ranked (amount_at c) (sortData c)"
  by (simp add: container_inv_def ranked_def table_def sorted_wrt_map amount_at_def)

lemma inv_linked: "container_inv ok gt c \<Longrightarrow> well_linked c"
  by (simp add: container_inv_def)

lemma inv_empty: "container_inv ok gt empty_container"
  by (simp add: container_inv_def well_linked_def empty_container_def table_def)

lemma inv_clear: "container_inv ok gt (clear c)"
  by (simp add: container_inv_def well_linked_def clear_def table_def)

lemma inv_ok: "container_inv ok gt c \<Longrightarrow> accessData c k = Some p \<Longrightarrow> ok (amount_at c p)"
  using well_linked_mem by (auto simp: inv_iff ranked_def)

lemma find_present:
  assumes inv: "container_inv ok gt c" and acc: "accessData c k = Some p"
  obtains i where "i < length (sortData c)" "sortData c ! i = p"
    "findInSortContainer_ptr gt c p = Inr i" "rank_of k (table c) = i"
proof -
  from inv have wl: "well_linked c" and rk: "ranked (amount_at c) (sortData c)"
    by (simp_all add: inv_iff)
  from well_linked_mem [OF wl acc] have mem: "p \<in> set (sortData c)" and id: "mk_id (heap c ! p) = k"
    by auto
  from mem obtain i where i: "i < length (sortData c)" "sortData c ! i = p"
    by (auto simp: in_set_conv_nth)
  have okp: "ok (amount_at c p)" using rk mem by (auto simp: ranked_def)
  let ?P = "\<lambda>q. gt (amount_at c q) (amount_at c p)"
  let ?L = "lower_bound ?P (sortData c)"
  have L: "?L = length (takeWhile ?P (sortData c))"
    by (rule lower_bound_takeWhile [OF ranked_partition [OF rk okp]])
  have "?L \<le> i"
  proof (rule ccontr)
    assume "\<not> ?L \<le> i"
    then have lt: "i < length (takeWhile ?P (sortData c))" by (simp add: L)
    then have "takeWhile ?P (sortData c) ! i \<in> set (takeWhile ?P (sortData c))" by simp
    then have "?P (takeWhile ?P (sortData c) ! i)" by (blast dest: set_takeWhileD)
    then have "?P (sortData c ! i)" using lt by (simp add: takeWhile_nth)
    with i okp gt_irrefl show False by simp
  qed
  moreover have "mk_id (heap c ! (sortData c ! l)) \<noteq> k" if "l < i" for l
    using that i id wl well_linked_id_inj [OF wl, of "sortData c ! l" p]
    by (auto simp: well_linked_def distinct_conv_nth)
  ultimately have "findInSortContainer_ptr gt c p = Inr i"
    unfolding findInSortContainer_ptr_def compPtr_def amount_at_def [symmetric] id
    using i id by (intro scan_for_key_found) auto
  moreover have "rank_of k (table c) = i"
    using i id table_distinct_ids [OF wl] by (intro rank_of_nth) (simp_all add: table_nth)
  ultimately show ?thesis using i that by blast
qed

lemma find_key:
  assumes "container_inv ok gt c"
  shows "findInSortContainer_key gt c k =
    (if k \<in> mk_id ` set (table c) then Inr (rank_of k (table c))
     else Inl (base_exception (''Item with access key '' @ quoted (show_word k) @ '' is not present in access container.'')))"
proof (cases "accessData c k")
  case None
  with present_iff [OF inv_linked [OF assms], of k] show ?thesis
    by (simp add: findInSortContainer_key_def)
next
  case (Some p)
  with present_iff [OF inv_linked [OF assms], of k] find_present [OF assms Some] show ?thesis
    by (auto simp: findInSortContainer_key_def)
qed

text \<open>A new key.\<close>

lemma insert_new:
  assumes inv: "container_inv ok gt c" and new: "accessData c (mk_id v) = None" and okv: "ok (mk_amount v)"
  obtains c' where "insert_value modify gt v c = Inr c'" "container_inv ok gt c'"
    "rating_of c' = (rating_of c)(mk_id v \<mapsto> mk_amount v)" "table c' = rank_in gt v (table c)"
proof -
  from inv have wl: "well_linked c" and rk: "ranked (amount_at c) (sortData c)" by (simp_all add: inv_iff)
  define n h where "n = length (heap c)" and "h = heap c @ [v]"
  let ?b = "\<lambda>q. gt (mk_amount (h ! q)) (mk_amount v)"
  have fresh: "p < n" if "p \<in> set (sortData c)" for p using wl that by (auto simp: well_linked_def n_def)
  have hold: "h ! p = heap c ! p" if "p < n" for p using that by (simp add: h_def n_def nth_append)
  have hn: "h ! n = v" by (simp add: h_def n_def)
  have lb: "lower_bound (\<lambda>q. compPtr gt h q n) (sortData c) = lower_bound ?b (sortData c)"
    by (simp add: compPtr_def hn)
  define sd where "sd = take (lower_bound ?b (sortData c)) (sortData c) @ n #
    drop (lower_bound ?b (sortData c)) (sortData c)"
  define c' where "c' = \<lparr>heap = h, sortData = sd, accessData = (accessData c)(mk_id v \<mapsto> n)\<rparr>"
  have ins: "insert_value modify gt v c = Inr c'"
    using new lb by (simp add: insert_value_def c'_def sd_def h_def n_def Let_def)
  have rk': "ranked (\<lambda>q. mk_amount (h ! q)) (sortData c)"
    using rk fresh hold by (simp add: ranked_def amount_at_def) (auto intro: sorted_wrt_mono_rel [rotated])
  have sd: "sd = place (\<lambda>q. mk_amount (h ! q)) n (sortData c)"
    using place_take_drop [OF rk', of n] okv hn by (simp add: sd_def)
  have set_sd: "set sd = insert n (set (sortData c))"
    by (auto simp: sd place_def)
  have "distinct sd"
    using wl fresh by (auto simp: sd place_def well_linked_def)
  moreover have "mk_id (heap c ! p) \<noteq> mk_id v" if "p \<in> set (sortData c)" for p
    using wl that new by (force simp: well_linked_def)
  ultimately have wl': "well_linked c'"
    using wl fresh hold hn
    by (auto simp: well_linked_def c'_def set_sd h_def n_def nth_append split: if_splits)
  moreover have "ranked (amount_at c') (sortData c')"
    using place_ranked [OF rk', of n] okv hn by (simp add: c'_def amount_at_def sd ranked_def)
  ultimately have inv': "container_inv ok gt c'" by (simp add: inv_iff)
  have old: "accessData c k = Some p \<Longrightarrow> p < n" for k p using well_linked_mem [OF wl] by (auto simp: n_def)
  have rating: "rating_of c' = (rating_of c)(mk_id v \<mapsto> mk_amount v)"
    by (rule ext) (auto simp: rating_of_def c'_def hn hold old map_option_case split: option.splits)
  have map_filter: "map ((!) h) (filter (\<lambda>q. P (mk_amount (h ! q))) (sortData c)) =
      filter (\<lambda>w. P (mk_amount w)) (table c)" for P
    unfolding table_def filter_map comp_def
    using fresh hold by (intro map_filter_cong) auto
  have "table c' = map ((!) h) sd" by (simp add: table_def c'_def)
  also have "\<dots> = rank_in gt v (table c)"
    by (simp add: sd place_def rank_in_def hn map_filter [of "\<lambda>a. gt a (mk_amount v)"]
        map_filter [of "\<lambda>a. \<not> gt a (mk_amount v)"])
  finally have "table c' = rank_in gt v (table c)" .
  with ins inv' rating that show ?thesis by blast
qed

text \<open>
  A known key. The moved pointer splits the vector; the two loops give \<open>place\<close> whenever the new
  amount differs from the old one, and change nothing otherwise.
\<close>

lemma shift_place:
  assumes rk: "ranked f (ys @ p # zs)" and okn: "ok (g p)"
    and same: "\<And>q. q \<in> set ys \<union> set zs \<Longrightarrow> g q = f q"
  shows "gt (g p) (f p) \<Longrightarrow> move_left (\<lambda>a b. gt (g a) (g b)) (ys @ p # zs) (length ys) = place g p (ys @ zs)"
    and "gt (f p) (g p) \<Longrightarrow> move_right (\<lambda>a b. gt (g a) (g b)) (ys @ p # zs) (length ys) = place g p (ys @ zs)"
    and "\<not> gt (g p) (f p) \<Longrightarrow> \<not> gt (f p) (g p) \<Longrightarrow>
      move_right (\<lambda>a b. gt (g a) (g b)) (ys @ p # zs) (length ys) = ys @ p # zs"
    and "ranked g (ys @ zs)"
    and "\<not> gt (g p) (f p) \<Longrightarrow> \<not> gt (f p) (g p) \<Longrightarrow> ranked g (ys @ p # zs)"
proof -
  from rk have okf: "ok (f q)" if "q \<in> set ys \<union> set zs \<union> {p}" for q
    using that by (auto simp: ranked_def)
  have front: "\<not> gt (f p) (f y)" if "y \<in> set ys" for y
    using rk that by (auto simp: ranked_append)
  have behind: "\<not> gt (f z) (f p)" if "z \<in> set zs" for z
    using rk that by (auto simp: ranked_def sorted_wrt_append)
  have rfg: "ranked f (ys @ zs)" using rk by (auto simp: ranked_def sorted_wrt_append)
  then show rg: "ranked g (ys @ zs)"
    using same by (auto simp: ranked_def intro: sorted_wrt_mono_rel [rotated])
  then have "ranked g ys" "ranked g zs" by (simp_all add: ranked_append)
  note part = this [THEN ranked_partition, OF okn]
  show "move_left (\<lambda>a b. gt (g a) (g b)) (ys @ p # zs) (length ys) = place g p (ys @ zs)"
    if up: "gt (g p) (f p)"
  proof -
    have "\<not> gt (g z) (g p)" if "z \<in> set zs" for z
      using behind [OF that] gt_trans [of "f z" "g p" "f p"] up okf okn same that by auto
    then have "filter (\<lambda>q. gt (g q) (g p)) zs = []" "filter (\<lambda>q. \<not> gt (g q) (g p)) zs = zs"
      by (simp_all add: filter_empty_conv filter_id_conv)
    then show ?thesis by (simp add: move_left_split place_def rev_scan [OF part(1)])
  qed
  show "move_right (\<lambda>a b. gt (g a) (g b)) (ys @ p # zs) (length ys) = place g p (ys @ zs)"
    if down: "gt (f p) (g p)"
  proof -
    have "gt (g y) (g p)" if "y \<in> set ys" for y
      using front [OF that] neg_trans [of "f p" "f y" "g p"] down okf okn same that by auto
    then have "filter (\<lambda>q. gt (g q) (g p)) ys = ys" "filter (\<lambda>q. \<not> gt (g q) (g p)) ys = []"
      by (simp_all add: filter_empty_conv filter_id_conv)
    then show ?thesis
      by (simp add: move_right_split place_def takeWhile_filter_partition [OF part(2)])
  qed
  assume n1: "\<not> gt (g p) (f p)" and n2: "\<not> gt (f p) (g p)"
  have gz: "\<not> gt (g z) (g p)" if "z \<in> set zs" for z
    using behind [OF that] neg_trans [of "f z" "f p" "g p"] n2 okf okn same that by auto
  then have "takeWhile (\<lambda>q. gt (g q) (g p)) zs = []" by (cases zs) auto
  then show "move_right (\<lambda>a b. gt (g a) (g b)) (ys @ p # zs) (length ys) = ys @ p # zs"
    using gz by (cases zs) (auto simp: move_right_split)
  have "\<not> gt (g p) (g y)" if "y \<in> set ys" for y
    using front [OF that] neg_trans [of "g p" "f p" "f y"] n1 okf okn same that by auto
  with gz rg okn show "ranked g (ys @ p # zs)"
    by (auto simp: ranked_def sorted_wrt_append)
qed

lemma insert_known:
  assumes inv: "container_inv ok gt c" and acc: "accessData c (mk_id v) = Some p"
    and new: "new = modify (amount_at c p) (mk_amount v)" and okn: "ok new"
  obtains c' where "insert_value modify gt v c = Inr c'" "container_inv ok gt c'"
    "rating_of c' = (rating_of c)(mk_id v \<mapsto> new)"
    "table c' =
      (if gt new (amount_at c p) \<or> gt (amount_at c p) new
       then rank_in gt \<lparr>mk_id = mk_id v, mk_amount = new\<rparr> (filter (\<lambda>w. mk_id w \<noteq> mk_id v) (table c))
       else map (\<lambda>w. if mk_id w = mk_id v then \<lparr>mk_id = mk_id v, mk_amount = new\<rparr> else w) (table c))"
proof -
  from inv have wl: "well_linked c" and rk: "ranked (amount_at c) (sortData c)" by (simp_all add: inv_iff)
  from well_linked_mem [OF wl acc] have pin: "p \<in> set (sortData c)" and plen: "p < length (heap c)"
    and pid: "mk_id (heap c ! p) = mk_id v" by auto
  from find_present [OF inv acc] obtain i where i: "i < length (sortData c)" "sortData c ! i = p"
    and found: "findInSortContainer_ptr gt c p = Inr i" by blast
  define ys zs where "ys = take i (sortData c)" and "zs = drop (Suc i) (sortData c)"
  have split: "sortData c = ys @ p # zs" and li: "length ys = i"
    using i nth_split [of i "sortData c"] by (simp_all add: ys_def zs_def)
  define h where "h = written c p (mk_id v) new"
  define g where "g q = mk_amount (h ! q)" for q
  note node = written_node [OF wl acc, where a = new, folded h_def]
  have gp: "g p = new" by (simp add: g_def node(1))
  have notp: "q \<noteq> p" if "q \<in> set ys \<union> set zs" for q
    using that wl split by (auto simp: well_linked_def)
  have same: "g q = amount_at c q" if "q \<in> set ys \<union> set zs" for q
    using notp [OF that] by (simp add: g_def node(2) amount_at_def)
  note shift = shift_place [where f = "amount_at c" and g = g, OF rk [unfolded split], unfolded gp, OF okn same]
  have cmp: "compPtr gt h = (\<lambda>a b. gt (g a) (g b))" by (simp add: fun_eq_iff compPtr_def g_def)
  define moved where "moved \<longleftrightarrow> gt new (amount_at c p) \<or> gt (amount_at c p) new"
  define sd where "sd = (if moved then place g p (ys @ zs) else sortData c)"
  define c' where "c' = c\<lparr>heap := h, sortData := sd\<rparr>"
  have "insert_value modify gt v c =
      Inr (c\<lparr>heap := h, sortData := (if gt new (amount_at c p) then move_left (compPtr gt h) (sortData c) i
        else move_right (compPtr gt h) (sortData c) i)\<rparr>)"
    using acc found i
    by (simp add: insert_value_def getSortNode_def Let_def node(4) new amount_at_def)
  moreover have "(if gt new (amount_at c p) then move_left (compPtr gt h) (sortData c) i
        else move_right (compPtr gt h) (sortData c) i) = sd"
    using shift(1-3) split li by (auto simp: cmp sd_def moved_def gp)
  ultimately have ins: "insert_value modify gt v c = Inr c'" by (simp add: c'_def)
  have "set sd = set (sortData c)" and "distinct sd"
    using wl split by (auto simp: sd_def place_def well_linked_def)
  then have "well_linked c'" unfolding c'_def h_def by (rule linked_written [OF wl acc])
  moreover have "ranked g sd"
    using shift(4,5) place_ranked [of g "ys @ zs" p] okn gp split by (auto simp: sd_def moved_def)
  ultimately have inv': "container_inv ok gt c'"
    by (simp add: inv_iff ranked_def c'_def amount_at_def g_def)
  have tab: "table c' = map ((!) h) sd" by (simp add: table_def c'_def)
  have rating: "rating_of c' = (rating_of c)(mk_id v \<mapsto> new)"
    unfolding c'_def h_def by (rule rating_written [OF wl acc])
  have "filter (\<lambda>q. q \<noteq> p) (sortData c) = ys @ zs"
    using notp by (simp add: split filter_id_conv)
  then have "map ((!) h) (place g p (ys @ zs)) =
      rank_in gt \<lparr>mk_id = mk_id v, mk_amount = new\<rparr> (filter (\<lambda>w. mk_id w \<noteq> mk_id v) (table c))"
    unfolding table_without [OF wl acc, of new, folded h_def]
    by (simp add: place_def rank_in_def node(1) filter_map comp_def g_def)
  with table_written [OF wl acc, of new, folded h_def]
  have "table c' = (if moved
      then rank_in gt \<lparr>mk_id = mk_id v, mk_amount = new\<rparr> (filter (\<lambda>w. mk_id w \<noteq> mk_id v) (table c))
      else map (\<lambda>w. if mk_id w = mk_id v then \<lparr>mk_id = mk_id v, mk_amount = new\<rparr> else w) (table c))"
    using tab by (simp add: sd_def)
  with ins inv' rating that moved_def show ?thesis by simp
qed

text \<open>Both cases together: the container implements the abstract ranking.\<close>

lemma insert_refines:
  assumes inv: "container_inv ok gt c" and okn: "ok (new_amount modify v c)"
  obtains c' where "insert_value modify gt v c = Inr c'" "container_inv ok gt c'"
    "table c' = spec_insert modify gt v (table c)"
    "rating_of c' = (rating_of c)(mk_id v \<mapsto> new_amount modify v c)"
proof (cases "accessData c (mk_id v)")
  case None
  then have r: "rating_of c (mk_id v) = None" by (simp add: rating_of_def)
  with okn have na: "new_amount modify v c = mk_amount v" and okv: "ok (mk_amount v)"
    by (simp_all add: new_amount_def)
  have "spec_insert modify gt v (table c) = rank_in gt v (table c)"
    using find_table [OF inv_linked [OF inv], of "mk_id v"] r by (simp add: spec_insert_def)
  with insert_new [OF inv None] okv that show ?thesis unfolding na by metis
next
  case (Some p)
  then have r: "rating_of c (mk_id v) = Some (amount_at c p)" by (simp add: rating_of_def amount_at_def)
  then have na: "new_amount modify v c = modify (amount_at c p) (mk_amount v)" by (simp add: new_amount_def)
  show ?thesis
  proof (rule insert_known [where modify = modify, OF inv Some na okn])
    fix c'
    assume "insert_value modify gt v c = Inr c'" "container_inv ok gt c'"
      "rating_of c' = (rating_of c)(mk_id v \<mapsto> new_amount modify v c)"
      "table c' =
        (if gt (new_amount modify v c) (amount_at c p) \<or> gt (amount_at c p) (new_amount modify v c)
         then rank_in gt \<lparr>mk_id = mk_id v, mk_amount = new_amount modify v c\<rparr>
           (filter (\<lambda>w. mk_id w \<noteq> mk_id v) (table c))
         else map (\<lambda>w. if mk_id w = mk_id v
             then \<lparr>mk_id = mk_id v, mk_amount = new_amount modify v c\<rparr> else w) (table c))"
    then show ?thesis
      using that find_table [OF inv_linked [OF inv], of "mk_id v"] r
      by (simp add: spec_insert_def Let_def na)
  qed
qed

text \<open>Queries, in terms of the ranking.\<close>

lemma getPosition_table:
  assumes "container_inv ok gt c" and "k \<in> mk_id ` set (table c)"
  shows "getPosition gt k c = Inr \<lparr>pd_position = rank_of k (table c), pd_value = table c ! rank_of k (table c)\<rparr>"
  using rank_of_less [OF assms(2)]
  by (simp add: getPosition_def find_key [OF assms(1)] assms(2) positioned_def table_nth)

lemma getHeadPositions_table: "getHeadPositions n c = enumerated 0 (take n (table c))"
  unfolding getHeadPositions_def
  by (subst enumerated_positioned) (simp_all add: min_def)

lemma getHighPositions_table:
  assumes "container_inv ok gt c" and "k \<in> mk_id ` set (table c)" and "r = rank_of k (table c)"
  shows "getHighPositions gt k n c = Inr (enumerated (r - n) (drop (r - n) (take r (table c))))"
  using rank_of_less [OF assms(2)] assms(3)
  by (simp add: getHighPositions_def find_key [OF assms(1)] assms(2) enumerated_positioned Let_def)

lemma getLowPositions_table:
  assumes "container_inv ok gt c" and "k \<in> mk_id ` set (table c)" and "r = rank_of k (table c)"
  shows "getLowPositions gt k n c = Inr (enumerated (Suc r)
    (if r + n < length (table c) then take n (drop (Suc r) (table c)) else butlast (drop (Suc r) (table c))))"
proof -
  from rank_of_less [OF assms(2)] assms(3) have r: "r < length (sortData c)" by simp
  let ?m = "length (sortData c)"
  have found: "findInSortContainer_key gt c k = Inr r"
    using find_key [OF assms(1)] assms(2,3) by simp
  show ?thesis
  proof (cases "r + n < ?m")
    case True
    then have "n \<le> ?m - 1 - r" by simp
    then have "getLowPositions gt k n c = Inr (map (positioned c) (iterate_until (r + 1) (r + 1 + n) ?m))"
      by (simp add: getLowPositions_def Let_def found)
    also have "iterate_until (r + 1) (r + 1 + n) ?m = [Suc r..<Suc r + n]"
      using True by (simp add: iterate_until_upt min_def del: upt_Suc)
    also have "map (positioned c) [Suc r..<Suc r + n] = enumerated (Suc r) (take n (drop (Suc r) (table c)))"
      using True by (subst enumerated_positioned) (simp_all add: take_drop add.commute del: upt_Suc)
    finally show ?thesis using True by simp
  next
    case False
    with r have "\<not> n \<le> ?m - 1 - r" by simp
    then have "getLowPositions gt k n c = Inr (map (positioned c) (iterate_until (r + 1) (?m - 1) ?m))"
      by (simp add: getLowPositions_def Let_def found)
    also have "iterate_until (r + 1) (?m - 1) ?m = [Suc r..<?m - 1]"
      using r by (simp add: iterate_until_upt)
    also have "map (positioned c) [Suc r..<?m - 1] = enumerated (Suc r) (drop (Suc r) (take (?m - 1) (table c)))"
      by (rule enumerated_positioned) simp
    also have "drop (Suc r) (take (?m - 1) (table c)) = butlast (drop (Suc r) (table c))"
      by (metis drop_butlast butlast_conv_take length_table)
    finally show ?thesis using False by simp
  qed
qed

text \<open>
  The position of a key lies between the number of strictly greater amounts and the number of
  amounts that are not smaller.
\<close>

lemma ranked_counts:
  assumes "ranked f xs" and "r < length xs"
  shows "length (filter (\<lambda>w. gt (f w) (f (xs ! r))) xs) \<le> r"
    and "r < length (filter (\<lambda>w. \<not> gt (f (xs ! r)) (f w)) xs)"
proof -
  let ?v = "f (xs ! r)"
  have split: "xs = take r xs @ xs ! r # drop (Suc r) xs" using nth_split [OF assms(2)] .
  have okv: "ok ?v" using assms by (auto simp: ranked_def)
  have after: "\<not> gt (f w) ?v" if "w \<in> set (drop (Suc r) xs)" for w
    using assms(1) that by (subst (asm) split) (auto simp: ranked_def sorted_wrt_append)
  have before: "\<not> gt ?v (f w)" if "w \<in> set (take r xs)" for w
    using assms(1) that by (subst (asm) split) (auto simp: ranked_append)
  have "filter (\<lambda>w. gt (f w) ?v) xs = filter (\<lambda>w. gt (f w) ?v) (take r xs)"
    using after gt_irrefl [OF okv] by (subst split) (auto simp: filter_empty_conv)
  moreover have "length (filter (\<lambda>w. gt (f w) ?v) (take r xs)) \<le> length (take r xs)"
    by (rule length_filter_le)
  ultimately show "length (filter (\<lambda>w. gt (f w) ?v) xs) \<le> r" using assms(2) by simp
  have "filter (\<lambda>w. \<not> gt ?v (f w)) (take r xs) = take r xs"
    using before by (simp add: filter_id_conv)
  then have "length (take r xs) < length (filter (\<lambda>w. \<not> gt ?v (f w)) xs)"
    using gt_irrefl [OF okv] by (subst (2) split) simp
  then show "r < length (filter (\<lambda>w. \<not> gt ?v (f w)) xs)" using assms(2) by simp
qed

lemma inv_ranked: "container_inv ok gt c \<Longrightarrow> ranked mk_amount (table c)"
  by (simp add: container_inv_def ranked_def)

lemma rank_of_rank_in:
  assumes "mk_id v \<notin> mk_id ` set xs"
  shows "rank_of (mk_id v) (rank_in gt v xs) = length (filter (\<lambda>w. gt (mk_amount w) (mk_amount v)) xs)"
proof -
  have "mk_id x \<noteq> mk_id v" if "x \<in> set (filter P xs)" for x P
    using assms that by (auto simp: image_iff dest!: bspec [of _ _ x])
  then have "takeWhile (\<lambda>w. mk_id w \<noteq> mk_id v) (filter P xs @ v # ys) = filter P xs" for P ys
    by (subst takeWhile_append2) simp_all
  then show ?thesis by (simp add: rank_of_def rank_in_def)
qed

text \<open>An update that does not lower the amount does not lower the place.\<close>

lemma spec_insert_rank_mono:
  assumes rk: "ranked mk_amount xs" and dist: "distinct (map mk_id xs)"
    and mem: "w \<in> set xs" "mk_id w = mk_id v"
    and new: "new = modify (mk_amount w) (mk_amount v)" "ok new" "\<not> gt (mk_amount w) new"
  shows "rank_of (mk_id v) (spec_insert modify gt v xs) \<le> rank_of (mk_id v) xs"
proof -
  let ?k = "mk_id v"
  let ?n = "w\<lparr>mk_amount := new\<rparr>"
  have inj: "inj_on mk_id (set xs)" using dist by (simp add: distinct_map)
  have uniq: "u = w" if "u \<in> set xs" "mk_id u = ?k" for u
    using that mem by (intro inj_onD [OF inj]) simp_all
  have find: "find (\<lambda>u. mk_id u = ?k) xs = Some w"
  proof (cases "find (\<lambda>u. mk_id u = ?k) xs")
    case None
    with mem show ?thesis by (auto simp: find_None_iff)
  next
    case (Some u)
    then have "u \<in> set xs" "mk_id u = ?k" by (auto simp: find_Some_iff)
    with Some uniq show ?thesis by simp
  qed
  define r where "r = rank_of ?k xs"
  have "?k \<in> mk_id ` set xs" using mem by (metis imageI)
  from rank_of_less [OF this] have r: "r < length xs" "mk_id (xs ! r) = ?k" by (simp_all add: r_def)
  then have rw: "xs ! r = w" using uniq by simp
  show ?thesis
  proof (cases "gt new (mk_amount w)")
    case True
    let ?rest = "filter (\<lambda>u. mk_id u \<noteq> ?k) xs"
    have "gt (mk_amount u) (mk_amount w)" if "u \<in> set xs" "gt (mk_amount u) new" for u
      using gt_trans [of "mk_amount u" new "mk_amount w"] that True rk new(2) mem by (auto simp: ranked_def)
    then have sub: "length (filter (\<lambda>u. gt (mk_amount u) new) ?rest) \<le>
        length (filter (\<lambda>u. gt (mk_amount u) (mk_amount w)) xs)"
      by (induction xs) auto
    have "mk_id ?n \<notin> mk_id ` set ?rest" using mem(2) by (auto simp: image_iff)
    from rank_of_rank_in [OF this]
    have "rank_of ?k (spec_insert modify gt v xs) = length (filter (\<lambda>u. gt (mk_amount u) new) ?rest)"
      using find True mem(2) by (simp add: spec_insert_def Let_def flip: new(1))
    with sub ranked_counts(1) [OF rk r(1)] rw show ?thesis by (simp add: r_def)
  next
    case False
    then have "spec_insert modify gt v xs = map (\<lambda>u. if mk_id u = ?k then ?n else u) xs"
      using find new(3) by (simp add: spec_insert_def Let_def flip: new(1))
    moreover have "rank_of ?k (map (\<lambda>u. if mk_id u = ?k then ?n else u) xs) = rank_of ?k xs"
      using mem(2) by (induction xs) (auto simp: rank_of_def)
    ultimately show ?thesis by simp
  qed
qed

end

end
