(* ===== verification/Rating_Table.thy ===== *)
theory Rating_Table
  imports MultiKey_Container
begin

text \<open>
  The instance of the container that holds the ratings (\<^verbatim>\<open>SortedDealContainer\<close> of
  \<^verbatim>\<open>UserRatingProvider.hpp\<close>): amounts are \<^verbatim>\<open>float\<close>, updated by addition and ranked by \<^verbatim>\<open>greater\<close>.
  The locale \<open>rating_table\<close> is the contract its clients use, proved of the container by an
  interpretation. The properties say what the ranking and the queries mean for users who win deals.
\<close>

type_synonym deal_container = "f32 container"

definition insert_amount :: "user_identifier \<times> f32 \<Rightarrow> deal_container \<Rightarrow> deal_container result" where
  "insert_amount d c = insert_value f32_add f32_greater \<lparr>mk_id = fst d, mk_amount = snd d\<rparr> c"

definition rating_inv :: "deal_container \<Rightarrow> bool" where
  "rating_inv c \<longleftrightarrow> container_inv f32_nonneg f32_greater c"

section \<open>The contract of a rating table\<close>

definition add_to :: "f32 option \<Rightarrow> f32 \<Rightarrow> f32" where
  "add_to r a = (case r of None \<Rightarrow> a | Some b \<Rightarrow> f32_add b a)"

text \<open>The rating a sequence of amounts gives, in the order they arrive.\<close>

fun total :: "f32 option \<Rightarrow> f32 list \<Rightarrow> f32 option" where
  "total r [] = r"
| "total r (a # as) = total (Some (add_to r a)) as"

definition history :: "user_identifier \<Rightarrow> (user_identifier \<times> f32) list \<Rightarrow> f32 list" where
  "history k ds = map snd (filter (\<lambda>d. fst d = k) ds)"

locale rating_table =
  fixes add :: "user_identifier \<times> f32 \<Rightarrow> 't \<Rightarrow> 't result"
    and rating :: "'t \<Rightarrow> user_identifier \<rightharpoonup> f32"
    and ranking :: "'t \<Rightarrow> f32 multi_key_data list"
    and inv :: "'t \<Rightarrow> bool"
    and init :: "'t"
  assumes inv_init: "inv init"
    and rating_init: "rating init = Map.empty"
    and add_ok: "inv t \<Longrightarrow> f32_nonneg (snd d) \<Longrightarrow>
      \<exists>t'. add d t = Inr t' \<and> inv t' \<and> rating t' = (rating t)(fst d \<mapsto> add_to (rating t (fst d)) (snd d))"
    and rating_ranking: "inv t \<Longrightarrow> rating t k = Some a \<longleftrightarrow> \<lparr>mk_id = k, mk_amount = a\<rparr> \<in> set (ranking t)"
    and ranking_distinct: "inv t \<Longrightarrow> distinct (map mk_id (ranking t))"
begin

lemma add_all:
  assumes "inv t" and "\<forall>d \<in> set ds. f32_nonneg (snd d)"
  shows "\<exists>t'. fold_result add ds t = Inr t' \<and> inv t' \<and> (\<forall>k. rating t' k = total (rating t k) (history k ds))"
  using assms
proof (induction ds arbitrary: t)
  case Nil
  then show ?case by (simp add: history_def)
next
  case (Cons d ds)
  from add_ok [of t d] Cons.prems obtain t1
    where t1: "add d t = Inr t1" "inv t1"
      "rating t1 = (rating t)(fst d \<mapsto> add_to (rating t (fst d)) (snd d))" by auto
  from Cons.IH [OF t1(2)] Cons.prems(2) obtain t'
    where "fold_result add ds t1 = Inr t'" "inv t'" "\<forall>k. rating t' k = total (rating t1 k) (history k ds)"
    by auto
  with t1 show ?case by (auto simp: history_def)
qed

lemma add_all_from_init:
  assumes "\<forall>d \<in> set ds. f32_nonneg (snd d)"
  shows "\<exists>t'. fold_result add ds init = Inr t' \<and> inv t' \<and> (\<forall>k. rating t' k = total None (history k ds))"
  using add_all [OF inv_init assms] by (simp add: rating_init)

lemma rating_entry: "inv t \<Longrightarrow> v \<in> set (ranking t) \<Longrightarrow> rating t (mk_id v) = Some (mk_amount v)"
  by (cases v) (simp add: rating_ranking)

lemma ranking_dom: "inv t \<Longrightarrow> k \<in> mk_id ` set (ranking t) \<longleftrightarrow> rating t k \<noteq> None"
  by (auto simp: rating_entry) (metis imageI multi_key_data.select_convs(1) rating_ranking)

end

lemma new_amount_add_to:
  "new_amount f32_add \<lparr>mk_id = k, mk_amount = a\<rparr> c = add_to (rating_of c k) a"
  by (simp add: new_amount_def add_to_def split: option.split)

lemma rating_inv_nonneg: "rating_inv c \<Longrightarrow> rating_of c k = Some b \<Longrightarrow> f32_nonneg b"
  using rating_of_iff [of c k b] by (force simp: rating_inv_def container_inv_def)

lemma add_to_nonneg:
  "rating_inv c \<Longrightarrow> f32_nonneg a \<Longrightarrow> f32_nonneg (add_to (rating_of c k) a)"
  by (auto simp: add_to_def f32_add_nonneg dest: rating_inv_nonneg split: option.splits)

lemma insert_amount_refines:
  assumes "rating_inv c" and "f32_nonneg a"
  shows "\<exists>c'. insert_amount (k, a) c = Inr c' \<and> rating_inv c' \<and>
    table c' = spec_insert f32_add f32_greater \<lparr>mk_id = k, mk_amount = a\<rparr> (table c) \<and>
    rating_of c' = (rating_of c)(k \<mapsto> add_to (rating_of c k) a)"
proof -
  have "f32_nonneg (new_amount f32_add \<lparr>mk_id = k, mk_amount = a\<rparr> c)"
    using add_to_nonneg [OF assms] by (simp add: new_amount_add_to)
  from f32_won.insert_refines [OF assms(1) [unfolded rating_inv_def] this]
  show ?thesis by (simp add: insert_amount_def rating_inv_def new_amount_add_to) metis
qed

interpretation deals: rating_table insert_amount rating_of table rating_inv empty_container
proof unfold_locales
  show "rating_inv empty_container" by (simp add: rating_inv_def f32_won.inv_empty)
  show "rating_of empty_container = Map.empty" by (simp add: fun_eq_iff rating_of_def empty_container_def)
  show "\<exists>t'. insert_amount d t = Inr t' \<and> rating_inv t' \<and>
      rating_of t' = (rating_of t)(fst d \<mapsto> add_to (rating_of t (fst d)) (snd d))"
    if "rating_inv t" "f32_nonneg (snd d)" for t d
    using insert_amount_refines [OF that, of "fst d"] by auto
  show "rating_of t k = Some a \<longleftrightarrow> \<lparr>mk_id = k, mk_amount = a\<rparr> \<in> set (table t)" if "rating_inv t" for t k a
    using that by (intro rating_of_iff) (simp add: rating_inv_def container_inv_def)
  show "distinct (map mk_id (table t))" if "rating_inv t" for t
    using that by (intro table_distinct_ids) (simp add: rating_inv_def container_inv_def)
qed

section \<open>A concrete table\<close>

text \<open>Users 1, 2 and 3 with the ratings 2.0, 1.0 and 0.5, for the closed examples.\<close>

definition example_table :: deal_container where
  "example_table =
     \<lparr>heap = [\<lparr>mk_id = 1, mk_amount = 0x40000000\<rparr>, \<lparr>mk_id = 2, mk_amount = 0x3F800000\<rparr>,
              \<lparr>mk_id = 3, mk_amount = 0x3F000000\<rparr>],
      sortData = [0, 1, 2], accessData = [1 \<mapsto> 0, 2 \<mapsto> 1, 3 \<mapsto> 2]\<rparr>"

lemma example_table_table:
  "table example_table = [\<lparr>mk_id = 1, mk_amount = 0x40000000\<rparr>, \<lparr>mk_id = 2, mk_amount = 0x3F800000\<rparr>,
     \<lparr>mk_id = 3, mk_amount = 0x3F000000\<rparr>]"
  by (simp add: example_table_def table_def)

lemma example_table_inv: "rating_inv example_table"
proof -
  have "well_linked example_table"
    by (auto simp: well_linked_def example_table_def nth_Cons' split: if_splits)
  moreover have "f32_nonneg 0x40000000" "f32_nonneg 0x3F800000" "f32_nonneg 0x3F000000"
    "\<not> f32_greater 0x3F800000 0x40000000" "\<not> f32_greater 0x3F000000 0x40000000"
    "\<not> f32_greater 0x3F000000 0x3F800000"
    by (simp_all add: f32_defs)
  ultimately show ?thesis
    by (simp add: rating_inv_def container_inv_def example_table_table)
qed

lemma example_table_rating: "rating_of example_table 2 = Some 0x3F800000"
  by (simp add: example_table_def rating_of_def)

section \<open>Properties\<close>

text \<open>C1. Inserting a won amount never throws, keeps vector and hash map consistent and ranked, and
  changes the ranking exactly as the abstract ranking does: the user enters behind the greater and
  before the equal ratings, or stays in place when the addition leaves the rating unchanged.\<close>

theorem insert_implements_ranking:
  assumes "rating_inv c" and "f32_nonneg a"
  shows "\<exists>c'. insert_amount (k, a) c = Inr c' \<and> rating_inv c' \<and>
    table c' = spec_insert f32_add f32_greater \<lparr>mk_id = k, mk_amount = a\<rparr> (table c) \<and>
    rating_of c' = (rating_of c)(k \<mapsto> add_to (rating_of c k) a)"
  using assms by (rule insert_amount_refines)

theorem insert_implements_ranking_witness:
  "\<exists>c'. insert_amount (3, 0x3F800000) example_table = Inr c' \<and> rating_inv c' \<and>
    table c' = spec_insert f32_add f32_greater \<lparr>mk_id = 3, mk_amount = 0x3F800000\<rparr> (table example_table) \<and>
    rating_of c' = (rating_of example_table)(3 \<mapsto> add_to (rating_of example_table 3) 0x3F800000)"
  by (rule insert_implements_ranking [OF example_table_inv]) (simp add: f32_defs)

text \<open>C6. From an empty table, any sequence of won amounts is accepted, and every user's rating is the
  single-precision sum of that user's amounts in the order of arrival, whoever else won deals in
  between.\<close>

theorem ratings_accumulate:
  assumes "\<forall>d \<in> set ds. f32_nonneg (snd d)"
  shows "\<exists>c. fold_result insert_amount ds empty_container = Inr c \<and> rating_inv c \<and>
    (\<forall>k. rating_of c k = total None (history k ds))"
  using assms by (rule deals.add_all_from_init)

theorem ratings_accumulate_witness:
  "\<exists>c. fold_result insert_amount [(7, 0x3F800000), (8, 0x40000000), (7, 0x3F800000)] empty_container = Inr c \<and>
    rating_inv c \<and> rating_of c 7 = Some 0x40000000"
proof -
  let ?ds = "[(7, 0x3F800000), (8, 0x40000000), (7, 0x3F800000)] :: (user_identifier \<times> f32) list"
  have "\<forall>d \<in> set ?ds. f32_nonneg (snd d)" by (simp add: f32_defs)
  from ratings_accumulate [OF this] obtain c where
    c: "fold_result insert_amount ?ds empty_container = Inr c" "rating_inv c"
      "rating_of c 7 = total None (history 7 ?ds)" by blast
  have "total None (history 7 ?ds) = Some 0x40000000"
    by (simp add: history_def add_to_def f32_defs bit_len.simps)
  with c show ?thesis by metis
qed

lemma rated_entry:
  assumes "rating_inv c" and "rating_of c k = Some a"
  shows "k \<in> mk_id ` set (table c)" and "rank_of k (table c) < length (table c)"
    and "table c ! rank_of k (table c) = \<lparr>mk_id = k, mk_amount = a\<rparr>"
proof -
  show mem: "k \<in> mk_id ` set (table c)"
    using assms deals.ranking_dom [of c k] by simp
  from rank_of_less [OF this] show less: "rank_of k (table c) < length (table c)"
    and "table c ! rank_of k (table c) = \<lparr>mk_id = k, mk_amount = a\<rparr>"
    using deals.rating_entry [OF assms(1), of "table c ! rank_of k (table c)"] assms(2)
    by (auto simp: multi_key_data_eq [symmetric])
qed

text \<open>The position reported for a rated user comes with that user's rating, is at least the number
  of users with a strictly greater rating, and is less than the number of users (the user included)
  whose rating is not smaller.\<close>

theorem position_between_counts:
  assumes "rating_inv c" and "rating_of c k = Some a"
  shows "\<exists>p. getPosition f32_greater k c = Inr \<lparr>pd_position = p, pd_value = \<lparr>mk_id = k, mk_amount = a\<rparr>\<rparr> \<and>
    length (filter (\<lambda>w. f32_greater (mk_amount w) a) (table c)) \<le> p \<and>
    p < length (filter (\<lambda>w. \<not> f32_greater a (mk_amount w)) (table c))"
proof -
  note e = rated_entry [OF assms] and inv = assms(1) [unfolded rating_inv_def]
  show ?thesis
    using f32_won.getPosition_table [OF inv e(1)] e(3)
      f32_won.ranked_counts [OF f32_won.inv_ranked [OF inv] e(2)] by simp
qed

theorem position_between_counts_witness:
  "\<exists>p. getPosition f32_greater 2 example_table = Inr \<lparr>pd_position = p, pd_value = \<lparr>mk_id = 2, mk_amount = 0x3F800000\<rparr>\<rparr> \<and>
    length (filter (\<lambda>w. f32_greater (mk_amount w) 0x3F800000) (table example_table)) \<le> p \<and>
    p < length (filter (\<lambda>w. \<not> f32_greater 0x3F800000 (mk_amount w)) (table example_table))"
  by (rule position_between_counts [OF example_table_inv example_table_rating])

text \<open>The users ahead and the head of the table: with \<open>r\<close> the place of a rated user, the code
  returns the first \<open>n\<close> entries of the ranking as head positions, and as high positions the (at most
  \<open>n\<close>) entries directly ahead of \<open>r\<close>, each with its true position.\<close>

theorem head_and_high_positions:
  assumes "rating_inv c" and "rating_of c k = Some a"
  shows "getHeadPositions n c = enumerated 0 (take n (table c)) \<and>
    (\<exists>r. table c ! r = \<lparr>mk_id = k, mk_amount = a\<rparr> \<and> r < length (table c) \<and>
      getHighPositions f32_greater k n c = Inr (enumerated (r - n) (drop (r - n) (take r (table c)))))"
  using rated_entry [OF assms] assms(1) f32_won.getHighPositions_table [of c k _ n]
  by (auto simp: getHeadPositions_def rating_inv_def f32_won.getHeadPositions_table [symmetric])

theorem head_and_high_positions_witness:
  "getHeadPositions 5 example_table = enumerated 0 (take 5 (table example_table)) \<and>
    (\<exists>r. table example_table ! r = \<lparr>mk_id = 2, mk_amount = 0x3F800000\<rparr> \<and> r < length (table example_table) \<and>
      getHighPositions f32_greater 2 5 example_table =
        Inr (enumerated (r - 5) (drop (r - 5) (take r (table example_table)))))"
  by (rule head_and_high_positions [OF example_table_inv example_table_rating])

text \<open>C34. The users behind. When at least \<open>n\<close> users are behind a rated user the code returns the next
  \<open>n\<close> of them; when there are fewer, it returns all of them except the last user of the table, who is
  left out although the range asked for includes that place.\<close>

theorem low_positions_omit_last:
  assumes "rating_inv c" and "rating_of c k = Some a"
  shows "\<exists>r. table c ! r = \<lparr>mk_id = k, mk_amount = a\<rparr> \<and> r < length (table c) \<and>
    getLowPositions f32_greater k n c = Inr (enumerated (Suc r)
      (if r + n < length (table c) then take n (drop (Suc r) (table c))
       else butlast (drop (Suc r) (table c))))"
  using rated_entry [OF assms] assms(1) f32_won.getLowPositions_table [of c k _ n]
  unfolding rating_inv_def by blast

theorem low_positions_omit_last_witness:
  "getLowPositions f32_greater 2 5 example_table = Inr []"
proof -
  obtain r where r: "table example_table ! r = \<lparr>mk_id = 2, mk_amount = 0x3F800000\<rparr>"
      "r < length (table example_table)"
    and low: "getLowPositions f32_greater 2 5 example_table = Inr (enumerated (Suc r)
      (if r + 5 < length (table example_table) then take 5 (drop (Suc r) (table example_table))
       else butlast (drop (Suc r) (table example_table))))"
    using low_positions_omit_last [OF example_table_inv example_table_rating] by blast
  from r have "r = 1" unfolding example_table_table by (auto simp: nth_Cons' split: if_splits)
  with low show ?thesis by (simp add: example_table_table enumerated_def)
qed

text \<open>A user without a rating: membership is false, and every positional query throws the same
  \<open>BaseException\<close>, naming the identifier; nothing is searched.\<close>

theorem unrated_user_rejected:
  assumes "rating_of c k = None"
  shows "\<not> isPresent k c \<and>
    getPosition f32_greater k c = Inl (base_exception (''Item with access key '' @ quoted (show_word k) @ '' is not present in access container.'')) \<and>
    getHighPositions f32_greater k n c = Inl (base_exception (''Item with access key '' @ quoted (show_word k) @ '' is not present in access container.'')) \<and>
    getLowPositions f32_greater k n c = Inl (base_exception (''Item with access key '' @ quoted (show_word k) @ '' is not present in access container.''))"
  using assms
  by (simp add: rating_of_def isPresent_def getPosition_def getHighPositions_def getLowPositions_def
      findInSortContainer_key_def)

theorem unrated_user_rejected_witness:
  "getLowPositions f32_greater 9 3 example_table =
    Inl (BaseException (''Base error occurred: Item with access key '' @ quoted ''9'' @ '' is not present in access container.''))"
proof -
  have "rating_of example_table 9 = None" by (simp add: rating_of_def example_table_def)
  moreover have "show_word (9 :: user_identifier) = ''9''"
    by (simp add: show_word_def show_nat.simps digit_char_def) code_simp
  ultimately show ?thesis
    using unrated_user_rejected [of example_table 9 3] by (simp add: base_exception_def)
qed

text \<open>Winning never costs a place: after a won amount is added for a user who is in the table, the
  position reported for that user is not larger than before.\<close>

theorem won_deal_keeps_place:
  assumes "rating_inv c" and "f32_nonneg a" and "rating_of c k = Some b"
    and "insert_amount (k, a) c = Inr c'"
    and "getPosition f32_greater k c = Inr p" and "getPosition f32_greater k c' = Inr p'"
  shows "pd_position p' \<le> pd_position p"
proof -
  note e = rated_entry [OF assms(1,3)] and inv = assms(1) [unfolded rating_inv_def]
  have nb: "f32_nonneg b" by (rule rating_inv_nonneg [OF assms(1,3)])
  from insert_amount_refines [OF assms(1,2), of k] assms(4) have inv': "rating_inv c'"
    and tab: "table c' = spec_insert f32_add f32_greater \<lparr>mk_id = k, mk_amount = a\<rparr> (table c)"
    and "rating_of c' = (rating_of c)(k \<mapsto> f32_add b a)"
    using assms(3) by (auto simp: add_to_def)
  then have e': "k \<in> mk_id ` set (table c')" using rated_entry(1) [OF inv'] by simp
  have "rank_of k (table c') \<le> rank_of k (table c)"
    unfolding tab
    using f32_won.spec_insert_rank_mono [OF f32_won.inv_ranked [OF inv],
        where v = "\<lparr>mk_id = k, mk_amount = a\<rparr>" and modify = f32_add and w = "\<lparr>mk_id = k, mk_amount = b\<rparr>"]
      deals.ranking_distinct [OF assms(1)] nth_mem [OF e(2)] e(3)
      f32_add_nonneg [OF nb assms(2)] f32_add_not_less [OF nb assms(2)] by simp
  then show ?thesis
    using assms(5,6) f32_won.getPosition_table [OF inv e(1)]
      f32_won.getPosition_table [OF inv' [unfolded rating_inv_def] e'] by auto
qed

theorem won_deal_keeps_place_witness:
  "\<exists>c' p p'. insert_amount (3, 0x3F800000) example_table = Inr c' \<and>
    getPosition f32_greater 3 example_table = Inr p \<and> getPosition f32_greater 3 c' = Inr p' \<and>
    pd_position p' \<le> pd_position p"
proof -
  have won: "f32_nonneg 0x3F800000" by (simp add: f32_defs)
  have rat: "rating_of example_table 3 = Some 0x3F000000" by (simp add: example_table_def rating_of_def)
  from insert_amount_refines [OF example_table_inv won, of 3] obtain c'
    where c': "insert_amount (3, 0x3F800000) example_table = Inr c'" "rating_inv c'"
      "rating_of c' = (rating_of example_table)(3 \<mapsto> add_to (rating_of example_table 3) 0x3F800000)" by blast
  then have rat': "rating_of c' 3 = Some (add_to (rating_of example_table 3) 0x3F800000)" by simp
  obtain p where p: "getPosition f32_greater 3 example_table = Inr p"
    using f32_won.getPosition_table [OF example_table_inv [unfolded rating_inv_def] rated_entry(1) [OF example_table_inv rat]]
    by blast
  obtain p' where p': "getPosition f32_greater 3 c' = Inr p'"
    using f32_won.getPosition_table [OF c'(2) [unfolded rating_inv_def] rated_entry(1) [OF c'(2) rat']] by blast
  show ?thesis using won_deal_keeps_place [OF example_table_inv won rat c'(1) p p'] c'(1) p p' by blast
qed

end
