(* ===== verification/User_Data_Store.thy ===== *)
theory User_Data_Store
  imports Core_Types
begin

text \<open>
  \<^verbatim>\<open>tempstore/src/UserDataStore.cpp\<close>: the registry of users, behind the interface
  \<^verbatim>\<open>core/IUserDataStore.hpp\<close>. The interface is the locale \<open>user_store\<close>: what its clients may assume of
  registering, renaming and looking up, interpreted on the model of \<^verbatim>\<open>UserDataStore\<close>.
\<close>

section \<open>State and operations\<close>

record user_data_store =
  users :: "user_identifier \<rightharpoonup> user_information"

definition empty_user_data_store :: user_data_store where
  "empty_user_data_store = \<lparr>users = Map.empty\<rparr>"

definition addUser :: "user_information \<Rightarrow> user_data_store \<Rightarrow> user_data_store result" where
  "addUser userInformation s =
     (if users s (ui_id userInformation) \<noteq> None
      then Inl (base_exception (''Can't add user with identifier '' @ quoted (show_word (ui_id userInformation)) @
        ''. User with such identifier have already been registered.''))
      else Inr (s\<lparr>users := (users s)(ui_id userInformation \<mapsto> userInformation)\<rparr>))"

definition renameUser :: "user_identifier \<Rightarrow> string \<Rightarrow> user_data_store \<Rightarrow> user_data_store result" where
  "renameUser userIdentifier newName s =
     (case users s userIdentifier of
        None \<Rightarrow> Inl (base_exception (''Can't rename user with identifier '' @ quoted (show_word userIdentifier) @
          ''. User with such identifier is not registered.''))
      | Some item \<Rightarrow> Inr (s\<lparr>users := (users s)(userIdentifier \<mapsto> item\<lparr>ui_name := newName\<rparr>)\<rparr>))"

definition getUserInformation :: "user_identifier \<Rightarrow> user_data_store \<Rightarrow> user_information result" where
  "getUserInformation userIdentifier s =
     (case users s userIdentifier of
        None \<Rightarrow> Inl (base_exception (''Can't provide information for user '' @ quoted (show_word userIdentifier) @
          ''. User with such identifier is not registered.''))
      | Some item \<Rightarrow> Inr item)"

lemmas user_data_store_defs [component_defs] =
  empty_user_data_store_def addUser_def renameUser_def getUserInformation_def

section \<open>The interface\<close>

text \<open>Requests on the registry, and the registry a sequence of requests describes: the first
  registration of an identifier counts, and then the latest renaming.\<close>

datatype store_request = AddUser user_information | RenameUser user_identifier string

fun registry_step :: "store_request \<Rightarrow> (user_identifier \<rightharpoonup> string) \<Rightarrow> (user_identifier \<rightharpoonup> string)" where
  "registry_step (AddUser u) m = (if m (ui_id u) = None then m(ui_id u \<mapsto> ui_name u) else m)"
| "registry_step (RenameUser k n) m = (if m k = None then m else m(k \<mapsto> n))"

definition registry :: "store_request list \<Rightarrow> (user_identifier \<rightharpoonup> string)" where
  "registry rs = fold registry_step rs Map.empty"

text \<open>How the service calls the store: an exception leaves the state of the store as it was.\<close>

definition attempt :: "('s \<Rightarrow> 's result) \<Rightarrow> 's \<Rightarrow> 's" where
  "attempt f s = (case f s of Inl e \<Rightarrow> s | Inr s' \<Rightarrow> s')"

locale user_store =
  fixes add :: "user_information \<Rightarrow> 's \<Rightarrow> 's result"
    and rename :: "user_identifier \<Rightarrow> string \<Rightarrow> 's \<Rightarrow> 's result"
    and get :: "user_identifier \<Rightarrow> 's \<Rightarrow> user_information result"
    and unknown :: "user_identifier \<Rightarrow> exn"
    and ok :: "'s \<Rightarrow> bool"
    and init :: "'s"
  assumes ok_init: "ok init"
    and get_init: "get k init = Inl (unknown k)"
    and get_unknown: "get k s = Inl e \<Longrightarrow> e = unknown k"
    and get_id: "ok s \<Longrightarrow> get k s = Inr u \<Longrightarrow> ui_id u = k"
    and add_known: "get (ui_id u) s = Inr v \<Longrightarrow> \<exists>e. add u s = Inl e"
    and add_new: "ok s \<Longrightarrow> get (ui_id u) s = Inl e \<Longrightarrow> \<exists>s'. add u s = Inr s' \<and> ok s' \<and>
      (\<forall>k. get k s' = (if k = ui_id u then Inr u else get k s))"
    and rename_unknown: "get k s = Inl e \<Longrightarrow> \<exists>e'. rename k n s = Inl e'"
    and rename_known: "ok s \<Longrightarrow> get k s = Inr u \<Longrightarrow> \<exists>s'. rename k n s = Inr s' \<and> ok s' \<and>
      (\<forall>j. get j s' = (if j = k then Inr (u\<lparr>ui_name := n\<rparr>) else get j s))"
begin

fun serve :: "store_request \<Rightarrow> 's \<Rightarrow> 's" where
  "serve (AddUser u) s = attempt (add u) s"
| "serve (RenameUser k n) s = attempt (rename k n) s"

definition described :: "'s \<Rightarrow> (user_identifier \<rightharpoonup> string) \<Rightarrow> bool" where
  "described s m \<longleftrightarrow> ok s \<and>
     (\<forall>k. get k s = (case m k of None \<Rightarrow> Inl (unknown k) | Some n \<Rightarrow> Inr \<lparr>ui_id = k, ui_name = n\<rparr>))"

lemma described_init: "described init Map.empty"
  by (simp add: described_def ok_init get_init)

lemma described_add:
  assumes "described s m"
  shows "described (attempt (add u) s) (registry_step (AddUser u) m)"
proof (cases "m (ui_id u)")
  case None
  with assms have "ok s" "get (ui_id u) s = Inl (unknown (ui_id u))" by (simp_all add: described_def)
  from add_new [OF this] obtain s' where "add u s = Inr s'" "ok s'"
    "\<forall>k. get k s' = (if k = ui_id u then Inr u else get k s)" by blast
  then show ?thesis using None assms by (auto simp: described_def attempt_def)
next
  case (Some n)
  with assms have "get (ui_id u) s = Inr \<lparr>ui_id = ui_id u, ui_name = n\<rparr>" by (simp add: described_def)
  from add_known [OF this] show ?thesis using Some assms by (auto simp: described_def attempt_def)
qed

lemma described_rename:
  assumes "described s m"
  shows "described (attempt (rename k n) s) (registry_step (RenameUser k n) m)"
proof (cases "m k")
  case None
  with assms have "get k s = Inl (unknown k)" by (simp add: described_def)
  from rename_unknown [OF this, of n] show ?thesis using None assms by (auto simp: described_def attempt_def)
next
  case (Some old)
  with assms have "ok s" "get k s = Inr \<lparr>ui_id = k, ui_name = old\<rparr>" by (simp_all add: described_def)
  from rename_known [OF this, of n] obtain s' where "rename k n s = Inr s'" "ok s'"
    "\<forall>j. get j s' = (if j = k then Inr (\<lparr>ui_id = k, ui_name = old\<rparr>\<lparr>ui_name := n\<rparr>) else get j s)" by blast
  then show ?thesis using Some assms by (auto simp: described_def attempt_def)
qed

lemma described_serve: "described s m \<Longrightarrow> described (serve r s) (registry_step r m)"
  by (cases r) (simp_all only: serve.simps described_add described_rename)

lemma described_run: "described s m \<Longrightarrow> described (fold serve rs s) (fold registry_step rs m)"
  by (induction rs arbitrary: s m) (simp_all add: described_serve)

lemma get_run:
  "get k (fold serve rs init) =
     (case registry rs k of None \<Rightarrow> Inl (unknown k) | Some n \<Rightarrow> Inr \<lparr>ui_id = k, ui_name = n\<rparr>)"
  using described_run [OF described_init, of rs] by (simp add: described_def registry_def)

end

definition not_registered :: "user_identifier \<Rightarrow> exn" where
  "not_registered k = base_exception (''Can't provide information for user '' @ quoted (show_word k) @
     ''. User with such identifier is not registered.'')"

text \<open>Every stored record carries the identifier it is stored under.\<close>

definition store_ok :: "user_data_store \<Rightarrow> bool" where
  "store_ok s \<longleftrightarrow> (\<forall>k u. users s k = Some u \<longrightarrow> ui_id u = k)"

interpretation uds: user_store addUser renameUser getUserInformation not_registered store_ok empty_user_data_store
  by unfold_locales
    (auto simp: user_data_store_defs not_registered_def store_ok_def split: option.splits if_splits)

text \<open>The store as the service drives it.\<close>

fun serve_request :: "store_request \<Rightarrow> user_data_store \<Rightarrow> user_data_store" where
  "serve_request (AddUser u) s = attempt (addUser u) s"
| "serve_request (RenameUser k n) s = attempt (renameUser k n) s"

lemma serve_request_eq: "serve_request = uds.serve"
  by (intro ext) (metis serve_request.elims uds.serve.simps)

lemma getUserInformation_known: "users s k = Some u \<Longrightarrow> getUserInformation k s = Inr u"
  by (simp add: getUserInformation_def)

lemma getUserInformation_Inr: "getUserInformation k s = Inr u \<longleftrightarrow> users s k = Some u"
  by (simp add: getUserInformation_def split: option.split)

lemma getUserInformation_Inl: "getUserInformation k s = Inl e \<longleftrightarrow> users s k = None \<and> e = not_registered k"
  by (auto simp: getUserInformation_def not_registered_def split: option.split)

section \<open>Properties\<close>

text \<open>After any sequence of registrations and renamings, the rejected ones included, looking up
  an identifier gives the record the requests describe (first registration, latest renaming), or the
  error that names the identifier when it was never registered.\<close>

theorem store_implements_registry:
  "getUserInformation k (fold serve_request rs empty_user_data_store) =
     (case registry rs k of
        None \<Rightarrow> Inl (not_registered k)
      | Some n \<Rightarrow> Inr \<lparr>ui_id = k, ui_name = n\<rparr>)"
  unfolding serve_request_eq by (rule uds.get_run)

text \<open>A second registration of an identifier and a renaming of an unknown one are refused with
  their own messages, and exactly those requests are refused.\<close>

theorem store_rejections:
  "(addUser u s = Inl e \<longleftrightarrow> users s (ui_id u) \<noteq> None \<and>
      e = base_exception (''Can't add user with identifier '' @ quoted (show_word (ui_id u)) @
        ''. User with such identifier have already been registered.'')) \<and>
   (renameUser k n s = Inl e \<longleftrightarrow> users s k = None \<and>
      e = base_exception (''Can't rename user with identifier '' @ quoted (show_word k) @
        ''. User with such identifier is not registered.''))"
  by (auto simp: addUser_def renameUser_def split: option.splits)

end
