(* ===== verification/User_Rating_Provider.thy ===== *)
theory User_Rating_Provider
  imports Rating_Table User_Data_Store Time_Helper
begin

text \<open>
  \<^verbatim>\<open>tempstore/UserRatingProvider.{hpp,cpp}\<close> and \<^verbatim>\<open>tempstore/UserDealDataStore.cpp\<close>: the rating of the
  current period. Deals inside the period are added to the table; when the period ends the watcher
  thread empties the table and moves the period on. Every operation that holds \<^verbatim>\<open>storeMutex_\<close> is one
  step; the thread empties the table and updates the period in two steps, as only the first of them
  is under the mutex.
\<close>

section \<open>The deal store\<close>

text \<open>
  \<^verbatim>\<open>UserDealDataStore\<close> forwards each deal to the slots of a \<^verbatim>\<open>boost::signals2::signal\<close>. How the
  signal invokes its slots is the parameter \<open>emit\<close>; the slots act on a state \<open>'s\<close>.
\<close>

type_synonym 's slot = "deal_information \<Rightarrow> 's \<Rightarrow> 's result"
type_synonym 's emitter = "'s slot list \<Rightarrow> deal_information \<Rightarrow> 's \<Rightarrow> 's result"

record 's user_deal_data_store =
  dealAddedSignal :: "'s slot list"

definition addDealAddedSlot :: "'s slot \<Rightarrow> 's user_deal_data_store \<Rightarrow> 's user_deal_data_store" where
  "addDealAddedSlot slot store = store\<lparr>dealAddedSignal := dealAddedSignal store @ [slot]\<rparr>"

definition deal_store_addDeal ::
  "'s emitter \<Rightarrow> 's user_deal_data_store \<Rightarrow> deal_information \<Rightarrow> 's \<Rightarrow> 's result" where
  "deal_store_addDeal emit store dealInformation s = emit (dealAddedSignal store) dealInformation s"

text \<open>Documented behaviour of the signal the code relies on: one connected slot is called once.\<close>

definition emits_single :: "'s emitter \<Rightarrow> bool" where
  "emits_single emit \<longleftrightarrow> (\<forall>f d s. emit [f] d s = f d s)"

section \<open>The provider\<close>

record rating_provider =
  startTime :: time_point
  endTime :: time_point
  periodDuration :: int
  sortedDealContainer :: deal_container

definition updatePeriod :: "time_point \<Rightarrow> rating_provider \<Rightarrow> rating_provider" where
  "updatePeriod t p = p\<lparr>startTime := t, endTime := t + 1000000000 * periodDuration p\<rparr>"

text \<open>The constructor; \<open>now\<close> is what \<^verbatim>\<open>system_clock::now()\<close> returns.\<close>

definition new_provider :: "week_day \<Rightarrow> int \<Rightarrow> time_point \<Rightarrow> rating_provider" where
  "new_provider startPeriodDay duration now =
     updatePeriod (getPreviousWeekDay now startPeriodDay)
       \<lparr>startTime = 0, endTime = 0, periodDuration = duration, sortedDealContainer = empty_container\<rparr>"

text \<open>The time stamp is unsigned, so the comparison converts the \<^verbatim>\<open>time_t\<close> to \<^verbatim>\<open>std::uint64_t\<close>.\<close>

definition unsigned_time :: "time_point \<Rightarrow> u64" where
  "unsigned_time t = word_of_int (to_time_t t)"

definition addDeal :: "deal_information \<Rightarrow> rating_provider \<Rightarrow> rating_provider result" where
  "addDeal dealInformation p =
     (if di_timestamp dealInformation < unsigned_time (startTime p) then Inr p
      else if di_timestamp dealInformation \<ge> unsigned_time (endTime p) then Inr p
      else bindr (insert_amount (di_userId dealInformation, di_amount dealInformation) (sortedDealContainer p))
             (\<lambda>c. Inr (p\<lparr>sortedDealContainer := c\<rparr>)))"

definition isUserPresent :: "user_identifier \<Rightarrow> rating_provider \<Rightarrow> bool" where
  "isUserPresent userIdentifier p = isPresent userIdentifier (sortedDealContainer p)"

text \<open>The lambda the three collection getters give to \<^verbatim>\<open>std::transform\<close>.\<close>

definition to_user_position :: "user_data_store \<Rightarrow> f32 positioned_data \<Rightarrow> user_position result" where
  "to_user_position userDataStore r =
     bindr (getUserInformation (mk_id (pd_value r)) userDataStore) (\<lambda>u.
       Inr \<lparr>up_userInformation = u, up_position = of_nat (pd_position r), up_amount = mk_amount (pd_value r)\<rparr>)"

definition provider_getHeadPositions ::
  "user_data_store \<Rightarrow> nat \<Rightarrow> rating_provider \<Rightarrow> user_positions_collection result" where
  "provider_getHeadPositions userDataStore nPositions p =
     transform (to_user_position userDataStore) (getHeadPositions nPositions (sortedDealContainer p))"

definition provider_getHighPositions ::
  "user_data_store \<Rightarrow> user_identifier \<Rightarrow> nat \<Rightarrow> rating_provider \<Rightarrow> user_positions_collection result" where
  "provider_getHighPositions userDataStore userIdentifier nPositions p =
     bindr (getHighPositions f32_greater userIdentifier nPositions (sortedDealContainer p))
       (transform (to_user_position userDataStore))"

definition provider_getLowPositions ::
  "user_data_store \<Rightarrow> user_identifier \<Rightarrow> nat \<Rightarrow> rating_provider \<Rightarrow> user_positions_collection result" where
  "provider_getLowPositions userDataStore userIdentifier nPositions p =
     bindr (getLowPositions f32_greater userIdentifier nPositions (sortedDealContainer p))
       (transform (to_user_position userDataStore))"

definition getUserPosition ::
  "user_data_store \<Rightarrow> user_identifier \<Rightarrow> rating_provider \<Rightarrow> user_position result" where
  "getUserPosition userDataStore userIdentifier p =
     bindr (getPosition f32_greater userIdentifier (sortedDealContainer p)) (\<lambda>userRating.
       bindr (getUserInformation userIdentifier userDataStore) (\<lambda>u.
         Inr \<lparr>up_userInformation = u, up_position = of_nat (pd_position userRating),
              up_amount = mk_amount (pd_value userRating)\<rparr>))"

section \<open>The period thread\<close>

text \<open>The two halves of an iteration after \<^verbatim>\<open>try_acquire_until(endTime_)\<close> has timed out.\<close>

definition clear_table :: "rating_provider \<Rightarrow> rating_provider" where
  "clear_table p = p\<lparr>sortedDealContainer := clear (sortedDealContainer p)\<rparr>"

definition next_period :: "rating_provider \<Rightarrow> rating_provider" where
  "next_period p = updatePeriod (endTime p) p"

datatype provider_event = DealArrives deal_information | TableCleared | PeriodUpdated

datatype thread_phase = AwaitingEnd | TableEmptied

inductive provider_step ::
  "thread_phase \<times> rating_provider \<Rightarrow> provider_event \<Rightarrow> thread_phase \<times> rating_provider \<Rightarrow> bool" where
  deal: "addDeal d p = Inr p' \<Longrightarrow> provider_step (ph, p) (DealArrives d) (ph, p')"
| clear: "provider_step (AwaitingEnd, p) TableCleared (TableEmptied, clear_table p)"
| period: "provider_step (TableEmptied, p) PeriodUpdated (AwaitingEnd, next_period p)"

inductive_cases deal_stepE: "provider_step s (DealArrives d) s'"
inductive_cases clear_stepE: "provider_step s TableCleared s'"
inductive_cases period_stepE: "provider_step s PeriodUpdated s'"

inductive provider_run ::
  "thread_phase \<times> rating_provider \<Rightarrow> provider_event list \<Rightarrow> thread_phase \<times> rating_provider \<Rightarrow> bool" where
  run_done: "provider_run s [] s"
| run_more: "provider_step s e s1 \<Longrightarrow> provider_run s1 es s2 \<Longrightarrow> provider_run s (e # es) s2"

inductive_cases run_ConsE: "provider_run s (e # es) s'"
inductive_simps run_Nil [simp]: "provider_run s [] s'"
inductive_simps run_Cons: "provider_run s (e # es) s'"

lemmas provider_defs [component_defs] =
  updatePeriod_def new_provider_def unsigned_time_def addDeal_def isUserPresent_def to_user_position_def
  provider_getHeadPositions_def provider_getHighPositions_def provider_getLowPositions_def
  getUserPosition_def clear_table_def next_period_def

section \<open>The log of a period\<close>

text \<open>The abstract view: the bounds of the period and the deals that count, in order of arrival.\<close>

record period_log =
  pl_from :: time_point
  pl_to :: time_point
  pl_deals :: "(user_identifier \<times> f32) list"

definition within :: "time_point \<Rightarrow> time_point \<Rightarrow> u64 \<Rightarrow> bool" where
  "within s e t \<longleftrightarrow> unsigned_time s \<le> t \<and> t < unsigned_time e"

fun log_step :: "int \<Rightarrow> provider_event \<Rightarrow> period_log \<Rightarrow> period_log" where
  "log_step duration (DealArrives d) l =
     (if within (pl_from l) (pl_to l) (di_timestamp d)
      then l\<lparr>pl_deals := pl_deals l @ [(di_userId d, di_amount d)]\<rparr> else l)"
| "log_step duration TableCleared l = l\<lparr>pl_deals := []\<rparr>"
| "log_step duration PeriodUpdated l = l\<lparr>pl_from := pl_to l, pl_to := pl_to l + 1000000000 * duration\<rparr>"

definition logs :: "rating_provider \<Rightarrow> period_log \<Rightarrow> bool" where
  "logs p l \<longleftrightarrow> startTime p = pl_from l \<and> endTime p = pl_to l \<and> rating_inv (sortedDealContainer p) \<and>
     (\<forall>k. rating_of (sortedDealContainer p) k = total None (history k (pl_deals l)))"

fun won :: "provider_event \<Rightarrow> bool" where
  "won (DealArrives d) = f32_nonneg (di_amount d)"
| "won _ = True"

lemma total_append: "total r (as @ [a]) = Some (add_to (total r as) a)"
  by (induction as arbitrary: r) simp_all

lemma history_append: "history k (ds @ [d]) = history k ds @ (if fst d = k then [snd d] else [])"
  by (simp add: history_def)

lemma clear_rating_of [simp]: "rating_of (clear c) k = None"
  by (simp add: clear_def rating_of_def)

lemma addDeal_logs:
  assumes "logs p l" and "f32_nonneg (di_amount d)"
  shows "\<exists>p'. addDeal d p = Inr p' \<and> logs p' (log_step duration (DealArrives d) l) \<and>
    periodDuration p' = periodDuration p"
proof (cases "within (pl_from l) (pl_to l) (di_timestamp d)")
  case True
  with assms have "addDeal d p = bindr (insert_amount (di_userId d, di_amount d) (sortedDealContainer p))
      (\<lambda>c. Inr (p\<lparr>sortedDealContainer := c\<rparr>))"
    by (auto simp: addDeal_def within_def logs_def)
  moreover from assms have "rating_inv (sortedDealContainer p)" by (simp add: logs_def)
  from insert_amount_refines [OF this assms(2), of "di_userId d"] obtain c'
    where "insert_amount (di_userId d, di_amount d) (sortedDealContainer p) = Inr c'" "rating_inv c'"
      "rating_of c' = (rating_of (sortedDealContainer p))
        (di_userId d \<mapsto> add_to (rating_of (sortedDealContainer p) (di_userId d)) (di_amount d))" by blast
  ultimately show ?thesis
    using True assms(1) by (simp add: logs_def history_append total_append)
next
  case False
  then have "addDeal d p = Inr p"
    using assms(1) by (auto simp: addDeal_def within_def logs_def)
  with False assms(1) show ?thesis by simp
qed

lemma periodDuration_steps [simp]:
  "periodDuration (clear_table p) = periodDuration p"
  "periodDuration (next_period p) = periodDuration p"
  "periodDuration (new_provider w duration now) = duration"
  by (simp_all add: clear_table_def next_period_def new_provider_def updatePeriod_def)

lemma clear_logs: "logs p l \<Longrightarrow> logs (clear_table p) (log_step duration TableCleared l)"
  by (simp add: logs_def clear_table_def rating_inv_def f32_won.inv_clear history_def)

lemma next_period_logs:
  "logs p l \<Longrightarrow> periodDuration p = duration \<Longrightarrow> logs (next_period p) (log_step duration PeriodUpdated l)"
  by (simp add: logs_def next_period_def updatePeriod_def)

lemma step_logs:
  assumes "provider_step s e s'" and "won e" and "logs (snd s) l" and "periodDuration (snd s) = duration"
  shows "logs (snd s') (log_step duration e l)" and "periodDuration (snd s') = duration"
proof -
  have "logs (snd s') (log_step duration e l) \<and> periodDuration (snd s') = duration"
    using assms
  proof (induction rule: provider_step.induct)
    case (deal d p p' ph)
    then show ?case using addDeal_logs [of p l d duration] by auto
  qed (simp_all add: clear_logs next_period_logs del: log_step.simps)
  then show "logs (snd s') (log_step duration e l)" and "periodDuration (snd s') = duration" by simp_all
qed

lemma run_logs:
  assumes "provider_run s es s'" and "list_all won es" and "logs (snd s) l" and "periodDuration (snd s) = duration"
  shows "logs (snd s') (fold (log_step duration) es l) \<and> periodDuration (snd s') = duration"
  using assms
proof (induction arbitrary: l rule: provider_run.induct)
  case (run_more s e s1 es s2)
  then show ?case using step_logs [of s e s1 l duration] by simp
qed simp

lemma new_provider_logs:
  "logs (new_provider w duration now)
     \<lparr>pl_from = getPreviousWeekDay now w, pl_to = getPreviousWeekDay now w + 1000000000 * duration, pl_deals = []\<rparr>"
  using deals.inv_init deals.rating_init
  by (simp add: logs_def new_provider_def updatePeriod_def history_def)

section \<open>Reporting\<close>

lemma to_user_position_registered:
  "users store (mk_id (pd_value r)) = Some u \<Longrightarrow> to_user_position store r =
     Inr \<lparr>up_userInformation = u, up_position = of_nat (pd_position r), up_amount = mk_amount (pd_value r)\<rparr>"
  by (simp add: to_user_position_def getUserInformation_def)

lemma to_user_position_Inl:
  "to_user_position store r = Inl e \<longleftrightarrow> users store (mk_id (pd_value r)) = None \<and> e = not_registered (mk_id (pd_value r))"
  by (auto simp: to_user_position_def getUserInformation_Inl)

lemma transform_unregistered:
  assumes "r \<in> set rs" and "users store (mk_id (pd_value r)) = None"
  shows "\<exists>k. transform (to_user_position store) rs = Inl (not_registered k) \<and>
    k \<in> (\<lambda>r. mk_id (pd_value r)) ` set rs \<and> users store k = None"
proof -
  obtain e where e: "transform (to_user_position store) rs = Inl e"
    using transform_throws [OF assms(1), of "to_user_position store"] assms(2) by (auto simp: to_user_position_Inl)
  from transform_Inl [OF this] obtain r' where "r' \<in> set rs" "to_user_position store r' = Inl e" by blast
  with e show ?thesis by (auto simp: to_user_position_Inl)
qed

lemma enumerated_nth: "i < length xs \<Longrightarrow> enumerated m xs ! i = \<lparr>pd_position = m + i, pd_value = xs ! i\<rparr>"
  by (simp add: enumerated_def)

lemma enumerated_values: "pd_value ` set (enumerated m xs) = set xs"
  by (force simp: enumerated_def in_set_conv_nth image_iff)

lemma getHeadPositions_nth:
  "i < n \<Longrightarrow> i < length (table c) \<Longrightarrow> i < length (getHeadPositions n c) \<and>
    getHeadPositions n c ! i = \<lparr>pd_position = i, pd_value = table c ! i\<rparr>"
  by (simp add: getHeadPositions_def positioned_def table_def)

lemma unrated_position: "rating_of c k = None \<Longrightarrow> \<exists>e. getPosition f32_greater k c = Inl e"
  by (simp add: rating_of_def getPosition_def findInSortContainer_key_def)

section \<open>The bounds of the period\<close>

lemma gmtime_wday_weeks: "tm_wday (gmtime (t + 604800 * int n)) = tm_wday (gmtime t)"
proof (induction n)
  case (Suc n)
  have "t + 604800 * int (Suc n) = t + 604800 * int n + 604800" by simp
  with Suc show ?case by (simp only: gmtime_wday_week)
qed simp

definition periods_begun :: "provider_event list \<Rightarrow> nat" where
  "periods_begun es = length (filter (\<lambda>e. e = PeriodUpdated) es)"

definition period_ok :: "rating_provider \<Rightarrow> bool" where
  "period_ok p \<longleftrightarrow> endTime p = startTime p + 1000000000 * periodDuration p"

lemma addDeal_period:
  "addDeal d p = Inr p' \<Longrightarrow> startTime p' = startTime p \<and> endTime p' = endTime p \<and> periodDuration p' = periodDuration p"
  by (auto simp: addDeal_def split: if_splits)

lemma run_periods:
  assumes "provider_run s es s'" and "period_ok (snd s)"
  shows "period_ok (snd s') \<and> periodDuration (snd s') = periodDuration (snd s) \<and>
    startTime (snd s') = startTime (snd s) + int (periods_begun es) * (1000000000 * periodDuration (snd s))"
  using assms
proof (induction rule: provider_run.induct)
  case (run_more s e s1 es s2)
  have "period_ok (snd s1) \<and> periodDuration (snd s1) = periodDuration (snd s) \<and>
      startTime (snd s1) = startTime (snd s) + (if e = PeriodUpdated then 1000000000 * periodDuration (snd s) else 0)"
    using run_more.hyps(1) run_more.prems
    by (induction rule: provider_step.induct)
      (auto simp: period_ok_def clear_table_def next_period_def updatePeriod_def dest: addDeal_period)
  with run_more.IH show ?case by (auto simp: periods_begun_def algebra_simps)
qed (simp add: periods_begun_def)

lemma new_provider_period: "period_ok (new_provider w duration now)"
  by (simp add: period_ok_def new_provider_def updatePeriod_def)

section \<open>Properties\<close>

text \<open>C7. The provider refines the log of a period. Starting from the constructor, after any sequence
  of won deals and steps of the period thread, in any order the thread allows, the period bounds are
  the log's, and every user's rating is the sum of that user's deals that the log keeps: those that
  arrived since the table was last emptied with a time stamp inside the bounds valid at that moment.\<close>

theorem provider_refines_log:
  assumes "provider_run (AwaitingEnd, new_provider w duration now) es (ph, p)" and "list_all won es"
  shows "let t = getPreviousWeekDay now w;
             l = fold (log_step duration) es \<lparr>pl_from = t, pl_to = t + 1000000000 * duration, pl_deals = []\<rparr>
         in startTime p = pl_from l \<and> endTime p = pl_to l \<and> rating_inv (sortedDealContainer p) \<and>
            (\<forall>k. rating_of (sortedDealContainer p) k = total None (history k (pl_deals l)))"
  using run_logs [OF assms, unfolded snd_conv, OF new_provider_logs] by (simp add: logs_def Let_def)

theorem provider_refines_log_witness:
  "\<exists>p. provider_run (AwaitingEnd, new_provider Monday 604800 1515931932000000000)
      [DealArrives \<lparr>di_userId = 7, di_timestamp = 1515931000, di_amount = 0x3F800000\<rparr>] (AwaitingEnd, p) \<and>
    rating_of (sortedDealContainer p) 7 = Some 0x3F800000"
proof -
  let ?now = "1515931932000000000" and ?d = "\<lparr>di_userId = 7, di_timestamp = 1515931000, di_amount = 0x3F800000\<rparr>"
  have won: "f32_nonneg 0x3F800000" by (simp add: f32_defs)
  obtain p where "addDeal ?d (new_provider Monday 604800 ?now) = Inr p"
    using addDeal_logs [OF new_provider_logs, of ?d Monday] won by auto
  then have run: "provider_run (AwaitingEnd, new_provider Monday 604800 ?now) [DealArrives ?d] (AwaitingEnd, p)"
    by (auto simp: run_Cons intro: provider_step.intros)
  have "within (getPreviousWeekDay ?now Monday) (getPreviousWeekDay ?now Monday + 1000000000 * 604800) 1515931000"
    by code_simp
  then have "rating_of (sortedDealContainer p) 7 = Some 0x3F800000"
    using provider_refines_log [OF run] won by (simp add: Let_def history_def add_to_def)
  with run show ?thesis by blast
qed

text \<open>The periods follow each other without gap or overlap: after \<open>n\<close> completed periods of a
  service started with the week of seconds and Monday, the period starts exactly \<open>n\<close> weeks after the
  last Monday midnight before the start of the service, on a Monday, and ends a week later, whatever
  deals arrived.\<close>

theorem periods_are_weeks:
  assumes "provider_run (AwaitingEnd, new_provider w 604800 now) es (ph, p)"
  shows "startTime p = from_time_t (to_time_t (getPreviousWeekDay now w) + 604800 * int (periods_begun es)) \<and>
    endTime p = startTime p + from_time_t 604800 \<and>
    tm_wday (gmtime (to_time_t (startTime p))) = uint (week_day_value w)"
proof -
  have prev: "getPreviousWeekDay now w = from_time_t (to_time_t (getPreviousWeekDay now w))"
    by (simp add: getPreviousWeekDay_eq)
  have "startTime (new_provider w 604800 now) = from_time_t (to_time_t (getPreviousWeekDay now w))"
    by (subst prev [symmetric]) (simp add: new_provider_def updatePeriod_def)
  with run_periods [OF assms] new_provider_period [of w 604800 now] have
    "startTime p = from_time_t (to_time_t (getPreviousWeekDay now w) + 604800 * int (periods_begun es))"
    "endTime p = startTime p + from_time_t 604800"
    by (simp_all add: period_ok_def from_time_t_def)
  then show ?thesis by (simp add: gmtime_wday_weeks previous_wday)
qed

theorem periods_are_weeks_witness:
  "\<exists>p. provider_run (AwaitingEnd, new_provider Monday 604800 1515931932000000000)
      [TableCleared, PeriodUpdated] (AwaitingEnd, p) \<and> to_time_t (startTime p) = 1515974400"
proof -
  let ?p = "new_provider Monday 604800 1515931932000000000"
  have run: "provider_run (AwaitingEnd, ?p) [TableCleared, PeriodUpdated] (AwaitingEnd, next_period (clear_table ?p))"
    by (auto simp: run_Cons intro: provider_step.intros)
  have "to_time_t (getPreviousWeekDay 1515931932000000000 Monday) = 1515369600" by code_simp
  then have "to_time_t (startTime (next_period (clear_table ?p))) = 1515974400"
    using periods_are_weeks [OF run] by (simp add: periods_begun_def)
  with run show ?thesis by blast
qed

text \<open>The period thread empties the table under the mutex and updates the bounds afterwards,
  outside of it. A won deal of the ending period that arrives in between is accepted, stays in the
  table, and counts in the new period although its time stamp lies before that period.\<close>

theorem rollover_gap_counts_old_deal:
  assumes "rating_inv (sortedDealContainer p)" and "f32_nonneg (di_amount d)"
    and "within (startTime p) (endTime p) (di_timestamp d)"
  shows "\<exists>p'. provider_run (AwaitingEnd, p) [TableCleared, DealArrives d, PeriodUpdated] (AwaitingEnd, p') \<and>
    rating_of (sortedDealContainer p') (di_userId d) = Some (di_amount d) \<and>
    di_timestamp d < unsigned_time (startTime p')"
proof -
  have "logs (clear_table p) \<lparr>pl_from = startTime p, pl_to = endTime p, pl_deals = []\<rparr>"
    using assms(1) by (simp add: logs_def clear_table_def rating_inv_def f32_won.inv_clear history_def)
  from addDeal_logs [OF this assms(2)] obtain p1 where add: "addDeal d (clear_table p) = Inr p1"
    and "logs p1 \<lparr>pl_from = startTime p, pl_to = endTime p, pl_deals = [(di_userId d, di_amount d)]\<rparr>"
    using assms(3) by auto
  then have "rating_of (sortedDealContainer p1) (di_userId d) = Some (di_amount d)" "endTime p1 = endTime p"
    by (simp_all add: logs_def history_def add_to_def)
  moreover have "provider_run (AwaitingEnd, p) [TableCleared, DealArrives d, PeriodUpdated] (AwaitingEnd, next_period p1)"
    using add by (meson provider_run.intros provider_step.intros)
  ultimately show ?thesis
    using assms(3) by (intro exI [of _ "next_period p1"]) (simp add: within_def next_period_def updatePeriod_def)
qed

theorem rollover_gap_counts_old_deal_witness:
  "\<exists>p'. provider_run (AwaitingEnd, new_provider Monday 604800 1515931932000000000)
      [TableCleared, DealArrives \<lparr>di_userId = 7, di_timestamp = 1515931000, di_amount = 0x3F800000\<rparr>, PeriodUpdated]
      (AwaitingEnd, p') \<and>
    rating_of (sortedDealContainer p') 7 = Some 0x3F800000 \<and> 1515931000 < unsigned_time (startTime p')"
proof -
  let ?p = "new_provider Monday 604800 1515931932000000000"
  have "rating_inv (sortedDealContainer ?p)"
    using deals.inv_init by (simp add: new_provider_def updatePeriod_def)
  moreover have "within (startTime ?p) (endTime ?p) 1515931000" by code_simp
  ultimately show ?thesis
    using rollover_gap_counts_old_deal [of ?p "\<lparr>di_userId = 7, di_timestamp = 1515931000, di_amount = 0x3F800000\<rparr>"]
    by (simp add: f32_defs)
qed

text \<open>The report is only as complete as the registry: when a user among the first \<open>n\<close> of the table
  is not registered, asking for the head positions fails for everybody, with the error that names
  one of the unregistered users.\<close>

theorem unregistered_user_hides_head:
  assumes "v \<in> set (take n (table (sortedDealContainer p)))" and "users store (mk_id v) = None"
  shows "\<exists>k. provider_getHeadPositions store n p = Inl (not_registered k) \<and> users store k = None \<and>
    k \<in> mk_id ` set (take n (table (sortedDealContainer p)))"
proof -
  let ?hs = "getHeadPositions n (sortedDealContainer p)"
  have vals: "pd_value ` set ?hs = set (take n (table (sortedDealContainer p)))"
    by (simp add: f32_won.getHeadPositions_table enumerated_values)
  with assms(1) obtain r where r: "r \<in> set ?hs" "pd_value r = v" by (metis imageE)
  obtain k where k: "transform (to_user_position store) ?hs = Inl (not_registered k)" "users store k = None"
      "k \<in> (\<lambda>r. mk_id (pd_value r)) ` set ?hs"
    using transform_unregistered [OF r(1)] r(2) assms(2) by blast
  from k(3) vals have "k \<in> mk_id ` set (take n (table (sortedDealContainer p)))" by force
  with k(1,2) show ?thesis unfolding provider_getHeadPositions_def by blast
qed

theorem unregistered_user_hides_head_witness:
  "\<exists>k. provider_getHeadPositions \<lparr>users = [1 \<mapsto> \<lparr>ui_id = 1, ui_name = ''a''\<rparr>, 3 \<mapsto> \<lparr>ui_id = 3, ui_name = ''c''\<rparr>]\<rparr> 10
      \<lparr>startTime = 0, endTime = 0, periodDuration = 0, sortedDealContainer = example_table\<rparr> = Inl (not_registered k)"
  using unregistered_user_hides_head [of "\<lparr>mk_id = 2, mk_amount = 0x3F800000\<rparr>" 10
      "\<lparr>startTime = 0, endTime = 0, periodDuration = 0, sortedDealContainer = example_table\<rparr>"
      "\<lparr>users = [1 \<mapsto> \<lparr>ui_id = 1, ui_name = ''a''\<rparr>, 3 \<mapsto> \<lparr>ui_id = 3, ui_name = ''c''\<rparr>]\<rparr>"]
  by (auto simp: example_table_table)

text \<open>Reports agree with each other: the entry that reports a user's own position is, word for word,
  the entry of the head positions at that index, whenever the head reaches that far.\<close>

theorem own_position_agrees_with_head:
  assumes "rating_inv (sortedDealContainer p)" and "store_ok store"
    and "length (table (sortedDealContainer p)) < 2 ^ 64"
    and "getUserPosition store k p = Inr u" and "provider_getHeadPositions store n p = Inr hs"
    and "unat (up_position u) < n"
  shows "unat (up_position u) < length hs \<and> hs ! unat (up_position u) = u \<and>
    ui_id (up_userInformation u) = k \<and> rating_of (sortedDealContainer p) k = Some (up_amount u)"
proof -
  let ?c = "sortedDealContainer p"
  note inv = assms(1) [unfolded rating_inv_def]
  from assms(4) obtain r ui where r: "getPosition f32_greater k ?c = Inr r" and ui: "users store k = Some ui"
    and u: "u = \<lparr>up_userInformation = ui, up_position = of_nat (pd_position r), up_amount = mk_amount (pd_value r)\<rparr>"
    by (auto simp: getUserPosition_def getUserInformation_Inr)
  have "rating_of ?c k \<noteq> None"
    using r unrated_position [of ?c k] by auto
  then obtain a where a: "rating_of ?c k = Some a" by blast
  note e = rated_entry [OF assms(1) a]
  from f32_won.getPosition_table [OF inv e(1)] r e(3)
  have r': "pd_position r = rank_of k (table ?c)" "pd_value r = \<lparr>mk_id = k, mk_amount = a\<rparr>" by auto
  from e(2) assms(3) have pos: "unat (up_position u) = rank_of k (table ?c)"
    by (simp add: u r' unat_of_nat)
  from getHeadPositions_nth [of "rank_of k (table ?c)" n ?c] e(2,3) assms(6) pos
  have h: "rank_of k (table ?c) < length (getHeadPositions n ?c)"
    "getHeadPositions n ?c ! rank_of k (table ?c) =
      \<lparr>pd_position = rank_of k (table ?c), pd_value = \<lparr>mk_id = k, mk_amount = a\<rparr>\<rparr>" by auto
  from assms(5) have all: "list_all2 (\<lambda>x y. to_user_position store x = Inr y) (getHeadPositions n ?c) hs"
    by (simp add: provider_getHeadPositions_def transform_Inr_iff)
  with h(1) list_all2_lengthD [OF all] list_all2_nthD [OF all h(1)] h(2) ui r' u
  have "hs ! rank_of k (table ?c) = u" "rank_of k (table ?c) < length hs"
    by (auto simp: to_user_position_registered)
  with pos a ui assms(2) u r' show ?thesis by (simp add: store_ok_def)
qed

theorem own_position_agrees_with_head_witness:
  "\<exists>u hs. getUserPosition \<lparr>users = (\<lambda>k. Some \<lparr>ui_id = k, ui_name = ''u''\<rparr>)\<rparr> 2
      \<lparr>startTime = 0, endTime = 0, periodDuration = 0, sortedDealContainer = example_table\<rparr> = Inr u \<and>
    provider_getHeadPositions \<lparr>users = (\<lambda>k. Some \<lparr>ui_id = k, ui_name = ''u''\<rparr>)\<rparr> 10
      \<lparr>startTime = 0, endTime = 0, periodDuration = 0, sortedDealContainer = example_table\<rparr> = Inr hs \<and>
    hs ! unat (up_position u) = u \<and> up_amount u = 0x3F800000"
proof -
  let ?store = "\<lparr>users = (\<lambda>k. Some \<lparr>ui_id = k, ui_name = ''u''\<rparr>)\<rparr> :: user_data_store"
  let ?p = "\<lparr>startTime = 0, endTime = 0, periodDuration = 0, sortedDealContainer = example_table\<rparr>"
  note e = rated_entry [OF example_table_inv example_table_rating]
  note pos = f32_won.getPosition_table [OF example_table_inv [unfolded rating_inv_def] e(1)]
  obtain u where u: "getUserPosition ?store 2 ?p = Inr u" "unat (up_position u) < 10"
    using e(2) by (auto simp: getUserPosition_def pos getUserInformation_def example_table_table unat_of_nat)
  have "provider_getHeadPositions ?store 10 ?p = Inr (map (\<lambda>r. \<lparr>up_userInformation =
      \<lparr>ui_id = mk_id (pd_value r), ui_name = ''u''\<rparr>, up_position = of_nat (pd_position r),
      up_amount = mk_amount (pd_value r)\<rparr>) (getHeadPositions 10 example_table))"
    unfolding provider_getHeadPositions_def by (subst transform_all_ok) (auto simp: to_user_position_registered)
  then obtain hs where hs: "provider_getHeadPositions ?store 10 ?p = Inr hs" by blast
  have "hs ! unat (up_position u) = u" "rating_of example_table 2 = Some (up_amount u)"
    using own_position_agrees_with_head [of ?p ?store 2 u 10 hs] u hs example_table_inv
    by (simp_all add: store_ok_def example_table_table)
  with u hs example_table_rating show ?thesis by auto
qed

end
