(* ===== verification/User_Rating_Watcher.thy ===== *)
theory User_Rating_Watcher
  imports User_Rating_Provider
begin

text \<open>
  \<^verbatim>\<open>service/src/UserRatingWatcher.cpp\<close>: the set of connected users and the messages with their
  relative rating. The transport is the interface \<^verbatim>\<open>core/ITransportServer.hpp\<close>, here the parameter
  \<open>send\<close> for \<^verbatim>\<open>sendToUser\<close>, acting on a transport state \<open>'t\<close>. Operations change their state step by
  step and keep the changes made before an exception, so they return the new state together with the
  exception that ended them, if any.
\<close>

section \<open>State\<close>

text \<open>The objects the service shares: the two stores of \<^verbatim>\<open>DataStoreFactory\<close>, the watcher with its
  provider, and the transport.\<close>

type_synonym 't sender = "user_identifier \<Rightarrow> base_message \<Rightarrow> 't \<Rightarrow> 't outcome"

record 't service =
  userDataStore :: user_data_store
  userDealDataStore :: "rating_provider user_deal_data_store"
  userRatingProvider :: rating_provider
  nRatingPositions :: nat
  connectedUsers :: "user_identifier set"
  transport :: 't

definition secondsInWeek :: int where
  "secondsInWeek = 7 * 24 * 3600"

definition new_service :: "nat \<Rightarrow> time_point \<Rightarrow> 't \<Rightarrow> 't service" where
  "new_service nPositions now t =
     \<lparr>userDataStore = empty_user_data_store,
      userDealDataStore = addDealAddedSlot addDeal \<lparr>dealAddedSignal = []\<rparr>,
      userRatingProvider = new_provider Monday secondsInWeek now,
      nRatingPositions = nPositions, connectedUsers = {}, transport = t\<rparr>"

section \<open>Sending a relative rating\<close>

definition relative_rating ::
  "user_data_store \<Rightarrow> nat \<Rightarrow> user_identifier \<Rightarrow> rating_provider \<Rightarrow> user_relative_rating result" where
  "relative_rating store n userId p =
     bindr (getUserPosition store userId p) (\<lambda>userPosition.
     bindr (provider_getHeadPositions store n p) (\<lambda>headPositions.
     bindr (provider_getHighPositions store userId n p) (\<lambda>highPositions.
     bindr (provider_getLowPositions store userId n p) (\<lambda>lowPositions.
       Inr \<lparr>ur_userPosition = userPosition, ur_headPositions = headPositions,
            ur_highPositions = highPositions, ur_lowPositions = lowPositions\<rparr>))))"

text \<open>A user without a deal in the period gets one of amount zero, stamped with the current time.\<close>

definition ensure_present :: "time_point \<Rightarrow> user_identifier \<Rightarrow> rating_provider \<Rightarrow> rating_provider result" where
  "ensure_present now userId p =
     (if isUserPresent userId p then Inr p
      else addDeal \<lparr>di_userId = userId, di_timestamp = unsigned_time now, di_amount = 0\<rparr> p)"

definition rating_message :: "user_relative_rating \<Rightarrow> base_message" where
  "rating_message r = \<lparr>msg_type = UserRelativeRating, msg_data = PUserRelativeRating r\<rparr>"

definition push_rating :: "'t sender \<Rightarrow> user_identifier \<Rightarrow> 't service \<Rightarrow> 't service outcome" where
  "push_rating send userId s =
     (case relative_rating (userDataStore s) (nRatingPositions s) userId (userRatingProvider s) of
        Inl e \<Rightarrow> (s, Some e)
      | Inr r \<Rightarrow> (let (t, e) = send userId (rating_message r) (transport s) in (s\<lparr>transport := t\<rparr>, e)))"

definition sendUserRelativeRating ::
  "'t sender \<Rightarrow> time_point \<Rightarrow> user_identifier \<Rightarrow> 't service \<Rightarrow> 't service outcome" where
  "sendUserRelativeRating send now userId s =
     and_then (update_by (\<lambda>p s. s\<lparr>userRatingProvider := p\<rparr>) (ensure_present now userId (userRatingProvider s)) s)
       (push_rating send userId)"

definition userConnected ::
  "'t sender \<Rightarrow> time_point \<Rightarrow> user_identifier \<Rightarrow> 't service \<Rightarrow> 't service outcome" where
  "userConnected send now userId s =
     sendUserRelativeRating send now userId (s\<lparr>connectedUsers := insert userId (connectedUsers s)\<rparr>)"

definition userDisconnected :: "user_identifier \<Rightarrow> 't service \<Rightarrow> 't service" where
  "userDisconnected userId s = s\<lparr>connectedUsers := connectedUsers s - {userId}\<rparr>"

text \<open>
  One cycle of the update thread over a snapshot of the connected users, each with the time at which
  its turn comes; a stop request ends the cycle early, so the list may be a prefix of the snapshot.
  Nothing in the thread catches exceptions: a cycle that ends with one ends the process.
\<close>

fun broadcast :: "(time_point \<Rightarrow> 't sender) \<Rightarrow> (time_point \<times> user_identifier) list \<Rightarrow> 't service \<Rightarrow> 't service outcome" where
  "broadcast send [] s = (s, None)"
| "broadcast send ((now, userId) # rest) s =
     and_then (sendUserRelativeRating (send now) now userId s) (broadcast send rest)"

lemmas watcher_defs [component_defs] =
  secondsInWeek_def new_service_def relative_rating_def ensure_present_def rating_message_def
  push_rating_def sendUserRelativeRating_def userConnected_def userDisconnected_def

section \<open>What holds of every operation\<close>

text \<open>The invariant of the state behind the service.\<close>

definition service_ok :: "'t service \<Rightarrow> bool" where
  "service_ok s \<longleftrightarrow> store_ok (userDataStore s) \<and> rating_inv (sortedDealContainer (userRatingProvider s)) \<and>
     period_ok (userRatingProvider s) \<and> finite (connectedUsers s)"

lemma zero_nonneg: "f32_nonneg 0"
  by (simp add: f32_defs)

lemma addDeal_total:
  assumes "rating_inv (sortedDealContainer p)" and "f32_nonneg (di_amount d)"
  shows "\<exists>p'. addDeal d p = Inr p' \<and> rating_inv (sortedDealContainer p') \<and>
    (period_ok p \<longrightarrow> period_ok p') \<and> startTime p' = startTime p \<and> endTime p' = endTime p \<and>
    rating_of (sortedDealContainer p') =
      (if within (startTime p) (endTime p) (di_timestamp d)
       then (rating_of (sortedDealContainer p))
         (di_userId d \<mapsto> add_to (rating_of (sortedDealContainer p) (di_userId d)) (di_amount d))
       else rating_of (sortedDealContainer p))"
  using assms(1) insert_amount_refines [OF assms, of "di_userId d"]
  by (auto simp: addDeal_def within_def period_ok_def not_less not_le)

lemma ensure_present_total:
  assumes "rating_inv (sortedDealContainer p)"
  shows "\<exists>p'. ensure_present now k p = Inr p' \<and> rating_inv (sortedDealContainer p') \<and>
    (period_ok p \<longrightarrow> period_ok p') \<and> startTime p' = startTime p \<and> endTime p' = endTime p \<and>
    rating_of (sortedDealContainer p') =
      (if rating_of (sortedDealContainer p) k = None \<and> within (startTime p) (endTime p) (unsigned_time now)
       then (rating_of (sortedDealContainer p))(k \<mapsto> 0) else rating_of (sortedDealContainer p))"
proof (cases "isUserPresent k p")
  case True
  with assms show ?thesis by (auto simp: ensure_present_def isUserPresent_def isPresent_def rating_of_def)
next
  case False
  then have none: "rating_of (sortedDealContainer p) k = None"
    by (simp add: isUserPresent_def isPresent_def rating_of_def)
  from addDeal_total [OF assms, of "\<lparr>di_userId = k, di_timestamp = unsigned_time now, di_amount = 0\<rparr>"]
  show ?thesis using False none zero_nonneg by (auto simp: ensure_present_def add_to_def)
qed

lemma service_ok_ensure_present:
  assumes "service_ok s" and "ensure_present now k (userRatingProvider s) = Inr p"
  shows "service_ok (s\<lparr>userRatingProvider := p\<rparr>)"
  using ensure_present_total [of "userRatingProvider s" now k] assms by (auto simp: service_ok_def)

lemma service_ok_transport: "service_ok s \<Longrightarrow> service_ok (s\<lparr>transport := t\<rparr>)"
  by (simp add: service_ok_def)

lemma push_rating_keeps:
  assumes "I s" and "\<And>s t. I s \<Longrightarrow> I (s\<lparr>transport := t\<rparr>)"
  shows "I (fst (push_rating send k s))"
  using assms by (simp add: push_rating_def split: sum.split prod.split)

lemma send_keeps:
  assumes "I s" and "\<And>p. ensure_present now k (userRatingProvider s) = Inr p \<Longrightarrow> I (s\<lparr>userRatingProvider := p\<rparr>)"
    and "\<And>s t. I s \<Longrightarrow> I (s\<lparr>transport := t\<rparr>)"
  shows "I (fst (sendUserRelativeRating send now k s))"
  unfolding sendUserRelativeRating_def
  by (rule and_then_keeps [where I = I], rule update_by_keeps [where I = I, OF assms(1)], erule assms(2),
      rule push_rating_keeps [where I = I, OF _ assms(3)])

lemma sendUserRelativeRating_ok: "service_ok s \<Longrightarrow> service_ok (fst (sendUserRelativeRating send now k s))"
  by (rule send_keeps [where I = service_ok]) (simp_all add: service_ok_ensure_present service_ok_transport)

lemma userConnected_ok: "service_ok s \<Longrightarrow> service_ok (fst (userConnected send now k s))"
  unfolding userConnected_def by (intro sendUserRelativeRating_ok) (simp add: service_ok_def)

lemma userDisconnected_ok: "service_ok s \<Longrightarrow> service_ok (userDisconnected k s)"
  by (simp add: service_ok_def userDisconnected_def)

lemma broadcast_ok: "service_ok s \<Longrightarrow> service_ok (fst (broadcast send us s))"
proof (induction us arbitrary: s)
  case (Cons u us)
  then show ?case by (cases u) (simp add: and_then_keeps [where I = service_ok] sendUserRelativeRating_ok)
qed simp

lemma new_service_ok: "service_ok (new_service n now t)"
  using deals.inv_init uds.ok_init new_provider_period [of Monday secondsInWeek now]
  by (simp add: service_ok_def new_service_def) (simp add: new_provider_def updatePeriod_def)

section \<open>When a rating can be reported\<close>

definition all_registered :: "user_data_store \<Rightarrow> rating_provider \<Rightarrow> bool" where
  "all_registered store p \<longleftrightarrow> (\<forall>v \<in> set (table (sortedDealContainer p)). users store (mk_id v) \<noteq> None)"

definition reported :: "user_data_store \<Rightarrow> f32 positioned_data \<Rightarrow> user_position" where
  "reported store r = \<lparr>up_userInformation = the (users store (mk_id (pd_value r))),
     up_position = of_nat (pd_position r), up_amount = mk_amount (pd_value r)\<rparr>"

lemma transform_reported:
  assumes "all_registered store p" and "set vs \<subseteq> set (table (sortedDealContainer p))"
  shows "transform (to_user_position store) (enumerated m vs) = Inr (map (reported store) (enumerated m vs))"
proof (rule transform_all_ok)
  fix r assume "r \<in> set (enumerated m vs)"
  then have "pd_value r \<in> set vs" using enumerated_values [of m vs] by force
  then show "to_user_position store r = Inr (reported store r)"
    using assms by (auto simp: all_registered_def reported_def to_user_position_registered)
qed

lemma relative_rating_content:
  assumes "rating_inv (sortedDealContainer p)" and "all_registered store p"
    and "rating_of (sortedDealContainer p) k = Some a"
  shows "\<exists>r. relative_rating store n k p =
    (let xs = table (sortedDealContainer p)
     in Inr \<lparr>ur_userPosition = reported store \<lparr>pd_position = r, pd_value = \<lparr>mk_id = k, mk_amount = a\<rparr>\<rparr>,
       ur_headPositions = map (reported store) (enumerated 0 (take n xs)),
       ur_highPositions = map (reported store) (enumerated (r - n) (drop (r - n) (take r xs))),
       ur_lowPositions = map (reported store) (enumerated (Suc r)
         (if r + n < length xs then take n (drop (Suc r) xs) else butlast (drop (Suc r) xs)))\<rparr>) \<and>
    r < length (table (sortedDealContainer p)) \<and>
    table (sortedDealContainer p) ! r = \<lparr>mk_id = k, mk_amount = a\<rparr>"
proof -
  let ?c = "sortedDealContainer p" and ?r = "rank_of k (table (sortedDealContainer p))"
  note inv = assms(1) [unfolded rating_inv_def]
  note e = rated_entry [OF assms(1,3)]
  have sub: "set (take n xs) \<subseteq> set xs" "set (drop i (take j xs)) \<subseteq> set xs"
    "set (if b then take n (drop i xs) else butlast (drop i xs)) \<subseteq> set xs" for b i j and xs :: "f32 multi_key_data list"
    by (auto dest: in_set_takeD in_set_dropD in_set_butlastD)
  from e(1) assms(2) obtain u where u: "users store k = Some u"
    by (auto simp: all_registered_def)
  have "getUserPosition store k p = Inr (reported store \<lparr>pd_position = ?r, pd_value = \<lparr>mk_id = k, mk_amount = a\<rparr>\<rparr>)"
    using f32_won.getPosition_table [OF inv e(1)] e(3) u
    by (simp add: getUserPosition_def getUserInformation_def reported_def)
  moreover have "provider_getHeadPositions store n p = Inr (map (reported store) (enumerated 0 (take n (table ?c))))"
    unfolding provider_getHeadPositions_def f32_won.getHeadPositions_table
    by (rule transform_reported [OF assms(2) sub(1)])
  moreover have "provider_getHighPositions store k n p =
      Inr (map (reported store) (enumerated (?r - n) (drop (?r - n) (take ?r (table ?c)))))"
    unfolding provider_getHighPositions_def f32_won.getHighPositions_table [OF inv e(1) refl] bindr.simps
    by (rule transform_reported [OF assms(2) sub(2)])
  moreover have "provider_getLowPositions store k n p = Inr (map (reported store) (enumerated (Suc ?r)
      (if ?r + n < length (table ?c) then take n (drop (Suc ?r) (table ?c)) else butlast (drop (Suc ?r) (table ?c)))))"
    unfolding provider_getLowPositions_def f32_won.getLowPositions_table [OF inv e(1) refl] bindr.simps
    by (rule transform_reported [OF assms(2) sub(3)])
  ultimately show ?thesis using e(2,3) by (intro exI [of _ ?r]) (simp add: relative_rating_def Let_def)
qed

lemma relative_rating_unregistered:
  assumes "users store k = None"
  shows "\<exists>e. relative_rating store n k p = Inl e"
proof -
  have "\<exists>e. getUserPosition store k p = Inl e"
    using assms
    by (cases "getPosition f32_greater k (sortedDealContainer p)") (simp_all add: getUserPosition_def getUserInformation_def)
  then show ?thesis by (auto simp: relative_rating_def)
qed

lemma sendUserRelativeRating_store [simp]:
  "userDataStore (fst (sendUserRelativeRating send now k s)) = userDataStore s"
  by (rule send_keeps [where I = "\<lambda>s'. userDataStore s' = userDataStore s"]) simp_all

lemma sendUserRelativeRating_unregistered:
  assumes "users (userDataStore s) k = None"
  shows "snd (sendUserRelativeRating send now k s) \<noteq> None"
  using assms relative_rating_unregistered [of "userDataStore s" k]
  by (cases "ensure_present now k (userRatingProvider s)")
     (auto simp: sendUserRelativeRating_def push_rating_def, metis snd_conv option.simps(3) sum.case(1))

lemma all_registered_iff:
  "rating_inv (sortedDealContainer p) \<Longrightarrow>
    all_registered store p \<longleftrightarrow> (\<forall>k. rating_of (sortedDealContainer p) k \<noteq> None \<longrightarrow> users store k \<noteq> None)"
  using ball_simps(9) [of mk_id "set (table (sortedDealContainer p))" "\<lambda>k. users store k \<noteq> None"]
  by (simp add: all_registered_def Ball_def deals.ranking_dom)

text \<open>For a registered user, in a table of registered users and inside the period, there is a rating to
  send.\<close>

lemma rating_ready:
  assumes "service_ok s" and "all_registered (userDataStore s) (userRatingProvider s)"
    and "users (userDataStore s) k \<noteq> None"
    and "within (startTime (userRatingProvider s)) (endTime (userRatingProvider s)) (unsigned_time now)"
  shows "\<exists>p r. ensure_present now k (userRatingProvider s) = Inr p \<and>
    rating_of (sortedDealContainer p) = (rating_of (sortedDealContainer (userRatingProvider s)))
      (k \<mapsto> (case rating_of (sortedDealContainer (userRatingProvider s)) k of None \<Rightarrow> 0 | Some a \<Rightarrow> a)) \<and>
    rating_inv (sortedDealContainer p) \<and> all_registered (userDataStore s) p \<and>
    relative_rating (userDataStore s) (nRatingPositions s) k p = Inr r"
proof -
  from assms(1) have inv: "rating_inv (sortedDealContainer (userRatingProvider s))" by (simp add: service_ok_def)
  from ensure_present_total [OF inv, of now k] assms(4) obtain p
    where p: "ensure_present now k (userRatingProvider s) = Inr p" "rating_inv (sortedDealContainer p)"
      and rated: "rating_of (sortedDealContainer p) =
        (if rating_of (sortedDealContainer (userRatingProvider s)) k = None
         then (rating_of (sortedDealContainer (userRatingProvider s)))(k \<mapsto> 0)
         else rating_of (sortedDealContainer (userRatingProvider s)))" by auto
  from rated have upd: "rating_of (sortedDealContainer p) = (rating_of (sortedDealContainer (userRatingProvider s)))
      (k \<mapsto> (case rating_of (sortedDealContainer (userRatingProvider s)) k of None \<Rightarrow> 0 | Some a \<Rightarrow> a))"
    by (simp add: fun_upd_idem split: option.split)
  have reg: "all_registered (userDataStore s) p"
    using assms(2,3) unfolding all_registered_iff [OF p(2)] all_registered_iff [OF inv] upd by (auto split: if_splits)
  obtain a where "rating_of (sortedDealContainer p) k = Some a" using upd by simp
  from relative_rating_content [OF p(2) reg this, of "nRatingPositions s"] p upd reg show ?thesis
    by (auto simp: Let_def)
qed

lemma sendUserRelativeRating_served:
  assumes "service_ok s" and "all_registered (userDataStore s) (userRatingProvider s)"
    and "users (userDataStore s) k \<noteq> None"
    and "within (startTime (userRatingProvider s)) (endTime (userRatingProvider s)) (unsigned_time now)"
    and "\<forall>r. \<exists>t'. send k (rating_message r) (transport s) = (t', None)"
  shows "\<exists>p r t'. sendUserRelativeRating send now k s = (s\<lparr>userRatingProvider := p, transport := t'\<rparr>, None) \<and>
    rating_of (sortedDealContainer p) = (rating_of (sortedDealContainer (userRatingProvider s)))
      (k \<mapsto> (case rating_of (sortedDealContainer (userRatingProvider s)) k of None \<Rightarrow> 0 | Some a \<Rightarrow> a)) \<and>
    rating_inv (sortedDealContainer p) \<and> all_registered (userDataStore s) p \<and>
    relative_rating (userDataStore s) (nRatingPositions s) k p = Inr r \<and>
    send k (rating_message r) (transport s) = (t', None)"
proof -
  from rating_ready [OF assms(1-4)] obtain p r where p: "ensure_present now k (userRatingProvider s) = Inr p"
    "rating_of (sortedDealContainer p) = (rating_of (sortedDealContainer (userRatingProvider s)))
      (k \<mapsto> (case rating_of (sortedDealContainer (userRatingProvider s)) k of None \<Rightarrow> 0 | Some a \<Rightarrow> a))"
    "rating_inv (sortedDealContainer p)" "all_registered (userDataStore s) p"
    "relative_rating (userDataStore s) (nRatingPositions s) k p = Inr r" by blast
  obtain t' where "send k (rating_message r) (transport s) = (t', None)" using assms(5) by blast
  with p show ?thesis by (intro exI [of _ p] exI [of _ r] exI [of _ t']) (simp add: sendUserRelativeRating_def push_rating_def)
qed

lemma broadcast_unregistered:
  assumes "k \<in> snd ` set us" and "users (userDataStore s) k = None"
  shows "snd (broadcast send us s) \<noteq> None"
  using assms
proof (induction us arbitrary: s)
  case (Cons u us)
  obtain now j where u: "u = (now, j)" by (cases u)
  obtain s1 r where send: "sendUserRelativeRating (send now) now j s = (s1, r)" by fastforce
  show ?case
  proof (cases r)
    case None
    with send sendUserRelativeRating_unregistered [of s j "send now" now] Cons.prems u have "k \<in> snd ` set us" by auto
    moreover have "users (userDataStore s1) k = None"
      using sendUserRelativeRating_store [of "send now" now j s] Cons.prems(2) send by simp
    ultimately show ?thesis using Cons.IH [of s1] u send None by simp
  qed (simp add: u send)
qed simp

section \<open>Properties\<close>

text \<open>C13. What a rating message says. In a table of registered users the message of a rated user
  carries that user's identifier and rating, the place \<open>r\<close> of the user's entry, and as head, high and
  low positions the registered records of the users at the places \<open>0..n-1\<close>, \<open>r-n..r-1\<close> and behind \<open>r\<close>
  (where the last user of the table is left out when fewer than \<open>n\<close> users follow \<open>r\<close>).\<close>

theorem rating_message_content:
  assumes "rating_inv (sortedDealContainer p)" and "all_registered store p"
    and "rating_of (sortedDealContainer p) k = Some a"
  shows "\<exists>r. relative_rating store n k p =
    (let xs = table (sortedDealContainer p)
     in Inr \<lparr>ur_userPosition = reported store \<lparr>pd_position = r, pd_value = \<lparr>mk_id = k, mk_amount = a\<rparr>\<rparr>,
       ur_headPositions = map (reported store) (enumerated 0 (take n xs)),
       ur_highPositions = map (reported store) (enumerated (r - n) (drop (r - n) (take r xs))),
       ur_lowPositions = map (reported store) (enumerated (Suc r)
         (if r + n < length xs then take n (drop (Suc r) xs) else butlast (drop (Suc r) xs)))\<rparr>) \<and>
    r < length (table (sortedDealContainer p)) \<and>
    table (sortedDealContainer p) ! r = \<lparr>mk_id = k, mk_amount = a\<rparr>"
  using assms by (rule relative_rating_content)

definition example_store :: user_data_store where
  "example_store = \<lparr>users = [1 \<mapsto> \<lparr>ui_id = 1, ui_name = ''a''\<rparr>, 2 \<mapsto> \<lparr>ui_id = 2, ui_name = ''b''\<rparr>,
     3 \<mapsto> \<lparr>ui_id = 3, ui_name = ''c''\<rparr>]\<rparr>"

definition example_provider :: rating_provider where
  "example_provider = \<lparr>startTime = 1515369600000000000, endTime = 1515974400000000000,
     periodDuration = 604800, sortedDealContainer = example_table\<rparr>"

lemma example_registered: "all_registered example_store example_provider"
  by (simp add: all_registered_def example_store_def example_provider_def example_table_table)

theorem rating_message_content_witness:
  "relative_rating example_store 10 2 example_provider = Inr
     \<lparr>ur_userPosition = \<lparr>up_userInformation = \<lparr>ui_id = 2, ui_name = ''b''\<rparr>, up_position = 1, up_amount = 0x3F800000\<rparr>,
      ur_headPositions = [\<lparr>up_userInformation = \<lparr>ui_id = 1, ui_name = ''a''\<rparr>, up_position = 0, up_amount = 0x40000000\<rparr>,
        \<lparr>up_userInformation = \<lparr>ui_id = 2, ui_name = ''b''\<rparr>, up_position = 1, up_amount = 0x3F800000\<rparr>,
        \<lparr>up_userInformation = \<lparr>ui_id = 3, ui_name = ''c''\<rparr>, up_position = 2, up_amount = 0x3F000000\<rparr>],
      ur_highPositions = [\<lparr>up_userInformation = \<lparr>ui_id = 1, ui_name = ''a''\<rparr>, up_position = 0, up_amount = 0x40000000\<rparr>],
      ur_lowPositions = []\<rparr>"
proof -
  have "rating_inv (sortedDealContainer example_provider)" "rating_of (sortedDealContainer example_provider) 2 = Some 0x3F800000"
    by (simp_all add: example_provider_def example_table_inv example_table_rating)
  from rating_message_content [OF this(1) example_registered this(2), of 10] obtain r
    where *: "relative_rating example_store 10 2 example_provider =
      (let xs = table (sortedDealContainer example_provider)
       in Inr \<lparr>ur_userPosition = reported example_store \<lparr>pd_position = r, pd_value = \<lparr>mk_id = 2, mk_amount = 0x3F800000\<rparr>\<rparr>,
         ur_headPositions = map (reported example_store) (enumerated 0 (take 10 xs)),
         ur_highPositions = map (reported example_store) (enumerated (r - 10) (drop (r - 10) (take r xs))),
         ur_lowPositions = map (reported example_store) (enumerated (Suc r)
           (if r + 10 < length xs then take 10 (drop (Suc r) xs) else butlast (drop (Suc r) xs)))\<rparr>)"
      "r < length (table (sortedDealContainer example_provider))"
      "table (sortedDealContainer example_provider) ! r = \<lparr>mk_id = 2, mk_amount = 0x3F800000\<rparr>"
    by blast
  from *(2,3) have "r = 1" by (auto simp: example_provider_def example_table_table nth_Cons' split: if_splits)
  with *(1) show ?thesis
    by (simp add: example_provider_def example_table_table enumerated_def reported_def example_store_def upt_rec)
qed

text \<open>A registered user who connects while everybody in the table is registered is served at once:
  the user joins the connected users, gets a rating of zero unless there was one, nobody else's rating
  changes, and the message handed to the transport carries that rating.\<close>

theorem connected_user_is_served:
  assumes "service_ok s" and "all_registered (userDataStore s) (userRatingProvider s)"
    and "users (userDataStore s) k \<noteq> None"
    and "within (startTime (userRatingProvider s)) (endTime (userRatingProvider s)) (unsigned_time now)"
    and "\<forall>r. \<exists>t'. send k (rating_message r) (transport s) = (t', None)"
  shows "\<exists>s' r. userConnected send now k s = (s', None) \<and> connectedUsers s' = insert k (connectedUsers s) \<and>
    rating_of (sortedDealContainer (userRatingProvider s')) =
      (rating_of (sortedDealContainer (userRatingProvider s)))
        (k \<mapsto> (case rating_of (sortedDealContainer (userRatingProvider s)) k of None \<Rightarrow> 0 | Some a \<Rightarrow> a)) \<and>
    send k (rating_message r) (transport s) = (transport s', None) \<and>
    users (userDataStore s) k = Some (up_userInformation (ur_userPosition r)) \<and>
    rating_of (sortedDealContainer (userRatingProvider s')) k = Some (up_amount (ur_userPosition r))"
proof -
  let ?s = "s\<lparr>connectedUsers := insert k (connectedUsers s)\<rparr>"
  have "service_ok ?s" using assms(1) by (simp add: service_ok_def)
  from sendUserRelativeRating_served [OF this, of k now send] assms(2-5) obtain p r t' where
    p: "sendUserRelativeRating send now k ?s = (?s\<lparr>userRatingProvider := p, transport := t'\<rparr>, None)"
      "rating_of (sortedDealContainer p) = (rating_of (sortedDealContainer (userRatingProvider s)))
        (k \<mapsto> (case rating_of (sortedDealContainer (userRatingProvider s)) k of None \<Rightarrow> 0 | Some a \<Rightarrow> a))"
      "rating_inv (sortedDealContainer p)" "all_registered (userDataStore s) p"
      "relative_rating (userDataStore s) (nRatingPositions s) k p = Inr r"
      "send k (rating_message r) (transport s) = (t', None)" by auto
  obtain a where a: "rating_of (sortedDealContainer p) k = Some a" using p(2) by simp
  from relative_rating_content [OF p(3,4) a, of "nRatingPositions s"] p(5) obtain i
    where "ur_userPosition r = reported (userDataStore s) \<lparr>pd_position = i, pd_value = \<lparr>mk_id = k, mk_amount = a\<rparr>\<rparr>"
    by (auto simp: Let_def)
  with p assms(3) a show ?thesis
    by (intro exI [of _ "?s\<lparr>userRatingProvider := p, transport := t'\<rparr>"] exI [of _ r])
      (auto simp: userConnected_def reported_def)
qed

definition example_service :: "(user_identifier \<times> base_message) list service" where
  "example_service = \<lparr>userDataStore = example_store,
     userDealDataStore = addDealAddedSlot addDeal \<lparr>dealAddedSignal = []\<rparr>,
     userRatingProvider = example_provider, nRatingPositions = 10, connectedUsers = {}, transport = []\<rparr>"

lemma example_service_ok: "service_ok example_service"
  by (simp add: service_ok_def example_service_def store_ok_def example_store_def example_provider_def
      example_table_inv period_ok_def)

theorem connected_user_is_served_witness:
  "\<exists>s' r. userConnected (\<lambda>k m t. (t @ [(k, m)], None)) 1515931932000000000 2 example_service = (s', None) \<and>
    connectedUsers s' = {2} \<and> transport s' = [(2, rating_message r)] \<and> up_amount (ur_userPosition r) = 0x3F800000"
proof -
  have "within (startTime example_provider) (endTime example_provider) (unsigned_time 1515931932000000000)"
    by (simp add: example_provider_def) code_simp
  then have "within (startTime (userRatingProvider example_service)) (endTime (userRatingProvider example_service))
      (unsigned_time 1515931932000000000)"
    "all_registered (userDataStore example_service) (userRatingProvider example_service)"
    "users (userDataStore example_service) 2 \<noteq> None"
    using example_registered by (simp_all add: example_service_def example_store_def)
  from connected_user_is_served [OF example_service_ok this(2,3,1), of "\<lambda>k m t. (t @ [(k, m)], None)"]
  show ?thesis
    by (auto simp: example_service_def example_provider_def example_table_rating) metis
qed

end
