(* ===== verification/Enum_Converter.thy ===== *)
theory Enum_Converter
  imports Core_Types
begin

text \<open>
  \<^verbatim>\<open>core/EnumConverter.hpp\<close>: the two-way table between an enumeration and its names. The table from
  names is a \<^verbatim>\<open>std::map\<close> whose comparator compares case-insensitively with Boost's \<^verbatim>\<open>is_iless\<close>, which
  is not part of the repository: it is the parameter \<open>iless\<close>, and \<open>iless_law\<close> is what its
  documentation promises for the characters of the C locale.
\<close>

section \<open>The comparator\<close>

text \<open>\<^verbatim>\<open>lexicographical_compare\<close> with a character order.\<close>

fun lexicographical_compare :: "(char \<Rightarrow> char \<Rightarrow> bool) \<Rightarrow> string \<Rightarrow> string \<Rightarrow> bool" where
  "lexicographical_compare lt [] ys = (ys \<noteq> [])"
| "lexicographical_compare lt (x # xs) [] = False"
| "lexicographical_compare lt (x # xs) (y # ys) =
     (if lt x y then True else if lt y x then False else lexicographical_compare lt xs ys)"

definition string_in_case_less :: "(char \<Rightarrow> char \<Rightarrow> bool) \<Rightarrow> string \<Rightarrow> string \<Rightarrow> bool" where
  "string_in_case_less iless lhs rhs = lexicographical_compare iless lhs rhs"

text \<open>Two keys of a \<^verbatim>\<open>std::map\<close> are the same key when neither is less than the other.\<close>

definition same_key :: "(char \<Rightarrow> char \<Rightarrow> bool) \<Rightarrow> string \<Rightarrow> string \<Rightarrow> bool" where
  "same_key iless a b \<longleftrightarrow> \<not> string_in_case_less iless a b \<and> \<not> string_in_case_less iless b a"

section \<open>The converter\<close>

record 'e enum_converter =
  enumToString :: "'e \<rightharpoonup> string"
  stringToEnum :: "(string \<times> 'e) list"

definition empty_converter :: "'e enum_converter" where
  "empty_converter = \<lparr>enumToString = Map.empty, stringToEnum = []\<rparr>"

definition find_name :: "(char \<Rightarrow> char \<Rightarrow> bool) \<Rightarrow> string \<Rightarrow> (string \<times> 'e) list \<Rightarrow> 'e option" where
  "find_name iless s tab = map_option snd (find (\<lambda>p. same_key iless (fst p) s) tab)"

text \<open>\<^verbatim>\<open>std::map::insert\<close> keeps the entry that is there already.\<close>

definition addConversion ::
  "(char \<Rightarrow> char \<Rightarrow> bool) \<Rightarrow> 'e \<Rightarrow> string \<Rightarrow> 'e enum_converter \<Rightarrow> 'e enum_converter" where
  "addConversion iless key value c =
     \<lparr>enumToString = (case enumToString c key of
          None \<Rightarrow> (enumToString c)(key \<mapsto> value) | Some _ \<Rightarrow> enumToString c),
      stringToEnum = (case find_name iless value (stringToEnum c) of
          None \<Rightarrow> stringToEnum c @ [(value, key)] | Some _ \<Rightarrow> stringToEnum c)\<rparr>"

definition enum_toString :: "'e enum_converter \<Rightarrow> 'e \<Rightarrow> string result" where
  "enum_toString c key = (case enumToString c key of None \<Rightarrow> Inl OutOfRange | Some s \<Rightarrow> Inr s)"

definition toEnum :: "(char \<Rightarrow> char \<Rightarrow> bool) \<Rightarrow> 'e enum_converter \<Rightarrow> string \<Rightarrow> 'e result" where
  "toEnum iless c key =
     (case find_name iless key (stringToEnum c) of None \<Rightarrow> Inl OutOfRange | Some e \<Rightarrow> Inr e)"

definition message_type_converter :: "(char \<Rightarrow> char \<Rightarrow> bool) \<Rightarrow> message_type enum_converter" where
  "message_type_converter iless =
     addConversion iless UserRelativeRating ''user_rating''
    (addConversion iless UserDisconnected ''user_disconnected''
    (addConversion iless UserDealWon ''user_deal_won''
    (addConversion iless UserConnected ''user_connected''
    (addConversion iless UserRenamed ''user_renamed''
    (addConversion iless UserRegistered ''user_registered'' empty_converter)))))"

lemmas converter_defs [component_defs] =
  addConversion_def enum_toString_def toEnum_def find_name_def empty_converter_def

section \<open>What the comparator means\<close>

definition toupper :: "char \<Rightarrow> char" where
  "toupper c = (let n = of_char c :: nat in if 97 \<le> n \<and> n \<le> 122 then char_of (n - 32) else c)"

definition iless_law :: "(char \<Rightarrow> char \<Rightarrow> bool) \<Rightarrow> bool" where
  "iless_law iless \<longleftrightarrow> (\<forall>a b. iless a b \<longleftrightarrow> (of_char (toupper a) :: nat) < of_char (toupper b))"

definition reference_iless :: "char \<Rightarrow> char \<Rightarrow> bool" where
  "reference_iless a b \<longleftrightarrow> (of_char (toupper a) :: nat) < of_char (toupper b)"

lemma reference_iless_law: "iless_law reference_iless"
  by (simp add: iless_law_def reference_iless_def)

lemma of_char_eq: "(of_char a :: nat) = of_char b \<Longrightarrow> a = b"
  by (metis char_of_char)

lemma same_key_iff:
  assumes "iless_law iless"
  shows "same_key iless a b \<longleftrightarrow> map toupper a = map toupper b"
proof (induction a arbitrary: b)
  case Nil
  then show ?case by (cases b) (simp_all add: same_key_def string_in_case_less_def)
next
  case (Cons x xs)
  have order: "iless c d \<longleftrightarrow> (of_char (toupper c) :: nat) < of_char (toupper d)" for c d
    using assms by (simp add: iless_law_def)
  show ?case
  proof (cases b)
    case Nil
    then show ?thesis by (simp add: same_key_def string_in_case_less_def)
  next
    case (Cons y ys)
    show ?thesis
    proof (cases "toupper x = toupper y")
      case True
      then have "\<not> iless x y" "\<not> iless y x" by (simp_all add: order)
      with Cons.IH [of ys] True show ?thesis
        by (simp add: same_key_def string_in_case_less_def \<open>b = y # ys\<close>)
    next
      case False
      then have "(of_char (toupper x) :: nat) \<noteq> of_char (toupper y)" by (blast dest: of_char_eq)
      then have "iless x y \<or> iless y x" unfolding order by (rule linorder_neqE) blast+
      with False show ?thesis
        by (auto simp: same_key_def string_in_case_less_def \<open>b = y # ys\<close> order)
    qed
  qed
qed

lemma find_name_iff:
  assumes "iless_law iless"
  shows "find_name iless s tab = map_option snd (find (\<lambda>p. map toupper (fst p) = map toupper s) tab)"
  by (simp add: find_name_def same_key_iff [OF assms])

lemma toEnum_cong:
  assumes "iless_law iless" and "map toupper s = map toupper t"
  shows "toEnum iless c s = toEnum iless c t"
  by (simp add: toEnum_def find_name_iff [OF assms(1)] assms(2))

section \<open>The message type table\<close>

lemma message_type_names:
  "enumToString (message_type_converter iless) UserRegistered = Some ''user_registered''"
  "enumToString (message_type_converter iless) UserRenamed = Some ''user_renamed''"
  "enumToString (message_type_converter iless) UserConnected = Some ''user_connected''"
  "enumToString (message_type_converter iless) UserDealWon = Some ''user_deal_won''"
  "enumToString (message_type_converter iless) UserDisconnected = Some ''user_disconnected''"
  "enumToString (message_type_converter iless) UserRelativeRating = Some ''user_rating''"
  by (simp_all add: message_type_converter_def addConversion_def empty_converter_def)

lemma message_type_table:
  assumes "iless_law iless"
  shows "stringToEnum (message_type_converter iless) =
    [(''user_registered'', UserRegistered), (''user_renamed'', UserRenamed),
     (''user_connected'', UserConnected), (''user_deal_won'', UserDealWon),
     (''user_disconnected'', UserDisconnected), (''user_rating'', UserRelativeRating)]"
  by (simp add: message_type_converter_def addConversion_def empty_converter_def
      find_name_iff [OF assms] toupper_def)

text \<open>The names of the message types round trip whatever the letter case in which a client
  writes them: reading back any spelling of the printed name gives the message type.\<close>

theorem message_type_roundtrip:
  assumes "iless_law iless"
    and "enum_toString (message_type_converter iless) t = Inr s"
    and "map toupper s' = map toupper s"
  shows "toEnum iless (message_type_converter iless) s' = Inr t"
proof -
  have "toEnum iless (message_type_converter iless) s = Inr t"
    using assms(2)
    by (cases t) (auto simp: enum_toString_def message_type_names toEnum_def find_name_iff [OF assms(1)]
        message_type_table [OF assms(1)] toupper_def)
  then show ?thesis by (simp add: toEnum_cong [OF assms(1) assms(3)])
qed

theorem message_type_roundtrip_witness:
  "toEnum reference_iless (message_type_converter reference_iless) ''User_Deal_WON'' = Inr UserDealWon"
  by (rule message_type_roundtrip [OF reference_iless_law, of _ "''user_deal_won''"])
    (simp add: enum_toString_def message_type_names, code_simp)

lemma message_type_toString:
  "\<exists>s. enum_toString (message_type_converter iless) t = Inr s"
  by (cases t) (simp_all add: enum_toString_def message_type_names)

end
