(* ===== verification/Application_Service.thy ===== *)
theory Application_Service
  imports User_Rating_Watcher Enum_Converter
begin

text \<open>
  \<^verbatim>\<open>service/src/ApplicationService.cpp\<close>: the handler of incoming messages, and the service as a whole as
  a sequence of events: messages from the transport, cycles of the update thread, and the two steps of
  the period thread. \<^verbatim>\<open>dispatchMessage\<close> swallows every \<^verbatim>\<open>std::exception\<close>; the update thread swallows none.
  Messages, cycles and period steps are taken one at a time.
\<close>

section \<open>Dispatching a message\<close>

text \<open>The two handlers of \<^verbatim>\<open>dispatchMessage\<close>: both only log.\<close>

definition caught :: "'s outcome \<Rightarrow> 's outcome" where
  "caught r = (case snd r of
     Some e \<Rightarrow> if is_std_exception e then (fst r, None) else r
   | None \<Rightarrow> r)"

text \<open>A cast of the message, and the use of its data.\<close>

definition with_data :: "'d result \<Rightarrow> ('d \<Rightarrow> 's \<Rightarrow> 's outcome) \<Rightarrow> 's \<Rightarrow> 's outcome" where
  "with_data r f s = (case r of Inl e \<Rightarrow> (s, Some e) | Inr d \<Rightarrow> f d s)"

definition dispatch_body ::
  "rating_provider emitter \<Rightarrow> (char \<Rightarrow> char \<Rightarrow> bool) \<Rightarrow> 't sender \<Rightarrow> time_point \<Rightarrow> base_message
    \<Rightarrow> 't service \<Rightarrow> 't service outcome" where
  "dispatch_body emit iless send now m s =
     (if msg_type m = UserRegistered then
        with_data (as_user_information m) (\<lambda>d s.
          update_by (\<lambda>u s. s\<lparr>userDataStore := u\<rparr>) (addUser d (userDataStore s)) s) s
      else if msg_type m = UserRenamed then
        with_data (as_user_information m) (\<lambda>d s.
          update_by (\<lambda>u s. s\<lparr>userDataStore := u\<rparr>) (renameUser (ui_id d) (ui_name d) (userDataStore s)) s) s
      else if msg_type m = UserConnected then
        with_data (as_user_id_information m) (\<lambda>d. userConnected send now (uid_id d)) s
      else if msg_type m = UserDisconnected then
        with_data (as_user_id_information m) (\<lambda>d s. (userDisconnected (uid_id d) s, None)) s
      else if msg_type m = UserDealWon then
        with_data (as_deal_information m) (\<lambda>d s.
          update_by (\<lambda>p s. s\<lparr>userRatingProvider := p\<rparr>)
            (deal_store_addDeal emit (userDealDataStore s) d (userRatingProvider s)) s) s
      else with_data (enum_toString (message_type_converter iless) (msg_type m)) (\<lambda>_ s. (s, None)) s)"

definition dispatchMessage ::
  "rating_provider emitter \<Rightarrow> (char \<Rightarrow> char \<Rightarrow> bool) \<Rightarrow> 't sender \<Rightarrow> time_point \<Rightarrow> base_message option
    \<Rightarrow> 't service \<Rightarrow> 't service outcome" where
  "dispatchMessage emit iless send now message s =
     (case message of None \<Rightarrow> (s, None) | Some m \<Rightarrow> caught (dispatch_body emit iless send now m s))"

section \<open>The service as a sequence of events\<close>

datatype service_event =
    Received time_point "base_message option"
  | UpdateCycle "(time_point \<times> user_identifier) list"
  | EmptyTable
  | BeginPeriod

fun service_step ::
  "rating_provider emitter \<Rightarrow> (char \<Rightarrow> char \<Rightarrow> bool) \<Rightarrow> (time_point \<Rightarrow> 't sender) \<Rightarrow> service_event \<Rightarrow> 't service
    \<Rightarrow> 't service outcome" where
  "service_step emit iless send (Received now m) s = dispatchMessage emit iless (send now) now m s"
| "service_step emit iless send (UpdateCycle us) s = broadcast send us s"
| "service_step emit iless send EmptyTable s =
     (s\<lparr>userRatingProvider := clear_table (userRatingProvider s)\<rparr>, None)"
| "service_step emit iless send BeginPeriod s =
     (s\<lparr>userRatingProvider := next_period (userRatingProvider s)\<rparr>, None)"

text \<open>An exception that leaves a thread ends the process, so nothing runs after it.\<close>

fun service_run ::
  "rating_provider emitter \<Rightarrow> (char \<Rightarrow> char \<Rightarrow> bool) \<Rightarrow> (time_point \<Rightarrow> 't sender) \<Rightarrow> service_event list \<Rightarrow> 't service
    \<Rightarrow> 't service outcome" where
  "service_run emit iless send [] s = (s, None)"
| "service_run emit iless send (e # es) s =
     and_then (service_step emit iless send e s) (service_run emit iless send es)"

lemma service_run_append:
  "service_run emit iless send (es @ fs) s = and_then (service_run emit iless send es s) (service_run emit iless send fs)"
proof (induction es arbitrary: s)
  case (Cons e es)
  have "service_run emit iless send (es @ fs) =
      (\<lambda>s. and_then (service_run emit iless send es s) (service_run emit iless send fs))"
    by (rule ext) (rule Cons.IH)
  then show ?case by (simp add: and_then_assoc)
qed simp

section \<open>Single messages\<close>

lemma caught_None: "snd r = None \<Longrightarrow> caught r = r"
  by (simp add: caught_def)

lemma caught_std: "snd r = Some e \<Longrightarrow> is_std_exception e \<Longrightarrow> caught r = (fst r, None)"
  by (simp add: caught_def)

lemma fst_caught [simp]: "fst (caught r) = fst r"
  by (simp add: caught_def split: option.split)

lemma caught_update_by:
  assumes "\<And>e. r = Inl e \<Longrightarrow> is_std_exception e"
  shows "caught (update_by put r s) = (case r of Inl e \<Rightarrow> s | Inr c \<Rightarrow> put c s, None)"
  using assms by (cases r) (simp_all add: caught_def)

lemma base_exception_std [simp]: "is_std_exception (base_exception m)"
  by (simp add: is_std_exception_def base_exception_def)

lemma addUser_std: "addUser u s = Inl e \<Longrightarrow> is_std_exception e"
  by (auto simp: addUser_def split: if_splits)

lemma renameUser_std: "renameUser k n s = Inl e \<Longrightarrow> is_std_exception e"
  by (auto simp: renameUser_def split: option.splits)

lemma dispatch_registered:
  "dispatchMessage emit iless send now (Some \<lparr>msg_type = UserRegistered, msg_data = PUserInformation d\<rparr>) s =
    (s\<lparr>userDataStore := serve_request (AddUser d) (userDataStore s)\<rparr>, None)"
  using addUser_std [of d "userDataStore s"]
  by (simp add: dispatchMessage_def dispatch_body_def with_data_def caught_update_by attempt_def split: sum.split)

lemma dispatch_renamed:
  "dispatchMessage emit iless send now (Some \<lparr>msg_type = UserRenamed, msg_data = PUserInformation d\<rparr>) s =
    (s\<lparr>userDataStore := serve_request (RenameUser (ui_id d) (ui_name d)) (userDataStore s)\<rparr>, None)"
  using renameUser_std [of "ui_id d" "ui_name d" "userDataStore s"]
  by (simp add: dispatchMessage_def dispatch_body_def with_data_def caught_update_by attempt_def split: sum.split)

lemma dispatch_connected:
  "dispatchMessage emit iless send now (Some \<lparr>msg_type = UserConnected, msg_data = PUserIdInformation d\<rparr>) s =
    caught (userConnected send now (uid_id d) s)"
  by (simp add: dispatchMessage_def dispatch_body_def with_data_def)

lemma dispatch_disconnected:
  "dispatchMessage emit iless send now (Some \<lparr>msg_type = UserDisconnected, msg_data = PUserIdInformation d\<rparr>) s =
    (userDisconnected (uid_id d) s, None)"
  by (simp add: dispatchMessage_def dispatch_body_def with_data_def caught_def)

lemma dispatch_deal:
  "dispatchMessage emit iless send now (Some \<lparr>msg_type = UserDealWon, msg_data = PDealInformation d\<rparr>) s =
    caught (update_by (\<lambda>p s. s\<lparr>userRatingProvider := p\<rparr>)
      (deal_store_addDeal emit (userDealDataStore s) d (userRatingProvider s)) s)"
  by (simp add: dispatchMessage_def dispatch_body_def with_data_def)

lemma dispatch_rating:
  "dispatchMessage emit iless send now (Some \<lparr>msg_type = UserRelativeRating, msg_data = d\<rparr>) s = (s, None)"
  using message_type_toString [of iless UserRelativeRating]
  by (auto simp: dispatchMessage_def dispatch_body_def with_data_def caught_def)

lemmas dispatch_simps =
  dispatch_registered dispatch_renamed dispatch_connected dispatch_disconnected dispatch_deal dispatch_rating

section \<open>Exceptions of the watcher\<close>

lemma getPosition_std:
  assumes "rating_inv c" and "getPosition f32_greater k c = Inl e"
  shows "is_std_exception e"
proof (cases "rating_of c k")
  case None
  with assms(2) show ?thesis by (auto simp: rating_of_def getPosition_def findInSortContainer_key_def)
next
  case (Some a)
  from f32_won.getPosition_table [OF assms(1) [unfolded rating_inv_def] rated_entry(1) [OF assms(1) Some]] assms(2)
  show ?thesis by simp
qed

lemma transform_position_std:
  "transform (to_user_position store) rs = Inl e \<Longrightarrow> is_std_exception e"
  by (auto dest!: transform_Inl simp: to_user_position_Inl not_registered_def)

lemma relative_rating_std:
  assumes "rating_inv (sortedDealContainer p)" and "relative_rating store n k p = Inl e"
  shows "is_std_exception e"
proof (cases "rating_of (sortedDealContainer p) k")
  case None
  then obtain e' where "getPosition f32_greater k (sortedDealContainer p) = Inl e'"
    using unrated_position by blast
  with assms show ?thesis by (auto simp: relative_rating_def getUserPosition_def dest: getPosition_std)
next
  case (Some a)
  note inv = assms(1) [unfolded rating_inv_def] and mem = rated_entry(1) [OF assms(1) Some]
  have std: "is_std_exception e" if "getUserInformation k store = Inl e" for e
    using that by (simp add: getUserInformation_Inl not_registered_def)
  from assms(2) show ?thesis
    unfolding relative_rating_def
    by (auto simp: getUserPosition_def provider_getHeadPositions_def provider_getHighPositions_def
        provider_getLowPositions_def f32_won.getPosition_table [OF inv mem]
        f32_won.getHighPositions_table [OF inv mem refl] f32_won.getLowPositions_table [OF inv mem refl]
        simp del: transform.simps dest: transform_position_std std)
qed

lemma ensure_present_std:
  "rating_inv (sortedDealContainer p) \<Longrightarrow> ensure_present now k p = Inl e \<Longrightarrow> is_std_exception e"
  using ensure_present_total [of p now k] by auto

lemma sendUserRelativeRating_std:
  assumes "service_ok s" and "\<forall>r e. snd (send k (rating_message r) (transport s)) = Some e \<longrightarrow> is_std_exception e"
    and "snd (sendUserRelativeRating send now k s) = Some e"
  shows "is_std_exception e"
proof -
  from assms(1) have inv: "rating_inv (sortedDealContainer (userRatingProvider s))" by (simp add: service_ok_def)
  from ensure_present_total [OF inv, of now k] obtain p where p: "ensure_present now k (userRatingProvider s) = Inr p"
    "rating_inv (sortedDealContainer p)" by blast
  from assms(3) p(1) have "snd (push_rating send k (s\<lparr>userRatingProvider := p\<rparr>)) = Some e"
    by (simp add: sendUserRelativeRating_def)
  with relative_rating_std [OF p(2)] assms(2) show ?thesis
    by (auto simp: push_rating_def split: sum.splits prod.splits) (metis snd_conv)
qed

text \<open>The transport does not get a rating of a user who is not registered.\<close>

lemma sendUserRelativeRating_unregistered_std:
  assumes "service_ok s" and "users (userDataStore s) k = None" and "snd (sendUserRelativeRating send now k s) = Some e"
  shows "is_std_exception e"
proof -
  from assms(1) have inv: "rating_inv (sortedDealContainer (userRatingProvider s))" by (simp add: service_ok_def)
  from ensure_present_total [OF inv, of now k] obtain p where p: "ensure_present now k (userRatingProvider s) = Inr p"
    "rating_inv (sortedDealContainer p)" by blast
  from relative_rating_unregistered [OF assms(2)] obtain e' where
    e': "relative_rating (userDataStore s) (nRatingPositions s) k p = Inl e'" by blast
  with assms(3) p(1) have "e = e'" by (simp add: sendUserRelativeRating_def push_rating_def)
  with relative_rating_std [OF p(2) e'] show ?thesis by simp
qed

lemma sendUserRelativeRating_connected [simp]:
  "connectedUsers (fst (sendUserRelativeRating send now k s)) = connectedUsers s"
  by (rule send_keeps [where I = "\<lambda>s'. connectedUsers s' = connectedUsers s"]) simp_all

section \<open>What every message leaves intact\<close>

text \<open>The deal store has the one slot the constructor of the provider registered.\<close>

definition wired :: "rating_provider emitter \<Rightarrow> 't service \<Rightarrow> bool" where
  "wired emit s \<longleftrightarrow> emits_single emit \<and> dealAddedSignal (userDealDataStore s) = [addDeal]"

fun won_payload :: "base_message \<Rightarrow> bool" where
  "won_payload m = (case msg_data m of PDealInformation d \<Rightarrow> f32_nonneg (di_amount d) | _ \<Rightarrow> True)"

lemma wired_deal: "wired emit s \<Longrightarrow> deal_store_addDeal emit (userDealDataStore s) d p = addDeal d p"
  by (simp add: wired_def deal_store_addDeal_def emits_single_def)

lemma dispatch_won_deal:
  assumes "service_ok s" and "wired emit s" and "f32_nonneg (di_amount d)"
  shows "\<exists>p. dispatchMessage emit iless send now (Some \<lparr>msg_type = UserDealWon, msg_data = PDealInformation d\<rparr>) s =
      (s\<lparr>userRatingProvider := p\<rparr>, None) \<and> addDeal d (userRatingProvider s) = Inr p \<and>
      service_ok (s\<lparr>userRatingProvider := p\<rparr>)"
  using addDeal_total [of "userRatingProvider s" d] assms
  by (auto simp: dispatch_deal wired_deal service_ok_def caught_None)

lemma sendUserRelativeRating_deals [simp]:
  "userDealDataStore (fst (sendUserRelativeRating send now k s)) = userDealDataStore s"
  by (rule send_keeps [where I = "\<lambda>s'. userDealDataStore s' = userDealDataStore s"]) simp_all

lemma serve_request_ok: "store_ok u \<Longrightarrow> store_ok (serve_request r u)"
  by (cases r) (auto simp: store_ok_def attempt_def addUser_def renameUser_def split: option.splits if_splits)

lemma dispatch_total:
  assumes "service_ok s" and "wired emit s" and "well_typed m" and "won_payload m"
    and "\<forall>k r e. snd (send k (rating_message r) (transport s)) = Some e \<longrightarrow> is_std_exception e"
  shows "\<exists>s'. dispatchMessage emit iless send now (Some m) s = (s', None) \<and> service_ok s' \<and> wired emit s'"
proof -
  have conn: "\<exists>s'. caught (userConnected send now k s) = (s', None) \<and> service_ok s' \<and> wired emit s'" for k
  proof -
    let ?s = "s\<lparr>connectedUsers := insert k (connectedUsers s)\<rparr>"
    have ok: "service_ok ?s" using assms(1) by (simp add: service_ok_def)
    have "snd (caught (userConnected send now k s)) = None"
      using sendUserRelativeRating_std [OF ok, of send k now] assms(5)
      by (cases "snd (userConnected send now k s)") (auto simp: userConnected_def caught_def)
    moreover have "service_ok (fst (caught (userConnected send now k s)))"
      using userConnected_ok [OF assms(1)] by simp
    moreover have "wired emit (fst (caught (userConnected send now k s)))"
      using assms(2) by (simp add: wired_def userConnected_def)
    ultimately show ?thesis by (metis prod.collapse)
  qed
  obtain t d where m: "m = \<lparr>msg_type = t, msg_data = d\<rparr>" by (cases m)
  have ok: "service_ok (s\<lparr>userDataStore := serve_request r (userDataStore s)\<rparr>)" for r
    using assms(1) serve_request_ok by (simp add: service_ok_def del: serve_request.simps)
  show ?thesis
    using assms(3)
  proof (cases rule: well_typed_cases)
    case (user u)
    then show ?thesis using m ok assms(2) by (auto simp: dispatch_simps wired_def simp del: serve_request.simps)
  next
    case (userId u)
    then show ?thesis using m conn [of "uid_id u"] userDisconnected_ok [OF assms(1)] assms(2)
      by (auto simp: dispatch_simps wired_def userDisconnected_def)
  next
    case (deal u)
    then show ?thesis using m dispatch_won_deal [OF assms(1,2)] assms(2,4) by (fastforce simp: wired_def)
  next
    case (rating u)
    then show ?thesis using m assms(1,2) by (simp add: dispatch_rating)
  qed
qed

section \<open>A disciplined run\<close>

text \<open>
  What it takes for the update thread never to meet an exception: clients announce a user before the
  user connects or wins, and no cycle runs outside the current period; and the transport has to take every rating
  (\<open>pushes_ok\<close>; the theory \<open>Transport_Survival\<close> shows that both transports do).
\<close>

definition knows :: "'t service \<Rightarrow> user_identifier \<Rightarrow> bool" where
  "knows s k \<longleftrightarrow> users (userDataStore s) k \<noteq> None"

fun disciplined_event :: "'t service \<Rightarrow> service_event \<Rightarrow> bool" where
  "disciplined_event s (Received now None) = True"
| "disciplined_event s (Received now (Some m)) =
     (well_typed m \<and> won_payload m \<and>
      (case msg_data m of
         PUserIdInformation d \<Rightarrow> msg_type m = UserConnected \<longrightarrow> knows s (uid_id d)
       | PDealInformation d \<Rightarrow> knows s (di_userId d)
       | _ \<Rightarrow> True))"
| "disciplined_event s (UpdateCycle us) =
     (\<forall>(now, k) \<in> set us. k \<in> connectedUsers s \<and>
        within (startTime (userRatingProvider s)) (endTime (userRatingProvider s)) (unsigned_time now))"
| "disciplined_event s EmptyTable = True"
| "disciplined_event s BeginPeriod = True"

definition safe :: "rating_provider emitter \<Rightarrow> 't service \<Rightarrow> bool" where
  "safe emit s \<longleftrightarrow> service_ok s \<and> wired emit s \<and> all_registered (userDataStore s) (userRatingProvider s) \<and>
     (\<forall>k \<in> connectedUsers s. knows s k)"

lemma all_registered_service:
  "service_ok s \<Longrightarrow> all_registered (userDataStore s) (userRatingProvider s) \<longleftrightarrow>
    (\<forall>k. rating_of (sortedDealContainer (userRatingProvider s)) k \<noteq> None \<longrightarrow> knows s k)"
  by (simp add: all_registered_iff service_ok_def knows_def)

lemma serve_request_grows: "users u k \<noteq> None \<Longrightarrow> users (serve_request r u) k \<noteq> None"
  by (cases r) (auto simp: attempt_def addUser_def renameUser_def split: option.splits if_splits)

lemma safe_request:
  assumes "safe emit s"
  shows "safe emit (s\<lparr>userDataStore := serve_request r (userDataStore s)\<rparr>)"
  using assms serve_request_grows [of "userDataStore s" _ r]
  by (auto simp: safe_def service_ok_def wired_def serve_request_ok all_registered_def knows_def
      simp del: serve_request.simps)

lemma safe_provider:
  assumes "safe emit s" and "rating_inv (sortedDealContainer p)" and "period_ok p"
    and "\<And>k. rating_of (sortedDealContainer p) k \<noteq> None \<Longrightarrow>
      rating_of (sortedDealContainer (userRatingProvider s)) k \<noteq> None \<or> knows s k"
  shows "safe emit (s\<lparr>userRatingProvider := p\<rparr>)"
proof -
  have "service_ok s" "service_ok (s\<lparr>userRatingProvider := p\<rparr>)"
    using assms(1-3) by (simp_all add: safe_def service_ok_def)
  from all_registered_service [OF this(1)] all_registered_service [OF this(2)] this(2) assms(1,4)
  show ?thesis by (auto simp: safe_def wired_def knows_def)
qed

lemma safe_send:
  assumes "safe emit s" and "knows s k"
    and "within (startTime (userRatingProvider s)) (endTime (userRatingProvider s)) (unsigned_time now)"
    and "\<forall>r. \<exists>t'. send k (rating_message r) (transport s) = (t', None)"
  shows "\<exists>s'. sendUserRelativeRating send now k s = (s', None) \<and> safe emit s' \<and>
    connectedUsers s' = connectedUsers s \<and> startTime (userRatingProvider s') = startTime (userRatingProvider s) \<and>
    endTime (userRatingProvider s') = endTime (userRatingProvider s)"
proof -
  have s: "service_ok s" "all_registered (userDataStore s) (userRatingProvider s)" "users (userDataStore s) k \<noteq> None"
    using assms(1,2) by (simp_all add: safe_def knows_def)
  from s(1) have inv: "rating_inv (sortedDealContainer (userRatingProvider s))" "period_ok (userRatingProvider s)"
    by (simp_all add: service_ok_def)
  from ensure_present_total [OF inv(1), of now k] inv(2) obtain p0 where p0: "ensure_present now k (userRatingProvider s) = Inr p0"
    "startTime p0 = startTime (userRatingProvider s)" "endTime p0 = endTime (userRatingProvider s)" "period_ok p0" by blast
  from sendUserRelativeRating_served [where send = send, OF s assms(3,4)] obtain p r t' where
    p: "sendUserRelativeRating send now k s = (s\<lparr>userRatingProvider := p, transport := t'\<rparr>, None)"
      "rating_inv (sortedDealContainer p)" "all_registered (userDataStore s) p"
    by blast
  then have "p = p0" using p0(1)
    by (auto simp: sendUserRelativeRating_def push_rating_def dest!: arg_cong [where f = userRatingProvider]
        split: sum.splits prod.splits)
  with p p0 assms(1) show ?thesis by (auto simp: safe_def service_ok_def wired_def knows_def)
qed

text \<open>A transport in order takes every rating, and stays in order.\<close>

definition pushes_ok :: "('t \<Rightarrow> bool) \<Rightarrow> 't sender \<Rightarrow> bool" where
  "pushes_ok ok send \<longleftrightarrow> (\<forall>k r t. ok t \<longrightarrow> (\<exists>t'. send k (rating_message r) t = (t', None) \<and> ok t'))"

lemma pushed_ok:
  assumes "pushes_ok ok send" and "ok t"
  shows "\<exists>t'. send k (rating_message r) t = (t', None)" and "ok (fst (send k (rating_message r) t))"
  using assms unfolding pushes_ok_def by (blast, metis fst_conv)

lemma sendUserRelativeRating_transport:
  assumes "pushes_ok ok send" and "ok (transport s)"
  shows "ok (transport (fst (sendUserRelativeRating send now k s)))"
proof -
  have "ok (transport (fst (push_rating send k s')))" if "transport s' = transport s" for s'
  proof (cases "relative_rating (userDataStore s') (nRatingPositions s') k (userRatingProvider s')")
    case (Inr r)
    with pushed_ok(2) [OF assms, of k r] that show ?thesis
      by (cases "send k (rating_message r) (transport s)") (simp add: push_rating_def)
  qed (use that assms(2) in \<open>simp add: push_rating_def\<close>)
  with assms(2) show ?thesis
    by (cases "ensure_present now k (userRatingProvider s)") (simp_all add: sendUserRelativeRating_def)
qed

lemma safe_broadcast:
  assumes "safe emit s" and "disciplined_event s (UpdateCycle us)" and "\<And>now. pushes_ok ok (send now)" and "ok (transport s)"
  shows "\<exists>s'. broadcast send us s = (s', None) \<and> safe emit s' \<and> ok (transport s')"
  using assms(1,2,4)
proof (induction us arbitrary: s)
  case (Cons u us)
  obtain now k where u: "u = (now, k)" by (cases u)
  with Cons.prems have "knows s k"
    "within (startTime (userRatingProvider s)) (endTime (userRatingProvider s)) (unsigned_time now)"
    by (auto simp: safe_def)
  from safe_send [where send = "send now", OF Cons.prems(1) this] pushed_ok(1) [where send = "send now", OF assms(3) Cons.prems(3)] obtain s1
    where s1: "sendUserRelativeRating (send now) now k s = (s1, None)" "safe emit s1" "disciplined_event s1 (UpdateCycle us)"
    using Cons.prems(2) by auto
  from sendUserRelativeRating_transport [of ok "send now" s now k, OF assms(3) Cons.prems(3)] have "ok (transport s1)" by (simp add: s1(1))
  from Cons.IH [OF s1(2,3) this] s1(1) u show ?case by simp
qed simp

lemma safe_connect:
  assumes "safe emit s" and "knows s k"
  shows "safe emit (fst (userConnected send now k s))"
proof -
  let ?s = "s\<lparr>connectedUsers := insert k (connectedUsers s)\<rparr>"
  have "safe emit ?s" using assms(1,2) by (auto simp: safe_def service_ok_def wired_def knows_def)
  moreover have "safe emit (fst (sendUserRelativeRating send now k ?s))" if "safe emit ?s"
  proof -
    have inv: "rating_inv (sortedDealContainer (userRatingProvider ?s))" "period_ok (userRatingProvider ?s)"
      using that by (simp_all add: safe_def service_ok_def)
    have put: "safe emit (?s\<lparr>userRatingProvider := p\<rparr>)" if "ensure_present now k (userRatingProvider ?s) = Inr p" for p
      by (rule safe_provider [OF \<open>safe emit ?s\<close>])
        (use ensure_present_total [OF inv(1), of now k] inv(2) that assms(2) in \<open>auto simp: knows_def split: if_splits\<close>)
    show ?thesis
      by (rule send_keeps [where I = "safe emit", OF \<open>safe emit ?s\<close> put])
        (simp_all add: safe_def service_ok_def wired_def knows_def)
  qed
  ultimately show ?thesis by (simp add: userConnected_def)
qed

lemma with_data_keeps: "I s \<Longrightarrow> (\<And>d. I (fst (f d s))) \<Longrightarrow> I (fst (with_data r f s))"
  by (cases r) (simp_all add: with_data_def)

lemma dispatch_pushes:
  assumes "pushes_ok ok send" and "ok (transport s)"
  shows "ok (transport (fst (dispatchMessage emit iless send now m s)))"
proof -
  note keeps = with_data_keeps [where I = "\<lambda>s. ok (transport s)", OF assms(2)]
    update_by_keeps [where I = "\<lambda>s. ok (transport s)", OF assms(2)]
  have "ok (transport (fst (userConnected send now k s)))" for k
    unfolding userConnected_def by (rule sendUserRelativeRating_transport) (simp_all add: assms)
  then have "ok (transport (fst (dispatch_body emit iless send now b s)))" for b
    using assms(2) unfolding dispatch_body_def
    by (auto intro!: keeps simp: userDisconnected_def)
  with assms(2) show ?thesis by (simp add: dispatchMessage_def split: option.split)
qed

lemma safe_message:
  assumes "safe emit s" and "disciplined_event s (Received now (Some m))" and "pushes_ok ok send" and "ok (transport s)"
  shows "\<exists>s'. dispatchMessage emit iless send now (Some m) s = (s', None) \<and> safe emit s' \<and> ok (transport s')"
proof -
  have std: "\<forall>k r e. snd (send k (rating_message r) (transport s)) = Some e \<longrightarrow> is_std_exception e"
    using pushed_ok(1) [OF assms(3,4)] by (metis option.distinct(1) snd_conv)
  from assms(1) have ok: "service_ok s" "wired emit s" by (simp_all add: safe_def)
  from ok(1) have inv: "rating_inv (sortedDealContainer (userRatingProvider s))" "period_ok (userRatingProvider s)"
    by (simp_all add: service_ok_def)
  from assms(2) have m: "well_typed m" "won_payload m" by auto
  from dispatch_total [where send = send and s = s and m = m and emit = emit, OF ok m std, of iless now] obtain s1
    where s1: "dispatchMessage emit iless send now (Some m) s = (s1, None)" by blast
  obtain t d where td: "m = \<lparr>msg_type = t, msg_data = d\<rparr>" by (cases m)
  have "safe emit (fst (dispatchMessage emit iless send now (Some m) s))"
    using m(1)
  proof (cases rule: well_typed_cases)
    case (user u)
    then show ?thesis using td safe_request [OF assms(1)] by (auto simp: dispatch_simps simp del: serve_request.simps)
  next
    case (userId u)
    have "safe emit (userDisconnected (uid_id u) s)"
      using assms(1) by (simp add: safe_def service_ok_def wired_def knows_def userDisconnected_def)
    then show ?thesis
      using td userId assms(2) safe_connect [OF assms(1)] by (auto simp: dispatch_simps)
  next
    case (deal u)
    then have "f32_nonneg (di_amount u)" "knows s (di_userId u)" using m assms(2) by auto
    from dispatch_won_deal [OF ok this(1), of iless send now] addDeal_total [OF inv(1) this(1)] obtain p
      where p: "dispatchMessage emit iless send now (Some \<lparr>msg_type = UserDealWon, msg_data = PDealInformation u\<rparr>) s =
        (s\<lparr>userRatingProvider := p\<rparr>, None)" "rating_inv (sortedDealContainer p)" "period_ok p"
        "\<forall>k. rating_of (sortedDealContainer p) k \<noteq> None \<longrightarrow>
          rating_of (sortedDealContainer (userRatingProvider s)) k \<noteq> None \<or> k = di_userId u"
      using inv(2) by (auto split: if_splits)
    have "safe emit (s\<lparr>userRatingProvider := p\<rparr>)"
      by (rule safe_provider [OF assms(1) p(2,3)]) (use p(4) \<open>knows s (di_userId u)\<close> in auto)
    with p(1) td deal show ?thesis by simp
  next
    case (rating u)
    then show ?thesis using td assms(1) by (simp add: dispatch_rating)
  qed
  moreover have "ok (transport s1)" using dispatch_pushes [OF assms(3,4), of emit iless now "Some m"] by (simp add: s1)
  ultimately show ?thesis using s1 by simp
qed

lemma safe_period:
  assumes "safe emit s"
  shows "safe emit (s\<lparr>userRatingProvider := clear_table (userRatingProvider s)\<rparr>)"
    and "safe emit (s\<lparr>userRatingProvider := next_period (userRatingProvider s)\<rparr>)"
proof -
  show "safe emit (s\<lparr>userRatingProvider := clear_table (userRatingProvider s)\<rparr>)"
    using assms by (intro safe_provider)
      (auto simp: safe_def service_ok_def clear_table_def rating_inv_def f32_won.inv_clear period_ok_def)
  show "safe emit (s\<lparr>userRatingProvider := next_period (userRatingProvider s)\<rparr>)"
    using assms by (intro safe_provider)
      (auto simp: safe_def service_ok_def next_period_def updatePeriod_def period_ok_def)
qed

lemma new_service_safe: "emits_single emit \<Longrightarrow> safe emit (new_service n now t)"
  using new_service_ok [of n now t] deals.rating_init
  by (simp add: safe_def all_registered_service wired_def)
    (simp add: new_service_def addDealAddedSlot_def new_provider_def updatePeriod_def)

section \<open>The registry the messages describe\<close>

fun message_requests :: "base_message \<Rightarrow> store_request list" where
  "message_requests m = (case (msg_type m, msg_data m) of
       (UserRegistered, PUserInformation d) \<Rightarrow> [AddUser d]
     | (UserRenamed, PUserInformation d) \<Rightarrow> [RenameUser (ui_id d) (ui_name d)]
     | _ \<Rightarrow> [])"

fun event_requests :: "service_event \<Rightarrow> store_request list" where
  "event_requests (Received now (Some m)) = message_requests m"
| "event_requests _ = []"

lemma broadcast_store [simp]: "userDataStore (fst (broadcast send us s)) = userDataStore s"
proof (induction us arbitrary: s)
  case (Cons u us)
  obtain now k where "u = (now, k)" by (cases u)
  then show ?case
    by (simp add: and_then_keeps [where I = "\<lambda>s'. userDataStore s' = userDataStore s"] Cons)
qed simp

lemma dispatch_store:
  assumes "snd (dispatchMessage emit iless send now (Some m) s) = None"
  shows "userDataStore (fst (dispatchMessage emit iless send now (Some m) s)) =
    fold serve_request (message_requests m) (userDataStore s)"
proof (cases "well_typed m")
  case True
  obtain t d where m: "m = \<lparr>msg_type = t, msg_data = d\<rparr>" by (cases m)
  have deal: "userDataStore (fst (update_by (\<lambda>p s. s\<lparr>userRatingProvider := p\<rparr>) r s)) = userDataStore s" for r
    by (cases r) simp_all
  show ?thesis
    using True
  proof (cases rule: well_typed_cases)
    case (user u)
    then show ?thesis using m by (auto simp: dispatch_simps simp del: serve_request.simps)
  qed (use m deal in \<open>auto simp: dispatch_simps userConnected_def userDisconnected_def\<close>)
next
  case False
  then have "snd (dispatchMessage emit iless send now (Some m) s) = Some UndefinedBehaviour \<or> msg_type m = UserRelativeRating"
    by (cases "msg_type m"; cases "msg_data m")
      (simp_all add: dispatchMessage_def dispatch_body_def with_data_def caught_def is_std_exception_def)
  with assms have "msg_type m = UserRelativeRating" by simp
  moreover obtain t d where "m = \<lparr>msg_type = t, msg_data = d\<rparr>" by (cases m)
  ultimately show ?thesis by (simp add: dispatch_rating)
qed

lemma step_store:
  assumes "snd (service_step emit iless send e s) = None"
  shows "userDataStore (fst (service_step emit iless send e s)) = fold serve_request (event_requests e) (userDataStore s)"
proof (cases e rule: event_requests.cases)
  case (1 now m)
  then show ?thesis using assms dispatch_store [of emit iless "send now" now m s] by simp
qed (simp_all add: dispatchMessage_def)

lemma run_store:
  assumes "service_run emit iless send es s = (s', None)"
  shows "userDataStore s' = fold serve_request (concat (map event_requests es)) (userDataStore s)"
  using assms
proof (induction es arbitrary: s)
  case (Cons e es)
  obtain s1 r where step: "service_step emit iless send e s = (s1, r)" by fastforce
  with Cons.prems have "r = None" by (cases r) auto
  with step step_store [of emit iless send e s] Cons show ?case by simp
qed simp

section \<open>Properties\<close>

text \<open>No message can end the process: whatever well-typed message with a won amount arrives in
  whatever state the service is in, registered user or not, inside the period or not, its handling
  ends normally and keeps the invariant of the service, as long as the transport raises nothing but
  ordinary exceptions.\<close>

theorem dispatch_never_ends_process:
  assumes "service_ok s" and "wired emit s" and "well_typed m" and "won_payload m"
    and "\<forall>k r t e. snd (send k (rating_message r) t) = Some e \<longrightarrow> is_std_exception e"
  shows "\<exists>s'. dispatchMessage emit iless send now (Some m) s = (s', None) \<and> service_ok s' \<and> wired emit s'"
  by (rule dispatch_total [OF assms(1-4)]) (use assms(5) in blast)

definition single_emit :: "'s emitter" where
  "single_emit fs d s = fold_result (\<lambda>f. f d) fs s"

lemma single_emit_ok: "emits_single single_emit"
proof -
  have "single_emit [f] d s = f d s" for f :: "'s slot" and d s
    by (cases "f d s") (simp_all add: single_emit_def)
  then show ?thesis unfolding emits_single_def by blast
qed

theorem dispatch_never_ends_process_witness:
  "\<exists>s'. dispatchMessage single_emit reference_iless (\<lambda>k m t. (t, Some OutOfRange)) 1515931932000000000
      (Some \<lparr>msg_type = UserConnected, msg_data = PUserIdInformation \<lparr>uid_id = 9\<rparr>\<rparr>) example_service = (s', None) \<and>
    service_ok s'"
proof -
  have "wired single_emit example_service"
    by (simp add: wired_def single_emit_ok example_service_def addDealAddedSlot_def)
  from dispatch_never_ends_process [OF example_service_ok this,
      of "\<lparr>msg_type = UserConnected, msg_data = PUserIdInformation \<lparr>uid_id = 9\<rparr>\<rparr>" "\<lambda>k m t. (t, Some OutOfRange)"]
  show ?thesis by (auto simp: is_std_exception_def)
qed

text \<open>C35. A user who connects without being registered is fatal. In a service in order the handler ends normally, its exception
  swallowed, but the user stays among the connected ones; and as long as the user is not registered, whatever else is
  received and whatever the threads do, the process has ended with an exception by the end of any later cycle whose snapshot
  contains the user, for nothing in the update thread catches one.\<close>

theorem unregistered_connection_ends_process:
  assumes "service_ok s" and "users (userDataStore s) k = None"
  shows "\<exists>s'. dispatchMessage emit iless (send now) now
        (Some \<lparr>msg_type = UserConnected, msg_data = PUserIdInformation \<lparr>uid_id = k\<rparr>\<rparr>) s = (s', None) \<and> k \<in> connectedUsers s' \<and>
      (\<forall>es us. (\<forall>u. AddUser u \<in> set (concat (map event_requests es)) \<longrightarrow> ui_id u \<noteq> k) \<longrightarrow> k \<in> snd ` set us \<longrightarrow>
         snd (service_run emit iless send (es @ [UpdateCycle us]) s') \<noteq> None)"
proof -
  let ?r = "userConnected (send now) now k s"
  have ok: "service_ok (s\<lparr>connectedUsers := insert k (connectedUsers s)\<rparr>)" using assms(1) by (simp add: service_ok_def)
  have "is_std_exception e" if "snd ?r = Some e" for e
    using sendUserRelativeRating_unregistered_std [OF ok, of k "send now" now e] that assms(2) by (simp add: userConnected_def)
  then have "snd (caught ?r) = None" by (cases "snd ?r") (auto simp: caught_def)
  then have handled: "dispatchMessage emit iless (send now) now
      (Some \<lparr>msg_type = UserConnected, msg_data = PUserIdInformation \<lparr>uid_id = k\<rparr>\<rparr>) s = (fst ?r, None)"
    by (simp add: dispatch_connected prod_eq_iff)
  have unknown: "users (fold serve_request rs st) k = None"
    if "users st k = None" "\<forall>u. AddUser u \<in> set rs \<longrightarrow> ui_id u \<noteq> k" for rs st
    using that
  proof (induction rs arbitrary: st)
    case (Cons r rs)
    then have "users (serve_request r st) k = None"
      by (cases r) (auto simp: attempt_def addUser_def renameUser_def split: option.splits if_splits)
    with Cons show ?case by (simp del: serve_request.simps)
  qed simp
  have "snd (service_run emit iless send (es @ [UpdateCycle us]) (fst ?r)) \<noteq> None"
    if later: "\<forall>u. AddUser u \<in> set (concat (map event_requests es)) \<longrightarrow> ui_id u \<noteq> k" "k \<in> snd ` set us" for es us
  proof (cases "service_run emit iless send es (fst ?r)")
    case (Pair s1 e)
    show ?thesis
    proof (cases e)
      case None
      with Pair run_store [of emit iless send es "fst ?r" s1] have
        "userDataStore s1 = fold serve_request (concat (map event_requests es)) (userDataStore s)" by (simp add: userConnected_def)
      with unknown [OF assms(2) later(1)] have "users (userDataStore s1) k = None" by simp
      from broadcast_unregistered [OF later(2) this, of send] Pair None show ?thesis
        by (cases "broadcast send us s1"; cases "snd (broadcast send us s1)") (simp_all add: service_run_append)
    next
      case (Some e')
      with Pair show ?thesis by (simp add: service_run_append)
    qed
  qed
  with handled show ?thesis by (intro exI [of _ "fst ?r"]) (simp add: userConnected_def)
qed

theorem unregistered_connection_ends_process_witness:
  "\<exists>s'. dispatchMessage single_emit reference_iless (\<lambda>k m t. (t, None)) 1515931932000000000
      (Some \<lparr>msg_type = UserConnected, msg_data = PUserIdInformation \<lparr>uid_id = 9\<rparr>\<rparr>) example_service = (s', None) \<and>
    snd (service_run single_emit reference_iless (\<lambda>now k m t. (t, None))
      [Received 1515931932000000000 (Some \<lparr>msg_type = UserRegistered, msg_data = PUserInformation \<lparr>ui_id = 8, ui_name = ''x''\<rparr>\<rparr>),
       UpdateCycle [(1515931933000000000, 9)]] s') \<noteq> None"
proof -
  let ?es = "[Received 1515931932000000000 (Some \<lparr>msg_type = UserRegistered, msg_data = PUserInformation \<lparr>ui_id = 8, ui_name = ''x''\<rparr>\<rparr>)]"
  let ?send = "(\<lambda>now k m t. (t, None)) :: time_point \<Rightarrow> (user_identifier \<times> base_message) list sender"
  have unknown: "users (userDataStore example_service) 9 = None" by (simp add: example_service_def example_store_def)
  obtain s' where s': "dispatchMessage single_emit reference_iless (?send 1515931932000000000) 1515931932000000000
      (Some \<lparr>msg_type = UserConnected, msg_data = PUserIdInformation \<lparr>uid_id = 9\<rparr>\<rparr>) example_service = (s', None)"
    "\<forall>es us. (\<forall>u. AddUser u \<in> set (concat (map event_requests es)) \<longrightarrow> ui_id u \<noteq> 9) \<longrightarrow> 9 \<in> snd ` set us \<longrightarrow>
       snd (service_run single_emit reference_iless ?send (es @ [UpdateCycle us]) s') \<noteq> None"
    using unregistered_connection_ends_process [OF example_service_ok unknown, where send = ?send and now = 1515931932000000000 and emit = single_emit and iless = reference_iless] by auto
  from s'(2) [rule_format, of ?es "[(1515931933000000000, 9)]"]
  have "snd (service_run single_emit reference_iless ?send (?es @ [UpdateCycle [(1515931933000000000, 9)]]) s') \<noteq> None" by simp
  with s'(1) show ?thesis by auto
qed

text \<open>C36. The end of the week is fatal too, when an update cycle falls between the two steps of the
  period thread: the table is empty, the period is over, so the deal of amount zero that should put
  the user into the table is ignored, and looking up the position throws in the update thread.\<close>

theorem rollover_gap_ends_process:
  assumes "\<not> within (startTime (userRatingProvider s)) (endTime (userRatingProvider s)) (unsigned_time now)"
  shows "snd (service_run emit iless send (EmptyTable # UpdateCycle ((now, k) # us) # es) s) \<noteq> None"
proof -
  let ?p = "clear_table (userRatingProvider s)"
  have absent: "rating_of (sortedDealContainer ?p) k = None" by (simp add: clear_table_def)
  have "startTime ?p = startTime (userRatingProvider s)" "endTime ?p = endTime (userRatingProvider s)"
    by (simp_all add: clear_table_def)
  then have "ensure_present now k ?p = Inr ?p"
    using assms by (auto simp: ensure_present_def addDeal_def within_def not_less not_le)
  moreover obtain e where "relative_rating (userDataStore s) (nRatingPositions s) k ?p = Inl e"
    using unrated_position [OF absent] by (auto simp: relative_rating_def getUserPosition_def)
  ultimately show ?thesis by (simp add: sendUserRelativeRating_def push_rating_def)
qed

theorem rollover_gap_ends_process_witness:
  "snd (service_run single_emit reference_iless (\<lambda>now k m t. (t, None))
     [EmptyTable, UpdateCycle [(1515974400000000000, 2)], BeginPeriod] example_service) \<noteq> None"
  by (rule rollover_gap_ends_process) (simp add: example_service_def example_provider_def, code_simp)

text \<open>Whatever else happens, the registry behind a running service is the one its registration and
  renaming messages describe, in their order.\<close>

theorem service_registry:
  assumes "service_run emit iless send es (new_service n now t) = (s', None)"
  shows "getUserInformation k (userDataStore s') =
    (case registry (concat (map event_requests es)) k of
       None \<Rightarrow> Inl (not_registered k)
     | Some name \<Rightarrow> Inr \<lparr>ui_id = k, ui_name = name\<rparr>)"
  using run_store [OF assms] uds.get_run [of k "concat (map event_requests es)"]
  by (simp add: new_service_def serve_request_eq)

theorem service_registry_witness:
  "\<exists>s'. service_run single_emit reference_iless (\<lambda>now k m t. (t, None))
      [Received 0 (Some \<lparr>msg_type = UserRegistered, msg_data = PUserInformation \<lparr>ui_id = 7, ui_name = ''x''\<rparr>\<rparr>),
       Received 0 (Some \<lparr>msg_type = UserRegistered, msg_data = PUserInformation \<lparr>ui_id = 7, ui_name = ''z''\<rparr>\<rparr>),
       Received 0 (Some \<lparr>msg_type = UserRenamed, msg_data = PUserInformation \<lparr>ui_id = 7, ui_name = ''y''\<rparr>\<rparr>)]
      (new_service 10 0 ([] :: nat list)) = (s', None) \<and>
    getUserInformation 7 (userDataStore s') = Inr \<lparr>ui_id = 7, ui_name = ''y''\<rparr>"
proof -
  let ?es = "[Received 0 (Some \<lparr>msg_type = UserRegistered, msg_data = PUserInformation \<lparr>ui_id = 7, ui_name = ''x''\<rparr>\<rparr>),
       Received 0 (Some \<lparr>msg_type = UserRegistered, msg_data = PUserInformation \<lparr>ui_id = 7, ui_name = ''z''\<rparr>\<rparr>),
       Received 0 (Some \<lparr>msg_type = UserRenamed, msg_data = PUserInformation \<lparr>ui_id = 7, ui_name = ''y''\<rparr>\<rparr>)]"
  obtain s' where run: "service_run single_emit reference_iless (\<lambda>now k m t. (t, None)) ?es (new_service 10 0 ([] :: nat list)) = (s', None)"
    by (simp add: dispatch_simps del: serve_request.simps)
  have "registry (concat (map event_requests ?es)) 7 = Some ''y''" by (simp add: registry_def)
  then have "getUserInformation 7 (userDataStore s') = Inr \<lparr>ui_id = 7, ui_name = ''y''\<rparr>"
    using service_registry [OF run, of 7] by simp
  with run show ?thesis by blast
qed

end
