(* ===== verification/Json_Serialization.thy ===== *)
theory Json_Serialization
  imports Enum_Converter
begin

text \<open>
  \<^verbatim>\<open>webapi/serialization/*.hpp\<close>: application messages as property trees and back (the messages of the
  WebSocket protocol around them are in theory \<open>Ws_Message\<close>). \<^verbatim>\<open>boost::property_tree\<close> is not part of the repository: the
  operations the code calls are the fields of \<open>ptree_ops\<close>, over an abstract tree type \<open>'t\<close> and an
  abstract type \<open>'w\<close> of JSON text; \<open>tree_laws\<close> and \<open>json_laws\<close> are what the code relies on.
\<close>

section \<open>Property trees\<close>

text \<open>Integers are passed as \<open>int\<close>; reading one names the number of bits of the type asked for.\<close>

record ('t, 'w) ptree_ops =
  new_tree :: 't
  put_integer :: "int \<Rightarrow> 't \<Rightarrow> 't"
  put_float :: "f32 \<Rightarrow> 't \<Rightarrow> 't"
  put_string :: "string \<Rightarrow> 't \<Rightarrow> 't"
  add_child :: "string \<Rightarrow> 't \<Rightarrow> 't \<Rightarrow> 't"
  push_back :: "string \<Rightarrow> 't \<Rightarrow> 't \<Rightarrow> 't"
  children :: "'t \<Rightarrow> (string \<times> 't) list"
  get_child :: "'t \<Rightarrow> string \<Rightarrow> 't result"
  get_integer :: "nat \<Rightarrow> 't \<Rightarrow> int result"
  get_float :: "'t \<Rightarrow> f32 result"
  get_string :: "'t \<Rightarrow> string result"
  write_json :: "'t \<Rightarrow> 'w result"
  read_json :: "'w \<Rightarrow> 't result"

definition tree_empty :: "('t, 'w) ptree_ops \<Rightarrow> 't \<Rightarrow> bool" where
  "tree_empty ops t \<longleftrightarrow> children ops t = []"

text \<open>Text that JSON carries without loss: printable ASCII characters.\<close>

definition plain_text :: "string \<Rightarrow> bool" where
  "plain_text s \<longleftrightarrow> list_all (\<lambda>c. 32 \<le> (of_char c :: nat) \<and> (of_char c :: nat) < 127) s"

text \<open>Trees made of values without children and of inner nodes without a value. \<^verbatim>\<open>write_json\<close> accepts those whose root is an
  inner node.\<close>

inductive json_tree :: "('t, 'w) ptree_ops \<Rightarrow> 't \<Rightarrow> bool" and json_node :: "('t, 'w) ptree_ops \<Rightarrow> 't \<Rightarrow> bool"
  for ops :: "('t, 'w) ptree_ops" where
  leaf_integer: "json_tree ops (put_integer ops v (new_tree ops))"
| leaf_float: "f32_finite x \<Longrightarrow> json_tree ops (put_float ops x (new_tree ops))"
| leaf_text: "plain_text s \<Longrightarrow> json_tree ops (put_string ops s (new_tree ops))"
| inner: "json_node ops t \<Longrightarrow> json_tree ops t"
| no_members: "json_node ops (new_tree ops)"
| member: "json_node ops t \<Longrightarrow> json_tree ops c \<Longrightarrow> json_node ops (add_child ops k c t)"
| item: "json_node ops t \<Longrightarrow> json_tree ops c \<Longrightarrow> json_node ops (push_back ops [] c t)"

definition tree_laws :: "('t, 'w) ptree_ops \<Rightarrow> bool" where
  "tree_laws ops \<longleftrightarrow>
     (\<forall>v n. 0 \<le> v \<longrightarrow> v < 2 ^ n \<longrightarrow> get_integer ops n (put_integer ops v (new_tree ops)) = Inr v) \<and>
     (\<forall>x. f32_finite x \<longrightarrow> get_float ops (put_float ops x (new_tree ops)) = Inr x) \<and>
     (\<forall>s. get_string ops (put_string ops s (new_tree ops)) = Inr s) \<and>
     children ops (new_tree ops) = [] \<and>
     (\<forall>k c t. CHR ''.'' \<notin> set k \<longrightarrow> children ops (add_child ops k c t) = children ops t @ [(k, c)]) \<and>
     (\<forall>k c t. children ops (push_back ops k c t) = children ops t @ [(k, c)]) \<and>
     (\<forall>t k. CHR ''.'' \<notin> set k \<longrightarrow> get_child ops t k =
       (case map_of (children ops t) k of None \<Rightarrow> Inl (PtreeBadPath k) | Some c \<Rightarrow> Inr c))"

definition json_laws :: "('t, 'w) ptree_ops \<Rightarrow> bool" where
  "json_laws ops \<longleftrightarrow> (\<forall>t. json_node ops t \<longrightarrow> (\<exists>w. write_json ops t = Inr w \<and> read_json ops w = Inr t))"

section \<open>Basic types\<close>

definition serialize_word :: "('t, 'w) ptree_ops \<Rightarrow> 'n::len word \<Rightarrow> 't" where
  "serialize_word ops v = put_integer ops (uint v) (new_tree ops)"

definition serialize_float :: "('t, 'w) ptree_ops \<Rightarrow> f32 \<Rightarrow> 't" where
  "serialize_float ops v = put_float ops v (new_tree ops)"

definition serialize_string :: "('t, 'w) ptree_ops \<Rightarrow> string \<Rightarrow> 't" where
  "serialize_string ops v = put_string ops v (new_tree ops)"

definition serialize_enum :: "('t, 'w) ptree_ops \<Rightarrow> 'e enum_converter \<Rightarrow> 'e \<Rightarrow> 't result" where
  "serialize_enum ops conv v = bindr (enum_toString conv v) (\<lambda>s. Inr (put_string ops s (new_tree ops)))"

definition serialize_vector :: "('t, 'w) ptree_ops \<Rightarrow> ('a \<Rightarrow> 't) \<Rightarrow> 'a list \<Rightarrow> 't" where
  "serialize_vector ops f vs = fold (\<lambda>v t. push_back ops [] (f v) t) vs (new_tree ops)"

definition parse_word :: "('t, 'w) ptree_ops \<Rightarrow> 't \<Rightarrow> 'n::len word result" where
  "parse_word ops t = bindr (get_integer ops LENGTH('n) t) (\<lambda>v. Inr (word_of_int v))"

definition parse_enum ::
  "('t, 'w) ptree_ops \<Rightarrow> (char \<Rightarrow> char \<Rightarrow> bool) \<Rightarrow> 'e enum_converter \<Rightarrow> 't \<Rightarrow> 'e result" where
  "parse_enum ops iless conv t = bindr (get_string ops t) (toEnum iless conv)"

definition parse_vector :: "('t, 'w) ptree_ops \<Rightarrow> ('t \<Rightarrow> 'a result) \<Rightarrow> 't \<Rightarrow> 'a list result" where
  "parse_vector ops f t =
     (if tree_empty ops t then Inr [] else transform (\<lambda>item. f (snd item)) (children ops t))"

text \<open>\<^verbatim>\<open>Parse(value.get_child(key))\<close>, and the guard of the deserializers.\<close>

definition at_child :: "('t, 'w) ptree_ops \<Rightarrow> string \<Rightarrow> ('t \<Rightarrow> 'a result) \<Rightarrow> 't \<Rightarrow> 'a result" where
  "at_child ops key f t = bindr (get_child ops t key) f"

definition throw_on_empty_value :: "('t, 'w) ptree_ops \<Rightarrow> 't \<Rightarrow> 'a result \<Rightarrow> 'a result" where
  "throw_on_empty_value ops t r =
     (if tree_empty ops t then Inl (serializer_exception ''Can't deserialize empty JSON value.'') else r)"

section \<open>The model types\<close>

definition serialize_user_information :: "('t, 'w) ptree_ops \<Rightarrow> user_information \<Rightarrow> 't" where
  "serialize_user_information ops v =
     add_child ops ''name'' (serialize_string ops (ui_name v))
       (add_child ops ''id'' (serialize_word ops (ui_id v)) (new_tree ops))"

definition serialize_deal_information :: "('t, 'w) ptree_ops \<Rightarrow> deal_information \<Rightarrow> 't" where
  "serialize_deal_information ops v =
     add_child ops ''amount'' (serialize_float ops (di_amount v))
       (add_child ops ''timestamp'' (serialize_word ops (di_timestamp v))
         (add_child ops ''userId'' (serialize_word ops (di_userId v)) (new_tree ops)))"

definition serialize_user_id_information :: "('t, 'w) ptree_ops \<Rightarrow> user_id_information \<Rightarrow> 't" where
  "serialize_user_id_information ops v = add_child ops ''id'' (serialize_word ops (uid_id v)) (new_tree ops)"

definition serialize_user_position :: "('t, 'w) ptree_ops \<Rightarrow> user_position \<Rightarrow> 't" where
  "serialize_user_position ops v =
     add_child ops ''amount'' (serialize_float ops (up_amount v))
       (add_child ops ''position'' (serialize_word ops (up_position v))
         (add_child ops ''userInfo'' (serialize_user_information ops (up_userInformation v)) (new_tree ops)))"

definition serialize_user_relative_rating :: "('t, 'w) ptree_ops \<Rightarrow> user_relative_rating \<Rightarrow> 't" where
  "serialize_user_relative_rating ops v =
     add_child ops ''lowPositions'' (serialize_vector ops (serialize_user_position ops) (ur_lowPositions v))
       (add_child ops ''highPositions'' (serialize_vector ops (serialize_user_position ops) (ur_highPositions v))
         (add_child ops ''headPositions'' (serialize_vector ops (serialize_user_position ops) (ur_headPositions v))
           (add_child ops ''userPosition'' (serialize_user_position ops (ur_userPosition v)) (new_tree ops))))"

definition serialize_message ::
  "('t, 'w) ptree_ops \<Rightarrow> (char \<Rightarrow> char \<Rightarrow> bool) \<Rightarrow> message_type \<Rightarrow> 't \<Rightarrow> 't result" where
  "serialize_message ops iless type payload =
     bindr (serialize_enum ops (message_type_converter iless) type) (\<lambda>t.
       Inr (add_child ops ''payload'' payload (add_child ops ''type'' t (new_tree ops))))"

text \<open>The last branch of the chain, for other types, cannot be reached: the enumeration has no others.\<close>

definition serialize_base_message ::
  "('t, 'w) ptree_ops \<Rightarrow> (char \<Rightarrow> char \<Rightarrow> bool) \<Rightarrow> base_message \<Rightarrow> 't result" where
  "serialize_base_message ops iless v =
     (case msg_type v of
        UserRegistered \<Rightarrow> bindr (as_user_information v)
          (\<lambda>d. serialize_message ops iless (msg_type v) (serialize_user_information ops d))
      | UserRenamed \<Rightarrow> bindr (as_user_information v)
          (\<lambda>d. serialize_message ops iless (msg_type v) (serialize_user_information ops d))
      | UserConnected \<Rightarrow> bindr (as_user_id_information v)
          (\<lambda>d. serialize_message ops iless (msg_type v) (serialize_user_id_information ops d))
      | UserDisconnected \<Rightarrow> bindr (as_user_id_information v)
          (\<lambda>d. serialize_message ops iless (msg_type v) (serialize_user_id_information ops d))
      | UserDealWon \<Rightarrow> bindr (as_deal_information v)
          (\<lambda>d. serialize_message ops iless (msg_type v) (serialize_deal_information ops d))
      | UserRelativeRating \<Rightarrow> bindr (as_user_relative_rating v)
          (\<lambda>d. serialize_message ops iless (msg_type v) (serialize_user_relative_rating ops d)))"

definition parse_user_information :: "('t, 'w) ptree_ops \<Rightarrow> 't \<Rightarrow> user_information result" where
  "parse_user_information ops t = throw_on_empty_value ops t
     (bindr (at_child ops ''id'' (parse_word ops) t) (\<lambda>i.
      bindr (at_child ops ''name'' (get_string ops) t) (\<lambda>n. Inr \<lparr>ui_id = i, ui_name = n\<rparr>)))"

definition parse_deal_information :: "('t, 'w) ptree_ops \<Rightarrow> 't \<Rightarrow> deal_information result" where
  "parse_deal_information ops t = throw_on_empty_value ops t
     (bindr (at_child ops ''userId'' (parse_word ops) t) (\<lambda>u.
      bindr (at_child ops ''timestamp'' (parse_word ops) t) (\<lambda>s.
      bindr (at_child ops ''amount'' (get_float ops) t) (\<lambda>a.
        Inr \<lparr>di_userId = u, di_timestamp = s, di_amount = a\<rparr>))))"

definition parse_user_id_information :: "('t, 'w) ptree_ops \<Rightarrow> 't \<Rightarrow> user_id_information result" where
  "parse_user_id_information ops t = throw_on_empty_value ops t
     (bindr (at_child ops ''id'' (parse_word ops) t) (\<lambda>i. Inr \<lparr>uid_id = i\<rparr>))"

definition parse_user_position :: "('t, 'w) ptree_ops \<Rightarrow> 't \<Rightarrow> user_position result" where
  "parse_user_position ops t = throw_on_empty_value ops t
     (bindr (at_child ops ''userInfo'' (parse_user_information ops) t) (\<lambda>u.
      bindr (at_child ops ''position'' (parse_word ops) t) (\<lambda>p.
      bindr (at_child ops ''amount'' (get_float ops) t) (\<lambda>a.
        Inr \<lparr>up_userInformation = u, up_position = p, up_amount = a\<rparr>))))"

definition parse_user_relative_rating :: "('t, 'w) ptree_ops \<Rightarrow> 't \<Rightarrow> user_relative_rating result" where
  "parse_user_relative_rating ops t = throw_on_empty_value ops t
     (bindr (at_child ops ''userPosition'' (parse_user_position ops) t) (\<lambda>u.
      bindr (at_child ops ''headPositions'' (parse_vector ops (parse_user_position ops)) t) (\<lambda>hd.
      bindr (at_child ops ''highPositions'' (parse_vector ops (parse_user_position ops)) t) (\<lambda>hi.
      bindr (at_child ops ''lowPositions'' (parse_vector ops (parse_user_position ops)) t) (\<lambda>lo.
        Inr \<lparr>ur_userPosition = u, ur_headPositions = hd, ur_highPositions = hi, ur_lowPositions = lo\<rparr>)))))"

definition parse_message ::
  "('t, 'w) ptree_ops \<Rightarrow> (char \<Rightarrow> char \<Rightarrow> bool) \<Rightarrow> ('t \<Rightarrow> 'a result) \<Rightarrow> ('a \<Rightarrow> payload) \<Rightarrow> 't
    \<Rightarrow> base_message result" where
  "parse_message ops iless f wrap t = throw_on_empty_value ops t
     (bindr (at_child ops ''type'' (parse_enum ops iless (message_type_converter iless)) t) (\<lambda>type.
      bindr (at_child ops ''payload'' f t) (\<lambda>payload.
        Inr \<lparr>msg_type = type, msg_data = wrap payload\<rparr>)))"

definition parse_base_message ::
  "('t, 'w) ptree_ops \<Rightarrow> (char \<Rightarrow> char \<Rightarrow> bool) \<Rightarrow> 't \<Rightarrow> base_message result" where
  "parse_base_message ops iless t = throw_on_empty_value ops t
     (bindr (at_child ops ''type'' (parse_enum ops iless (message_type_converter iless)) t) (\<lambda>type.
        case type of
          UserRegistered \<Rightarrow> parse_message ops iless (parse_user_information ops) PUserInformation t
        | UserRenamed \<Rightarrow> parse_message ops iless (parse_user_information ops) PUserInformation t
        | UserConnected \<Rightarrow> parse_message ops iless (parse_user_id_information ops) PUserIdInformation t
        | UserDisconnected \<Rightarrow> parse_message ops iless (parse_user_id_information ops) PUserIdInformation t
        | UserDealWon \<Rightarrow> parse_message ops iless (parse_deal_information ops) PDealInformation t
        | UserRelativeRating \<Rightarrow> parse_message ops iless (parse_user_relative_rating ops) PUserRelativeRating t))"

lemmas json_defs [component_defs] =
  serialize_word_def serialize_float_def serialize_string_def serialize_enum_def serialize_vector_def
  parse_word_def parse_enum_def parse_vector_def at_child_def throw_on_empty_value_def tree_empty_def
  serialize_user_information_def serialize_deal_information_def serialize_user_id_information_def
  serialize_user_position_def serialize_user_relative_rating_def serialize_message_def
  serialize_base_message_def parse_user_information_def parse_deal_information_def
  parse_user_id_information_def parse_user_position_def parse_user_relative_rating_def
  parse_message_def parse_base_message_def

section \<open>Using the laws\<close>

lemma children_new: "tree_laws ops \<Longrightarrow> children ops (new_tree ops) = []"
  by (simp add: tree_laws_def)

lemma children_add:
  "tree_laws ops \<Longrightarrow> CHR ''.'' \<notin> set k \<Longrightarrow> children ops (add_child ops k c t) = children ops t @ [(k, c)]"
  unfolding tree_laws_def by blast

lemma children_push: "tree_laws ops \<Longrightarrow> children ops (push_back ops k c t) = children ops t @ [(k, c)]"
  unfolding tree_laws_def by blast

lemma get_child_eq:
  "tree_laws ops \<Longrightarrow> CHR ''.'' \<notin> set k \<Longrightarrow> get_child ops t k =
    (case map_of (children ops t) k of None \<Rightarrow> Inl (PtreeBadPath k) | Some c \<Rightarrow> Inr c)"
  unfolding tree_laws_def by blast

lemma get_integer_put:
  "tree_laws ops \<Longrightarrow> 0 \<le> v \<Longrightarrow> v < 2 ^ n \<Longrightarrow> get_integer ops n (put_integer ops v (new_tree ops)) = Inr v"
  unfolding tree_laws_def by blast

lemma get_float_put: "tree_laws ops \<Longrightarrow> f32_finite x \<Longrightarrow> get_float ops (serialize_float ops x) = Inr x"
  unfolding tree_laws_def serialize_float_def by blast

lemma get_string_put: "tree_laws ops \<Longrightarrow> get_string ops (put_string ops s (new_tree ops)) = Inr s"
  unfolding tree_laws_def by blast

lemma word_roundtrip: "tree_laws ops \<Longrightarrow> parse_word ops (serialize_word ops v) = Inr v"
  for v :: "'n::len word"
  by (simp add: parse_word_def serialize_word_def get_integer_put)

lemma string_roundtrip: "tree_laws ops \<Longrightarrow> get_string ops (serialize_string ops s) = Inr s"
  by (simp add: serialize_string_def get_string_put)

lemmas tree_simps = children_new children_add children_push get_child_eq word_roundtrip string_roundtrip get_float_put

lemma serialize_vector_children:
  assumes "tree_laws ops"
  shows "children ops (serialize_vector ops f vs) = map (\<lambda>v. ([], f v)) vs"
proof -
  have "children ops (fold (\<lambda>v t. push_back ops [] (f v) t) vs t) = children ops t @ map (\<lambda>v. ([], f v)) vs" for t
    by (induction vs arbitrary: t) (simp_all add: children_push [OF assms])
  then show ?thesis by (simp add: serialize_vector_def children_new [OF assms])
qed

lemma vector_roundtrip:
  assumes "tree_laws ops" and "\<And>v. v \<in> set vs \<Longrightarrow> f (g v) = Inr v"
  shows "parse_vector ops f (serialize_vector ops g vs) = Inr vs"
  using transform_all_ok [of vs "\<lambda>v. f (g v)" "\<lambda>v. v"] assms(2)
  by (simp add: parse_vector_def tree_empty_def serialize_vector_children [OF assms(1)] transform_map)

section \<open>Round trips of the model types\<close>

lemma user_information_roundtrip:
  "tree_laws ops \<Longrightarrow> parse_user_information ops (serialize_user_information ops v) = Inr v"
  by (simp add: parse_user_information_def serialize_user_information_def throw_on_empty_value_def
      tree_empty_def at_child_def tree_simps)

lemma user_id_information_roundtrip:
  "tree_laws ops \<Longrightarrow> parse_user_id_information ops (serialize_user_id_information ops v) = Inr v"
  by (simp add: parse_user_id_information_def serialize_user_id_information_def throw_on_empty_value_def
      tree_empty_def at_child_def tree_simps)

lemma deal_information_roundtrip:
  "tree_laws ops \<Longrightarrow> f32_finite (di_amount v) \<Longrightarrow>
    parse_deal_information ops (serialize_deal_information ops v) = Inr v"
  by (simp add: parse_deal_information_def serialize_deal_information_def throw_on_empty_value_def
      tree_empty_def at_child_def tree_simps)

lemma user_position_roundtrip:
  "tree_laws ops \<Longrightarrow> position_finite v \<Longrightarrow> parse_user_position ops (serialize_user_position ops v) = Inr v"
  by (simp add: parse_user_position_def serialize_user_position_def throw_on_empty_value_def position_finite_def
      tree_empty_def at_child_def tree_simps user_information_roundtrip)

lemma user_positions_roundtrip:
  "tree_laws ops \<Longrightarrow> list_all position_finite vs \<Longrightarrow>
    parse_vector ops (parse_user_position ops) (serialize_vector ops (serialize_user_position ops) vs) = Inr vs"
  by (intro vector_roundtrip) (simp_all add: user_position_roundtrip list_all_iff)

lemma user_relative_rating_roundtrip:
  "tree_laws ops \<Longrightarrow> rating_finite v \<Longrightarrow>
    parse_user_relative_rating ops (serialize_user_relative_rating ops v) = Inr v"
  by (simp add: parse_user_relative_rating_def serialize_user_relative_rating_def throw_on_empty_value_def
      rating_finite_def tree_empty_def at_child_def tree_simps user_position_roundtrip user_positions_roundtrip)

section \<open>Round trip of a message\<close>

lemma toEnum_toString:
  assumes "iless_law iless" and "enum_toString (message_type_converter iless) t = Inr s"
  shows "toEnum iless (message_type_converter iless) s = Inr t"
  using assms(2)
  by (cases t) (auto simp: enum_toString_def message_type_names toEnum_def find_name_iff [OF assms(1)]
      message_type_table [OF assms(1)] toupper_def)

text \<open>A serialized message is an object with the two members \<^verbatim>\<open>type\<close> and \<^verbatim>\<open>payload\<close>.\<close>

definition message_tree :: "('t, 'w) ptree_ops \<Rightarrow> string \<Rightarrow> 't \<Rightarrow> 't" where
  "message_tree ops name payload =
     add_child ops ''payload'' payload (add_child ops ''type'' (put_string ops name (new_tree ops)) (new_tree ops))"

fun payload_tree :: "('t, 'w) ptree_ops \<Rightarrow> payload \<Rightarrow> 't" where
  "payload_tree ops (PUserInformation d) = serialize_user_information ops d"
| "payload_tree ops (PUserIdInformation d) = serialize_user_id_information ops d"
| "payload_tree ops (PDealInformation d) = serialize_deal_information ops d"
| "payload_tree ops (PUserRelativeRating d) = serialize_user_relative_rating ops d"

lemma serialize_base_message_eq:
  assumes "well_typed m"
  shows "\<exists>s. enum_toString (message_type_converter iless) (msg_type m) = Inr s \<and>
    serialize_base_message ops iless m = Inr (message_tree ops s (payload_tree ops (msg_data m)))"
proof -
  obtain s where s: "enum_toString (message_type_converter iless) (msg_type m) = Inr s"
    using message_type_toString by blast
  from assms show ?thesis
    by (cases rule: well_typed_cases)
      (use s in \<open>auto simp: serialize_base_message_def serialize_message_def serialize_enum_def message_tree_def\<close>)
qed

lemma parse_message_tree:
  assumes "tree_laws ops" and "iless_law iless"
    and "enum_toString (message_type_converter iless) t = Inr s" and "f payload = Inr d"
  shows "parse_message ops iless f wrap (message_tree ops s payload) = Inr \<lparr>msg_type = t, msg_data = wrap d\<rparr>"
  by (simp add: parse_message_def message_tree_def throw_on_empty_value_def tree_empty_def at_child_def
      tree_simps assms parse_enum_def get_string_put toEnum_toString [OF assms(2,3)])

lemma base_message_roundtrip:
  assumes "tree_laws ops" and "iless_law iless" and "well_typed m" and "payload_finite (msg_data m)"
  shows "\<exists>t. serialize_base_message ops iless m = Inr t \<and> parse_base_message ops iless t = Inr m"
proof -
  from serialize_base_message_eq [OF assms(3), of iless ops] obtain s
    where s: "enum_toString (message_type_converter iless) (msg_type m) = Inr s"
      "serialize_base_message ops iless m = Inr (message_tree ops s (payload_tree ops (msg_data m)))" by blast
  have parse: "parse_base_message ops iless (message_tree ops s p) =
     (case msg_type m of
        UserRegistered \<Rightarrow> parse_message ops iless (parse_user_information ops) PUserInformation (message_tree ops s p)
      | UserRenamed \<Rightarrow> parse_message ops iless (parse_user_information ops) PUserInformation (message_tree ops s p)
      | UserConnected \<Rightarrow> parse_message ops iless (parse_user_id_information ops) PUserIdInformation (message_tree ops s p)
      | UserDisconnected \<Rightarrow> parse_message ops iless (parse_user_id_information ops) PUserIdInformation (message_tree ops s p)
      | UserDealWon \<Rightarrow> parse_message ops iless (parse_deal_information ops) PDealInformation (message_tree ops s p)
      | UserRelativeRating \<Rightarrow> parse_message ops iless (parse_user_relative_rating ops) PUserRelativeRating (message_tree ops s p))"
    for p
  proof -
    have "at_child ops ''type'' (parse_enum ops iless (message_type_converter iless)) (message_tree ops s p) = Inr (msg_type m)"
      "\<not> tree_empty ops (message_tree ops s p)"
      by (simp_all add: message_tree_def tree_empty_def at_child_def tree_simps assms(1) parse_enum_def
          get_string_put toEnum_toString [OF assms(2) s(1)])
    then show ?thesis by (simp add: parse_base_message_def throw_on_empty_value_def)
  qed
  note pm = parse_message_tree [OF assms(1,2) s(1)]
  have "parse_base_message ops iless (message_tree ops s (payload_tree ops (msg_data m))) = Inr m"
    using assms(3)
  proof (cases rule: well_typed_cases)
    case (user d)
    then show ?thesis
      unfolding parse using pm [where f = "parse_user_information ops", OF user_information_roundtrip [OF assms(1)], of PUserInformation d] by auto
  next
    case (userId d)
    then show ?thesis
      unfolding parse using pm [where f = "parse_user_id_information ops", OF user_id_information_roundtrip [OF assms(1)], of PUserIdInformation d] by auto
  next
    case (deal d)
    then show ?thesis
      unfolding parse using pm [where f = "parse_deal_information ops", OF deal_information_roundtrip [OF assms(1)], of d PDealInformation] assms(4) by simp
  next
    case (rating d)
    then show ?thesis
      unfolding parse using pm [where f = "parse_user_relative_rating ops", OF user_relative_rating_roundtrip [OF assms(1)], of d PUserRelativeRating] assms(4)
      by simp
  qed
  with s(2) show ?thesis by blast
qed

text \<open>What the parser accepts is well typed, so the casts of its users succeed.\<close>

lemma parse_message_Inr:
  "parse_message ops iless f wrap t = Inr m \<Longrightarrow> \<exists>d. msg_data m = wrap d \<and>
    at_child ops ''type'' (parse_enum ops iless (message_type_converter iless)) t = Inr (msg_type m)"
  by (auto simp: parse_message_def throw_on_empty_value_def split: if_splits)

lemma parsed_well_typed:
  assumes "parse_base_message ops iless t = Inr m"
  shows "well_typed m"
proof -
  from assms obtain type where type: "at_child ops ''type'' (parse_enum ops iless (message_type_converter iless)) t = Inr type"
    and cases: "(case type of
          UserRegistered \<Rightarrow> parse_message ops iless (parse_user_information ops) PUserInformation t
        | UserRenamed \<Rightarrow> parse_message ops iless (parse_user_information ops) PUserInformation t
        | UserConnected \<Rightarrow> parse_message ops iless (parse_user_id_information ops) PUserIdInformation t
        | UserDisconnected \<Rightarrow> parse_message ops iless (parse_user_id_information ops) PUserIdInformation t
        | UserDealWon \<Rightarrow> parse_message ops iless (parse_deal_information ops) PDealInformation t
        | UserRelativeRating \<Rightarrow> parse_message ops iless (parse_user_relative_rating ops) PUserRelativeRating t) = Inr m"
    by (auto simp: parse_base_message_def throw_on_empty_value_def split: if_splits)
  from cases show ?thesis
    by (cases type) (auto dest!: parse_message_Inr simp: type)
qed

section \<open>Serialized trees are JSON\<close>

lemma word_json: "json_tree ops (serialize_word ops v)"
  unfolding serialize_word_def by (rule leaf_integer)

lemma string_json: "plain_text s \<Longrightarrow> json_tree ops (serialize_string ops s)"
  unfolding serialize_string_def by (rule leaf_text)

lemma float_json: "f32_finite x \<Longrightarrow> json_tree ops (serialize_float ops x)"
  unfolding serialize_float_def by (rule leaf_float)

lemma vector_json:
  assumes "\<And>v. v \<in> set vs \<Longrightarrow> json_tree ops (f v)"
  shows "json_tree ops (serialize_vector ops f vs)"
proof -
  have "json_node ops t \<Longrightarrow> json_node ops (fold (\<lambda>v t. push_back ops [] (f v) t) vs t)" for t
    using assms by (induction vs arbitrary: t) (simp_all add: json_tree_json_node.item)
  then show ?thesis unfolding serialize_vector_def by (intro inner) (simp add: no_members)
qed

fun payload_plain :: "payload \<Rightarrow> bool" where
  "payload_plain (PUserInformation d) = plain_text (ui_name d)"
| "payload_plain (PUserRelativeRating r) =
     (\<forall>p \<in> set (ur_userPosition r # ur_headPositions r @ ur_highPositions r @ ur_lowPositions r).
        plain_text (ui_name (up_userInformation p)))"
| "payload_plain _ = True"

lemmas json_intros = inner member no_members word_json string_json float_json

lemma user_information_json: "plain_text (ui_name v) \<Longrightarrow> json_tree ops (serialize_user_information ops v)"
  unfolding serialize_user_information_def by (intro json_intros)

lemma user_position_json:
  "position_finite v \<Longrightarrow> plain_text (ui_name (up_userInformation v)) \<Longrightarrow> json_tree ops (serialize_user_position ops v)"
  unfolding serialize_user_position_def position_finite_def by (intro json_intros user_information_json)

lemma payload_json:
  assumes "payload_finite d" and "payload_plain d"
  shows "json_tree ops (payload_tree ops d)"
proof (cases d)
  case (PUserInformation v)
  with assms show ?thesis by (simp add: user_information_json)
next
  case (PUserIdInformation v)
  then show ?thesis by (simp add: serialize_user_id_information_def) (intro json_intros)
next
  case (PDealInformation v)
  with assms show ?thesis by (simp add: serialize_deal_information_def) (intro json_intros)
next
  case (PUserRelativeRating v)
  with assms show ?thesis
    by (simp add: serialize_user_relative_rating_def rating_finite_def list_all_iff)
      (intro json_intros vector_json user_position_json; auto)
qed

lemma message_type_plain: "enum_toString (message_type_converter iless) t = Inr s \<Longrightarrow> plain_text s"
  by (cases t) (auto simp: enum_toString_def message_type_names plain_text_def)

lemma base_message_json:
  assumes "well_typed m" and "payload_finite (msg_data m)" and "payload_plain (msg_data m)"
    and "serialize_base_message ops iless m = Inr t"
  shows "json_tree ops t"
proof -
  from serialize_base_message_eq [OF assms(1), of iless ops] assms(4) obtain s
    where "enum_toString (message_type_converter iless) (msg_type m) = Inr s"
      "t = message_tree ops s (payload_tree ops (msg_data m))" by auto
  then show ?thesis
    unfolding message_tree_def
    using payload_json [OF assms(2,3), of ops] by (metis inner member no_members leaf_text message_type_plain)
qed

section \<open>A concrete property tree\<close>

text \<open>Shows that the laws can hold together, and carries the closed examples: values keep their type,
  and the text of a tree is the tree.\<close>

datatype tree_value = NoValue | IntValue int | FloatValue f32 | TextValue string

datatype plain_tree = PlainTree tree_value "(string \<times> plain_tree) list"

fun pt_set :: "tree_value \<Rightarrow> plain_tree \<Rightarrow> plain_tree" where
  "pt_set v (PlainTree _ cs) = PlainTree v cs"

fun pt_append :: "string \<Rightarrow> plain_tree \<Rightarrow> plain_tree \<Rightarrow> plain_tree" where
  "pt_append k c (PlainTree v cs) = PlainTree v (cs @ [(k, c)])"

fun pt_children :: "plain_tree \<Rightarrow> (string \<times> plain_tree) list" where
  "pt_children (PlainTree _ cs) = cs"

fun pt_integer :: "nat \<Rightarrow> plain_tree \<Rightarrow> int result" where
  "pt_integer n (PlainTree (IntValue v) _) = (if 0 \<le> v \<and> v < 2 ^ n then Inr v else Inl PtreeBadData)"
| "pt_integer n _ = Inl PtreeBadData"

fun pt_float :: "plain_tree \<Rightarrow> f32 result" where
  "pt_float (PlainTree (FloatValue x) _) = Inr x"
| "pt_float _ = Inl PtreeBadData"

fun pt_text :: "plain_tree \<Rightarrow> string result" where
  "pt_text (PlainTree (TextValue s) _) = Inr s"
| "pt_text (PlainTree NoValue _) = Inr []"
| "pt_text _ = Inl PtreeBadData"

definition plain_ops :: "(plain_tree, plain_tree) ptree_ops" where
  "plain_ops = \<lparr>new_tree = PlainTree NoValue [], put_integer = (\<lambda>v. pt_set (IntValue v)),
     put_float = (\<lambda>x. pt_set (FloatValue x)), put_string = (\<lambda>s. pt_set (TextValue s)),
     add_child = pt_append, push_back = pt_append, children = pt_children,
     get_child = (\<lambda>t k. case map_of (pt_children t) k of None \<Rightarrow> Inl (PtreeBadPath k) | Some c \<Rightarrow> Inr c),
     get_integer = pt_integer, get_float = pt_float, get_string = pt_text,
     write_json = Inr, read_json = Inr\<rparr>"

lemma pt_children_append [simp]: "pt_children (pt_append k c t) = pt_children t @ [(k, c)]"
  by (cases t) simp

lemma plain_tree_laws: "tree_laws plain_ops"
  unfolding tree_laws_def by (intro conjI) (simp_all add: plain_ops_def)

lemma plain_json_laws: "json_laws plain_ops"
  by (simp add: json_laws_def plain_ops_def)

section \<open>Properties\<close>

text \<open>Every well-typed message with finite amounts survives serialization: the tree the serializer
  makes is accepted by the deserializer and gives back the same message.\<close>

theorem message_tree_roundtrip:
  assumes "tree_laws ops" and "iless_law iless" and "well_typed m" and "payload_finite (msg_data m)"
  shows "\<exists>t. serialize_base_message ops iless m = Inr t \<and> parse_base_message ops iless t = Inr m"
  using assms by (rule base_message_roundtrip)

definition example_deal :: base_message where
  "example_deal = \<lparr>msg_type = UserDealWon,
     msg_data = PDealInformation \<lparr>di_userId = 7, di_timestamp = 1515931000, di_amount = 0x3F800000\<rparr>\<rparr>"

lemma example_deal_ok: "well_typed example_deal" "payload_finite (msg_data example_deal)" "payload_plain (msg_data example_deal)"
  by (simp_all add: example_deal_def f32_defs)

theorem message_tree_roundtrip_witness:
  "\<exists>t. serialize_base_message plain_ops reference_iless example_deal = Inr t \<and>
    parse_base_message plain_ops reference_iless t = Inr example_deal"
  by (rule message_tree_roundtrip [OF plain_tree_laws reference_iless_law example_deal_ok(1,2)])

text \<open>C40. Whatever tree arrives, the message the deserializer builds from it is well typed, so that no
  cast of the service can fail on a message from the network, and the tree has members.\<close>

theorem deserialized_message_well_typed:
  assumes "parse_base_message ops iless t = Inr m"
  shows "well_typed m \<and> \<not> tree_empty ops t"
  using parsed_well_typed [OF assms] assms by (auto simp: parse_base_message_def throw_on_empty_value_def split: if_splits)

theorem deserialized_message_well_typed_witness:
  "\<exists>m. parse_base_message plain_ops reference_iless
      (PlainTree NoValue [(''payload'', PlainTree NoValue [(''id'', PlainTree (IntValue 5) [])]),
        (''type'', PlainTree (TextValue ''USER_connected'') [])]) = Inr m \<and> well_typed m"
proof -
  have "toEnum reference_iless (message_type_converter reference_iless) ''USER_connected'' = Inr UserConnected"
    by (simp add: toEnum_def find_name_iff [OF reference_iless_law] message_type_table [OF reference_iless_law] toupper_def)
      code_simp
  then have "parse_base_message plain_ops reference_iless
      (PlainTree NoValue [(''payload'', PlainTree NoValue [(''id'', PlainTree (IntValue 5) [])]),
        (''type'', PlainTree (TextValue ''USER_connected'') [])]) =
      Inr \<lparr>msg_type = UserConnected, msg_data = PUserIdInformation \<lparr>uid_id = 5\<rparr>\<rparr>"
    by (simp add: parse_base_message_def parse_message_def parse_user_id_information_def throw_on_empty_value_def
        tree_empty_def at_child_def parse_enum_def parse_word_def plain_ops_def)
  with deserialized_message_well_typed [OF this] show ?thesis by blast
qed

end
