(* ===== verification/Ws_Message.thy ===== *)
theory Ws_Message
  imports Json_Serialization
begin

text \<open>
  \<^verbatim>\<open>webapi/transport/WsMessage.{hpp,cpp}\<close> with its serializer and deserializer
  (\<^verbatim>\<open>JsonSerializerWsMessage.hpp\<close>, \<^verbatim>\<open>JsonDeserializerWsMessage.hpp\<close>): the protocol messages that wrap the
  application messages on a WebSocket connection.
\<close>

section \<open>Messages\<close>

datatype ws_message_type = Ack | Data | Error

type_synonym ws_message_identifier = u16

datatype ws_message =
    WsAck ws_message_identifier
  | WsError ws_message_identifier string u8
  | WsData ws_message_identifier base_message

fun ws_getType :: "ws_message \<Rightarrow> ws_message_type" where
  "ws_getType (WsAck i) = Ack"
| "ws_getType (WsError i m c) = Error"
| "ws_getType (WsData i d) = Data"

fun ws_getId :: "ws_message \<Rightarrow> ws_message_identifier" where
  "ws_getId (WsAck i) = i"
| "ws_getId (WsError i m c) = i"
| "ws_getId (WsData i d) = i"

definition ws_message_type_converter :: "(char \<Rightarrow> char \<Rightarrow> bool) \<Rightarrow> ws_message_type enum_converter" where
  "ws_message_type_converter iless =
     addConversion iless Error ''error'' (addConversion iless Ack ''ack''
       (addConversion iless Data ''data'' empty_converter))"

section \<open>Serialization\<close>

definition SerializeWsMessage ::
  "('t, 'w) ptree_ops \<Rightarrow> (char \<Rightarrow> char \<Rightarrow> bool) \<Rightarrow> ws_message \<Rightarrow> 't result" where
  "SerializeWsMessage ops iless v =
     bindr (serialize_enum ops (ws_message_type_converter iless) (ws_getType v)) (\<lambda>type.
       Inr (add_child ops ''type'' type (add_child ops ''id'' (serialize_word ops (ws_getId v)) (new_tree ops))))"

definition serialize_ws_message ::
  "('t, 'w) ptree_ops \<Rightarrow> (char \<Rightarrow> char \<Rightarrow> bool) \<Rightarrow> ws_message \<Rightarrow> 't result" where
  "serialize_ws_message ops iless v =
     (case v of
        WsAck i \<Rightarrow> SerializeWsMessage ops iless v
      | WsError i m c \<Rightarrow> bindr (SerializeWsMessage ops iless v) (\<lambda>result.
          Inr (add_child ops ''error''
            (add_child ops ''errorCode'' (serialize_word ops c)
              (add_child ops ''message'' (serialize_string ops m) (new_tree ops))) result))
      | WsData i d \<Rightarrow> bindr (SerializeWsMessage ops iless v) (\<lambda>result.
          bindr (serialize_base_message ops iless d) (\<lambda>child.
            Inr (add_child ops ''data'' child result))))"

definition parse_ws_error :: "('t, 'w) ptree_ops \<Rightarrow> 't \<Rightarrow> ws_message result" where
  "parse_ws_error ops t = throw_on_empty_value ops t
     (bindr (get_child ops t ''error'') (\<lambda>child.
      bindr (at_child ops ''id'' (parse_word ops) t) (\<lambda>i.
      bindr (at_child ops ''errorCode'' (parse_word ops) child) (\<lambda>errorCode.
      bindr (at_child ops ''message'' (get_string ops) child) (\<lambda>m. Inr (WsError i m errorCode))))))"

definition parse_ws_data ::
  "('t, 'w) ptree_ops \<Rightarrow> (char \<Rightarrow> char \<Rightarrow> bool) \<Rightarrow> 't \<Rightarrow> ws_message result" where
  "parse_ws_data ops iless t = throw_on_empty_value ops t
     (bindr (at_child ops ''id'' (parse_word ops) t) (\<lambda>i.
      bindr (at_child ops ''data'' (parse_base_message ops iless) t) (\<lambda>d. Inr (WsData i d))))"

definition parse_ws_message ::
  "('t, 'w) ptree_ops \<Rightarrow> (char \<Rightarrow> char \<Rightarrow> bool) \<Rightarrow> 't \<Rightarrow> ws_message result" where
  "parse_ws_message ops iless t = throw_on_empty_value ops t
     (bindr (at_child ops ''type'' (parse_enum ops iless (ws_message_type_converter iless)) t) (\<lambda>type.
      bindr (at_child ops ''id'' (parse_word ops) t) (\<lambda>i.
        case type of
          Ack \<Rightarrow> Inr (WsAck i)
        | Error \<Rightarrow> parse_ws_error ops t
        | Data \<Rightarrow> parse_ws_data ops iless t)))"

lemmas ws_message_defs [component_defs] =
  SerializeWsMessage_def serialize_ws_message_def parse_ws_error_def parse_ws_data_def parse_ws_message_def

section \<open>Round trip\<close>

lemma ws_message_type_names:
  "enumToString (ws_message_type_converter iless) Data = Some ''data''"
  "enumToString (ws_message_type_converter iless) Ack = Some ''ack''"
  "enumToString (ws_message_type_converter iless) Error = Some ''error''"
  by (simp_all add: ws_message_type_converter_def addConversion_def empty_converter_def)

lemma ws_message_type_table:
  assumes "iless_law iless"
  shows "stringToEnum (ws_message_type_converter iless) = [(''data'', Data), (''ack'', Ack), (''error'', Error)]"
  by (simp add: ws_message_type_converter_def addConversion_def empty_converter_def
      find_name_iff [OF assms] toupper_def)

lemma ws_type_roundtrip:
  assumes "iless_law iless"
  shows "\<exists>s. enum_toString (ws_message_type_converter iless) t = Inr s \<and> plain_text s \<and>
    toEnum iless (ws_message_type_converter iless) s = Inr t"
  by (cases t) (simp_all add: enum_toString_def ws_message_type_names toEnum_def find_name_iff [OF assms]
      ws_message_type_table [OF assms] toupper_def plain_text_def)

text \<open>Messages that JSON carries without loss.\<close>

fun ws_ordinary :: "ws_message \<Rightarrow> bool" where
  "ws_ordinary (WsAck i) = True"
| "ws_ordinary (WsError i m c) = plain_text m"
| "ws_ordinary (WsData i d) = (well_typed d \<and> payload_finite (msg_data d) \<and> payload_plain (msg_data d))"

lemma SerializeWsMessage_eq:
  assumes "iless_law iless"
  shows "\<exists>s. SerializeWsMessage ops iless v = Inr (add_child ops ''type'' (put_string ops s (new_tree ops))
      (add_child ops ''id'' (serialize_word ops (ws_getId v)) (new_tree ops))) \<and> plain_text s \<and>
    toEnum iless (ws_message_type_converter iless) s = Inr (ws_getType v)"
  using ws_type_roundtrip [OF assms, of "ws_getType v"] by (auto simp: SerializeWsMessage_def serialize_enum_def)

lemma ws_message_roundtrip:
  assumes "tree_laws ops" and "iless_law iless" and "ws_ordinary v"
  shows "\<exists>t. serialize_ws_message ops iless v = Inr t \<and> json_node ops t \<and> parse_ws_message ops iless t = Inr v"
proof -
  from SerializeWsMessage_eq [OF assms(2), of ops v] obtain s where
    s: "SerializeWsMessage ops iless v = Inr (add_child ops ''type'' (put_string ops s (new_tree ops))
      (add_child ops ''id'' (serialize_word ops (ws_getId v)) (new_tree ops)))" "plain_text s"
    "toEnum iless (ws_message_type_converter iless) s = Inr (ws_getType v)" by blast
  let ?base = "add_child ops ''type'' (put_string ops s (new_tree ops))
      (add_child ops ''id'' (serialize_word ops (ws_getId v)) (new_tree ops))"
  have base: "json_node ops ?base" by (intro member no_members word_json leaf_text s(2))
  note evaluate = parse_ws_message_def throw_on_empty_value_def tree_empty_def at_child_def parse_enum_def
    get_string_put [OF assms(1)] get_child_eq [OF assms(1)] children_add [OF assms(1)] children_new [OF assms(1)] s(3)
    word_roundtrip [OF assms(1)] string_roundtrip [OF assms(1)]
  show ?thesis
  proof (cases v)
    case (WsAck i)
    then show ?thesis using s(1) base by (simp add: serialize_ws_message_def evaluate)
  next
    case (WsError i m c)
    let ?child = "add_child ops ''errorCode'' (serialize_word ops c)
      (add_child ops ''message'' (serialize_string ops m) (new_tree ops))"
    have "json_node ops (add_child ops ''error'' ?child ?base)"
      using assms(3) WsError by (intro member [OF base inner] member no_members word_json string_json) simp
    then show ?thesis
      using s(1) WsError
      by (simp add: serialize_ws_message_def evaluate parse_ws_error_def)
  next
    case (WsData i d)
    with assms(3) have d: "well_typed d" "payload_finite (msg_data d)" "payload_plain (msg_data d)"
      by (simp_all del: well_typed.simps)
    from base_message_roundtrip [OF assms(1,2) d(1,2)] obtain t where
      t: "serialize_base_message ops iless d = Inr t" "parse_base_message ops iless t = Inr d" by blast
    have "json_node ops (add_child ops ''data'' t ?base)"
      by (rule member [OF base base_message_json [OF d t(1)]])
    then show ?thesis
      using s(1) WsData t by (simp add: serialize_ws_message_def evaluate parse_ws_data_def)
  qed
qed

text \<open>The message as JSON text, and back.\<close>

definition ws_text :: "('t, 'w) ptree_ops \<Rightarrow> (char \<Rightarrow> char \<Rightarrow> bool) \<Rightarrow> ws_message \<Rightarrow> 'w result" where
  "ws_text ops iless v = bindr (serialize_ws_message ops iless v) (write_json ops)"

definition ws_of_text :: "('t, 'w) ptree_ops \<Rightarrow> (char \<Rightarrow> char \<Rightarrow> bool) \<Rightarrow> 'w \<Rightarrow> ws_message result" where
  "ws_of_text ops iless w = bindr (read_json ops w) (parse_ws_message ops iless)"

definition wire_laws :: "('t, 'w) ptree_ops \<Rightarrow> (char \<Rightarrow> char \<Rightarrow> bool) \<Rightarrow> bool" where
  "wire_laws ops iless \<longleftrightarrow> tree_laws ops \<and> json_laws ops \<and> iless_law iless"

lemma ws_text_roundtrip:
  assumes "wire_laws ops iless" and "ws_ordinary v"
  shows "\<exists>w. ws_text ops iless v = Inr w \<and> ws_of_text ops iless w = Inr v"
proof -
  have laws: "tree_laws ops" "json_laws ops" "iless_law iless" using assms(1) by (simp_all add: wire_laws_def)
  from ws_message_roundtrip [OF laws(1,3) assms(2)] obtain t where t: "serialize_ws_message ops iless v = Inr t"
    "json_node ops t" "parse_ws_message ops iless t = Inr v" by blast
  from laws(2) t(2) obtain w where "write_json ops t = Inr w" "read_json ops w = Inr t"
    unfolding json_laws_def by blast
  with t show ?thesis by (simp add: ws_text_def ws_of_text_def)
qed

lemma plain_wire_laws: "wire_laws plain_ops reference_iless"
  by (simp add: wire_laws_def plain_tree_laws plain_json_laws reference_iless_law)

section \<open>Properties\<close>

text \<open>C14. Acknowledgements, errors and data messages survive the trip over the wire: the JSON text
  written for an ordinary message is read back as the same message, identifier and payload included.\<close>

theorem ws_message_survives_wire:
  assumes "wire_laws ops iless" and "ws_ordinary v"
  shows "\<exists>w. bindr (serialize_ws_message ops iless v) (write_json ops) = Inr w \<and>
    bindr (read_json ops w) (parse_ws_message ops iless) = Inr v"
  using ws_text_roundtrip [OF assms] by (simp add: ws_text_def ws_of_text_def)

theorem ws_message_survives_wire_witness:
  "\<exists>w. bindr (serialize_ws_message plain_ops reference_iless (WsError 123 ''Base error'' 0)) (write_json plain_ops) = Inr w \<and>
    bindr (read_json plain_ops w) (parse_ws_message plain_ops reference_iless) = Inr (WsError 123 ''Base error'' 0)"
  by (rule ws_message_survives_wire [OF plain_wire_laws]) (simp add: plain_text_def)

end
