(* ===== verification/Ws_Protocol.thy ===== *)
theory Ws_Protocol
  imports Ws_Message Time_Helper
begin

text \<open>
  \<^verbatim>\<open>webapi/transport/WsProtocol.{hpp,cpp}\<close>: the acknowledgement and resend protocol both ends of a
  WebSocket connection run. A connection is an identifier; \<open>alive\<close> says whether the \<^verbatim>\<open>weak_ptr\<close> to it can
  be locked. \<open>wire\<close> records the texts handed to \<^verbatim>\<open>connection->send\<close>, in order. The hash map of unacknowledged
  messages is a list of entries in its iteration order, and a pass of the resend thread reads the
  clock once. Each operation that holds \<^verbatim>\<open>resendStoreMutex\<close> is one step.
\<close>

section \<open>State\<close>

type_synonym connection_id = nat

record message_data =
  md_message :: ws_message
  md_resendCounter :: nat
  md_connection :: connection_id
  md_lastSentTimePoint :: time_point

record 'w protocol =
  resendNumber :: nat
  resendTimeout :: int
  inCounter :: u64
  outCounter :: u64
  resendStore :: "(ws_message_identifier \<times> message_data) list"
  wire :: "(connection_id \<times> 'w) list"

definition new_protocol :: "nat \<Rightarrow> int \<Rightarrow> 'w protocol" where
  "new_protocol number timeout = \<lparr>resendNumber = number, resendTimeout = timeout, inCounter = 0, outCounter = 0,
     resendStore = [], wire = []\<rparr>"

section \<open>Sending\<close>

definition sendMessageInternal ::
  "('t, 'w) ptree_ops \<Rightarrow> (char \<Rightarrow> char \<Rightarrow> bool) \<Rightarrow> connection_id \<Rightarrow> ws_message \<Rightarrow> 'w protocol
    \<Rightarrow> 'w protocol result" where
  "sendMessageInternal ops iless connection wsMessage p =
     bindr (serialize_ws_message ops iless wsMessage) (\<lambda>tree.
     bindr (write_json ops tree) (\<lambda>text. Inr (p\<lparr>wire := wire p @ [(connection, text)]\<rparr>)))"

definition getInCounter :: "'w protocol \<Rightarrow> u64" where
  "getInCounter p = inCounter p"

text \<open>\<^verbatim>\<open>SIZE_MAX\<close> is \<open>2 ^ 64 - 1\<close>.\<close>

definition getNextOutCounter :: "'w protocol \<Rightarrow> u64 \<times> 'w protocol" where
  "getNextOutCounter p = (outCounter p mod 0xFFFFFFFFFFFFFFFF, p\<lparr>outCounter := outCounter p + 1\<rparr>)"

text \<open>\<^verbatim>\<open>unordered_map::insert\<close> leaves an entry that is there already.\<close>

definition addToResendStore :: "message_data \<Rightarrow> 'w protocol \<Rightarrow> 'w protocol" where
  "addToResendStore messageData p =
     (let i = ws_getId (md_message messageData)
      in if i \<in> fst ` set (resendStore p) then p else p\<lparr>resendStore := resendStore p @ [(i, messageData)]\<rparr>)"

text \<open>\<^verbatim>\<open>sendMessage\<close> up to the transmission, which makes the data message, and as a whole.\<close>

definition transmit ::
  "('t, 'w) ptree_ops \<Rightarrow> (char \<Rightarrow> char \<Rightarrow> bool) \<Rightarrow> base_message \<Rightarrow> connection_id \<Rightarrow> 'w protocol
    \<Rightarrow> ws_message \<times> 'w protocol outcome" where
  "transmit ops iless message connection p =
     (let (counter, p) = getNextOutCounter p; wsData = WsData (ucast counter) message
      in (wsData, update_by (\<lambda>p' _. p') (sendMessageInternal ops iless connection wsData p) p))"

definition sendMessage ::
  "('t, 'w) ptree_ops \<Rightarrow> (char \<Rightarrow> char \<Rightarrow> bool) \<Rightarrow> time_point \<Rightarrow> base_message \<Rightarrow> connection_id \<Rightarrow> 'w protocol
    \<Rightarrow> 'w protocol outcome" where
  "sendMessage ops iless now message connection p =
     (let (wsData, r) = transmit ops iless message connection p
      in and_then r (\<lambda>p. (addToResendStore
           \<lparr>md_message = wsData, md_resendCounter = 0, md_connection = connection, md_lastSentTimePoint = now\<rparr> p, None)))"

section \<open>Receiving\<close>

definition removeFromResendStore :: "ws_message_identifier \<Rightarrow> 'w protocol \<Rightarrow> 'w protocol" where
  "removeFromResendStore messageId p = p\<lparr>resendStore := filter (\<lambda>e. fst e \<noteq> messageId) (resendStore p)\<rparr>"

definition parseMessage ::
  "('t, 'w) ptree_ops \<Rightarrow> (char \<Rightarrow> char \<Rightarrow> bool) \<Rightarrow> 'w \<Rightarrow> connection_id \<Rightarrow> 'w protocol
    \<Rightarrow> 'w protocol \<times> base_message option result" where
  "parseMessage ops iless message connection p =
     (case bindr (read_json ops message) (parse_ws_message ops iless) of
        Inl e \<Rightarrow> (p, Inl e)
      | Inr wsMessage \<Rightarrow>
          (case wsMessage of
             WsAck i \<Rightarrow> (removeFromResendStore i p, Inr None)
           | WsData i result \<Rightarrow>
               (case sendMessageInternal ops iless connection (WsAck i) p of
                  Inl e \<Rightarrow> (p, Inl e)
                | Inr p' \<Rightarrow> (p', Inr (Some result)))
           | WsError i m c \<Rightarrow> (p, Inr None)))"

section \<open>The resend thread\<close>

text \<open>One pass over the store: the entries with their updates, the identifiers to remove, the wire, and
  the exception that ended the pass, if any.\<close>

fun resend_items ::
  "('t, 'w) ptree_ops \<Rightarrow> (char \<Rightarrow> char \<Rightarrow> bool) \<Rightarrow> nat \<Rightarrow> int \<Rightarrow> (connection_id \<Rightarrow> bool) \<Rightarrow> time_point
    \<Rightarrow> (ws_message_identifier \<times> message_data) list \<Rightarrow> (connection_id \<times> 'w) list
    \<Rightarrow> (ws_message_identifier \<times> message_data) list \<times> ws_message_identifier list \<times>
       (connection_id \<times> 'w) list \<times> exn option" where
  "resend_items ops iless number timeout alive now [] w = ([], [], w, None)"
| "resend_items ops iless number timeout alive now ((i, d) # items) w =
     (if md_resendCounter d < number then
        if md_lastSentTimePoint d + 1000000000 * timeout < now then
          if alive (md_connection d) then
            (case bindr (serialize_ws_message ops iless (md_message d)) (write_json ops) of
               Inl e \<Rightarrow> ((i, d) # items, [], w, Some e)
             | Inr text \<Rightarrow>
                 (let (items', rm, w', e) = resend_items ops iless number timeout alive now items
                        (w @ [(md_connection d, text)])
                  in ((i, d\<lparr>md_resendCounter := md_resendCounter d + 1, md_lastSentTimePoint := now\<rparr>) # items',
                      rm, w', e)))
          else
            (let (items', rm, w', e) = resend_items ops iless number timeout alive now items w
             in ((i, d) # items', i # rm, w', e))
        else
          (let (items', rm, w', e) = resend_items ops iless number timeout alive now items w
           in ((i, d) # items', rm, w', e))
      else
        (let (items', rm, w', e) = resend_items ops iless number timeout alive now items w
         in ((i, d) # items', i # rm, w', e)))"

definition resend_pass ::
  "('t, 'w) ptree_ops \<Rightarrow> (char \<Rightarrow> char \<Rightarrow> bool) \<Rightarrow> (connection_id \<Rightarrow> bool) \<Rightarrow> time_point \<Rightarrow> 'w protocol
    \<Rightarrow> 'w protocol outcome" where
  "resend_pass ops iless alive now p =
     (let (items, messagesToRemove, w, e) =
            resend_items ops iless (resendNumber p) (resendTimeout p) alive now (resendStore p) (wire p);
          p = p\<lparr>resendStore := items, wire := w\<rparr>
      in case e of
           Some _ \<Rightarrow> (p, e)
         | None \<Rightarrow> (fold removeFromResendStore messagesToRemove p, None))"

text \<open>A sequence of passes, each with the connections that live and the time it runs at.\<close>

fun resend_passes ::
  "('t, 'w) ptree_ops \<Rightarrow> (char \<Rightarrow> char \<Rightarrow> bool) \<Rightarrow> ((connection_id \<Rightarrow> bool) \<times> time_point) list \<Rightarrow> 'w protocol
    \<Rightarrow> 'w protocol outcome" where
  "resend_passes ops iless [] p = (p, None)"
| "resend_passes ops iless ((alive, now) # ts) p =
     and_then (resend_pass ops iless alive now p) (resend_passes ops iless ts)"

lemmas protocol_defs [component_defs] =
  new_protocol_def sendMessageInternal_def getInCounter_def getNextOutCounter_def addToResendStore_def
  transmit_def sendMessage_def removeFromResendStore_def parseMessage_def resend_pass_def

section \<open>Counting transmissions\<close>

definition remaining :: "nat \<Rightarrow> (ws_message_identifier \<times> message_data) list \<Rightarrow> nat" where
  "remaining number items = sum_list (map (\<lambda>e. number - md_resendCounter (snd e)) items)"

lemma remaining_simps [simp]:
  "remaining number [] = 0"
  "remaining number (e # items) = (number - md_resendCounter (snd e)) + remaining number items"
  by (simp_all add: remaining_def)

lemma remaining_append [simp]: "remaining number (xs @ ys) = remaining number xs + remaining number ys"
  by (simp add: remaining_def)

lemma remaining_filter: "remaining number (filter P items) \<le> remaining number items"
  by (induction items) auto

lemma resend_items_budget:
  assumes "resend_items ops iless number timeout alive now items w = (items', rm, w', e)"
  shows "length w' + remaining number items' \<le> length w + remaining number items"
  using assms
proof (induction ops iless number timeout alive now items w arbitrary: items' rm w' e rule: resend_items.induct)
  case (2 ops iless number timeout alive now i d items w)
  show ?case
  proof (cases "md_resendCounter d < number \<and> md_lastSentTimePoint d + 1000000000 * timeout < now \<and> alive (md_connection d)")
    case True
    show ?thesis
    proof (cases "bindr (serialize_ws_message ops iless (md_message d)) (write_json ops)")
      case (Inl e')
      with "2"(5) True show ?thesis by (simp del: bindr_eq_Inl bindr_eq_Inr)
    next
      case (Inr js)
      obtain items1 rm1 w1 e1 where
        r: "resend_items ops iless number timeout alive now items (w @ [(md_connection d, js)]) = (items1, rm1, w1, e1)"
        by (metis prod_cases4)
      from "2"(1) True Inr r have "length w1 + remaining number items1 \<le> length w + 1 + remaining number items" by fastforce
      with "2"(5) True Inr r show ?thesis by (auto simp del: bindr_eq_Inl bindr_eq_Inr)
    qed
  next
    case False
    obtain items1 rm1 w1 e1 where r: "resend_items ops iless number timeout alive now items w = (items1, rm1, w1, e1)"
      by (metis prod_cases4)
    with "2"(2-4) False have "length w1 + remaining number items1 \<le> length w + remaining number items" by auto
    with "2"(5) False r show ?thesis by (auto split: if_splits)
  qed
qed simp

lemma fold_remove:
  "wire (fold removeFromResendStore rm p) = wire p \<and> resendNumber (fold removeFromResendStore rm p) = resendNumber p \<and>
   resendTimeout (fold removeFromResendStore rm p) = resendTimeout p \<and>
   resendStore (fold removeFromResendStore rm p) = filter (\<lambda>e. fst e \<notin> set rm) (resendStore p)"
  by (induction rm arbitrary: p) (simp_all add: removeFromResendStore_def conj_commute)

text \<open>What a pass does not change, and the budget of retransmissions.\<close>

lemma resend_pass_budget:
  assumes "resend_pass ops iless alive now p = (p', r)"
  shows "resendNumber p' = resendNumber p \<and> resendTimeout p' = resendTimeout p \<and>
    length (wire p') + remaining (resendNumber p) (resendStore p') \<le>
      length (wire p) + remaining (resendNumber p) (resendStore p)"
proof -
  obtain items rm w e where r: "resend_items ops iless (resendNumber p) (resendTimeout p) alive now (resendStore p) (wire p) =
    (items, rm, w, e)" by (metis prod_cases4)
  from resend_items_budget [OF r] r assms remaining_filter [of "resendNumber p" "\<lambda>e. fst e \<notin> set rm" items] show ?thesis
    by (auto simp: resend_pass_def Let_def fold_remove split: option.splits)
qed

lemma resend_passes_budget:
  assumes "resend_passes ops iless ts p = (p', r)"
  shows "resendNumber p' = resendNumber p \<and>
    length (wire p') + remaining (resendNumber p) (resendStore p') \<le>
      length (wire p) + remaining (resendNumber p) (resendStore p)"
  using assms
proof (induction ts arbitrary: p)
  case (Cons t ts)
  obtain alive now where t: "t = (alive, now)" by (cases t)
  obtain p1 r1 where p1: "resend_pass ops iless alive now p = (p1, r1)" by fastforce
  show ?case
  proof (cases r1)
    case None
    with Cons.prems t p1 have "resend_passes ops iless ts p1 = (p', r)" by simp
    from Cons.IH [OF this] resend_pass_budget [OF p1] show ?thesis by simp
  next
    case (Some e)
    with Cons.prems t p1 have "p' = p1" by simp
    with resend_pass_budget [OF p1] show ?thesis by simp
  qed
qed simp

section \<open>Draining the store\<close>

text \<open>Every stored message can be written, and was last sent at or before \<open>t\<close>, at least \<open>j\<close> passes in.\<close>

definition writable :: "('t, 'w) ptree_ops \<Rightarrow> (char \<Rightarrow> char \<Rightarrow> bool) \<Rightarrow> ws_message \<Rightarrow> bool" where
  "writable ops iless m \<longleftrightarrow> (\<exists>js. bindr (serialize_ws_message ops iless m) (write_json ops) = Inr js)"

definition aged ::
  "('t, 'w) ptree_ops \<Rightarrow> (char \<Rightarrow> char \<Rightarrow> bool) \<Rightarrow> nat \<Rightarrow> time_point
    \<Rightarrow> (ws_message_identifier \<times> message_data) list \<Rightarrow> bool" where
  "aged ops iless j t items \<longleftrightarrow> (\<forall>e \<in> set items. writable ops iless (md_message (snd e)) \<and>
     j \<le> md_resendCounter (snd e) \<and> md_lastSentTimePoint (snd e) \<le> t)"

lemma resend_items_aged:
  assumes "aged ops iless j t items" and "t + 1000000000 * timeout < now"
  shows "\<exists>items' rm w'. resend_items ops iless number timeout alive now items w = (items', rm, w', None) \<and>
    map fst items' = map fst items \<and>
    (\<forall>e \<in> set items'. fst e \<notin> set rm \<longrightarrow> writable ops iless (md_message (snd e)) \<and>
       Suc j \<le> md_resendCounter (snd e) \<and> md_resendCounter (snd e) \<le> number \<and> md_lastSentTimePoint (snd e) \<le> now)"
  using assms
proof (induction ops iless number timeout alive now items w rule: resend_items.induct)
  case (2 ops iless number timeout alive now i d items w)
  then have d: "writable ops iless (md_message d)" "j \<le> md_resendCounter d" "md_lastSentTimePoint d + 1000000000 * timeout < now"
    and items: "aged ops iless j t items" by (auto simp: aged_def)
  from d(1) obtain js where js: "bindr (serialize_ws_message ops iless (md_message d)) (write_json ops) = Inr js"
    unfolding writable_def by blast
  show ?case
  proof (cases "md_resendCounter d < number \<and> alive (md_connection d)")
    case True
    with "2"(1) js items "2"(6) d(3) obtain items' rm w' where
      "resend_items ops iless number timeout alive now items (w @ [(md_connection d, js)]) = (items', rm, w', None)"
      "map fst items' = map fst items"
      "\<forall>e \<in> set items'. fst e \<notin> set rm \<longrightarrow> writable ops iless (md_message (snd e)) \<and>
         Suc j \<le> md_resendCounter (snd e) \<and> md_resendCounter (snd e) \<le> number \<and> md_lastSentTimePoint (snd e) \<le> now"
      by blast
    with True js d show ?thesis by (simp del: bindr_eq_Inl bindr_eq_Inr)
  next
    case False
    with "2"(2,4) items "2"(6) d(3) obtain items' rm w' where
      "resend_items ops iless number timeout alive now items w = (items', rm, w', None)"
      "map fst items' = map fst items"
      "\<forall>e \<in> set items'. fst e \<notin> set rm \<longrightarrow> writable ops iless (md_message (snd e)) \<and>
         Suc j \<le> md_resendCounter (snd e) \<and> md_resendCounter (snd e) \<le> number \<and> md_lastSentTimePoint (snd e) \<le> now"
      by blast
    with False d show ?thesis by auto
  qed
qed simp

lemma resend_pass_aged:
  assumes "aged ops iless j t (resendStore p)" and "t + 1000000000 * resendTimeout p < now"
  shows "\<exists>p'. resend_pass ops iless alive now p = (p', None) \<and> aged ops iless (Suc j) now (resendStore p') \<and>
    resendNumber p' = resendNumber p \<and> resendTimeout p' = resendTimeout p \<and>
    (resendNumber p \<le> j \<longrightarrow> resendStore p' = [])"
proof -
  from resend_items_aged [OF assms, of "resendNumber p" alive "wire p"] obtain items rm w where
    r: "resend_items ops iless (resendNumber p) (resendTimeout p) alive now (resendStore p) (wire p) = (items, rm, w, None)"
    and e: "\<forall>e \<in> set items. fst e \<notin> set rm \<longrightarrow> writable ops iless (md_message (snd e)) \<and>
       Suc j \<le> md_resendCounter (snd e) \<and> md_resendCounter (snd e) \<le> resendNumber p \<and> md_lastSentTimePoint (snd e) \<le> now"
    by blast
  let ?p = "fold removeFromResendStore rm (p\<lparr>resendStore := items, wire := w\<rparr>)"
  have "resend_pass ops iless alive now p = (?p, None)" by (simp add: resend_pass_def r)
  moreover have "aged ops iless (Suc j) now (resendStore ?p)" using e by (auto simp: aged_def fold_remove)
  moreover have "resendNumber p \<le> j \<longrightarrow> resendStore ?p = []"
    using e by (auto simp: fold_remove filter_empty_conv)
  ultimately show ?thesis by (simp add: fold_remove)
qed

text \<open>Times more than the timeout apart.\<close>

fun spaced :: "int \<Rightarrow> time_point \<Rightarrow> time_point list \<Rightarrow> bool" where
  "spaced timeout t [] = True"
| "spaced timeout t (now # ts) = (t + 1000000000 * timeout < now \<and> spaced timeout now ts)"

lemma resend_passes_drain:
  assumes "aged ops iless j t (resendStore p)" and "spaced (resendTimeout p) t (map snd ts)"
    and "resendNumber p < j + length ts" and "ts \<noteq> []"
  shows "\<exists>p'. resend_passes ops iless ts p = (p', None) \<and> resendStore p' = []"
  using assms
proof (induction ts arbitrary: p j t)
  case (Cons a ts)
  obtain alive now where a: "a = (alive, now)" by (cases a)
  from resend_pass_aged [OF Cons.prems(1), of now alive] Cons.prems(2) a obtain p1 where
    p1: "resend_pass ops iless alive now p = (p1, None)" "aged ops iless (Suc j) now (resendStore p1)"
      "resendNumber p1 = resendNumber p" "resendTimeout p1 = resendTimeout p"
      "resendNumber p \<le> j \<longrightarrow> resendStore p1 = []" by auto
  show ?case
  proof (cases "ts = []")
    case True
    with Cons.prems(3) p1 a show ?thesis by simp
  next
    case False
    from Cons.IH [OF p1(2) _ _ False] Cons.prems(2,3) p1 a show ?thesis by auto
  qed
qed simp

section \<open>Single operations\<close>

definition fresh_id :: "'w protocol \<Rightarrow> ws_message_identifier" where
  "fresh_id p = ucast (outCounter p mod 0xFFFFFFFFFFFFFFFF)"

definition stored :: "ws_message \<Rightarrow> connection_id \<Rightarrow> time_point \<Rightarrow> message_data" where
  "stored m c now = \<lparr>md_message = m, md_resendCounter = 0, md_connection = c, md_lastSentTimePoint = now\<rparr>"

lemma sendMessageInternal_eq:
  "sendMessageInternal ops iless c m p =
    bindr (ws_text ops iless m) (\<lambda>js. Inr (p\<lparr>wire := wire p @ [(c, js)]\<rparr>))"
  by (simp add: sendMessageInternal_def ws_text_def bindr_assoc)

lemma sendMessage_eq:
  "sendMessage ops iless now m c p =
    (case ws_text ops iless (WsData (fresh_id p) m) of
       Inl e \<Rightarrow> (p\<lparr>outCounter := outCounter p + 1\<rparr>, Some e)
     | Inr js \<Rightarrow> (addToResendStore (stored (WsData (fresh_id p) m) c now)
         (p\<lparr>outCounter := outCounter p + 1, wire := wire p @ [(c, js)]\<rparr>), None))"
  by (simp add: sendMessage_def transmit_def getNextOutCounter_def sendMessageInternal_eq fresh_id_def stored_def
      split: sum.split)

lemma parseMessage_ack:
  "ws_of_text ops iless js = Inr (WsAck i) \<Longrightarrow> parseMessage ops iless js c p = (removeFromResendStore i p, Inr None)"
  by (simp add: parseMessage_def ws_of_text_def del: bindr_eq_Inr bindr_eq_Inl)

lemma parseMessage_data:
  "ws_of_text ops iless js = Inr (WsData i m) \<Longrightarrow> parseMessage ops iless js c p =
    (case ws_text ops iless (WsAck i) of
       Inl e \<Rightarrow> (p, Inl e) | Inr ack \<Rightarrow> (p\<lparr>wire := wire p @ [(c, ack)]\<rparr>, Inr (Some m)))"
  by (simp add: parseMessage_def ws_of_text_def sendMessageInternal_eq split: sum.split del: bindr_eq_Inr bindr_eq_Inl)

lemma addToResendStore_fresh:
  "ws_getId (md_message d) \<notin> fst ` set (resendStore p) \<Longrightarrow>
    addToResendStore d p = p\<lparr>resendStore := resendStore p @ [(ws_getId (md_message d), d)]\<rparr>"
  by (simp add: addToResendStore_def)

lemma filter_absent: "i \<notin> fst ` set items \<Longrightarrow> filter (\<lambda>e. fst e \<noteq> i) items = items"
  by (induction items) auto

lemma remove_fresh: "i \<notin> fst ` set items \<Longrightarrow> filter (\<lambda>e. fst e \<noteq> i) (items @ [(i, d)]) = items"
  by (simp add: filter_absent)

section \<open>Properties\<close>

text \<open>The two ends agree. A message sent by one side is read by the other as the same message and
  answered with an acknowledgement; reading that acknowledgement, the sender forgets the message and
  nothing else, and hands nothing to its application.\<close>

theorem acknowledged_delivery:
  assumes "wire_laws ops iless" and "ws_ordinary (WsData (fresh_id p) m)"
    and "fresh_id p \<notin> fst ` set (resendStore p)"
  shows "\<exists>js ack p1. sendMessage ops iless now m c p = (p1, None) \<and> wire p1 = wire p @ [(c, js)] \<and>
    (\<forall>q d. parseMessage ops iless js d q = (q\<lparr>wire := wire q @ [(d, ack)]\<rparr>, Inr (Some m))) \<and>
    parseMessage ops iless ack c p1 = (p1\<lparr>resendStore := resendStore p\<rparr>, Inr None)"
proof -
  obtain js where js: "ws_text ops iless (WsData (fresh_id p) m) = Inr js" "ws_of_text ops iless js = Inr (WsData (fresh_id p) m)"
    using ws_text_roundtrip [OF assms(1,2)] by blast
  obtain ack where ack: "ws_text ops iless (WsAck (fresh_id p)) = Inr ack" "ws_of_text ops iless ack = Inr (WsAck (fresh_id p))"
    using ws_text_roundtrip [OF assms(1), of "WsAck (fresh_id p)"] by auto
  let ?p = "p\<lparr>outCounter := outCounter p + 1, wire := wire p @ [(c, js)]\<rparr>"
  let ?p1 = "?p\<lparr>resendStore := resendStore p @ [(fresh_id p, stored (WsData (fresh_id p) m) c now)]\<rparr>"
  have "sendMessage ops iless now m c p = (?p1, None)"
    using js(1) assms(3) by (simp add: sendMessage_eq addToResendStore_fresh stored_def)
  moreover have "parseMessage ops iless ack c ?p1 = (?p1\<lparr>resendStore := resendStore p\<rparr>, Inr None)"
    using parseMessage_ack [OF ack(2), of c ?p1] remove_fresh [OF assms(3)] by (simp add: removeFromResendStore_def)
  moreover have "parseMessage ops iless js d q = (q\<lparr>wire := wire q @ [(d, ack)]\<rparr>, Inr (Some m))" for q :: "'b protocol" and d
    using parseMessage_data [OF js(2)] ack(1) by simp
  ultimately show ?thesis by (intro exI [of _ js] exI [of _ ack] exI [of _ ?p1]) simp
qed

theorem acknowledged_delivery_witness:
  "\<exists>js ack p1. sendMessage plain_ops reference_iless 100 example_deal 1 (new_protocol 3 3) = (p1, None) \<and>
    wire p1 = [(1, js)] \<and>
    parseMessage plain_ops reference_iless js 2 (new_protocol 3 3) = ((new_protocol 3 3)\<lparr>wire := [(2, ack)]\<rparr>, Inr (Some example_deal)) \<and>
    parseMessage plain_ops reference_iless ack 1 p1 = (p1\<lparr>resendStore := []\<rparr>, Inr None)"
proof -
  have "ws_ordinary (WsData (fresh_id (new_protocol 3 3 :: plain_tree protocol)) example_deal)"
    using example_deal_ok by (simp del: well_typed.simps)
  moreover have "fresh_id (new_protocol 3 3 :: plain_tree protocol) \<notin> fst ` set (resendStore (new_protocol 3 3 :: plain_tree protocol))"
    by (simp add: new_protocol_def)
  moreover have "resendStore (new_protocol 3 3 :: plain_tree protocol) = []" "wire (new_protocol 3 3 :: plain_tree protocol) = []"
    by (simp_all add: new_protocol_def)
  ultimately show ?thesis
    using acknowledged_delivery [OF plain_wire_laws, of "new_protocol 3 3" example_deal 100 1] by fastforce
qed

text \<open>C26. Retransmissions are bounded: from sending a message on, however many passes the resend thread
  makes, at whatever times and with whatever connections alive, the number of texts written never
  exceeds the transmission itself, the message's own resend number, and what the messages stored
  before were still allowed.\<close>

theorem transmissions_bounded:
  assumes "sendMessage ops iless now m c p = (p1, r1)" and "resend_passes ops iless ts p1 = (p2, r2)"
  shows "length (wire p2) \<le> length (wire p) + 1 + resendNumber p + remaining (resendNumber p) (resendStore p)"
proof -
  have "resendNumber p1 = resendNumber p \<and> length (wire p1) + remaining (resendNumber p) (resendStore p1) \<le>
      length (wire p) + 1 + resendNumber p + remaining (resendNumber p) (resendStore p)"
    using assms(1) by (auto simp: sendMessage_eq addToResendStore_def Let_def stored_def split: sum.splits if_splits)
  with resend_passes_budget [OF assms(2)] show ?thesis by simp
qed

theorem transmissions_bounded_witness:
  "\<exists>p1 r1 p2 r2. sendMessage plain_ops reference_iless 100 example_deal 1 (new_protocol 3 3) = (p1, r1) \<and>
    resend_passes plain_ops reference_iless [(\<lambda>c. True, 10 ^ 12), (\<lambda>c. True, 10 ^ 13)] p1 = (p2, r2) \<and> length (wire p2) \<le> 4"
proof -
  obtain p1 r1 where p1: "sendMessage plain_ops reference_iless 100 example_deal 1 (new_protocol 3 3) = (p1, r1)" by fastforce
  obtain p2 r2 where "resend_passes plain_ops reference_iless [(\<lambda>c. True, 10 ^ 12), (\<lambda>c. True, 10 ^ 13)] p1 = (p2, r2)" by fastforce
  with transmissions_bounded [OF p1 this] p1 show ?thesis by (simp add: new_protocol_def)
qed

text \<open>C9. The store drains: when its messages carry finite amounts and plain texts, no acknowledgement ever comes and nothing new is sent, as many passes as
  the resend number and one more, each more than the timeout after the one before, leave no message
  in the store, and none of them fails.\<close>

theorem resend_store_drains:
  assumes "wire_laws ops iless"
    and "\<forall>e \<in> set (resendStore p). ws_ordinary (md_message (snd e)) \<and> md_lastSentTimePoint (snd e) \<le> t"
    and "spaced (resendTimeout p) t (map snd ts)" and "resendNumber p < length ts"
  shows "\<exists>p'. resend_passes ops iless ts p = (p', None) \<and> resendStore p' = []"
proof -
  have "writable ops iless m" if "ws_ordinary m" for m
    using ws_text_roundtrip [OF assms(1) that] by (auto simp: writable_def ws_text_def)
  with assms(2) have "aged ops iless 0 t (resendStore p)" by (auto simp: aged_def)
  from resend_passes_drain [OF this assms(3)] assms(4) show ?thesis by (cases ts) auto
qed

theorem resend_store_drains_witness:
  "\<exists>p'. resend_passes plain_ops reference_iless
      [(\<lambda>c. True, 4000000000), (\<lambda>c. True, 8000000000), (\<lambda>c. False, 12000000000), (\<lambda>c. True, 16000000000)]
      ((new_protocol 3 3)\<lparr>resendStore := [(0, stored (WsAck 0) 1 0), (1, stored (WsError 1 ''x'' 2) 2 0)]\<rparr>) = (p', None) \<and>
    resendStore p' = []"
  by (rule resend_store_drains [OF plain_wire_laws, where t = 0])
    (simp_all add: stored_def plain_text_def new_protocol_def)

text \<open>Two ways an acknowledgement scheme on 16-bit identifiers gives up a message. A new message whose
  identifier is still in the store is transmitted but not stored, so it is never sent again; and an
  acknowledgement that arrives between the transmission and the storing removes nothing, so the
  message that was acknowledged is stored and will be sent again.\<close>

theorem acknowledgement_races:
  assumes "wire_laws ops iless" and "ws_ordinary (WsData (fresh_id p) m)"
  shows "(fresh_id p \<in> fst ` set (resendStore p) \<longrightarrow>
      (\<exists>js. sendMessage ops iless now m c p = (p\<lparr>outCounter := outCounter p + 1, wire := wire p @ [(c, js)]\<rparr>, None))) \<and>
    (fresh_id p \<notin> fst ` set (resendStore p) \<longrightarrow>
      (\<exists>p1 ack. transmit ops iless m c p = (WsData (fresh_id p) m, p1, None) \<and>
         ws_text ops iless (WsAck (fresh_id p)) = Inr ack \<and> parseMessage ops iless ack c p1 = (p1, Inr None) \<and>
         (fresh_id p, stored (WsData (fresh_id p) m) c now)
           \<in> set (resendStore (addToResendStore (stored (WsData (fresh_id p) m) c now) p1))))"
proof -
  obtain js where js: "ws_text ops iless (WsData (fresh_id p) m) = Inr js"
    using ws_text_roundtrip [OF assms] by blast
  obtain ack where ack: "ws_text ops iless (WsAck (fresh_id p)) = Inr ack" "ws_of_text ops iless ack = Inr (WsAck (fresh_id p))"
    using ws_text_roundtrip [OF assms(1), of "WsAck (fresh_id p)"] by auto
  let ?p1 = "p\<lparr>outCounter := outCounter p + 1, wire := wire p @ [(c, js)]\<rparr>"
  have transmit: "transmit ops iless m c p = (WsData (fresh_id p) m, ?p1, None)"
    using js by (simp add: transmit_def getNextOutCounter_def sendMessageInternal_eq fresh_id_def)
  have "removeFromResendStore (fresh_id p) ?p1 = ?p1" if "fresh_id p \<notin> fst ` set (resendStore p)"
    using filter_absent [OF that] by (simp add: removeFromResendStore_def)
  then show ?thesis
    using js ack transmit parseMessage_ack [OF ack(2), of c ?p1]
    by (auto simp: sendMessage_eq addToResendStore_def stored_def Let_def)
qed

theorem acknowledgement_races_witness:
  "\<exists>p1 ack. transmit plain_ops reference_iless example_deal 1 (new_protocol 3 3) =
      (WsData (fresh_id (new_protocol 3 3 :: plain_tree protocol)) example_deal, p1, None) \<and>
    parseMessage plain_ops reference_iless ack 1 p1 = (p1, Inr None)"
proof -
  have "ws_ordinary (WsData (fresh_id (new_protocol 3 3 :: plain_tree protocol)) example_deal)"
    using example_deal_ok by (simp del: well_typed.simps)
  moreover have "fresh_id (new_protocol 3 3 :: plain_tree protocol) \<notin> fst ` set (resendStore (new_protocol 3 3 :: plain_tree protocol))"
    by (simp add: new_protocol_def)
  ultimately show ?thesis
    using acknowledgement_races [OF plain_wire_laws, of "new_protocol 3 3" example_deal 100 1] by blast
qed

end
