(* ===== verification/Ws_Transport.thy ===== *)
theory Ws_Transport
  imports Ws_Protocol Transport_Interface
begin

text \<open>
  \<^verbatim>\<open>webapi/transport/WsTransportServer.{hpp,cpp}\<close> and \<^verbatim>\<open>WsTransportClient.{hpp,cpp}\<close>: the two ends of the
  WebSocket transport above \<^verbatim>\<open>WsProtocol\<close>. The server keeps the connection of every user who announced
  one; \<open>live\<close> is the set of connections that still have an owner, for the \<^verbatim>\<open>weak_ptr\<close>s to them.
\<close>

section \<open>The server\<close>

record 'w ws_server =
  protocol :: "'w protocol"
  userToConnection :: "user_identifier \<rightharpoonup> connection_id"
  connectionToUser :: "connection_id \<rightharpoonup> user_identifier"
  live :: "connection_id set"
  stopped :: bool

definition new_ws_server :: "'w ws_server" where
  "new_ws_server = \<lparr>protocol = new_protocol 3 3, userToConnection = Map.empty, connectionToUser = Map.empty,
     live = {}, stopped = False\<rparr>"

text \<open>The map updates of \<^verbatim>\<open>on_message\<close>, by message type.\<close>

definition track_connection :: "connection_id \<Rightarrow> base_message \<Rightarrow> 'w ws_server \<Rightarrow> 'w ws_server result" where
  "track_connection connection message s =
     (if msg_type message = UserConnected then
        bindr (as_user_id_information message) (\<lambda>d.
          Inr (s\<lparr>userToConnection := (userToConnection s)(uid_id d \<mapsto> connection),
                 connectionToUser := (connectionToUser s)(connection \<mapsto> uid_id d)\<rparr>))
      else if msg_type message = UserDisconnected then
        bindr (as_user_id_information message) (\<lambda>d.
          Inr (s\<lparr>userToConnection := (userToConnection s)(uid_id d := None),
                 connectionToUser := (connectionToUser s)(connection := None)\<rparr>))
      else Inr s)"

text \<open>\<^verbatim>\<open>on_message\<close> up to the call of the message handler, which gets the message returned. Standard
  exceptions are logged and dropped.\<close>

definition on_message ::
  "('t, 'w) ptree_ops \<Rightarrow> (char \<Rightarrow> char \<Rightarrow> bool) \<Rightarrow> connection_id \<Rightarrow> 'w \<Rightarrow> 'w ws_server
    \<Rightarrow> 'w ws_server \<times> base_message option result" where
  "on_message ops iless connection rawMessage s =
     (let (p, parsed) = parseMessage ops iless rawMessage connection (protocol s);
          s = s\<lparr>protocol := p\<rparr>
      in case parsed of
           Inl e \<Rightarrow> (s, if is_std_exception e then Inr None else Inl e)
         | Inr None \<Rightarrow> (s, Inr None)
         | Inr (Some message) \<Rightarrow>
             (case track_connection connection message s of
                Inl e \<Rightarrow> (s, if is_std_exception e then Inr None else Inl e)
              | Inr s' \<Rightarrow> (s', Inr (Some message))))"

definition on_open :: "connection_id \<Rightarrow> 'w ws_server \<Rightarrow> 'w ws_server" where
  "on_open connection s = s\<lparr>live := insert connection (live s)\<rparr>"

definition on_close :: "connection_id \<Rightarrow> 'w ws_server \<Rightarrow> 'w ws_server" where
  "on_close connection s =
     (case connectionToUser s connection of
        None \<Rightarrow> s
      | Some userId \<Rightarrow> s\<lparr>userToConnection := (userToConnection s)(userId := None),
                         connectionToUser := (connectionToUser s)(connection := None)\<rparr>)"

text \<open>An error on any connection stops the server.\<close>

definition on_error :: "connection_id \<Rightarrow> 'w ws_server \<Rightarrow> 'w ws_server" where
  "on_error connection s = s\<lparr>stopped := True\<rparr>"

text \<open>The last owner of a connection lets go of it.\<close>

definition release :: "connection_id \<Rightarrow> 'w ws_server \<Rightarrow> 'w ws_server" where
  "release connection s = s\<lparr>live := live s - {connection}\<rparr>"

definition ws_sendToUser ::
  "('t, 'w) ptree_ops \<Rightarrow> (char \<Rightarrow> char \<Rightarrow> bool) \<Rightarrow> time_point \<Rightarrow> user_identifier \<Rightarrow> base_message
    \<Rightarrow> 'w ws_server \<Rightarrow> 'w ws_server outcome" where
  "ws_sendToUser ops iless now userId message s =
     (case userToConnection s userId of
        None \<Rightarrow> (s, None)
      | Some connection \<Rightarrow>
          if connection \<in> live s
          then (let (p, e) = sendMessage ops iless now message connection (protocol s) in (s\<lparr>protocol := p\<rparr>, e))
          else (s, None))"

section \<open>The client\<close>

record 'w ws_client =
  cl_protocol :: "'w protocol"
  cl_connection :: "connection_id option"
  cl_connected :: bool
  cl_stop_requested :: bool

definition new_ws_client :: "'w ws_client" where
  "new_ws_client = \<lparr>cl_protocol = new_protocol 3 3, cl_connection = None, cl_connected = False, cl_stop_requested = False\<rparr>"

definition client_on_open :: "connection_id \<Rightarrow> 'w ws_client \<Rightarrow> 'w ws_client" where
  "client_on_open connection c = c\<lparr>cl_connection := Some connection, cl_connected := True\<rparr>"

text \<open>\<^verbatim>\<open>on_close\<close>, \<^verbatim>\<open>on_error\<close> and \<^verbatim>\<open>disconnect\<close> ask the thread to stop; the connection is kept.\<close>

definition client_stop :: "'w ws_client \<Rightarrow> 'w ws_client" where
  "client_stop c = c\<lparr>cl_stop_requested := True\<rparr>"

definition client_on_message ::
  "('t, 'w) ptree_ops \<Rightarrow> (char \<Rightarrow> char \<Rightarrow> bool) \<Rightarrow> connection_id \<Rightarrow> 'w \<Rightarrow> 'w ws_client
    \<Rightarrow> 'w ws_client \<times> base_message option result" where
  "client_on_message ops iless connection rawMessage c =
     (let (p, parsed) = parseMessage ops iless rawMessage connection (cl_protocol c)
      in (c\<lparr>cl_protocol := p\<rparr>, parsed))"

definition ws_client_sendMessage ::
  "('t, 'w) ptree_ops \<Rightarrow> (char \<Rightarrow> char \<Rightarrow> bool) \<Rightarrow> time_point \<Rightarrow> base_message \<Rightarrow> 'w ws_client \<Rightarrow> 'w ws_client outcome" where
  "ws_client_sendMessage ops iless now message c =
     (case cl_connection c of
        None \<Rightarrow> (c, None)
      | Some conn \<Rightarrow>
          (let (p, e) = sendMessage ops iless now message conn (cl_protocol c) in (c\<lparr>cl_protocol := p\<rparr>, e)))"

text \<open>What \<^verbatim>\<open>waitForConnection\<close> returns, and whether its wait ends before the timeout.\<close>

definition waitForConnection :: "'w ws_client \<Rightarrow> bool \<times> bool" where
  "waitForConnection c = (cl_connected c, cl_connected c \<or> cl_stop_requested c)"

lemmas ws_transport_defs [component_defs] =
  new_ws_server_def track_connection_def on_message_def on_open_def on_close_def on_error_def release_def
  ws_sendToUser_def new_ws_client_def client_on_open_def client_stop_def client_on_message_def
  ws_client_sendMessage_def waitForConnection_def

section \<open>The contract\<close>

definition ws_route :: "'w ws_server \<Rightarrow> user_identifier \<Rightarrow> connection_id option" where
  "ws_route s k = (case userToConnection s k of None \<Rightarrow> None | Some c \<Rightarrow> if c \<in> live s then Some c else None)"

definition data_of_text :: "('t, 'w) ptree_ops \<Rightarrow> (char \<Rightarrow> char \<Rightarrow> bool) \<Rightarrow> 'w \<Rightarrow> base_message list" where
  "data_of_text ops iless w = (case ws_of_text ops iless w of Inr (WsData i m) \<Rightarrow> [m] | _ \<Rightarrow> [])"

definition ws_received ::
  "('t, 'w) ptree_ops \<Rightarrow> (char \<Rightarrow> char \<Rightarrow> bool) \<Rightarrow> 'w ws_server \<Rightarrow> connection_id \<Rightarrow> base_message list" where
  "ws_received ops iless s c =
     concat (map (\<lambda>p. data_of_text ops iless (snd p)) (filter (\<lambda>p. fst p = c) (wire (protocol s))))"

definition ws_sendable :: "base_message \<Rightarrow> bool" where
  "ws_sendable m \<longleftrightarrow> well_typed m \<and> payload_finite (msg_data m) \<and> payload_plain (msg_data m)"

lemma ws_sendable_ordinary: "ws_sendable m \<Longrightarrow> ws_ordinary (WsData i m)"
  unfolding ws_sendable_def by simp

lemma ws_is_transport_server:
  assumes "wire_laws ops iless"
  shows "transport_server (ws_sendToUser ops iless now) ws_route (ws_received ops iless) ws_sendable (\<lambda>s. True)"
proof
  show "ws_sendToUser ops iless now k m s = (s, None)" if "ws_route s k = None" for s :: "'b ws_server" and k m
    using that by (simp add: ws_sendToUser_def ws_route_def split: option.splits if_splits)
  show "\<exists>s'. ws_sendToUser ops iless now k m s = (s', None) \<and> True \<and> ws_route s' = ws_route s \<and>
      ws_received ops iless s' = (ws_received ops iless s)(c := ws_received ops iless s c @ [m])"
    if "ws_route s k = Some c" "ws_sendable m" for s :: "'b ws_server" and k m c
  proof -
    note m = ws_sendable_ordinary [OF that(2)]
    from that(1) have c: "userToConnection s k = Some c" "c \<in> live s" by (simp_all add: ws_route_def split: option.splits if_splits)
    obtain js where js: "ws_text ops iless (WsData (fresh_id (protocol s)) m) = Inr js"
      "ws_of_text ops iless js = Inr (WsData (fresh_id (protocol s)) m)"
      using ws_text_roundtrip [OF assms m] by blast
    obtain p where p: "sendMessage ops iless now m c (protocol s) = (p, None)" "wire p = wire (protocol s) @ [(c, js)]"
      using js(1) by (auto simp: sendMessage_eq addToResendStore_def Let_def)
    have "ws_route (s\<lparr>protocol := p\<rparr>) = ws_route s" by (simp add: ws_route_def fun_eq_iff split: option.split)
    moreover have "ws_received ops iless (s\<lparr>protocol := p\<rparr>) =
        (ws_received ops iless s)(c := ws_received ops iless s c @ [m])"
      using js(2) p(2) by (simp add: ws_received_def fun_eq_iff data_of_text_def)
    ultimately show ?thesis using c p(1) by (simp add: ws_sendToUser_def)
  qed
qed

text \<open>The contract on the concrete property tree.\<close>

interpretation plain_ws: transport_server "ws_sendToUser plain_ops reference_iless now" ws_route
  "ws_received plain_ops reference_iless" ws_sendable "\<lambda>s. True" for now
  by (rule ws_is_transport_server [OF plain_wire_laws])

section \<open>Properties\<close>

text \<open>A sequence of messages pushed over WebSockets reaches, for every connection, exactly the messages
  addressed to users whose announced and still living connection it is: read back from the texts
  written they are the messages sent, in order, and the routes stay as they were.\<close>

theorem ws_pushes_arrive:
  assumes "wire_laws ops iless" and "\<forall>p \<in> set ms. ws_sendable (snd p)"
  shows "\<exists>s'. fold_outcome (\<lambda>p. ws_sendToUser ops iless now (fst p) (snd p)) ms s = (s', None) \<and>
    ws_route s' = ws_route s \<and>
    (\<forall>c. ws_received ops iless s' c = ws_received ops iless s c @ map snd (filter (\<lambda>p. ws_route s (fst p) = Some c) ms))"
  using transport_server.send_all [OF ws_is_transport_server [OF assms(1)], where t = s and ms = ms] assms(2)
  by (simp add: transport_server.pushed_def [OF ws_is_transport_server [OF assms(1)]])

theorem ws_pushes_arrive_witness:
  "\<exists>s'. fold_outcome (\<lambda>p. ws_sendToUser plain_ops reference_iless 0 (fst p) (snd p)) [(7, example_deal), (8, example_deal), (9, example_deal)]
      (new_ws_server\<lparr>userToConnection := [7 \<mapsto> 1, 8 \<mapsto> 2], live := {1}\<rparr>) = (s', None) \<and>
    ws_received plain_ops reference_iless s' 1 = [example_deal] \<and> ws_received plain_ops reference_iless s' 2 = []"
proof -
  let ?s = "new_ws_server\<lparr>userToConnection := [7 \<mapsto> 1, 8 \<mapsto> 2], live := {1}\<rparr> :: plain_tree ws_server"
  have "\<forall>p \<in> set [(7 :: user_identifier, example_deal), (8, example_deal), (9, example_deal)]. ws_sendable (snd p)"
    using example_deal_ok by (simp add: ws_sendable_def del: well_typed.simps)
  from ws_pushes_arrive [OF plain_wire_laws this, of 0 ?s] obtain s' where
    s': "fold_outcome (\<lambda>p. ws_sendToUser plain_ops reference_iless 0 (fst p) (snd p)) [(7, example_deal), (8, example_deal), (9, example_deal)] ?s = (s', None)"
      "\<forall>c. ws_received plain_ops reference_iless s' c = ws_received plain_ops reference_iless ?s c @
        map snd (filter (\<lambda>p. ws_route ?s (fst p) = Some c) [(7, example_deal), (8, example_deal), (9, example_deal)])"
    by blast
  have "ws_received plain_ops reference_iless ?s c = []" for c
    by (simp add: ws_received_def new_ws_server_def new_protocol_def)
  with s'(2) have "ws_received plain_ops reference_iless s' 1 = [example_deal]" "ws_received plain_ops reference_iless s' 2 = []"
    by (simp_all add: ws_route_def new_ws_server_def)
  with s'(1) show ?thesis by blast
qed

text \<open>A connection that announces a user is found again when a message is pushed to that user: after a
  data text with \<^verbatim>\<open>UserConnected\<close> is read from a living connection, the message goes to the handler, an
  acknowledgement goes back, and the user is routed to the connection it came from, wherever the user
  was routed before.\<close>

theorem announced_user_is_routed:
  assumes "wire_laws ops iless" and "ws_of_text ops iless js = Inr (WsData i m)"
    and "m = \<lparr>msg_type = UserConnected, msg_data = PUserIdInformation \<lparr>uid_id = k\<rparr>\<rparr>" and "c \<in> live s"
  shows "\<exists>s' ack. on_message ops iless c js s = (s', Inr (Some m)) \<and> ws_route s' k = Some c \<and>
    ws_of_text ops iless ack = Inr (WsAck i) \<and> wire (protocol s') = wire (protocol s) @ [(c, ack)]"
proof -
  obtain ack where "ws_text ops iless (WsAck i) = Inr ack" "ws_of_text ops iless ack = Inr (WsAck i)"
    using ws_text_roundtrip [OF assms(1), of "WsAck i"] by auto
  with parseMessage_data [OF assms(2), of c "protocol s"] assms(3,4) show ?thesis
    by (auto simp: on_message_def track_connection_def ws_route_def)
qed

theorem announced_user_is_routed_witness:
  "\<exists>js s'. on_message plain_ops reference_iless 5 js (on_open 5 new_ws_server) =
      (s', Inr (Some \<lparr>msg_type = UserConnected, msg_data = PUserIdInformation \<lparr>uid_id = 7\<rparr>\<rparr>)) \<and> ws_route s' 7 = Some 5"
proof -
  let ?m = "\<lparr>msg_type = UserConnected, msg_data = PUserIdInformation \<lparr>uid_id = 7\<rparr>\<rparr>"
  obtain js where "ws_of_text plain_ops reference_iless js = Inr (WsData 0 ?m)"
    using ws_text_roundtrip [OF plain_wire_laws, of "WsData 0 ?m"] by auto
  moreover have "5 \<in> live (on_open 5 (new_ws_server :: plain_tree ws_server))" by (simp add: on_open_def)
  ultimately show ?thesis using announced_user_is_routed [OF plain_wire_laws] by blast
qed

text \<open>A late close cuts off a user who came back: when a user announces a second connection and the first
  one closes afterwards, the close removes the user's new route although the new connection lives,
  and messages pushed to the user are dropped.\<close>

theorem late_close_unroutes_user:
  assumes "connectionToUser s old = Some k" and "old \<noteq> new"
    and "track_connection new \<lparr>msg_type = UserConnected, msg_data = PUserIdInformation \<lparr>uid_id = k\<rparr>\<rparr> s = Inr s1"
  shows "userToConnection s1 k = Some new \<and> connectionToUser (on_close old s1) new = Some k \<and>
    ws_sendToUser ops iless now k m (on_close old s1) = (on_close old s1, None)"
  using assms by (auto simp: track_connection_def on_close_def ws_sendToUser_def)

theorem late_close_unroutes_user_witness:
  "\<exists>s1. track_connection 2 \<lparr>msg_type = UserConnected, msg_data = PUserIdInformation \<lparr>uid_id = 7\<rparr>\<rparr>
      ((new_ws_server :: plain_tree ws_server)\<lparr>userToConnection := [7 \<mapsto> 1], connectionToUser := [1 \<mapsto> 7], live := {1, 2}\<rparr>) = Inr s1 \<and>
    userToConnection s1 7 = Some 2 \<and>
    ws_sendToUser plain_ops reference_iless 0 7 example_deal (on_close 1 s1) = (on_close 1 s1, None)"
proof -
  let ?s = "(new_ws_server :: plain_tree ws_server)\<lparr>userToConnection := [7 \<mapsto> 1], connectionToUser := [1 \<mapsto> 7], live := {1, 2}\<rparr>"
  obtain s1 where "track_connection 2 \<lparr>msg_type = UserConnected, msg_data = PUserIdInformation \<lparr>uid_id = 7\<rparr>\<rparr> ?s = Inr s1"
    by (simp add: track_connection_def)
  with late_close_unroutes_user [where old = 1, OF _ _ this, of plain_ops reference_iless 0 example_deal] show ?thesis by auto
qed

end
