(* ===== verification/Ws_Service.thy ===== *)
theory Ws_Service
  imports Application_Service Ws_Transport
begin

text \<open>
  The service behind the WebSocket transport: a text that arrives on a connection, from \<^verbatim>\<open>on_message\<close> of
  \<^verbatim>\<open>WsTransportServer\<close> to the stores, with the pushes the handler makes on the same transport.
\<close>

section \<open>The service over WebSockets\<close>

text \<open>
  A text arriving on a connection, from the socket to the data stores: \<^verbatim>\<open>on_message\<close> of the transport
  with \<^verbatim>\<open>dispatchMessage\<close> as its handler, on a service whose transport is the WebSocket server.
\<close>

definition ws_receive ::
  "rating_provider emitter \<Rightarrow> ('t, 'w) ptree_ops \<Rightarrow> (char \<Rightarrow> char \<Rightarrow> bool) \<Rightarrow> time_point \<Rightarrow> connection_id \<Rightarrow> 'w
    \<Rightarrow> 'w ws_server service \<Rightarrow> 'w ws_server service outcome" where
  "ws_receive emit ops iless now connection rawMessage s =
     (let (t, r) = on_message ops iless connection rawMessage (transport s); s = s\<lparr>transport := t\<rparr>
      in case r of
           Inl e \<Rightarrow> (s, Some e)
         | Inr message \<Rightarrow> dispatchMessage emit iless (ws_sendToUser ops iless now) now message s)"

lemma ws_receive_data:
  assumes "wire_laws ops iless" and "ws_of_text ops iless js = Inr (WsData i m)"
    and "track_connection c m (transport s) = Inr t1"
  shows "\<exists>ack. ws_of_text ops iless ack = Inr (WsAck i) \<and>
    ws_receive emit ops iless now c js s = dispatchMessage emit iless (ws_sendToUser ops iless now) now (Some m)
      (s\<lparr>transport := t1\<lparr>protocol := (protocol (transport s))\<lparr>wire := wire (protocol (transport s)) @ [(c, ack)]\<rparr>\<rparr>\<rparr>)"
proof -
  obtain ack where ack: "ws_text ops iless (WsAck i) = Inr ack" "ws_of_text ops iless ack = Inr (WsAck i)"
    using ws_text_roundtrip [OF assms(1), of "WsAck i"] by auto
  let ?p = "(protocol (transport s))\<lparr>wire := wire (protocol (transport s)) @ [(c, ack)]\<rparr>"
  have "track_connection c m ((transport s)\<lparr>protocol := ?p\<rparr>) = Inr (t1\<lparr>protocol := ?p\<rparr>)"
    using assms(3) by (auto simp: track_connection_def split: if_splits)
  then have "on_message ops iless c js (transport s) = (t1\<lparr>protocol := ?p\<rparr>, Inr (Some m))"
    using parseMessage_data [OF assms(2), of c "protocol (transport s)"] ack(1) by (simp add: on_message_def)
  then show ?thesis using ack(2) by (auto simp: ws_receive_def)
qed

text \<open>Ratings made of finite amounts and plain names can be sent.\<close>

lemma rating_sendable:
  assumes "rating_inv (sortedDealContainer p)" and "all_registered store p"
    and "relative_rating store n k p = Inr r" and "rating_of (sortedDealContainer p) k = Some a"
    and "\<forall>j b. rating_of (sortedDealContainer p) j = Some b \<longrightarrow> f32_finite b"
    and "\<forall>j u. users store j = Some u \<longrightarrow> plain_text (ui_name u)"
  shows "ws_sendable (rating_message r)" and "up_userInformation (ur_userPosition r) = the (users store k)"
    and "up_amount (ur_userPosition r) = a"
proof -
  let ?xs = "table (sortedDealContainer p)"
  from relative_rating_content [OF assms(1,2,4), of n] assms(3) obtain i where i: "i < length ?xs"
    "?xs ! i = \<lparr>mk_id = k, mk_amount = a\<rparr>"
    and r: "r = \<lparr>ur_userPosition = reported store \<lparr>pd_position = i, pd_value = \<lparr>mk_id = k, mk_amount = a\<rparr>\<rparr>,
       ur_headPositions = map (reported store) (enumerated 0 (take n ?xs)),
       ur_highPositions = map (reported store) (enumerated (i - n) (drop (i - n) (take i ?xs))),
       ur_lowPositions = map (reported store) (enumerated (Suc i)
         (if i + n < length ?xs then take n (drop (Suc i) ?xs) else butlast (drop (Suc i) ?xs)))\<rparr>"
    by (auto simp: Let_def)
  have good: "f32_finite (mk_amount v) \<and> plain_text (ui_name (the (users store (mk_id v))))" if "v \<in> set ?xs" for v
  proof -
    from that assms(2) obtain u where "users store (mk_id v) = Some u" by (auto simp: all_registered_def)
    with deals.rating_entry [OF assms(1) that] assms(5,6) show ?thesis by auto
  qed
  have entries: "\<forall>q \<in> set (map (reported store) (enumerated m vs)).
      position_finite q \<and> plain_text (ui_name (up_userInformation q))" if "set vs \<subseteq> set ?xs" for m vs
    using that good enumerated_values [of m vs] by (force simp: reported_def position_finite_def)
  let ?own = "reported store \<lparr>pd_position = i, pd_value = \<lparr>mk_id = k, mk_amount = a\<rparr>\<rparr>"
  have own: "position_finite ?own \<and> plain_text (ui_name (up_userInformation ?own))"
    using good [OF nth_mem [OF i(1)]] i(2) by (simp add: reported_def position_finite_def)
  have sub: "set (take n ?xs) \<subseteq> set ?xs" "set (drop (i - n) (take i ?xs)) \<subseteq> set ?xs"
    "set (if i + n < length ?xs then take n (drop (Suc i) ?xs) else butlast (drop (Suc i) ?xs)) \<subseteq> set ?xs"
    by (auto dest: in_set_takeD in_set_dropD in_set_butlastD)
  show "ws_sendable (rating_message r)"
    using own entries [OF sub(1), of 0] entries [OF sub(2), of "i - n"] entries [OF sub(3), of "Suc i"]
    unfolding ws_sendable_def rating_message_def r by (simp only: well_typed.simps payload_finite.simps
      payload_plain.simps rating_finite_def list_all_iff base_message.simps user_relative_rating.simps
      list.set set_append) auto
  show "up_userInformation (ur_userPosition r) = the (users store k)" "up_amount (ur_userPosition r) = a"
    by (simp_all add: r reported_def)
qed

lemma ack_is_no_data: "ws_of_text ops iless ack = Inr (WsAck i) \<Longrightarrow> data_of_text ops iless ack = []"
  by (simp add: data_of_text_def)

lemma ws_received_protocol:
  "ws_received ops iless (t\<lparr>protocol := p\<rparr>) c =
    concat (map (\<lambda>q. data_of_text ops iless (snd q)) (filter (\<lambda>q. fst q = c) (wire p)))"
  by (simp add: ws_received_def)

definition connect_message :: "user_identifier \<Rightarrow> base_message" where
  "connect_message k = \<lparr>msg_type = UserConnected, msg_data = PUserIdInformation \<lparr>uid_id = k\<rparr>\<rparr>"

definition deal_message :: "deal_information \<Rightarrow> base_message" where
  "deal_message d = \<lparr>msg_type = UserDealWon, msg_data = PDealInformation d\<rparr>"

lemma connect_gets_rating:
  assumes "wire_laws ops iless" and "ws_of_text ops iless js = Inr (WsData i (connect_message k))"
    and "c \<in> live (transport s)" and "service_ok s"
    and "all_registered (userDataStore s) (userRatingProvider s)" and "users (userDataStore s) k = Some u"
    and "within (startTime (userRatingProvider s)) (endTime (userRatingProvider s)) (unsigned_time now)"
    and "\<forall>j b. rating_of (sortedDealContainer (userRatingProvider s)) j = Some b \<longrightarrow> f32_finite b"
    and "\<forall>j v. users (userDataStore s) j = Some v \<longrightarrow> plain_text (ui_name v)"
  shows "\<exists>s' r. ws_receive emit ops iless now c js s = (s', None) \<and> k \<in> connectedUsers s' \<and>
    ws_route (transport s') k = Some c \<and>
    ws_received ops iless (transport s') c = ws_received ops iless (transport s) c @ [rating_message r] \<and>
    up_userInformation (ur_userPosition r) = u \<and>
    rating_of (sortedDealContainer (userRatingProvider s')) k = Some (up_amount (ur_userPosition r))"
proof -
  let ?t1 = "(transport s)\<lparr>userToConnection := (userToConnection (transport s))(k \<mapsto> c),
    connectionToUser := (connectionToUser (transport s))(c \<mapsto> k)\<rparr>"
  have "track_connection c (connect_message k) (transport s) = Inr ?t1"
    by (simp add: track_connection_def connect_message_def)
  from ws_receive_data [OF assms(1,2) this, of emit now] obtain ack where
    ack: "ws_of_text ops iless ack = Inr (WsAck i)"
    and recv: "ws_receive emit ops iless now c js s = dispatchMessage emit iless (ws_sendToUser ops iless now) now
      (Some (connect_message k))
      (s\<lparr>transport := ?t1\<lparr>protocol := (protocol (transport s))\<lparr>wire := wire (protocol (transport s)) @ [(c, ack)]\<rparr>\<rparr>\<rparr>)"
    by blast
  let ?t2 = "?t1\<lparr>protocol := (protocol (transport s))\<lparr>wire := wire (protocol (transport s)) @ [(c, ack)]\<rparr>\<rparr>"
  let ?s = "s\<lparr>transport := ?t2, connectedUsers := insert k (connectedUsers s)\<rparr>"
  have "service_ok ?s" using assms(4) by (simp add: service_ok_def)
  from rating_ready [OF this, of k now] assms(5-7) obtain p r where
    p: "ensure_present now k (userRatingProvider s) = Inr p" "rating_inv (sortedDealContainer p)"
      "all_registered (userDataStore s) p" "relative_rating (userDataStore s) (nRatingPositions s) k p = Inr r"
    and rating: "rating_of (sortedDealContainer p) = (rating_of (sortedDealContainer (userRatingProvider s)))
      (k \<mapsto> (case rating_of (sortedDealContainer (userRatingProvider s)) k of None \<Rightarrow> 0 | Some a \<Rightarrow> a))" by auto
  obtain a where a: "rating_of (sortedDealContainer p) k = Some a" using rating by simp
  have "f32_finite 0" by (simp add: f32_defs)
  then have finite: "\<forall>j b. rating_of (sortedDealContainer p) j = Some b \<longrightarrow> f32_finite b"
    using assms(8) rating by (auto split: option.splits)
  note r = rating_sendable [OF p(2,3,4) a finite assms(9)]
  have route: "ws_route ?t2 k = Some c" using assms(3) by (simp add: ws_route_def)
  from transport_server.routed [OF ws_is_transport_server [OF assms(1)] TrueI route r(1), of now] obtain t3 where
    t3: "ws_sendToUser ops iless now k (rating_message r) ?t2 = (t3, None)" "ws_route t3 = ws_route ?t2"
      "ws_received ops iless t3 c = ws_received ops iless ?t2 c @ [rating_message r]" by auto
  have "userConnected (ws_sendToUser ops iless now) now k (s\<lparr>transport := ?t2\<rparr>) =
      (?s\<lparr>userRatingProvider := p, transport := t3\<rparr>, None)"
    using p(1,4) t3(1) by (simp add: userConnected_def sendUserRelativeRating_def push_rating_def)
  then have "ws_receive emit ops iless now c js s = (?s\<lparr>userRatingProvider := p, transport := t3\<rparr>, None)"
    unfolding recv by (simp add: connect_message_def dispatch_connected caught_None)
  moreover have "ws_received ops iless ?t2 c = ws_received ops iless (transport s) c"
    by (simp add: ws_received_def ack_is_no_data [OF ack])
  ultimately show ?thesis
    using t3 route r(2,3) a assms(6)
    by (intro exI [of _ "?s\<lparr>userRatingProvider := p, transport := t3\<rparr>"] exI [of _ r]) simp
qed

text \<open>A deal won inside the period is acknowledged and counted.\<close>

lemma deal_counted:
  assumes "wire_laws ops iless" and "ws_of_text ops iless js = Inr (WsData i (deal_message d))"
    and ok: "service_ok s" "wired emit s" and "f32_nonneg (di_amount d)"
    and win: "within (startTime (userRatingProvider s)) (endTime (userRatingProvider s)) (di_timestamp d)"
  shows "\<exists>s' ack. ws_receive emit ops iless now c js s = (s', None) \<and> service_ok s' \<and> wired emit s' \<and>
    ws_of_text ops iless ack = Inr (WsAck i) \<and> wire (protocol (transport s')) = wire (protocol (transport s)) @ [(c, ack)] \<and>
    startTime (userRatingProvider s') = startTime (userRatingProvider s) \<and>
    endTime (userRatingProvider s') = endTime (userRatingProvider s) \<and>
    rating_of (sortedDealContainer (userRatingProvider s')) (di_userId d) =
      Some (add_to (rating_of (sortedDealContainer (userRatingProvider s)) (di_userId d)) (di_amount d))"
proof -
  have "track_connection c (deal_message d) (transport s) = Inr (transport s)"
    by (simp add: track_connection_def deal_message_def)
  from ws_receive_data [OF assms(1,2) this, of emit now] obtain ack where ack: "ws_of_text ops iless ack = Inr (WsAck i)"
    and arrives: "ws_receive emit ops iless now c js s = dispatchMessage emit iless (ws_sendToUser ops iless now) now (Some (deal_message d))
      (s\<lparr>transport := (transport s)\<lparr>protocol := (protocol (transport s))\<lparr>wire := wire (protocol (transport s)) @ [(c, ack)]\<rparr>\<rparr>\<rparr>)" by blast
  define t where "t = (transport s)\<lparr>protocol := (protocol (transport s))\<lparr>wire := wire (protocol (transport s)) @ [(c, ack)]\<rparr>\<rparr>"
  have t: "wire (protocol t) = wire (protocol (transport s)) @ [(c, ack)]" by (simp add: t_def)
  note recv = arrives [folded t_def]
  have s: "service_ok (s\<lparr>transport := t\<rparr>)" "wired emit (s\<lparr>transport := t\<rparr>)"
    using ok by (simp_all add: service_ok_def wired_def)
  from dispatch_won_deal [OF s assms(5), of iless "ws_sendToUser ops iless now" now] obtain p where
    p: "ws_receive emit ops iless now c js s = (s\<lparr>transport := t, userRatingProvider := p\<rparr>, None)"
      "addDeal d (userRatingProvider s) = Inr p" "service_ok (s\<lparr>transport := t, userRatingProvider := p\<rparr>)"
    unfolding recv deal_message_def by auto
  from ok(1) have "rating_inv (sortedDealContainer (userRatingProvider s))" by (simp add: service_ok_def)
  from addDeal_total [OF this assms(5)] p win ok(2) ack t show ?thesis by (auto simp: wired_def)
qed

section \<open>An example\<close>

definition example_ws_service :: "plain_tree ws_server service" where
  "example_ws_service = \<lparr>userDataStore = example_store,
     userDealDataStore = addDealAddedSlot addDeal \<lparr>dealAddedSignal = []\<rparr>,
     userRatingProvider = example_provider, nRatingPositions = 10, connectedUsers = {},
     transport = on_open 5 new_ws_server\<rparr>"

lemma example_ws_service_ok: "service_ok example_ws_service" "wired single_emit example_ws_service"
  by (simp_all add: service_ok_def example_ws_service_def store_ok_def example_store_def example_provider_def
      example_table_inv period_ok_def wired_def single_emit_ok addDealAddedSlot_def)

lemma example_within: "within (startTime example_provider) (endTime example_provider) 1515931932"
  by (simp add: example_provider_def) code_simp

lemma example_ready:
  "within (startTime (userRatingProvider example_ws_service)) (endTime (userRatingProvider example_ws_service))
     (unsigned_time 1515931932000000000)"
  "5 \<in> live (transport example_ws_service)"
  "all_registered (userDataStore example_ws_service) (userRatingProvider example_ws_service)"
  "users (userDataStore example_ws_service) 2 = Some \<lparr>ui_id = 2, ui_name = ''b''\<rparr>"
  "\<forall>j v. users (userDataStore example_ws_service) j = Some v \<longrightarrow> plain_text (ui_name v)"
  "\<forall>j b. rating_of (sortedDealContainer (userRatingProvider example_ws_service)) j = Some b \<longrightarrow> f32_finite b"
  "ws_received plain_ops reference_iless (transport example_ws_service) 5 = []"
proof -
  have "unsigned_time 1515931932000000000 = 1515931932" by (simp add: unsigned_time_def to_time_t_def)
  then show "within (startTime (userRatingProvider example_ws_service)) (endTime (userRatingProvider example_ws_service))
      (unsigned_time 1515931932000000000)" "5 \<in> live (transport example_ws_service)"
    "all_registered (userDataStore example_ws_service) (userRatingProvider example_ws_service)"
    "users (userDataStore example_ws_service) 2 = Some \<lparr>ui_id = 2, ui_name = ''b''\<rparr>"
    "\<forall>j v. users (userDataStore example_ws_service) j = Some v \<longrightarrow> plain_text (ui_name v)"
    using example_within example_registered
    by (simp_all add: example_ws_service_def on_open_def example_store_def plain_text_def)
  have "f32_finite 0x40000000" "f32_finite 0x3F800000" "f32_finite 0x3F000000" by (simp_all add: f32_defs)
  then show "\<forall>j b. rating_of (sortedDealContainer (userRatingProvider example_ws_service)) j = Some b \<longrightarrow> f32_finite b"
    by (auto simp: example_ws_service_def example_provider_def example_table_def rating_of_def split: if_splits)
  show "ws_received plain_ops reference_iless (transport example_ws_service) 5 = []"
    by (simp add: example_ws_service_def on_open_def new_ws_server_def new_protocol_def ws_received_def)
qed

lemma example_connect_text: "\<exists>js. ws_of_text plain_ops reference_iless js = Inr (WsData 0 (connect_message 2))"
  using ws_text_roundtrip [OF plain_wire_laws, of "WsData 0 (connect_message 2)"] by (auto simp: connect_message_def)

end
