(* ===== verification/Ws_Frame.thy ===== *)
theory Ws_Frame
  imports Prelude
begin

text \<open>
  \<^verbatim>\<open>webapi/websockets/server_ws.hpp\<close>, the frames of a WebSocket connection: what \<^verbatim>\<open>send\<close> of the server and
  of the client put on the wire, and how the server reads frames. The bytes that have arrived on the
  socket are \<open>incoming\<close>; an asynchronous read moves as many of them as it was asked for into
  \<open>read_buffer\<close> and then runs its handler, or waits. The handlers are the stages of a reader. Frames
  handed to the send queue and calls of the endpoint's callbacks, all of which are taken to be set, are
  recorded in order. Timeouts are not modelled.
\<close>

unbundle bit_operations_syntax

section \<open>Frames\<close>

definition bytes_of :: "string \<Rightarrow> u8 list" where
  "bytes_of s = map of_char s"

text \<open>The \<open>num_bytes\<close> low bytes of a length, most significant first.\<close>

definition length_bytes :: "nat \<Rightarrow> u64 \<Rightarrow> u8 list" where
  "length_bytes num_bytes l = map (\<lambda>c. ucast (drop_bit (8 * c) l mod 256)) (rev [0..<num_bytes])"

text \<open>\<^verbatim>\<open>Connection::send\<close> of the server: the header, and the message behind it.\<close>

definition server_header :: "u8 \<Rightarrow> u64 \<Rightarrow> u8 list" where
  "server_header fin_rsv_opcode l =
     fin_rsv_opcode #
       (if 126 \<le> l then
          if 0xffff < l then 127 # length_bytes 8 l else 126 # length_bytes 2 l
        else [ucast l])"

definition server_frame :: "u8 \<Rightarrow> u8 list \<Rightarrow> u8 list" where
  "server_frame fin_rsv_opcode msg = server_header fin_rsv_opcode (of_nat (length msg)) @ msg"

lemma server_frame_bytes:
  "server_frame opcode msg =
     (let l = of_nat (length msg) :: u64
      in opcode #
         (if 126 \<le> l then
            if 0xffff < l then 127 # length_bytes 8 l else 126 # length_bytes 2 l
          else [ucast l]) @ msg)"
  by (simp add: server_frame_def server_header_def Let_def)

text \<open>\<^verbatim>\<open>Connection::send\<close> of the client; \<open>key\<close> is the mask of four bytes it draws.\<close>

definition masked :: "u8 list \<Rightarrow> u8 list \<Rightarrow> u8 list" where
  "masked key msg = map (\<lambda>c. (msg ! c) XOR (key ! (c mod 4))) [0..<length msg]"

definition client_frame :: "u8 list \<Rightarrow> u8 \<Rightarrow> u8 list \<Rightarrow> u8 list" where
  "client_frame key fin_rsv_opcode msg =
     (let l = of_nat (length msg) :: u64
      in fin_rsv_opcode #
         (if 126 \<le> l then
            if 0xffff < l then (127 + 128) # length_bytes 8 l else (126 + 128) # length_bytes 2 l
          else [ucast l + 128]) @ key @ masked key msg)"

text \<open>The loops that put a length together again.\<close>

definition length_value :: "u8 list \<Rightarrow> u64" where
  "length_value bytes =
     fold (\<lambda>c l. l + push_bit (8 * (length bytes - 1 - c)) (ucast (bytes ! c))) [0..<length bytes] 0"

section \<open>The connection of the server\<close>

record input_message =
  fin_rsv_opcode :: u8
  msg_length :: u64
  msg_content :: "u8 list"

datatype 'e callback =
    ConnectionOpened
  | MessageReceived input_message
  | ConnectionClosed int "u8 list"
  | ConnectionFailed 'e
  | PingReceived
  | PongReceived

datatype ws_error = MessageSize | SocketError

datatype read_stage =
    AwaitHeader
  | AwaitLength2 u8
  | AwaitLength8 u8
  | AwaitContent u64 u8
  | ReadingStopped

record ws_connection =
  incoming :: "u8 list"
  read_buffer :: "u8 list"
  fragmented_message :: "input_message option"
  stage :: read_stage
  closed :: bool
  sent_frames :: "u8 list list"
  registered :: bool
  callbacks :: "ws_error callback list"

definition call :: "ws_error callback \<Rightarrow> ws_connection \<Rightarrow> ws_connection" where
  "call cb c = c\<lparr>callbacks := callbacks c @ [cb]\<rparr>"

definition send_frame :: "u8 \<Rightarrow> u8 list \<Rightarrow> ws_connection \<Rightarrow> ws_connection" where
  "send_frame opcode msg c = c\<lparr>sent_frames := sent_frames c @ [server_frame opcode msg]\<rparr>"

definition close_payload :: "int \<Rightarrow> u8 list \<Rightarrow> u8 list" where
  "close_payload status reason = [word_of_int (status div 256), word_of_int (status mod 256)] @ reason"

definition send_close :: "int \<Rightarrow> u8 list \<Rightarrow> ws_connection \<Rightarrow> ws_connection" where
  "send_close status reason c =
     (if closed c then c else send_frame 136 (close_payload status reason) (c\<lparr>closed := True\<rparr>))"

definition connection_open :: "ws_connection \<Rightarrow> ws_connection" where
  "connection_open c = call ConnectionOpened (c\<lparr>registered := True\<rparr>)"

definition connection_close :: "int \<Rightarrow> u8 list \<Rightarrow> ws_connection \<Rightarrow> ws_connection" where
  "connection_close status reason c = call (ConnectionClosed status reason) (c\<lparr>registered := False\<rparr>)"

definition connection_error :: "ws_error \<Rightarrow> ws_connection \<Rightarrow> ws_connection" where
  "connection_error e c = call (ConnectionFailed e) (c\<lparr>registered := False\<rparr>)"

section \<open>Reading a frame\<close>

definition async_read :: "nat \<Rightarrow> ws_connection \<Rightarrow> ws_connection option" where
  "async_read n c =
     (if n \<le> length (incoming c)
      then Some (c\<lparr>read_buffer := read_buffer c @ take n (incoming c), incoming := drop n (incoming c)\<rparr>)
      else None)"

text \<open>The message a frame belongs to: the fragmented one, begun or continued, or one of its own.\<close>

definition add_fragment :: "u8 \<Rightarrow> u64 \<Rightarrow> u8 list \<Rightarrow> input_message option \<Rightarrow> input_message" where
  "add_fragment opcode l bytes fragmented =
     (case fragmented of
        None \<Rightarrow> \<lparr>fin_rsv_opcode = opcode OR 0x80, msg_length = l, msg_content = bytes\<rparr>
      | Some m \<Rightarrow> m\<lparr>msg_length := msg_length m + l, msg_content := msg_content m @ bytes\<rparr>)"

definition close_status :: "u64 \<Rightarrow> u8 list \<Rightarrow> int" where
  "close_status l bytes = (if 2 \<le> l then uint (bytes ! 0) * 256 + uint (bytes ! 1) else 0)"

definition close_reason :: "u64 \<Rightarrow> u8 list \<Rightarrow> u8 list" where
  "close_reason l bytes = (if 2 \<le> l then drop 2 bytes else bytes)"

text \<open>What the handler of the content does with the unmasked bytes of a frame.\<close>

definition frame_received :: "u8 \<Rightarrow> u64 \<Rightarrow> u8 list \<Rightarrow> ws_connection \<Rightarrow> ws_connection" where
  "frame_received opcode l bytes c =
     (let fragment = opcode AND 0x80 = 0 \<or> opcode AND 0x0f = 0;
          message = (if fragment then add_fragment opcode l bytes (fragmented_message c)
                     else \<lparr>fin_rsv_opcode = opcode, msg_length = l, msg_content = bytes\<rparr>);
          c = (if fragment then c\<lparr>fragmented_message := Some message\<rparr> else c)
      in if opcode AND 0x0f = 8 then
           let status = close_status l (msg_content message); reason = close_reason l (msg_content message)
           in (connection_close status reason (send_close status reason c))\<lparr>stage := ReadingStopped\<rparr>
         else if opcode AND 0x0f = 9 then
           (call PingReceived (send_frame (opcode + 1) [] c))\<lparr>stage := AwaitHeader\<rparr>
         else if opcode AND 0x0f = 10 then (call PongReceived c)\<lparr>stage := AwaitHeader\<rparr>
         else if opcode AND 0x80 = 0 then c\<lparr>stage := AwaitHeader\<rparr>
         else (call (MessageReceived message) c)\<lparr>fragmented_message := None, stage := AwaitHeader\<rparr>)"

text \<open>
  The handler of the content. Where the buffer holds fewer bytes than it reads, the rest of the mask is
  what the uninitialised array held (\<open>junk\<close>), and \<^verbatim>\<open>get()\<close> yields \<^verbatim>\<open>EOF\<close>, whose low byte is \<^verbatim>\<open>0xFF\<close>.
\<close>

definition content_read :: "(nat \<Rightarrow> u8) \<Rightarrow> u64 \<Rightarrow> u8 \<Rightarrow> ws_connection \<Rightarrow> ws_connection" where
  "content_read junk l opcode c =
     (let key = map (\<lambda>i. if i < length (read_buffer c) then read_buffer c ! i else junk i) [0..<4];
          rest = drop 4 (read_buffer c);
          bytes = map (\<lambda>i. (if i < length rest then rest ! i else 0xFF) XOR (key ! (i mod 4))) [0..<unat l]
      in frame_received opcode l bytes (c\<lparr>read_buffer := drop (unat l) rest\<rparr>))"

definition read_message_content :: "u64 \<Rightarrow> u64 \<Rightarrow> u8 \<Rightarrow> ws_connection \<Rightarrow> ws_connection" where
  "read_message_content max_message_size l opcode c =
     (if l + (case fragmented_message c of None \<Rightarrow> 0 | Some m \<Rightarrow> msg_length m) > max_message_size then
        (connection_close 1009 (bytes_of ''message too big'')
           (send_close 1009 (bytes_of ''message too big'') (connection_error MessageSize c)))\<lparr>stage := ReadingStopped\<rparr>
      else c\<lparr>stage := AwaitContent l opcode\<rparr>)"

definition header_read :: "u64 \<Rightarrow> ws_connection \<Rightarrow> ws_connection" where
  "header_read max_message_size c =
     (let opcode = read_buffer c ! 0; second = read_buffer c ! 1;
          c = c\<lparr>read_buffer := drop 2 (read_buffer c)\<rparr>
      in if second < 128 then
           (connection_close 1002 (bytes_of ''message from client not masked'')
              (send_close 1002 (bytes_of ''message from client not masked'') c))\<lparr>stage := ReadingStopped\<rparr>
         else if second AND 127 = 126 then c\<lparr>stage := AwaitLength2 opcode\<rparr>
         else if second AND 127 = 127 then c\<lparr>stage := AwaitLength8 opcode\<rparr>
         else read_message_content max_message_size (ucast (second AND 127)) opcode c)"

definition length_read :: "u64 \<Rightarrow> nat \<Rightarrow> u8 \<Rightarrow> ws_connection \<Rightarrow> ws_connection" where
  "length_read max_message_size num_bytes opcode c =
     read_message_content max_message_size (length_value (take num_bytes (read_buffer c))) opcode
       (c\<lparr>read_buffer := drop num_bytes (read_buffer c)\<rparr>)"

text \<open>One handler, when the bytes it waits for are there. The number of bytes wraps around.\<close>

fun server_step :: "u64 \<Rightarrow> (nat \<Rightarrow> u8) \<Rightarrow> ws_connection \<Rightarrow> ws_connection option" where
  "server_step max_message_size junk c =
     (case stage c of
        AwaitHeader \<Rightarrow> map_option (header_read max_message_size) (async_read 2 c)
      | AwaitLength2 opcode \<Rightarrow> map_option (length_read max_message_size 2 opcode) (async_read 2 c)
      | AwaitLength8 opcode \<Rightarrow> map_option (length_read max_message_size 8 opcode) (async_read 8 c)
      | AwaitContent l opcode \<Rightarrow> map_option (content_read junk l opcode) (async_read (unat (4 + l)) c)
      | ReadingStopped \<Rightarrow> None)"

declare server_step.simps [simp del]

text \<open>A read that fails, because the peer is gone or for another reason, ends the reader in the same way at
  every stage.\<close>

definition read_fails :: "ws_connection \<Rightarrow> ws_connection option" where
  "read_fails c =
     (if stage c = ReadingStopped then None else Some ((connection_error SocketError c)\<lparr>stage := ReadingStopped\<rparr>))"

text \<open>Every round of the reader takes two bytes at least, so it comes to a stop.\<close>

fun stage_rank :: "read_stage \<Rightarrow> nat" where
  "stage_rank AwaitHeader = 0"
| "stage_rank (AwaitLength2 _) = 3"
| "stage_rank (AwaitLength8 _) = 3"
| "stage_rank (AwaitContent _ _) = 2"
| "stage_rank ReadingStopped = 0"

lemmas frame_defs =
  call_def send_frame_def send_close_def connection_close_def connection_error_def

lemma incoming_kept [simp]:
  "incoming (call cb c) = incoming c" "incoming (send_frame opcode msg c) = incoming c"
  "incoming (send_close status reason c) = incoming c" "incoming (connection_close status reason c) = incoming c"
  "incoming (connection_error e c) = incoming c"
  by (simp_all add: frame_defs)

lemma frame_received_incoming [simp]: "incoming (frame_received opcode l bytes c) = incoming c"
  by (simp add: frame_received_def Let_def)

lemma frame_received_rank [simp]: "stage_rank (stage (frame_received opcode l bytes c)) = 0"
  by (simp add: frame_received_def Let_def)

lemma read_message_content_progress [simp]:
  "incoming (read_message_content m l opcode c) = incoming c"
  "stage_rank (stage (read_message_content m l opcode c)) \<le> 2"
  by (simp_all add: read_message_content_def)

lemma server_step_decreases:
  assumes "server_step m junk c = Some c'"
  shows "2 * length (incoming c') + stage_rank (stage c') < 2 * length (incoming c) + stage_rank (stage c)"
  using assms
  by (cases "stage c")
    (auto simp: server_step.simps async_read_def header_read_def length_read_def content_read_def Let_def
      le_imp_less_Suc intro: le_less_trans [OF add_left_mono [OF read_message_content_progress(2)]]
      split: if_splits)

text \<open>All that the bytes that have arrived set off.\<close>

function server_run :: "u64 \<Rightarrow> (nat \<Rightarrow> u8) \<Rightarrow> ws_connection \<Rightarrow> ws_connection" where
  "server_run max_message_size junk c =
     (case server_step max_message_size junk c of
        None \<Rightarrow> c
      | Some c' \<Rightarrow> server_run max_message_size junk c')"
  by auto
termination
  by (relation "measure (\<lambda>(m, junk, c). 2 * length (incoming c) + stage_rank (stage c))")
    (auto dest: server_step_decreases)

declare server_run.simps [simp del]

lemma server_run_step: "server_step m junk c = Some c' \<Longrightarrow> server_run m junk c = server_run m junk c'"
  by (subst server_run.simps) simp

lemma server_run_wait: "server_step m junk c = None \<Longrightarrow> server_run m junk c = c"
  by (subst server_run.simps) simp

lemma step_callbacks: "server_step m junk c = Some c' \<Longrightarrow> \<exists>cbs. callbacks c' = callbacks c @ cbs"
  by (cases "stage c")
    (auto simp: server_step.simps async_read_def header_read_def length_read_def content_read_def
      read_message_content_def frame_received_def frame_defs Let_def split: if_splits)

lemma run_callbacks: "\<exists>cbs. callbacks (server_run m junk c) = callbacks c @ cbs"
proof (induction m junk c rule: server_run.induct)
  case (1 m junk c)
  show ?case
  proof (cases "server_step m junk c")
    case None
    then show ?thesis by (simp add: server_run_wait)
  next
    case (Some c')
    with 1 [OF Some] step_callbacks [OF Some] show ?thesis by (auto simp: server_run_step)
  qed
qed

section \<open>Lengths and masks\<close>

lemma take_bit_byte: "take_bit (n + 8) l = push_bit n (take_bit 8 (drop_bit n l)) + take_bit n (l :: u64)"
  using bits_ident [of n "take_bit (n + 8) l"] by (simp add: drop_bit_take_bit)

lemma byte_of_length: "(ucast (ucast (x mod 256 :: u64) :: u8) :: u64) = take_bit 8 x"
proof -
  have "x mod 256 = take_bit 8 x" by (simp add: take_bit_eq_mod)
  then show ?thesis by (simp add: unsigned_ucast_eq)
qed

lemma length_value_sum:
  "length_value bytes = (\<Sum>c \<leftarrow> [0..<length bytes]. push_bit (8 * (length bytes - 1 - c)) (ucast (bytes ! c)))"
proof -
  have "fold (\<lambda>c l. l + f c) xs a = a + sum_list (map f xs)" for f :: "nat \<Rightarrow> u64" and xs a
    by (induction xs arbitrary: a) (simp_all add: add.assoc)
  then show ?thesis by (simp add: length_value_def)
qed

lemma length_value_8: "length_value (length_bytes 8 l) = l"
proof -
  have "l = take_bit (56 + 8) l" by (simp add: take_bit_word_eq_self)
  also have "\<dots> = length_value (length_bytes 8 l)"
    using take_bit_byte [of 56 l] take_bit_byte [of 48 l] take_bit_byte [of 40 l] take_bit_byte [of 32 l]
      take_bit_byte [of 24 l] take_bit_byte [of 16 l] take_bit_byte [of 8 l]
    by (simp add: length_value_sum length_bytes_def upt_rec byte_of_length)
  finally show ?thesis by simp
qed

lemma length_value_2: "l \<le> 0xffff \<Longrightarrow> length_value (length_bytes 2 l) = l"
proof -
  assume "l \<le> 0xffff"
  then have "l < 65536" by (simp add: word_less_nat_alt word_le_nat_alt)
  then have "take_bit (8 + 8) l = l" by (simp add: take_bit_eq_mod mod_word_less)
  then show ?thesis
    using take_bit_byte [of 8 l] by (simp add: length_value_sum length_bytes_def upt_rec byte_of_length)
qed

lemma length_length_bytes [simp]: "length (length_bytes n l) = n"
  by (simp add: length_bytes_def)

lemma masked_masked: "masked key (masked key msg) = msg"
proof (rule nth_equalityI)
  fix i assume "i < length (masked key (masked key msg))"
  then have "masked key (masked key msg) ! i = (msg ! i XOR key ! (i mod 4)) XOR key ! (i mod 4)"
    by (simp add: masked_def del: upt_Suc)
  then show "masked key (masked key msg) ! i = msg ! i" by (simp add: xor.assoc)
qed (simp add: masked_def)

lemma length_masked [simp]: "length (masked key msg) = length msg"
  by (simp add: masked_def)

section \<open>Reading what the client sends\<close>

lemma frame_received_stage: "frame_received opcode l bytes (c\<lparr>stage := s\<rparr>) = frame_received opcode l bytes c"
  by (simp add: frame_received_def Let_def frame_defs)

definition fits :: "u64 \<Rightarrow> u64 \<Rightarrow> ws_connection \<Rightarrow> bool" where
  "fits max_message_size l c \<longleftrightarrow>
     l + (case fragmented_message c of None \<Rightarrow> 0 | Some m \<Rightarrow> msg_length m) \<le> max_message_size"

lemma content_fits: "fits m l c \<Longrightarrow> read_message_content m l opcode c = c\<lparr>stage := AwaitContent l opcode\<rparr>"
  by (simp add: fits_def read_message_content_def)

lemma fits_update [simp]:
  "fits m l (c\<lparr>incoming := i\<rparr>) = fits m l c" "fits m l (c\<lparr>read_buffer := b\<rparr>) = fits m l c"
  "fits m l (c\<lparr>stage := s\<rparr>) = fits m l c"
  by (simp_all add: fits_def)

lemma unat_length: "n < 2 ^ 64 \<Longrightarrow> unat (of_nat n :: u64) = n"
  by (simp add: unat_of_nat)

lemma content_read_shape:
  "\<exists>bytes. length bytes = unat l \<and> content_read junk l opcode c =
    frame_received opcode l bytes (c\<lparr>read_buffer := drop (unat l) (drop 4 (read_buffer c))\<rparr>)"
  unfolding content_read_def Let_def by (intro exI conjI [rotated], rule refl) simp

lemma content_step:
  assumes "stage c = AwaitContent (of_nat (length msg)) opcode" and "read_buffer c = []"
    and "incoming c = key @ masked key msg @ later" and "length key = 4" and "length msg + 4 < 2 ^ 64"
  shows "server_step m junk c =
    Some (frame_received opcode (of_nat (length msg)) msg (c\<lparr>incoming := later\<rparr>))"
proof -
  have l: "unat (of_nat (length msg) :: u64) = length msg" "unat (4 + of_nat (length msg) :: u64) = 4 + length msg"
    using assms(5) by (simp_all add: unat_of_nat unat_word_ariths)
  let ?c = "c\<lparr>read_buffer := key @ masked key msg, incoming := later\<rparr>"
  have "async_read (unat (4 + of_nat (length msg) :: u64)) c = Some ?c"
    using assms(2-4) by (simp add: l async_read_def)
  moreover have "content_read junk (of_nat (length msg)) opcode ?c =
      frame_received opcode (of_nat (length msg)) msg (?c\<lparr>read_buffer := []\<rparr>)"
  proof -
    have buffer: "read_buffer ?c = key @ masked key msg" and rest: "drop 4 (key @ masked key msg) = masked key msg"
      using assms(4) by simp_all
    have mask: "map (\<lambda>i. if i < length (key @ masked key msg) then (key @ masked key msg) ! i else junk i) [0..<4] = key"
      using assms(4) by (auto intro!: nth_equalityI simp: nth_append)
    have bytes: "map (\<lambda>i. (if i < length (masked key msg) then masked key msg ! i else 0xFF) XOR key ! (i mod 4)) [0..<length msg] =
        masked key (masked key msg)"
      unfolding masked_def [of key "masked key msg"] by (rule map_cong) simp_all
    show ?thesis
      unfolding content_read_def Let_def buffer rest mask l(1) bytes masked_masked by simp
  qed
  moreover have "?c\<lparr>read_buffer := []\<rparr> = c\<lparr>incoming := later\<rparr>" using assms(2) by simp
  ultimately show ?thesis using assms(1) by (simp add: server_step.simps)
qed

lemma short_length:
  assumes "l < (126 :: u64)"
  shows "\<not> (ucast l + 128 :: u8) < 128" and "(ucast l + 128 :: u8) AND 127 = ucast l"
    and "ucast (ucast l :: u8) = l" and "(ucast l :: u8) \<noteq> 126" and "(ucast l :: u8) \<noteq> 127"
proof -
  define n where "n = unat l"
  have n: "n < 126" "l = of_nat n" using assms by (simp_all add: n_def word_less_nat_alt)
  have b: "unat (ucast l :: u8) = n" "unat (ucast l + 128 :: u8) = n + 128"
    using n by (simp_all add: unsigned_ucast_eq unat_word_ariths unat_of_nat take_bit_eq_mod)
  show "\<not> (ucast l + 128 :: u8) < 128" by (simp add: word_less_nat_alt b)
  have "(ucast l + 128 :: u8) AND 127 = take_bit 7 (ucast l + 128)"
    by (simp add: take_bit_eq_mask mask_eq_exp_minus_1)
  also have "\<dots> = ucast l"
  proof (rule word_unat_eq_iff [THEN iffD2])
    have "unat (take_bit 7 (ucast l + 128 :: u8)) = take_bit 7 (n + 128)" by (simp only: unsigned_take_bit_eq b)
    also have "\<dots> = n" using n(1) by (simp add: take_bit_eq_mod)
    finally show "unat (take_bit 7 (ucast l + 128 :: u8)) = unat (ucast l :: u8)" by (simp only: b)
  qed
  finally show "(ucast l + 128 :: u8) AND 127 = ucast l" .
  show "ucast (ucast l :: u8) = l"
  proof (rule word_unat_eq_iff [THEN iffD2])
    have "unat (ucast (ucast l :: u8) :: u64) = take_bit 8 (unat l)"
      by (simp add: unsigned_ucast_eq unsigned_take_bit_eq)
    also have "\<dots> = unat l" using n(1) by (simp add: n_def take_bit_eq_mod)
    finally show "unat (ucast (ucast l :: u8) :: u64) = unat l" .
  qed
  show "(ucast l :: u8) \<noteq> 126" "(ucast l :: u8) \<noteq> 127" using b(1) n(1) by auto
qed

lemma header_steps:
  assumes "stage c = AwaitHeader" and "read_buffer c = []" and "fits m l c"
    and "incoming c = opcode # (if 126 \<le> l then
        if 0xffff < l then 255 # length_bytes 8 l else 254 # length_bytes 2 l
      else [ucast l + 128]) @ rest"
  shows "server_run m junk c = server_run m junk (c\<lparr>stage := AwaitContent l opcode, incoming := rest\<rparr>)"
proof -
  consider (short) "l < 126" | (medium) "126 \<le> l" "l \<le> 0xffff" | (long) "126 \<le> l" "0xffff < l" by (meson not_le)
  then show ?thesis
  proof cases
    case short
    let ?c = "c\<lparr>read_buffer := [opcode, ucast l + 128], incoming := rest\<rparr>"
    have "async_read 2 c = Some ?c" using assms short by (simp add: async_read_def)
    moreover have "header_read m ?c = c\<lparr>stage := AwaitContent l opcode, incoming := rest\<rparr>"
      using short_length [OF short] assms(2,3) by (simp add: header_read_def Let_def content_fits)
    ultimately show ?thesis
      using assms(1) by (intro server_run_step) (simp add: server_step.simps)
  next
    case medium
    let ?c = "c\<lparr>stage := AwaitLength2 opcode, incoming := length_bytes 2 l @ rest\<rparr>"
    have "server_step m junk c = Some ?c"
      using assms medium by (simp add: server_step.simps async_read_def header_read_def Let_def)
    moreover have "server_step m junk ?c = Some (c\<lparr>stage := AwaitContent l opcode, incoming := rest\<rparr>)"
      using assms(2,3) length_value_2 [OF medium(2)]
      by (simp add: server_step.simps async_read_def length_read_def content_fits)
    ultimately show ?thesis by (simp add: server_run_step)
  next
    case long
    let ?c = "c\<lparr>stage := AwaitLength8 opcode, incoming := length_bytes 8 l @ rest\<rparr>"
    have "server_step m junk c = Some ?c"
      using assms long by (simp add: server_step.simps async_read_def header_read_def Let_def)
    moreover have "server_step m junk ?c = Some (c\<lparr>stage := AwaitContent l opcode, incoming := rest\<rparr>)"
      using assms(2,3) length_value_8 [of l]
      by (simp add: server_step.simps async_read_def length_read_def content_fits)
    ultimately show ?thesis by (simp add: server_run_step)
  qed
qed

text \<open>A frame of the client, once it has arrived, is taken off the socket and received as it was sent.\<close>

lemma server_run_frame:
  assumes "stage c = AwaitHeader" and "read_buffer c = []" and "fits m (of_nat (length msg)) c"
    and "incoming c = client_frame key opcode msg @ later" and "length key = 4" and "length msg + 4 < 2 ^ 64"
  shows "server_run m junk c =
    server_run m junk (frame_received opcode (of_nat (length msg)) msg (c\<lparr>incoming := later\<rparr>))"
proof -
  let ?l = "of_nat (length msg) :: u64"
  let ?c = "c\<lparr>stage := AwaitContent ?l opcode, incoming := key @ masked key msg @ later\<rparr>"
  have "server_run m junk c = server_run m junk ?c"
    using assms(4) by (intro header_steps [OF assms(1-3)]) (simp add: client_frame_def Let_def)
  also have "\<dots> = server_run m junk (frame_received opcode ?l msg (?c\<lparr>incoming := later\<rparr>))"
    using assms(2,5,6) by (intro server_run_step content_step) simp_all
  also have "?c\<lparr>incoming := later\<rparr> = (c\<lparr>incoming := later\<rparr>)\<lparr>stage := AwaitContent ?l opcode\<rparr>" by simp
  finally show ?thesis by (simp only: frame_received_stage)
qed

section \<open>Bytes that arrive in pieces\<close>

definition arrive :: "u8 list \<Rightarrow> ws_connection \<Rightarrow> ws_connection" where
  "arrive bytes c = c\<lparr>incoming := incoming c @ bytes\<rparr>"

lemma arrive_handlers:
  "content_read junk l opcode (arrive b c) = arrive b (content_read junk l opcode c)"
  "read_message_content m l opcode (arrive b c) = arrive b (read_message_content m l opcode c)"
  "header_read m (arrive b c) = arrive b (header_read m c)"
  "length_read m n opcode (arrive b c) = arrive b (length_read m n opcode c)"
proof -
  show content: "read_message_content m l opcode (arrive b c) = arrive b (read_message_content m l opcode c)" for l opcode c
    by (simp add: read_message_content_def arrive_def frame_defs)
  have drop: "(arrive b c)\<lparr>read_buffer := x\<rparr> = arrive b (c\<lparr>read_buffer := x\<rparr>)" for x by (simp add: arrive_def)
  have fields: "read_buffer (arrive b c) = read_buffer c" by (simp add: arrive_def)
  show "length_read m n opcode (arrive b c) = arrive b (length_read m n opcode c)"
    unfolding length_read_def fields drop content ..
  show "header_read m (arrive b c) = arrive b (header_read m c)"
    unfolding header_read_def Let_def fields drop content by (simp add: arrive_def frame_defs)
  have "frame_received opcode l bytes (arrive b c) = arrive b (frame_received opcode l bytes c)" for l opcode bytes c
    by (simp add: frame_received_def Let_def arrive_def frame_defs)
  then show "content_read junk l opcode (arrive b c) = arrive b (content_read junk l opcode c)"
    unfolding content_read_def Let_def fields drop by blast
qed

lemma arrive_step:
  assumes "server_step m junk c = Some c'"
  shows "server_step m junk (arrive b c) = Some (arrive b c')"
proof -
  have read: "async_read n (arrive b c) = map_option (arrive b) (async_read n c)" if "async_read n c \<noteq> None" for n
    using that by (auto simp: async_read_def arrive_def split: if_splits)
  have stage: "stage (arrive b c) = stage c" by (simp add: arrive_def)
  show ?thesis
    using assms read by (cases "stage c") (auto simp: server_step.simps arrive_handlers stage)
qed

lemma run_arrive: "server_run m junk (arrive bytes (server_run m junk c)) = server_run m junk (arrive bytes c)"
proof (induction m junk c rule: server_run.induct)
  case (1 m junk c)
  show ?case
  proof (cases "server_step m junk c")
    case None
    then show ?thesis by (simp add: server_run_wait)
  next
    case (Some c')
    with 1 show ?thesis by (simp add: server_run_step [OF Some] server_run_step [OF arrive_step [OF Some]])
  qed
qed

lemma run_rests: "server_step m junk (server_run m junk c) = None"
proof (induction m junk c rule: server_run.induct)
  case (1 m junk c)
  then show ?case by (cases "server_step m junk c") (simp_all add: server_run_wait server_run_step)
qed

text \<open>How the client may split a message: a first frame, continuation frames, and the last one marked.\<close>

fun continuation :: "u8 list list \<Rightarrow> (u8 \<times> u8 list) list" where
  "continuation [] = []"
| "continuation [p] = [(0x80, p)]"
| "continuation (p # ps) = (0, p) # continuation ps"

fun fragments :: "u8 \<Rightarrow> u8 list list \<Rightarrow> (u8 \<times> u8 list) list" where
  "fragments opcode [] = []"
| "fragments opcode [p] = [(opcode OR 0x80, p)]"
| "fragments opcode (p # ps) = (opcode, p) # continuation ps"

definition client_wire :: "(u8 list \<times> u8 \<times> u8 list) list \<Rightarrow> u8 list" where
  "client_wire fs = concat (map (\<lambda>(key, opcode, msg). client_frame key opcode msg) fs)"

definition frames_ok :: "(u8 list \<times> u8 \<times> u8 list) list \<Rightarrow> bool" where
  "frames_ok fs \<longleftrightarrow> list_all (\<lambda>(key, opcode, msg). length key = 4 \<and> length msg + 4 < 2 ^ 64) fs"

definition whole :: "u8 \<times> u8 list list \<Rightarrow> input_message" where
  "whole m = \<lparr>fin_rsv_opcode = fst m OR 0x80, msg_length = of_nat (length (concat (snd m))), msg_content = concat (snd m)\<rparr>"

lemma fits_unlimited: "fits (- 1) l c"
  by (simp add: fits_def)

lemma fragment_received:
  "frame_received 0 l b c = c\<lparr>fragmented_message := Some (add_fragment 0 l b (fragmented_message c)), stage := AwaitHeader\<rparr>"
  "frame_received 0x80 l b c =
     (call (MessageReceived (add_fragment 0x80 l b (fragmented_message c))) c)\<lparr>fragmented_message := None, stage := AwaitHeader\<rparr>"
  "opcode = 1 \<or> opcode = 2 \<Longrightarrow>
     frame_received opcode l b c = c\<lparr>fragmented_message := Some (add_fragment opcode l b (fragmented_message c)), stage := AwaitHeader\<rparr>"
  "opcode = 1 \<or> opcode = 2 \<Longrightarrow> frame_received (opcode OR 0x80) l b c =
     (call (MessageReceived \<lparr>fin_rsv_opcode = opcode OR 0x80, msg_length = l, msg_content = b\<rparr>) c)
       \<lparr>fragmented_message := None, stage := AwaitHeader\<rparr>"
  by (auto simp: frame_received_def call_def)

lemma continuation_run:
  assumes "map snd fs = continuation ps" and "ps \<noteq> []" and "frames_ok fs"
    and "stage c = AwaitHeader" and "read_buffer c = []" and "fragmented_message c = Some m"
    and "incoming c = client_wire fs @ later"
  shows "server_run (- 1) junk c =
    server_run (- 1) junk (call (MessageReceived \<lparr>fin_rsv_opcode = fin_rsv_opcode m,
        msg_length = msg_length m + of_nat (length (concat ps)), msg_content = msg_content m @ concat ps\<rparr>)
      (c\<lparr>incoming := later, fragmented_message := None\<rparr>))"
  using assms
proof (induction ps arbitrary: fs c m rule: continuation.induct)
  case (2 p)
  then obtain key where fs: "fs = [(key, 0x80, p)]" by (cases fs) auto
  with "2.prems" have "server_run (- 1) junk c = server_run (- 1) junk (frame_received 0x80 (of_nat (length p)) p (c\<lparr>incoming := later\<rparr>))"
    by (intro server_run_frame) (auto simp: fits_unlimited client_wire_def frames_ok_def)
  also have "frame_received 0x80 (of_nat (length p)) p (c\<lparr>incoming := later\<rparr>) =
      call (MessageReceived \<lparr>fin_rsv_opcode = fin_rsv_opcode m,
        msg_length = msg_length m + of_nat (length (concat [p])), msg_content = msg_content m @ concat [p]\<rparr>)
      (c\<lparr>incoming := later, fragmented_message := None\<rparr>)"
    using "2.prems" by (cases c; cases m) (simp add: fragment_received add_fragment_def call_def)
  finally show ?case .
next
  case (3 p q ps)
  then obtain key fs' where fs: "fs = (key, 0, p) # fs'" "map snd fs' = continuation (q # ps)" by (cases fs) auto
  let ?m = "m\<lparr>msg_length := msg_length m + of_nat (length p), msg_content := msg_content m @ p\<rparr>"
  let ?c = "c\<lparr>incoming := client_wire fs' @ later, fragmented_message := Some ?m\<rparr>"
  from fs "3.prems" have "server_run (- 1) junk c =
      server_run (- 1) junk (frame_received 0 (of_nat (length p)) p (c\<lparr>incoming := client_wire fs' @ later\<rparr>))"
    by (intro server_run_frame) (auto simp: fits_unlimited client_wire_def frames_ok_def)
  also have "frame_received 0 (of_nat (length p)) p (c\<lparr>incoming := client_wire fs' @ later\<rparr>) = ?c"
    using "3.prems" by (simp add: fragment_received add_fragment_def)
  also have "server_run (- 1) junk ?c = server_run (- 1) junk
      (call (MessageReceived \<lparr>fin_rsv_opcode = fin_rsv_opcode ?m,
        msg_length = msg_length ?m + of_nat (length (concat (q # ps))), msg_content = msg_content ?m @ concat (q # ps)\<rparr>)
        (?c\<lparr>incoming := later, fragmented_message := None\<rparr>))"
    using "3.prems" fs by (intro "3.IH") (simp_all add: frames_ok_def)
  finally show ?case by (simp add: call_def add.assoc)
qed simp

lemma message_run:
  assumes "map snd fs = fragments opcode ps" and "ps \<noteq> []" and "opcode = 1 \<or> opcode = 2" and "frames_ok fs"
    and "stage c = AwaitHeader" and "read_buffer c = []" and "fragmented_message c = None"
    and "incoming c = client_wire fs @ later"
  shows "server_run (- 1) junk c =
    server_run (- 1) junk (call (MessageReceived (whole (opcode, ps))) (c\<lparr>incoming := later\<rparr>))"
proof (cases "tl ps")
  case Nil
  with assms(2) obtain p where ps: "ps = [p]" by (cases ps) auto
  with assms(1) obtain key where fs: "fs = [(key, opcode OR 0x80, p)]" by (cases fs) auto
  with assms have "server_run (- 1) junk c =
      server_run (- 1) junk (frame_received (opcode OR 0x80) (of_nat (length p)) p (c\<lparr>incoming := later\<rparr>))"
    by (intro server_run_frame) (auto simp: fits_unlimited client_wire_def frames_ok_def)
  also have "frame_received (opcode OR 0x80) (of_nat (length p)) p (c\<lparr>incoming := later\<rparr>) =
      call (MessageReceived (whole (opcode, ps))) (c\<lparr>incoming := later\<rparr>)"
    using assms by (cases c) (simp add: fragment_received(4) ps whole_def call_def)
  finally show ?thesis .
next
  case (Cons q qs)
  with assms(2) obtain p where ps: "ps = p # q # qs" by (cases ps) auto
  with assms(1) obtain key fs' where fs: "fs = (key, opcode, p) # fs'" "map snd fs' = continuation (q # qs)"
    by (cases fs) auto
  let ?m = "\<lparr>fin_rsv_opcode = opcode OR 0x80, msg_length = of_nat (length p), msg_content = p\<rparr>"
  let ?c = "c\<lparr>incoming := client_wire fs' @ later, fragmented_message := Some ?m\<rparr>"
  from fs assms have "server_run (- 1) junk c =
      server_run (- 1) junk (frame_received opcode (of_nat (length p)) p (c\<lparr>incoming := client_wire fs' @ later\<rparr>))"
    by (intro server_run_frame) (auto simp: fits_unlimited client_wire_def frames_ok_def)
  also have "frame_received opcode (of_nat (length p)) p (c\<lparr>incoming := client_wire fs' @ later\<rparr>) = ?c"
    using assms by (simp add: fragment_received(3) add_fragment_def)
  also have "server_run (- 1) junk ?c = server_run (- 1) junk
      (call (MessageReceived \<lparr>fin_rsv_opcode = fin_rsv_opcode ?m,
        msg_length = msg_length ?m + of_nat (length (concat (q # qs))), msg_content = msg_content ?m @ concat (q # qs)\<rparr>)
        (?c\<lparr>incoming := later, fragmented_message := None\<rparr>))"
    using assms fs by (intro continuation_run) (simp_all add: frames_ok_def)
  also have "?c\<lparr>incoming := later, fragmented_message := None\<rparr> = c\<lparr>incoming := later\<rparr>"
    using assms(7) by simp
  finally show ?thesis by (simp add: ps whole_def)
qed

section \<open>Properties\<close>

text \<open>Handlers that run one after the other.\<close>

fun handlers_run :: "nat \<Rightarrow> u64 \<Rightarrow> (nat \<Rightarrow> u8) \<Rightarrow> ws_connection \<Rightarrow> ws_connection option" where
  "handlers_run 0 m junk c = Some c"
| "handlers_run (Suc n) m junk c = Option.bind (server_step m junk c) (handlers_run n m junk)"

lemma handlers_run_more:
  "handlers_run n m junk c = Some c' \<Longrightarrow> handlers_run (Suc n) m junk c = server_step m junk c'"
proof (induction n arbitrary: c)
  case (Suc n)
  then obtain c1 where "server_step m junk c = Some c1" "handlers_run n m junk c1 = Some c'" by (auto split: bind_splits)
  with Suc.IH [of c1] show ?case by simp
qed (simp split: bind_split)

lemma run_by_handlers: "\<exists>n. handlers_run n m junk c = Some (server_run m junk c)"
proof (induction m junk c rule: server_run.induct)
  case (1 m junk c)
  show ?case
  proof (cases "server_step m junk c")
    case None
    then show ?thesis by (intro exI [of _ 0]) (simp add: server_run_wait)
  next
    case (Some c')
    with 1 [OF Some] obtain n where "handlers_run n m junk c' = Some (server_run m junk c')" by blast
    with Some show ?thesis by (intro exI [of _ "Suc n"]) (simp add: server_run_step)
  qed
qed

text \<open>Each takes two bytes, but for one that reads a content whose number of bytes has wrapped around; eight bytes of length
  come before that one.\<close>

fun content_rank :: "read_stage \<Rightarrow> nat" where
  "content_rank (AwaitContent l opcode) = (if unat (4 + l) < 2 then 2 else 0)"
| "content_rank _ = 0"

lemma content_rank_bound: "content_rank s \<le> 2"
  by (cases s) simp_all

lemma content_rank_short: "unat l < 2 ^ 16 \<Longrightarrow> content_rank (AwaitContent l opcode) = 0"
  by (simp add: unat_word_ariths)

lemma content_rank_received [simp]: "content_rank (stage (frame_received opcode l bytes c)) = 0"
  by (simp add: frame_received_def Let_def)

lemma content_rank_content:
  "unat l < 2 ^ 16 \<Longrightarrow> content_rank (stage (read_message_content m l opcode c)) = 0"
  using content_rank_short [of l opcode] by (simp add: read_message_content_def del: content_rank.simps(1))

lemma byte_bound: "unat b < 256" for b :: u8
  using unsigned_less [of b, where ?'a = nat] by simp

lemma two_bytes_short: "length bytes = 2 \<Longrightarrow> unat (length_value bytes) < 2 ^ 16"
proof -
  assume "length bytes = 2"
  then obtain a b where ab: "bytes = [a, b]" by (auto simp: length_Suc_conv numeral_2_eq_2)
  have wide: "unat (ucast x :: u64) = unat x" for x :: u8
    using byte_bound [of x] by (simp add: unsigned_ucast_eq take_bit_eq_mod)
  then have b: "unat (ucast b :: u64) = unat b" .
  have "unat (push_bit 8 (ucast a) :: u64) = take_bit 64 (push_bit 8 (unat (ucast a :: u64)))"
    by (simp only: unsigned_push_bit_eq) simp
  also have "\<dots> = 256 * unat a" using byte_bound [of a] by (simp only: wide) (simp add: take_bit_eq_mod push_bit_eq_mult)
  finally have a: "unat (push_bit 8 (ucast a) :: u64) = 256 * unat a" .
  have "length_value bytes = push_bit 8 (ucast a) + ucast b" by (simp add: ab length_value_def upt_rec)
  moreover have "unat (push_bit 8 (ucast a) + ucast b :: u64) \<le> 256 * unat a + unat b"
    unfolding unat_word_ariths a b by (rule mod_less_eq_dividend)
  ultimately show ?thesis using byte_bound [of a] byte_bound [of b] by simp
qed

lemma handler_takes_bytes:
  assumes "server_step m junk c = Some c'"
  shows "2 + length (incoming c') + content_rank (stage c') \<le> length (incoming c) + content_rank (stage c)"
proof (cases "stage c")
  case AwaitHeader
  have "unat (ucast (b AND 127 :: u8) :: u64) < 2 ^ 16" for b
    using byte_bound [of "b AND 127"] by (simp add: unsigned_ucast_eq take_bit_eq_mod)
  from content_rank_content [OF this] AwaitHeader assms show ?thesis
    by (auto simp: server_step.simps async_read_def header_read_def Let_def split: if_splits)
next
  case (AwaitLength2 opcode)
  with assms have some: "2 \<le> length (incoming c)" and
    c': "c' = length_read m 2 opcode (c\<lparr>read_buffer := read_buffer c @ take 2 (incoming c), incoming := drop 2 (incoming c)\<rparr>)"
    by (auto simp: server_step.simps async_read_def split: if_splits)
  from some have "length (take 2 (read_buffer c @ take 2 (incoming c))) = 2" by simp
  from content_rank_content [OF two_bytes_short [OF this]] some show ?thesis by (simp add: c' length_read_def)
next
  case (AwaitLength8 opcode)
  with assms have some: "8 \<le> length (incoming c)" and
    c': "c' = length_read m 8 opcode (c\<lparr>read_buffer := read_buffer c @ take 8 (incoming c), incoming := drop 8 (incoming c)\<rparr>)"
    by (auto simp: server_step.simps async_read_def split: if_splits)
  have "incoming c' = drop 8 (incoming c)" by (simp add: c' length_read_def)
  with some content_rank_bound [of "stage c'"] show ?thesis by simp
next
  case (AwaitContent l opcode)
  with assms have some: "unat (4 + l) \<le> length (incoming c)" and
    c': "c' = content_read junk l opcode (c\<lparr>read_buffer := read_buffer c @ take (unat (4 + l)) (incoming c),
      incoming := drop (unat (4 + l)) (incoming c)\<rparr>)"
    by (auto simp: server_step.simps async_read_def split: if_splits)
  have "incoming c' = drop (unat (4 + l)) (incoming c)" "content_rank (stage c') = 0"
    by (simp_all add: c' content_read_def Let_def)
  moreover define k where "k = unat (4 + l)"
  ultimately have "length (incoming c') = length (incoming c) - k" "content_rank (stage c') = 0"
    "content_rank (stage c) = (if k < 2 then 2 else 0)" "k \<le> length (incoming c)"
    using some AwaitContent by (simp_all add: k_def)
  then show ?thesis by (auto split: if_splits)
next
  case ReadingStopped
  with assms show ?thesis by (simp add: server_step.simps)
qed

lemma handlers_take_bytes:
  "handlers_run n m junk c = Some c' \<Longrightarrow>
    2 * n + length (incoming c') + content_rank (stage c') \<le> length (incoming c) + content_rank (stage c)"
proof (induction n arbitrary: c)
  case (Suc n)
  then obtain c1 where "server_step m junk c = Some c1" "handlers_run n m junk c1 = Some c'" by (auto split: bind_splits)
  with handler_takes_bytes [of m junk c c1] Suc.IH [of c1] show ?case by simp
qed simp

text \<open>What the client sends arrives: however each of a sequence of messages is split into fragments, and
  whatever masks the client draws, the server calls its message handler once for each message, in order,
  with the bytes that were sent, and then waits for the next frame.\<close>

theorem client_messages_arrive:
  assumes "map snd fs = concat (map (\<lambda>(opcode, ps). fragments opcode ps) ms)" and "frames_ok fs"
    and "\<forall>(opcode, ps) \<in> set ms. ps \<noteq> [] \<and> (opcode = 1 \<or> opcode = 2)"
    and "stage c = AwaitHeader" and "read_buffer c = []" and "fragmented_message c = None"
    and "incoming c = client_wire fs"
  shows "server_run (- 1) junk c =
    c\<lparr>incoming := [], callbacks := callbacks c @ map (\<lambda>m. MessageReceived (whole m)) ms\<rparr>"
  using assms
proof (induction ms arbitrary: fs c)
  case Nil
  then have "incoming c = []" by (simp add: client_wire_def)
  with Nil show ?case by (simp add: server_run_wait server_step.simps async_read_def)
next
  case (Cons m ms)
  obtain opcode ps where m: "m = (opcode, ps)" by (cases m)
  define n where "n = length (fragments opcode ps)"
  have take: "map snd (take n fs) = fragments opcode ps"
    and drop: "map snd (drop n fs) = concat (map (\<lambda>(opcode, ps). fragments opcode ps) ms)"
    using Cons.prems(1) by (simp_all add: take_map [symmetric] drop_map [symmetric] m n_def)
  have wire: "client_wire fs = client_wire (take n fs) @ client_wire (drop n fs)"
    unfolding client_wire_def concat_append [symmetric] map_append [symmetric] append_take_drop_id ..
  have ok: "frames_ok (take n fs)" "frames_ok (drop n fs)"
    using Cons.prems(2) by (auto simp: frames_ok_def list_all_iff dest: in_set_takeD in_set_dropD)
  let ?c = "call (MessageReceived (whole m)) (c\<lparr>incoming := client_wire (drop n fs)\<rparr>)"
  have "server_run (- 1) junk c = server_run (- 1) junk ?c"
    unfolding m using Cons.prems wire ok by (intro message_run [OF take]) (auto simp: m)
  also have "\<dots> = ?c\<lparr>incoming := [], callbacks := callbacks ?c @ map (\<lambda>m. MessageReceived (whole m)) ms\<rparr>"
    using Cons.prems ok by (intro Cons.IH [OF drop]) (auto simp: call_def)
  finally show ?case by (simp add: call_def)
qed

text \<open>C21. The order in which bytes arrive matters, not the pieces they arrive in: running the reader after
  each piece gives the same connection as running it once on all of them.\<close>

theorem pieces_do_not_matter:
  "server_run m junk (arrive bytes (server_run m junk c)) = server_run m junk (arrive bytes c)"
  by (rule run_arrive)


definition new_connection :: "u8 list \<Rightarrow> ws_connection" where
  "new_connection bytes =
     \<lparr>incoming = bytes, read_buffer = [], fragmented_message = None, stage = AwaitHeader, closed = False,
      sent_frames = [], registered = True, callbacks = []\<rparr>"

theorem client_messages_arrive_witness:
  "\<forall>junk. server_run (- 1) junk (new_connection (client_wire
      [([1, 2, 3, 4], 1, [72, 101]), ([5, 6, 7, 8], 0x80, [108]), ([9, 9, 9, 9], 0x82, [])])) =
    (new_connection [])\<lparr>callbacks :=
      [MessageReceived (whole (1, [[72, 101], [108]])), MessageReceived (whole (2, [[]]))]\<rparr>"
proof
  fix junk
  let ?fs = "[([1, 2, 3, 4], 1, [72, 101]), ([5, 6, 7, 8], 0x80, [108]), ([9, 9, 9, 9], 0x82, [])] :: (u8 list \<times> u8 \<times> u8 list) list"
  show "server_run (- 1) junk (new_connection (client_wire ?fs)) = (new_connection [])\<lparr>callbacks :=
      [MessageReceived (whole (1, [[72, 101], [108]])), MessageReceived (whole (2, [[]]))]\<rparr>"
    using client_messages_arrive [of ?fs "[(1, [[72, 101], [108]]), (2, [[]])]" "new_connection (client_wire ?fs)" junk]
    by (simp add: new_connection_def frames_ok_def)
qed

text \<open>Closing: a close frame of the client is answered by a close frame with the same status and reason,
  unless the server has sent one already; the close handler runs once, the connection leaves the
  endpoint, and nothing that follows is read.\<close>

theorem close_frame_answered:
  assumes "stage c = AwaitHeader" and "read_buffer c = []" and "fragmented_message c = None"
    and "incoming c = client_frame key 0x88 (close_payload status reason) @ later"
    and "length key = 4" and "length reason + 6 < 2 ^ 64" and "0 \<le> status" and "status < 65536"
  shows "server_run (- 1) junk c = c\<lparr>incoming := later, stage := ReadingStopped, closed := True, registered := False,
    sent_frames := sent_frames c @ (if closed c then [] else [server_frame 136 (close_payload status reason)]),
    callbacks := callbacks c @ [ConnectionClosed status reason]\<rparr>"
proof -
  let ?p = "close_payload status reason" and ?l = "of_nat (length (close_payload status reason)) :: u64"
  have len: "length ?p = length reason + 2" by (simp add: close_payload_def)
  have "unat ?l = length ?p" using assms(6) len by (intro unat_length) simp
  then have "(2 :: u64) \<le> ?l" by (simp add: word_le_nat_alt len)
  moreover have "0 \<le> status div 256" "status div 256 < 256" using assms(7,8) by linarith+
  then have "uint (?p ! 0) * 256 + uint (?p ! 1) = status"
    by (simp add: close_payload_def uint_word_of_int mod_pos_pos_trivial)
  moreover have "drop 2 ?p = reason" by (simp add: close_payload_def)
  ultimately have st: "close_status ?l ?p = status" "close_reason ?l ?p = reason"
    by (simp_all add: close_status_def close_reason_def)
  have "server_run (- 1) junk c = server_run (- 1) junk (frame_received 0x88 ?l ?p (c\<lparr>incoming := later\<rparr>))"
    using assms(1-6) by (intro server_run_frame) (simp_all add: fits_unlimited len)
  also have "frame_received 0x88 ?l ?p (c\<lparr>incoming := later\<rparr>) =
      (connection_close status reason (send_close status reason (c\<lparr>incoming := later\<rparr>)))\<lparr>stage := ReadingStopped\<rparr>"
    by (simp add: frame_received_def Let_def st)
  finally show ?thesis
    by (cases c) (simp add: server_run_wait server_step.simps frame_defs)
qed

text \<open>Refused frames: a frame without a mask closes the connection with status 1002, one that would make
  its message larger than the configured maximum is reported as an error and closes it with 1009. In
  both cases the close handler runs once, the connection leaves the endpoint, and the rest of the frame
  is never read.\<close>

theorem bad_frames_refused:
  assumes "stage c = AwaitHeader" and "read_buffer c = []" and "\<not> closed c"
    and "incoming c = opcode # second # later" and "second AND 127 < 126"
    and "second < 128 \<or> \<not> fits m (ucast (second AND 127)) c"
  shows "server_run m junk c =
    (let (status, reason, before) =
         (if second < 128 then (1002, bytes_of ''message from client not masked'', [])
          else (1009, bytes_of ''message too big'', [ConnectionFailed MessageSize]))
     in c\<lparr>incoming := later, stage := ReadingStopped, closed := True, registered := False,
          sent_frames := sent_frames c @ [server_frame 136 (close_payload status reason)],
          callbacks := callbacks c @ before @ [ConnectionClosed status reason]\<rparr>)"
proof -
  let ?c = "c\<lparr>read_buffer := [opcode, second], incoming := later\<rparr>"
  have ne: "second AND 127 \<noteq> 126" "second AND 127 \<noteq> 127" using assms(5) by auto
  have step: "server_step m junk c = Some (header_read m ?c)"
    using assms(1,2,4) by (simp add: server_step.simps async_read_def)
  have "server_run m junk c = header_read m ?c"
    unfolding server_run_step [OF step] using assms(6) ne
    by (intro server_run_wait) (auto simp: server_step.simps header_read_def read_message_content_def fits_def Let_def)
  also have "\<dots> = (let (status, reason, before) =
         (if second < 128 then (1002, bytes_of ''message from client not masked'', [])
          else (1009, bytes_of ''message too big'', [ConnectionFailed MessageSize]))
     in c\<lparr>incoming := later, stage := ReadingStopped, closed := True, registered := False,
          sent_frames := sent_frames c @ [server_frame 136 (close_payload status reason)],
          callbacks := callbacks c @ before @ [ConnectionClosed status reason]\<rparr>)"
    using assms(2,3,6) ne
    by (cases c) (auto simp: header_read_def read_message_content_def fits_def frame_defs Let_def)
  finally show ?thesis .
qed

text \<open>With the default maximum a length close to \<open>2 ^ 64\<close> is not refused, and the number of bytes to wait
  for, four more than the length, wraps around to zero: ten bytes make the server build a message of
  \<open>2 ^ 64 - 4\<close> bytes.\<close>

theorem huge_length_accepted:
  assumes "stage c = AwaitHeader" and "read_buffer c = []" and "fragmented_message c = None"
    and "incoming c = [0x82, 0xFF] @ length_bytes 8 (- 4)"
  shows "\<exists>content. length content = 2 ^ 64 - 4 \<and> server_run (- 1) junk c =
    c\<lparr>incoming := [], callbacks := callbacks c @
      [MessageReceived \<lparr>fin_rsv_opcode = 0x82, msg_length = - 4, msg_content = content\<rparr>]\<rparr>"
proof -
  let ?c = "c\<lparr>stage := AwaitContent (- 4) 0x82, incoming := []\<rparr>"
  have "server_run (- 1) junk c = server_run (- 1) junk ?c"
    using assms(4) by (intro header_steps [OF assms(1,2) fits_unlimited]) (simp add: word_le_nat_alt word_less_nat_alt)
  also have "\<dots> = server_run (- 1) junk (content_read junk (- 4) 0x82 ?c)"
    by (intro server_run_step) (simp add: server_step.simps async_read_def)
  finally have run: "server_run (- 1) junk c = server_run (- 1) junk (content_read junk (- 4) 0x82 ?c)" .
  obtain content where len: "length content = unat (- 4 :: u64)"
    and "content_read junk (- 4) 0x82 ?c =
      frame_received 0x82 (- 4) content (?c\<lparr>read_buffer := drop (unat (- 4 :: u64)) (drop 4 (read_buffer ?c))\<rparr>)"
    using content_read_shape by blast
  then have read: "content_read junk (- 4) 0x82 ?c = frame_received 0x82 (- 4) content ?c"
    using assms(2) by (cases c) simp
  have "(2 :: u8) OR 0x80 = 0x82" by simp
  with fragment_received(4) [of 2 "- 4" content ?c]
  have "frame_received 0x82 (- 4) content ?c = c\<lparr>incoming := [], callbacks := callbacks c @
      [MessageReceived \<lparr>fin_rsv_opcode = 0x82, msg_length = - 4, msg_content = content\<rparr>]\<rparr>"
    using assms(1-3) by (cases c) (simp add: call_def)
  then show ?thesis
    unfolding run read using len assms(1)
    by (intro exI [of _ content]) (simp add: server_run_wait server_step.simps async_read_def)
qed

theorem close_frame_answered_witness:
  "\<forall>junk. server_run (- 1) junk (new_connection (client_frame [1, 2, 3, 4] 0x88 (close_payload 1000 [98, 121, 101]) @ [7])) =
    \<lparr>incoming = [7], read_buffer = [], fragmented_message = None, stage = ReadingStopped, closed = True,
     sent_frames = [server_frame 136 [3, 232, 98, 121, 101]], registered = False,
     callbacks = [ConnectionClosed 1000 [98, 121, 101]]\<rparr>"
proof
  fix junk
  show "server_run (- 1) junk (new_connection (client_frame [1, 2, 3, 4] 0x88 (close_payload 1000 [98, 121, 101]) @ [7])) =
    \<lparr>incoming = [7], read_buffer = [], fragmented_message = None, stage = ReadingStopped, closed = True,
     sent_frames = [server_frame 136 [3, 232, 98, 121, 101]], registered = False,
     callbacks = [ConnectionClosed 1000 [98, 121, 101]]\<rparr>"
    using close_frame_answered [of "new_connection (client_frame [1, 2, 3, 4] 0x88 (close_payload 1000 [98, 121, 101]) @ [7])"
        "[1, 2, 3, 4]" 1000 "[98, 121, 101]" "[7]" junk]
    by (simp add: new_connection_def close_payload_def)
qed

theorem bad_frames_refused_witness:
  "\<forall>junk. callbacks (server_run (- 1) junk (new_connection [0x81, 5, 72])) =
      [ConnectionClosed 1002 (bytes_of ''message from client not masked'')] \<and>
    callbacks (server_run 4 junk (new_connection [0x81, 133, 72])) =
      [ConnectionFailed MessageSize, ConnectionClosed 1009 (bytes_of ''message too big'')]"
proof
  fix junk
  have "(133 :: u8) AND 127 = 5" by simp
  then show "callbacks (server_run (- 1) junk (new_connection [0x81, 5, 72])) =
      [ConnectionClosed 1002 (bytes_of ''message from client not masked'')] \<and>
    callbacks (server_run 4 junk (new_connection [0x81, 133, 72])) =
      [ConnectionFailed MessageSize, ConnectionClosed 1009 (bytes_of ''message too big'')]"
    using bad_frames_refused [of "new_connection [0x81, 5, 72]", where later = "[72]" and m = "- 1" and junk = junk]
      bad_frames_refused [of "new_connection [0x81, 133, 72]", where later = "[72]" and m = 4 and junk = junk]
    by (simp add: new_connection_def fits_def)
qed

theorem huge_length_accepted_witness:
  "\<forall>junk. \<exists>m. callbacks (server_run (- 1) junk (new_connection [0x82, 0xFF, 255, 255, 255, 255, 255, 255, 255, 252])) = [MessageReceived m] \<and>
    length (msg_content m) = 18446744073709551612"
proof
  fix junk
  have "length_bytes 8 (- 4) = [255, 255, 255, 255, 255, 255, 255, 252]"
    by (simp add: length_bytes_def upt_rec)
  then show "\<exists>m. callbacks (server_run (- 1) junk (new_connection [0x82, 0xFF, 255, 255, 255, 255, 255, 255, 255, 252])) = [MessageReceived m] \<and>
      length (msg_content m) = 18446744073709551612"
    using huge_length_accepted [of "new_connection [0x82, 0xFF, 255, 255, 255, 255, 255, 255, 255, 252]" junk]
    by (auto simp: new_connection_def)
qed

text \<open>A whole frame that came behind the handshake, and so lies in the buffer already, is not read
  before two more bytes have arrived: the reader always waits for bytes of the socket.\<close>

theorem buffered_frame_waits:
  assumes "stage c = AwaitHeader" and "incoming c = []"
  shows "server_run m junk (c\<lparr>read_buffer := client_frame key opcode msg\<rparr>) = c\<lparr>read_buffer := client_frame key opcode msg\<rparr>"
  using assms by (intro server_run_wait) (simp add: server_step.simps async_read_def)

end
