(* ===== verification/Ws_Stack.thy ===== *)
theory Ws_Stack
  imports Ws_Service Ws_Frame
begin

text \<open>
  From the bytes on a socket to the stores: the readers of \<open>Ws_Frame\<close> with the callbacks that
  \<^verbatim>\<open>WsTransportServer::setupEndpoints\<close> installs, and the service behind them. \<open>decode\<close> is what \<^verbatim>\<open>read_json\<close> is
  given for the bytes of a message. A callback ends before its connection reads on; those of several
  connections are taken one at a time.
\<close>

section \<open>Readers and service\<close>

record 'w socket_server =
  readers :: "connection_id \<Rightarrow> ws_connection"
  app :: "'w ws_server service"

definition handle_callback ::
  "rating_provider emitter \<Rightarrow> ('t, 'w) ptree_ops \<Rightarrow> (char \<Rightarrow> char \<Rightarrow> bool) \<Rightarrow> (u8 list \<Rightarrow> 'w) \<Rightarrow> time_point
    \<Rightarrow> connection_id \<Rightarrow> ws_error callback \<Rightarrow> 'w ws_server service \<Rightarrow> 'w ws_server service outcome" where
  "handle_callback emit ops iless decode now c cb s =
     (case cb of
        ConnectionOpened \<Rightarrow> (s\<lparr>transport := on_open c (transport s)\<rparr>, None)
      | MessageReceived m \<Rightarrow> ws_receive emit ops iless now c (decode (msg_content m)) s
      | ConnectionClosed status reason \<Rightarrow> (s\<lparr>transport := on_close c (transport s)\<rparr>, None)
      | ConnectionFailed e \<Rightarrow> (s\<lparr>transport := on_error c (transport s)\<rparr>, None)
      | PingReceived \<Rightarrow> (s, None)
      | PongReceived \<Rightarrow> (s, None))"

text \<open>A reader has gone on from \<open>r\<close> to \<open>r'\<close>: its new callbacks run. The limit on messages is the default.\<close>

definition reader_moves ::
  "rating_provider emitter \<Rightarrow> ('t, 'w) ptree_ops \<Rightarrow> (char \<Rightarrow> char \<Rightarrow> bool) \<Rightarrow> (u8 list \<Rightarrow> 'w) \<Rightarrow> time_point
    \<Rightarrow> connection_id \<Rightarrow> ws_connection \<Rightarrow> 'w socket_server \<Rightarrow> 'w socket_server outcome" where
  "reader_moves emit ops iless decode now c r' st =
     (let (s, e) = fold_outcome (handle_callback emit ops iless decode now c)
            (drop (length (callbacks (readers st c))) (callbacks r')) (app st)
      in (st\<lparr>readers := (readers st)(c := r'), app := s\<rparr>, e))"

definition bytes_arrive ::
  "rating_provider emitter \<Rightarrow> ('t, 'w) ptree_ops \<Rightarrow> (char \<Rightarrow> char \<Rightarrow> bool) \<Rightarrow> (u8 list \<Rightarrow> 'w) \<Rightarrow> (nat \<Rightarrow> u8) \<Rightarrow> time_point
    \<Rightarrow> connection_id \<Rightarrow> u8 list \<Rightarrow> 'w socket_server \<Rightarrow> 'w socket_server outcome" where
  "bytes_arrive emit ops iless decode junk now c bytes st =
     reader_moves emit ops iless decode now c (server_run (- 1) junk (arrive bytes (readers st c))) st"

definition socket_fails ::
  "rating_provider emitter \<Rightarrow> ('t, 'w) ptree_ops \<Rightarrow> (char \<Rightarrow> char \<Rightarrow> bool) \<Rightarrow> (u8 list \<Rightarrow> 'w) \<Rightarrow> time_point
    \<Rightarrow> connection_id \<Rightarrow> 'w socket_server \<Rightarrow> 'w socket_server outcome" where
  "socket_fails emit ops iless decode now c st =
     (case read_fails (readers st c) of
        None \<Rightarrow> (st, None)
      | Some r' \<Rightarrow> reader_moves emit ops iless decode now c r' st)"

section \<open>Pieces\<close>

lemma fold_outcome_append: "fold_outcome f (xs @ ys) s = and_then (fold_outcome f xs s) (fold_outcome f ys)"
proof (induction xs arbitrary: s)
  case (Cons x xs)
  have "fold_outcome f (xs @ ys) = (\<lambda>s. and_then (fold_outcome f xs s) (fold_outcome f ys))"
    by (rule ext) (rule Cons.IH)
  then show ?case by (simp add: and_then_assoc)
qed simp

lemma and_then_ok: "and_then r f = (s', None) \<longleftrightarrow> (\<exists>s. r = (s, None) \<and> f s = (s', None))"
  by (cases r; cases "snd r") auto

lemma arrive_append: "arrive (a @ b) c = arrive b (arrive a c)"
  by (simp add: arrive_def)

text \<open>Where nothing throws, bytes may arrive in two pieces.\<close>

lemma bytes_arrive_append:
  assumes "bytes_arrive emit ops iless decode junk now c (a @ b) st = (st', None)"
  shows "and_then (bytes_arrive emit ops iless decode junk now c a st) (bytes_arrive emit ops iless decode junk now c b) = (st', None)"
proof -
  let ?r = "readers st c" and ?h = "handle_callback emit ops iless decode now c"
  let ?r1 = "server_run (- 1) junk (arrive a ?r)"
  let ?r2 = "server_run (- 1) junk (arrive b ?r1)"
  have r2: "server_run (- 1) junk (arrive (a @ b) ?r) = ?r2" by (simp only: arrive_append run_arrive)
  have "callbacks (arrive x r) = callbacks r" for x r by (simp add: arrive_def)
  then obtain x y where cbs: "callbacks ?r1 = callbacks ?r @ x" "callbacks ?r2 = callbacks ?r1 @ y"
    using run_callbacks [of "- 1" junk "arrive a ?r"] run_callbacks [of "- 1" junk "arrive b ?r1"] by metis
  from assms cbs have fold: "fold_outcome ?h (x @ y) (app st) = (app st', None)" and st': "st' = st\<lparr>readers := (readers st)(c := ?r2), app := app st'\<rparr>"
    by (auto simp: bytes_arrive_def reader_moves_def r2 split: prod.splits)
  from fold obtain s1 where s1: "fold_outcome ?h x (app st) = (s1, None)" "fold_outcome ?h y s1 = (app st', None)"
    by (auto simp: fold_outcome_append and_then_ok)
  let ?st1 = "st\<lparr>readers := (readers st)(c := ?r1), app := s1\<rparr>"
  have "bytes_arrive emit ops iless decode junk now c a st = (?st1, None)"
    using s1(1) cbs(1) by (simp add: bytes_arrive_def reader_moves_def)
  moreover have "bytes_arrive emit ops iless decode junk now c b ?st1 = (?st1\<lparr>readers := (readers ?st1)(c := ?r2), app := app st'\<rparr>, None)"
    using s1(2) cbs(2) by (simp add: bytes_arrive_def reader_moves_def)
  ultimately show ?thesis using st' by simp
qed

lemma bytes_arrive_pieces:
  assumes "server_step (- 1) junk (readers st c) = None"
    and "bytes_arrive emit ops iless decode junk now c (concat pieces) st = (st', None)"
  shows "fold_outcome (bytes_arrive emit ops iless decode junk now c) pieces st = (st', None)"
  using assms
proof (induction pieces arbitrary: st)
  case Nil
  have "arrive [] (readers st c) = readers st c" by (simp add: arrive_def)
  with Nil show ?case by (simp add: bytes_arrive_def reader_moves_def server_run_wait)
next
  case (Cons p pieces)
  from Cons.prems(2) bytes_arrive_append [of emit ops iless decode junk now c p "concat pieces" st st'] obtain st1
    where st1: "bytes_arrive emit ops iless decode junk now c p st = (st1, None)"
      "bytes_arrive emit ops iless decode junk now c (concat pieces) st1 = (st', None)" by (auto simp: and_then_ok)
  have "readers st1 c = server_run (- 1) junk (arrive p (readers st c))"
    using st1(1) by (auto simp: bytes_arrive_def reader_moves_def split: prod.splits)
  then have "server_step (- 1) junk (readers st1 c) = None" by (simp add: run_rests)
  from Cons.IH [OF this st1(2)] st1(1) show ?case by simp
qed

text \<open>A failing socket of one client stops the server for all.\<close>

lemma failing_socket_stops_server:
  assumes "stage (readers st c) \<noteq> ReadingStopped"
  shows "stopped (transport (app (fst (socket_fails emit ops iless decode now c st))))"
  using assms by (simp add: socket_fails_def read_fails_def reader_moves_def handle_callback_def on_error_def
      connection_error_def call_def)

section \<open>Properties\<close>

text \<open>C2. From the bytes of a client to its rating, when the clock of the server is inside the period, the user and everybody
  in the table is registered, all ratings are finite and all names plain: the text of a \<^verbatim>\<open>UserConnected\<close> message, split
  into fragments and masked in any way, its bytes arriving in any pieces on an idle connection that is still owned, makes
  the user a connected one and routes the user to that connection; the next data message written to it is a rating
  message with the user's registered record and rating, and the connection is ready for the next frame.\<close>

theorem bytes_bring_rating:
  assumes "wire_laws ops iless" and "ws_of_text ops iless (decode (concat ps)) = Inr (WsData i (connect_message k))"
    and "c \<in> live (transport (app st))" and "service_ok (app st)"
    and "all_registered (userDataStore (app st)) (userRatingProvider (app st))" and "users (userDataStore (app st)) k = Some u"
    and "within (startTime (userRatingProvider (app st))) (endTime (userRatingProvider (app st))) (unsigned_time now)"
    and "\<forall>j b. rating_of (sortedDealContainer (userRatingProvider (app st))) j = Some b \<longrightarrow> f32_finite b"
    and "\<forall>j v. users (userDataStore (app st)) j = Some v \<longrightarrow> plain_text (ui_name v)"
    and "stage (readers st c) = AwaitHeader" and "incoming (readers st c) = []" and "read_buffer (readers st c) = []"
    and "fragmented_message (readers st c) = None"
    and "ps \<noteq> []" and "map snd fs = fragments 1 ps" and "frames_ok fs" and "concat pieces = client_wire fs"
  shows "\<exists>st' r. fold_outcome (bytes_arrive emit ops iless decode junk now c) pieces st = (st', None) \<and>
    k \<in> connectedUsers (app st') \<and> ws_route (transport (app st')) k = Some c \<and>
    ws_received ops iless (transport (app st')) c = ws_received ops iless (transport (app st)) c @ [rating_message r] \<and>
    up_userInformation (ur_userPosition r) = u \<and>
    rating_of (sortedDealContainer (userRatingProvider (app st'))) k = Some (up_amount (ur_userPosition r)) \<and>
    stage (readers st' c) = AwaitHeader \<and> incoming (readers st' c) = []"
proof -
  obtain s' r where s': "ws_receive emit ops iless now c (decode (concat ps)) (app st) = (s', None)" "k \<in> connectedUsers s'"
    "ws_route (transport s') k = Some c"
    "ws_received ops iless (transport s') c = ws_received ops iless (transport (app st)) c @ [rating_message r]"
    "up_userInformation (ur_userPosition r) = u"
    "rating_of (sortedDealContainer (userRatingProvider s')) k = Some (up_amount (ur_userPosition r))"
    using connect_gets_rating [OF assms(1-9), of emit] by blast
  let ?r = "readers st c"
  have run: "server_run (- 1) junk (arrive (client_wire fs) ?r) =
      ?r\<lparr>incoming := [], callbacks := callbacks ?r @ [MessageReceived (whole (1, ps))]\<rparr>"
    using assms(10-16) client_messages_arrive [of fs "[(1, ps)]" "arrive (client_wire fs) ?r" junk] by (simp add: arrive_def)
  let ?st' = "st\<lparr>readers := (readers st)(c := ?r\<lparr>incoming := [], callbacks := callbacks ?r @ [MessageReceived (whole (1, ps))]\<rparr>), app := s'\<rparr>"
  have once: "bytes_arrive emit ops iless decode junk now c (concat pieces) st = (?st', None)"
    using s'(1) by (simp add: bytes_arrive_def assms(17) run reader_moves_def handle_callback_def whole_def)
  have "server_step (- 1) junk ?r = None" using assms(10,11) by (simp add: server_step.simps async_read_def)
  from bytes_arrive_pieces [OF this once] s' assms(10) show ?thesis by (intro exI [of _ ?st'] exI [of _ r]) simp
qed

theorem bytes_bring_rating_witness:
  "\<exists>decode st' r. fold_outcome (bytes_arrive single_emit plain_ops reference_iless decode (\<lambda>_. 0) 1515931932000000000 5)
      [[1], [131, 1, 2], [3, 4, 2, 2, 1], [128, 129, 9, 9, 9, 9, 1]]
      \<lparr>readers = (\<lambda>_. new_connection []), app = example_ws_service\<rparr> = (st', None) \<and>
    ws_received plain_ops reference_iless (transport (app st')) 5 = [rating_message r] \<and>
    up_userInformation (ur_userPosition r) = \<lparr>ui_id = 2, ui_name = ''b''\<rparr>"
proof -
  obtain js where js: "ws_of_text plain_ops reference_iless js = Inr (WsData 0 (connect_message 2))"
    using example_connect_text by blast
  define decode where "decode bytes = (if bytes = [3, 0, 2, 8] then js else new_tree plain_ops)" for bytes :: "u8 list"
  let ?st = "\<lparr>readers = (\<lambda>_. new_connection []), app = example_ws_service\<rparr>"
  let ?fs = "[([1, 2, 3, 4], 1, [3, 0, 2]), ([9, 9, 9, 9], 0x80, [8])] :: (u8 list \<times> u8 \<times> u8 list) list"
  have "ws_of_text plain_ops reference_iless (decode (concat [[3, 0, 2], [8]])) = Inr (WsData 0 (connect_message 2))"
    by (simp add: decode_def js)
  moreover have "concat [[1], [131, 1, 2], [3, 4, 2, 2, 1], [128, 129, 9, 9, 9, 9, 1]] = client_wire ?fs"
    by (simp add: client_wire_def client_frame_def masked_def upt_rec word_le_nat_alt Let_def)
  ultimately show ?thesis
    using bytes_bring_rating [OF plain_wire_laws, of decode "[[3, 0, 2], [8]]" 0 2 5 ?st "\<lparr>ui_id = 2, ui_name = ''b''\<rparr>"
        1515931932000000000 ?fs "[[1], [131, 1, 2], [3, 4, 2, 2, 1], [128, 129, 9, 9, 9, 9, 1]]" single_emit "\<lambda>_. 0"]
      example_ready example_ws_service_ok(1)
    by (simp add: new_connection_def frames_ok_def) blast
qed

end
