(* ===== verification/Ws_Client_Frame.thy ===== *)
theory Ws_Client_Frame
  imports Ws_Frame
begin

text \<open>
  \<^verbatim>\<open>webapi/websockets/client_ws.hpp\<close>, how the client reads frames. A message is a stream of its own: bytes
  are read off the socket into its buffer, and a read that finds too few of them leaves the stream
  failed for good. \<open>num_additional_bytes\<close> is what the code takes to be in the buffer beyond the bytes of
  the last read; the stages carry it. Handlers may run without any byte arriving, so the run has fuel.
  What the client sends is recorded before it is masked.
\<close>

section \<open>Messages as streams\<close>

record in_stream =
  buffer :: "u8 list"
  good :: bool

definition stream_read :: "nat \<Rightarrow> in_stream \<Rightarrow> u8 list \<times> in_stream" where
  "stream_read n s =
     (if \<not> good s then ([], s)
      else if n \<le> length (buffer s) then (take n (buffer s), s\<lparr>buffer := drop n (buffer s)\<rparr>)
      else (buffer s, \<lparr>buffer = [], good = False\<rparr>))"

text \<open>\<^verbatim>\<open>get()\<close>, repeated; at the end it yields \<^verbatim>\<open>EOF\<close>, whose low byte is \<^verbatim>\<open>0xFF\<close>.\<close>

definition stream_get :: "nat \<Rightarrow> in_stream \<Rightarrow> u8 list \<times> in_stream" where
  "stream_get n s =
     (let (got, s') = stream_read n s in (got @ replicate (n - length got) 0xFF, s'))"

record client_message =
  cm_opcode :: u8
  cm_length :: u64
  cm_stream :: in_stream

text \<open>A new message; its opcode is not initialised, and set before it is read.\<close>

definition new_message :: client_message where
  "new_message = \<lparr>cm_opcode = 0, cm_length = 0, cm_stream = \<lparr>buffer = [], good = True\<rparr>\<rparr>"

definition delivered :: "client_message \<Rightarrow> input_message" where
  "delivered m = \<lparr>fin_rsv_opcode = cm_opcode m, msg_length = cm_length m, msg_content = buffer (cm_stream m)\<rparr>"

section \<open>The connection of the client\<close>

datatype client_stage =
    ClientHeader nat
  | ClientLength2 nat
  | ClientLength8 nat
  | ClientContent nat
  | ClientStopped

record client_connection =
  cl_incoming :: "u8 list"
  cl_message :: client_message
  cl_fragmented :: "client_message option"
  cl_stage :: client_stage
  cl_closed :: bool
  cl_sent :: "(u8 \<times> u8 list) list"
  cl_callbacks :: "ws_error callback list"

definition cl_call :: "ws_error callback \<Rightarrow> client_connection \<Rightarrow> client_connection" where
  "cl_call cb c = c\<lparr>cl_callbacks := cl_callbacks c @ [cb]\<rparr>"

definition cl_send :: "u8 \<Rightarrow> u8 list \<Rightarrow> client_connection \<Rightarrow> client_connection" where
  "cl_send opcode msg c = c\<lparr>cl_sent := cl_sent c @ [(opcode, msg)]\<rparr>"

definition cl_send_close :: "int \<Rightarrow> u8 list \<Rightarrow> client_connection \<Rightarrow> client_connection" where
  "cl_send_close status reason c =
     (if cl_closed c then c else cl_send 136 (close_payload status reason) (c\<lparr>cl_closed := True\<rparr>))"

definition cl_connection_close :: "int \<Rightarrow> u8 list \<Rightarrow> client_connection \<Rightarrow> client_connection" where
  "cl_connection_close status reason c = cl_call (ConnectionClosed status reason) c"

text \<open>The bytes to transfer for \<open>n\<close>, and the transfer itself, with the new \<open>num_additional_bytes\<close>.\<close>

definition missing :: "nat \<Rightarrow> nat \<Rightarrow> nat" where
  "missing num_additional_bytes n = (if num_additional_bytes > n then 0 else n - num_additional_bytes)"

definition set_stream :: "in_stream \<Rightarrow> client_connection \<Rightarrow> client_connection" where
  "set_stream s c = c\<lparr>cl_message := (cl_message c)\<lparr>cm_stream := s\<rparr>\<rparr>"

definition cl_read :: "nat \<Rightarrow> client_connection \<Rightarrow> (nat \<times> client_connection) option" where
  "cl_read t c =
     (if t \<le> length (cl_incoming c) then
        let s = cm_stream (cl_message c); b = buffer s @ take t (cl_incoming c)
        in Some (length b - t, (set_stream (s\<lparr>buffer := b\<rparr>) c)\<lparr>cl_incoming := drop t (cl_incoming c)\<rparr>)
      else None)"

section \<open>Reading a frame\<close>

definition cl_read_message_content :: "u64 \<Rightarrow> u64 \<Rightarrow> nat \<Rightarrow> client_connection \<Rightarrow> client_connection" where
  "cl_read_message_content max_message_size l num_additional_bytes c =
     (let c = c\<lparr>cl_message := (cl_message c)\<lparr>cm_length := l\<rparr>\<rparr>
      in if l + (case cl_fragmented c of None \<Rightarrow> 0 | Some m \<Rightarrow> cm_length m) > max_message_size then
           (cl_connection_close 1009 (bytes_of ''message too big'')
              (cl_send_close 1009 (bytes_of ''message too big'') (cl_call (ConnectionFailed MessageSize) c)))
             \<lparr>cl_stage := ClientStopped\<rparr>
         else c\<lparr>cl_stage := ClientContent num_additional_bytes\<rparr>)"

definition cl_header_read ::
  "u64 \<Rightarrow> (nat \<Rightarrow> u8) \<Rightarrow> nat \<Rightarrow> nat \<times> client_connection \<Rightarrow> client_connection" where
  "cl_header_read max_message_size junk bytes_transferred r =
     (case r of (num_additional_bytes, c) \<Rightarrow>
        if bytes_transferred = 0 \<and> buffer (cm_stream (cl_message c)) = [] then c\<lparr>cl_stage := ClientHeader 0\<rparr>
        else
          let (got, s) = stream_read 2 (cm_stream (cl_message c));
              first_bytes = (\<lambda>i. if i < length got then got ! i else junk i);
              c = c\<lparr>cl_message := (cl_message c)\<lparr>cm_stream := s, cm_opcode := first_bytes 0\<rparr>\<rparr>
          in if 128 \<le> first_bytes 1 then
               (cl_connection_close 1002 (bytes_of ''message from server masked'')
                  (cl_send_close 1002 (bytes_of ''message from server masked'') c))\<lparr>cl_stage := ClientStopped\<rparr>
             else if first_bytes 1 AND 127 = 126 then c\<lparr>cl_stage := ClientLength2 num_additional_bytes\<rparr>
             else if first_bytes 1 AND 127 = 127 then c\<lparr>cl_stage := ClientLength8 num_additional_bytes\<rparr>
             else cl_read_message_content max_message_size (ucast (first_bytes 1 AND 127)) num_additional_bytes c)"

definition cl_length_read ::
  "u64 \<Rightarrow> (nat \<Rightarrow> u8) \<Rightarrow> nat \<Rightarrow> nat \<times> client_connection \<Rightarrow> client_connection" where
  "cl_length_read max_message_size junk num_bytes r =
     (case r of (num_additional_bytes, c) \<Rightarrow>
        let (got, s) = stream_read num_bytes (cm_stream (cl_message c));
            length_bytes = map (\<lambda>i. if i < length got then got ! i else junk i) [0..<num_bytes]
        in cl_read_message_content max_message_size (length_value length_bytes) num_additional_bytes (set_stream s c))"

text \<open>Where the buffer holds more than the message, the message gets a stream of its own, and the rest
  stays behind for the next one.\<close>

definition split_message :: "nat \<times> client_connection \<Rightarrow> client_message \<times> client_connection" where
  "split_message r =
     (case r of (num_additional_bytes, c) \<Rightarrow>
        if 0 < num_additional_bytes then
          let (content, s) = stream_get (unat (cm_length (cl_message c))) (cm_stream (cl_message c))
          in ((cl_message c)\<lparr>cm_stream := s\<rparr>,
              c\<lparr>cl_message := (cl_message c)\<lparr>cm_stream := \<lparr>buffer = content, good = True\<rparr>\<rparr>\<rparr>)
        else (new_message, c))"

definition cl_append :: "client_message \<Rightarrow> client_message \<Rightarrow> client_message" where
  "cl_append m n = m\<lparr>cm_length := cm_length m + cm_length n,
     cm_stream := (cm_stream m)\<lparr>buffer := buffer (cm_stream m) @ buffer (cm_stream n)\<rparr>\<rparr>"

definition cl_next :: "nat \<Rightarrow> client_message \<Rightarrow> client_connection \<Rightarrow> client_connection" where
  "cl_next num_additional_bytes next_message c =
     c\<lparr>cl_message := next_message, cl_stage := ClientHeader num_additional_bytes\<rparr>"

definition cl_close_received :: "client_connection \<Rightarrow> client_connection" where
  "cl_close_received c =
     (let m = cl_message c;
          (b, s) = (if 2 \<le> cm_length m then stream_get 2 (cm_stream m) else ([0, 0], cm_stream m));
          status = uint (b ! 0) * 256 + uint (b ! 1); reason = buffer s
      in (cl_connection_close status reason (cl_send_close status reason (set_stream s c)))\<lparr>cl_stage := ClientStopped\<rparr>)"

definition cl_content_read :: "nat \<times> client_connection \<Rightarrow> client_connection" where
  "cl_content_read r =
     (let num_additional_bytes = fst r; (next_message, c) = split_message r; m = cl_message c;
          opcode = cm_opcode m
      in if opcode AND 0x0f = 8 then cl_close_received c
         else if opcode AND 0x0f = 9 then
           cl_next num_additional_bytes next_message (cl_call PingReceived (cl_send (opcode + 1) [] c))
         else if opcode AND 0x0f = 10 then
           cl_next num_additional_bytes next_message (cl_call PongReceived c)
         else if opcode AND 0x80 = 0 then
           cl_next num_additional_bytes next_message
             (c\<lparr>cl_fragmented := Some (case cl_fragmented c of
                  None \<Rightarrow> m\<lparr>cm_opcode := opcode OR 0x80\<rparr> | Some f \<Rightarrow> cl_append f m)\<rparr>)
         else
           cl_next num_additional_bytes next_message
             ((cl_call (MessageReceived (delivered (case cl_fragmented c of None \<Rightarrow> m | Some f \<Rightarrow> cl_append f m))) c)
               \<lparr>cl_fragmented := None\<rparr>))"

fun client_step :: "u64 \<Rightarrow> (nat \<Rightarrow> u8) \<Rightarrow> client_connection \<Rightarrow> client_connection option" where
  "client_step max_message_size junk c =
     (case cl_stage c of
        ClientHeader num \<Rightarrow>
          map_option (cl_header_read max_message_size junk (missing num 2)) (cl_read (missing num 2) c)
      | ClientLength2 num \<Rightarrow> map_option (cl_length_read max_message_size junk 2) (cl_read (missing num 2) c)
      | ClientLength8 num \<Rightarrow> map_option (cl_length_read max_message_size junk 8) (cl_read (missing num 8) c)
      | ClientContent num \<Rightarrow>
          map_option cl_content_read (cl_read (missing num (unat (cm_length (cl_message c)))) c)
      | ClientStopped \<Rightarrow> None)"

declare client_step.simps [simp del]

fun client_run :: "nat \<Rightarrow> u64 \<Rightarrow> (nat \<Rightarrow> u8) \<Rightarrow> client_connection \<Rightarrow> client_connection" where
  "client_run 0 max_message_size junk c = c"
| "client_run (Suc fuel) max_message_size junk c =
     (case client_step max_message_size junk c of
        None \<Rightarrow> c
      | Some c' \<Rightarrow> client_run fuel max_message_size junk c')"

lemma client_run_more: "client_step m junk (client_run n m junk c) = None \<Longrightarrow> client_run (n + k) m junk c = client_run n m junk c"
proof (induction n arbitrary: c)
  case 0
  then show ?case by (cases k) simp_all
next
  case (Suc n)
  then show ?case by (cases "client_step m junk c") simp_all
qed

section \<open>Reading what the server sends\<close>

lemma short_length_plain:
  assumes "l < (126 :: u64)"
  shows "\<not> 128 \<le> (ucast l :: u8)" and "(ucast l :: u8) AND 127 = ucast l"
proof -
  define n where "n = unat l"
  have n: "n < 126" "l = of_nat n" using assms by (simp_all add: n_def word_less_nat_alt)
  have b: "unat (ucast l :: u8) = n"
    using n by (simp add: unsigned_ucast_eq unat_of_nat take_bit_eq_mod)
  show "\<not> 128 \<le> (ucast l :: u8)" using n(1) by (simp add: word_le_nat_alt b)
  have "(ucast l :: u8) AND 127 = take_bit 7 (ucast l)"
    by (simp add: take_bit_eq_mask mask_eq_exp_minus_1)
  also have "\<dots> = ucast l"
  proof (rule word_unat_eq_iff [THEN iffD2])
    have "unat (take_bit 7 (ucast l :: u8)) = take_bit 7 n" by (simp only: unsigned_take_bit_eq b)
    also have "\<dots> = n" using n(1) by (simp add: take_bit_eq_mod)
    finally show "unat (take_bit 7 (ucast l :: u8)) = unat (ucast l :: u8)" by (simp only: b)
  qed
  finally show "(ucast l :: u8) AND 127 = ucast l" .
qed

text \<open>\<open>leads c c'\<close>: some number of handlers take \<open>c\<close> to \<open>c'\<close>.\<close>

definition leads :: "u64 \<Rightarrow> (nat \<Rightarrow> u8) \<Rightarrow> client_connection \<Rightarrow> client_connection \<Rightarrow> bool" where
  "leads m junk c c' \<longleftrightarrow> (\<exists>k. \<forall>n. client_run (k + n) m junk c = client_run n m junk c')"

lemma leads_refl: "leads m junk c c"
  unfolding leads_def by (rule exI [of _ 0]) simp

lemma leads_step: "client_step m junk c = Some c' \<Longrightarrow> leads m junk c' c'' \<Longrightarrow> leads m junk c c''"
proof -
  assume step: "client_step m junk c = Some c'" and "leads m junk c' c''"
  then obtain k where "client_run (k + n) m junk c' = client_run n m junk c''" for n
    by (auto simp: leads_def)
  then show ?thesis unfolding leads_def by (intro exI [of _ "Suc k"]) (simp add: step)
qed

lemma leads_trans: "leads m junk c c' \<Longrightarrow> leads m junk c' c'' \<Longrightarrow> leads m junk c c''"
proof -
  assume "leads m junk c c'" "leads m junk c' c''"
  then obtain k k' where "client_run (k + n) m junk c = client_run n m junk c'"
    "client_run (k' + n) m junk c' = client_run n m junk c''" for n
    unfolding leads_def by blast
  then show ?thesis unfolding leads_def by (intro exI [of _ "k + k'"]) (simp add: add.assoc)
qed

definition ready_for :: "u8 \<Rightarrow> u64 \<Rightarrow> u8 list \<Rightarrow> client_connection \<Rightarrow> client_connection" where
  "ready_for opcode l later c = c\<lparr>cl_stage := ClientContent 0, cl_incoming := later,
     cl_message := \<lparr>cm_opcode = opcode, cm_length = l, cm_stream = \<lparr>buffer = [], good = True\<rparr>\<rparr>\<rparr>"

lemma cl_header_steps:
  assumes "cl_stage c = ClientHeader 0" and "cl_message c = new_message" and "cl_fragmented c = None"
    and "cl_incoming c = opcode # (if 126 \<le> l then
        if 0xffff < l then 127 # length_bytes 8 l else 126 # length_bytes 2 l
      else [ucast l]) @ rest"
  shows "leads (- 1) junk c (ready_for opcode l rest c)"
proof -
  have take_all: "map (\<lambda>i. if i < length bs then bs ! i else junk i) [0..<length bs] = bs" for bs
    by (auto intro!: nth_equalityI)
  consider (short) "l < 126" | (medium) "126 \<le> l" "l \<le> 0xffff" | (long) "126 \<le> l" "0xffff < l" by (meson not_le)
  then show ?thesis
  proof cases
    case short
    have "client_step (- 1) junk c = Some (ready_for opcode l rest c)"
      using assms short short_length_plain [OF short] short_length(3-5) [OF short]
      by (cases c) (simp add: client_step.simps cl_read_def set_stream_def cl_header_read_def stream_read_def missing_def
          new_message_def cl_read_message_content_def ready_for_def Let_def)
    then show ?thesis by (intro leads_step [OF _ leads_refl])
  next
    case medium
    let ?c = "c\<lparr>cl_stage := ClientLength2 0, cl_incoming := length_bytes 2 l @ rest,
      cl_message := new_message\<lparr>cm_opcode := opcode\<rparr>\<rparr>"
    have "client_step (- 1) junk c = Some ?c"
      using assms medium
      by (cases c) (simp add: client_step.simps cl_read_def set_stream_def cl_header_read_def stream_read_def missing_def
          new_message_def Let_def)
    moreover have "client_step (- 1) junk ?c = Some (ready_for opcode l rest c)"
      using assms(3) length_value_2 [OF medium(2)] take_all [of "length_bytes 2 l"]
      by (cases c) (simp add: client_step.simps cl_read_def set_stream_def cl_length_read_def stream_read_def missing_def
          new_message_def cl_read_message_content_def ready_for_def Let_def)
    ultimately show ?thesis by (blast intro: leads_step leads_refl)
  next
    case long
    let ?c = "c\<lparr>cl_stage := ClientLength8 0, cl_incoming := length_bytes 8 l @ rest,
      cl_message := new_message\<lparr>cm_opcode := opcode\<rparr>\<rparr>"
    have "client_step (- 1) junk c = Some ?c"
      using assms long
      by (cases c) (simp add: client_step.simps cl_read_def set_stream_def cl_header_read_def stream_read_def missing_def
          new_message_def Let_def)
    moreover have "client_step (- 1) junk ?c = Some (ready_for opcode l rest c)"
      using assms(3) length_value_8 [of l] take_all [of "length_bytes 8 l"]
      by (cases c) (simp add: client_step.simps cl_read_def set_stream_def cl_length_read_def stream_read_def missing_def
          new_message_def cl_read_message_content_def ready_for_def Let_def)
    ultimately show ?thesis by (blast intro: leads_step leads_refl)
  qed
qed

lemma client_frame_arrives:
  assumes "cl_stage c = ClientHeader 0" and "cl_message c = new_message" and "cl_fragmented c = None"
    and "cl_incoming c = server_frame opcode msg @ later" and "length msg < 2 ^ 64" and "opcode = 0x81 \<or> opcode = 0x82"
  shows "leads (- 1) junk c (cl_call (MessageReceived
    \<lparr>fin_rsv_opcode = opcode, msg_length = of_nat (length msg), msg_content = msg\<rparr>) (c\<lparr>cl_incoming := later\<rparr>))"
proof -
  let ?l = "of_nat (length msg) :: u64"
  have "leads (- 1) junk c (ready_for opcode ?l (msg @ later) c)"
    using assms(4) by (intro cl_header_steps [OF assms(1-3)]) (simp add: server_frame_bytes Let_def)
  moreover have "client_step (- 1) junk (ready_for opcode ?l (msg @ later) c) =
      Some (cl_call (MessageReceived \<lparr>fin_rsv_opcode = opcode, msg_length = ?l, msg_content = msg\<rparr>) (c\<lparr>cl_incoming := later\<rparr>))"
    using assms unat_length [OF assms(5)]
    by (cases c) (auto simp: client_step.simps ready_for_def missing_def cl_read_def set_stream_def cl_content_read_def
        split_message_def cl_next_def cl_call_def delivered_def Let_def)
  ultimately show ?thesis by (blast intro: leads_trans leads_step leads_refl)
qed

lemma small_length:
  assumes "n < 126"
  shows "(of_nat n :: u64) < 126" and "(ucast (of_nat n :: u64) :: u8) = of_nat n" and "unat (of_nat n :: u64) = n"
proof -
  show n: "unat (of_nat n :: u64) = n" using assms by (intro unat_length) simp
  show "(of_nat n :: u64) < 126" using assms by (simp add: word_less_nat_alt n)
  show "(ucast (of_nat n :: u64) :: u8) = of_nat n" using assms by (simp add: unsigned_of_nat take_bit_nat_eq_self)
qed

section \<open>Properties\<close>

text \<open>What the server sends arrives: the client calls its message handler once for each message, in
  order, with the bytes that were sent, and then waits for the next frame.\<close>

theorem server_messages_arrive:
  assumes "cl_stage c = ClientHeader 0" and "cl_message c = new_message" and "cl_fragmented c = None"
    and "\<forall>(opcode, msg) \<in> set ms. (opcode = 0x81 \<or> opcode = 0x82) \<and> length msg < 2 ^ 64"
    and "cl_incoming c = concat (map (\<lambda>(opcode, msg). server_frame opcode msg) ms)"
  shows "\<exists>k. \<forall>n. client_run (k + n) (- 1) junk c = c\<lparr>cl_incoming := [], cl_callbacks := cl_callbacks c @
    map (\<lambda>(opcode, msg). MessageReceived
      \<lparr>fin_rsv_opcode = opcode, msg_length = of_nat (length msg), msg_content = msg\<rparr>) ms\<rparr>"
proof -
  let ?fin = "\<lambda>c ms. c\<lparr>cl_incoming := [], cl_callbacks := cl_callbacks c @
    map (\<lambda>(opcode, msg). MessageReceived
      \<lparr>fin_rsv_opcode = opcode, msg_length = of_nat (length msg), msg_content = msg\<rparr>) ms\<rparr>"
  have "leads (- 1) junk c (?fin c ms)"
    using assms
  proof (induction ms arbitrary: c)
    case Nil
    then have "?fin c [] = c" by simp
    then show ?case by (simp add: leads_refl)
  next
    case (Cons m ms)
    obtain opcode msg where m: "m = (opcode, msg)" by (cases m)
    let ?c = "cl_call (MessageReceived \<lparr>fin_rsv_opcode = opcode, msg_length = of_nat (length msg), msg_content = msg\<rparr>)
      (c\<lparr>cl_incoming := concat (map (\<lambda>(opcode, msg). server_frame opcode msg) ms)\<rparr>)"
    have first: "leads (- 1) junk c ?c"
      using Cons.prems by (intro client_frame_arrives) (auto simp: m)
    have rest: "leads (- 1) junk ?c (?fin ?c ms)"
      using Cons.prems by (intro Cons.IH) (simp_all add: cl_call_def)
    have "?fin ?c ms = ?fin c (m # ms)" by (simp add: m cl_call_def)
    with leads_trans [OF first rest] show ?case by (simp only:)
  qed
  then obtain k where k: "client_run (k + n) (- 1) junk c = client_run n (- 1) junk (?fin c ms)" for n
    unfolding leads_def by blast
  have "client_step (- 1) junk (?fin c ms) = None"
    using assms(1) by (simp add: client_step.simps missing_def cl_read_def)
  then have "client_run n (- 1) junk (?fin c ms) = ?fin c ms" for n
    by (cases n) simp_all
  with k show ?thesis by (intro exI [of _ k] allI) (simp only:)
qed

definition new_client :: "u8 list \<Rightarrow> client_connection" where
  "new_client bytes = \<lparr>cl_incoming = bytes, cl_message = new_message, cl_fragmented = None,
     cl_stage = ClientHeader 0, cl_closed = False, cl_sent = [], cl_callbacks = []\<rparr>"

theorem server_messages_arrive_witness:
  "\<forall>junk. \<exists>k. client_run k (- 1) junk (new_client (server_frame 0x81 [72, 105] @ server_frame 0x82 [])) =
    (new_client [])\<lparr>cl_callbacks := [
      MessageReceived \<lparr>fin_rsv_opcode = 0x81, msg_length = 2, msg_content = [72, 105]\<rparr>,
      MessageReceived \<lparr>fin_rsv_opcode = 0x82, msg_length = 0, msg_content = []\<rparr>]\<rparr>"
proof
  fix junk
  obtain k where "\<forall>n. client_run (k + n) (- 1) junk (new_client (server_frame 0x81 [72, 105] @ server_frame 0x82 [])) =
    (new_client [])\<lparr>cl_callbacks := [
      MessageReceived \<lparr>fin_rsv_opcode = 0x81, msg_length = 2, msg_content = [72, 105]\<rparr>,
      MessageReceived \<lparr>fin_rsv_opcode = 0x82, msg_length = 0, msg_content = []\<rparr>]\<rparr>"
    using server_messages_arrive [of "new_client (server_frame 0x81 [72, 105] @ server_frame 0x82 [])"
        "[(0x81, [72, 105]), (0x82, [])]" junk]
    by (auto simp: new_client_def)
  then show "\<exists>k. client_run k (- 1) junk (new_client (server_frame 0x81 [72, 105] @ server_frame 0x82 [])) =
    (new_client [])\<lparr>cl_callbacks := [
      MessageReceived \<lparr>fin_rsv_opcode = 0x81, msg_length = 2, msg_content = [72, 105]\<rparr>,
      MessageReceived \<lparr>fin_rsv_opcode = 0x82, msg_length = 0, msg_content = []\<rparr>]\<rparr>" by blast
qed

text \<open>C38. A whole text message of fewer than 126 bytes whose header and first byte of content, at least, come along with the
  handshake, and of which two bytes or more are still to come, is corrupted: \<^verbatim>\<open>num_additional_bytes\<close> still counts the
  two header bytes when the content is read, so two bytes too few are waited for, and the message handler
  gets \<^verbatim>\<open>0xFF\<close> in place of the last two bytes of the message.\<close>

theorem frame_behind_handshake_corrupted:
  assumes "cl_stage c = ClientHeader (2 + length p)" and "cl_fragmented c = None" and "p \<noteq> []"
    and "cl_message c = new_message\<lparr>cm_stream := \<lparr>buffer = [0x81, of_nat n] @ p, good = True\<rparr>\<rparr>"
    and "cl_incoming c = q" and "2 \<le> length q" and "length p + length q = n" and "n < 126"
  shows "\<exists>k. cl_callbacks (client_run k (- 1) junk c) = cl_callbacks c @ [MessageReceived
    \<lparr>fin_rsv_opcode = 0x81, msg_length = of_nat n,
     msg_content = p @ take (length q - 2) q @ [0xFF, 0xFF]\<rparr>]"
proof -
  let ?l = "of_nat n :: u64" and ?k = "2 + length p"
  have l: "?l < 126" "(ucast ?l :: u8) = of_nat n" "unat ?l = n"
    by (rule small_length [OF assms(8)])+
  define c1 where "c1 = c\<lparr>cl_stage := ClientContent ?k, cl_message :=
    \<lparr>cm_opcode = 0x81, cm_length = ?l, cm_stream = \<lparr>buffer = p, good = True\<rparr>\<rparr>\<rparr>"
  have "missing ?k 2 = 0" using assms(3) by (simp add: missing_def)
  then have first: "client_step (- 1) junk c = Some c1"
    using assms(1-4) short_length_plain [OF l(1)] short_length(3-5) [OF l(1)]
    by (cases c) (simp add: client_step.simps cl_read_def set_stream_def cl_header_read_def stream_read_def
        new_message_def cl_read_message_content_def Let_def l(2) c1_def)
  let ?got = "p @ take (length q - 2) q"
  let ?m = "\<lparr>cm_opcode = 0x81, cm_length = ?l, cm_stream = \<lparr>buffer = ?got, good = True\<rparr>\<rparr>"
  define c2 where "c2 = c1\<lparr>cl_message := ?m, cl_incoming := drop (length q - 2) q\<rparr>"
  have "missing ?k (unat ?l) = length q - 2"
    using assms(6,7) by (auto simp: missing_def l(3))
  then have read: "cl_read (missing ?k (unat ?l)) c1 = Some (length p, c2)"
    using assms(5,6) by (simp add: cl_read_def set_stream_def c1_def c2_def Let_def)
  have got: "length ?got = n - 2" "\<not> n \<le> n - 2" "n - (n - 2) = 2" using assms(6,7) by auto
  have "replicate 2 (0xFF :: u8) = [0xFF, 0xFF]" by (simp add: numeral_2_eq_2)
  with got have get: "stream_get n \<lparr>buffer = ?got, good = True\<rparr> = (?got @ [0xFF, 0xFF], \<lparr>buffer = [], good = False\<rparr>)"
    by (simp only: stream_get_def stream_read_def Let_def in_stream.simps if_True if_False not_True_eq_False split)
  have content: "cl_content_read (length p, c2) = cl_next (length p) (?m\<lparr>cm_stream := \<lparr>buffer = [], good = False\<rparr>\<rparr>)
      ((cl_call (MessageReceived \<lparr>fin_rsv_opcode = 0x81, msg_length = ?l, msg_content = ?got @ [0xFF, 0xFF]\<rparr>)
        (c2\<lparr>cl_message := ?m\<lparr>cm_stream := \<lparr>buffer = ?got @ [0xFF, 0xFF], good = True\<rparr>\<rparr>\<rparr>))\<lparr>cl_fragmented := None\<rparr>)"
    using assms(2,3) by (simp add: cl_content_read_def split_message_def c2_def c1_def l(3) get delivered_def cl_call_def)
  have "client_step (- 1) junk c1 = Some (cl_content_read (length p, c2))"
    using read by (simp add: client_step.simps c1_def)
  moreover have "cl_callbacks (cl_content_read (length p, c2)) =
      cl_callbacks c @ [MessageReceived \<lparr>fin_rsv_opcode = 0x81, msg_length = ?l, msg_content = ?got @ [0xFF, 0xFF]\<rparr>]"
    unfolding content by (simp add: cl_next_def cl_call_def c1_def c2_def)
  ultimately show ?thesis
    using first by (intro exI [of _ "Suc (Suc 0)"]) simp
qed

theorem frame_behind_handshake_corrupted_witness:
  "\<forall>junk. \<exists>k. cl_callbacks (client_run k (- 1) junk
      ((new_client [101, 108, 108, 111])\<lparr>cl_stage := ClientHeader 3,
        cl_message := new_message\<lparr>cm_stream := \<lparr>buffer = [0x81, 5, 104], good = True\<rparr>\<rparr>\<rparr>)) =
    [MessageReceived \<lparr>fin_rsv_opcode = 0x81, msg_length = 5, msg_content = [104, 101, 108, 0xFF, 0xFF]\<rparr>]"
proof
  fix junk
  show "\<exists>k. cl_callbacks (client_run k (- 1) junk
      ((new_client [101, 108, 108, 111])\<lparr>cl_stage := ClientHeader 3,
        cl_message := new_message\<lparr>cm_stream := \<lparr>buffer = [0x81, 5, 104], good = True\<rparr>\<rparr>\<rparr>)) =
    [MessageReceived \<lparr>fin_rsv_opcode = 0x81, msg_length = 5, msg_content = [104, 101, 108, 0xFF, 0xFF]\<rparr>]"
    using frame_behind_handshake_corrupted [of "(new_client [101, 108, 108, 111])\<lparr>cl_stage := ClientHeader 3,
        cl_message := new_message\<lparr>cm_stream := \<lparr>buffer = [0x81, 5, 104], good = True\<rparr>\<rparr>\<rparr>" "[104]" 5 "[101, 108, 108, 111]" junk]
    by (simp add: new_client_def)
qed

end
