(* ===== verification/Ws_Loop.thy ===== *)
theory Ws_Loop
  imports Ws_Stack Ws_Client_Frame
begin

text \<open>
  Both ends of a WebSocket connection, from the push of a message to the acknowledgement: the callbacks
  that \<^verbatim>\<open>WsTransportClient::connect\<close> installs, on the reader of \<open>Ws_Client_Frame\<close>. What leaves the message handler
  of the client is recorded. An exception leaves the client's thread, as no callback catches it.
\<close>

section \<open>The client\<close>

record 'w socket_client =
  sc_reader :: client_connection
  sc_transport :: "'w ws_client"
  sc_handled :: "base_message list"

definition client_callback ::
  "('t, 'w) ptree_ops \<Rightarrow> (char \<Rightarrow> char \<Rightarrow> bool) \<Rightarrow> (u8 list \<Rightarrow> 'w) \<Rightarrow> connection_id \<Rightarrow> ws_error callback
    \<Rightarrow> 'w socket_client \<Rightarrow> 'w socket_client outcome" where
  "client_callback ops iless decode c cb s =
     (case cb of
        ConnectionOpened \<Rightarrow> (s\<lparr>sc_transport := client_on_open c (sc_transport s)\<rparr>, None)
      | MessageReceived m \<Rightarrow>
          (let (t, message) = client_on_message ops iless c (decode (msg_content m)) (sc_transport s);
               s = s\<lparr>sc_transport := t\<rparr>
           in case message of
                Inl e \<Rightarrow> (s, Some e)
              | Inr None \<Rightarrow> (s, None)
              | Inr (Some x) \<Rightarrow> (s\<lparr>sc_handled := sc_handled s @ [x]\<rparr>, None))
      | ConnectionClosed status reason \<Rightarrow> (s\<lparr>sc_transport := client_stop (sc_transport s)\<rparr>, None)
      | ConnectionFailed e \<Rightarrow> (s\<lparr>sc_transport := client_stop (sc_transport s)\<rparr>, None)
      | PingReceived \<Rightarrow> (s, None)
      | PongReceived \<Rightarrow> (s, None))"

text \<open>Bytes arrive, and up to \<open>fuel\<close> handlers of the reader run, with their callbacks.\<close>

definition client_bytes_arrive ::
  "nat \<Rightarrow> ('t, 'w) ptree_ops \<Rightarrow> (char \<Rightarrow> char \<Rightarrow> bool) \<Rightarrow> (u8 list \<Rightarrow> 'w) \<Rightarrow> (nat \<Rightarrow> u8) \<Rightarrow> connection_id \<Rightarrow> u8 list
    \<Rightarrow> 'w socket_client \<Rightarrow> 'w socket_client outcome" where
  "client_bytes_arrive fuel ops iless decode junk c bytes s =
     (let r = sc_reader s; r' = client_run fuel (- 1) junk (r\<lparr>cl_incoming := cl_incoming r @ bytes\<rparr>)
      in fold_outcome (client_callback ops iless decode c) (drop (length (cl_callbacks r)) (cl_callbacks r'))
           (s\<lparr>sc_reader := r'\<rparr>))"

definition client_idle :: "'w socket_client \<Rightarrow> bool" where
  "client_idle s \<longleftrightarrow> cl_stage (sc_reader s) = ClientHeader 0 \<and> cl_message (sc_reader s) = new_message \<and>
     cl_fragmented (sc_reader s) = None \<and> cl_incoming (sc_reader s) = []"

definition server_idle :: "connection_id \<Rightarrow> 'w socket_server \<Rightarrow> bool" where
  "server_idle c st \<longleftrightarrow> stage (readers st c) = AwaitHeader \<and> incoming (readers st c) = [] \<and>
     read_buffer (readers st c) = [] \<and> fragmented_message (readers st c) = None"

section \<open>One message each way\<close>

text \<open>A text from the server arrives at the client, for enough fuel; one from the client at the server.\<close>

lemma client_gets_text:
  assumes "client_idle s" and "length bytes < 2 ^ 64"
    and "client_callback ops iless decode d (MessageReceived
      \<lparr>fin_rsv_opcode = 0x81, msg_length = of_nat (length bytes), msg_content = bytes\<rparr>)
      (s\<lparr>sc_reader := (sc_reader s)\<lparr>cl_callbacks := cl_callbacks (sc_reader s) @ [MessageReceived
        \<lparr>fin_rsv_opcode = 0x81, msg_length = of_nat (length bytes), msg_content = bytes\<rparr>]\<rparr>\<rparr>) = (s', None)"
  shows "\<exists>fuel0. \<forall>n. client_bytes_arrive (fuel0 + n) ops iless decode junk d (server_frame 0x81 bytes) s = (s', None)"
proof -
  let ?r = "sc_reader s" and ?m = "\<lparr>fin_rsv_opcode = 0x81, msg_length = of_nat (length bytes), msg_content = bytes\<rparr>"
  let ?in = "?r\<lparr>cl_incoming := cl_incoming ?r @ server_frame 0x81 bytes\<rparr>"
  have "\<exists>k. \<forall>n. client_run (k + n) (- 1) junk ?in = ?in\<lparr>cl_incoming := [], cl_callbacks := cl_callbacks ?in @
      map (\<lambda>(opcode, msg). MessageReceived
        \<lparr>fin_rsv_opcode = opcode, msg_length = of_nat (length msg), msg_content = msg\<rparr>) [(0x81, bytes)]\<rparr>"
    using assms(1,2) by (intro server_messages_arrive) (simp_all add: client_idle_def)
  then obtain k where k: "\<forall>n. client_run (k + n) (- 1) junk ?in = ?r\<lparr>cl_callbacks := cl_callbacks ?r @ [MessageReceived ?m]\<rparr>"
    using assms(1) by (cases ?r) (auto simp: client_idle_def)
  have "client_bytes_arrive (k + n) ops iless decode junk d (server_frame 0x81 bytes) s = (s', None)" for n
    using assms(3) by (simp add: client_bytes_arrive_def k)
  then show ?thesis by blast
qed

lemma server_gets_text:
  assumes "server_idle c st" and "length bytes + 4 < 2 ^ 64" and "length key = 4"
    and "ws_receive emit ops iless now c (decode bytes) (app st) = (s', None)"
  shows "\<exists>r. bytes_arrive emit ops iless decode junk now c (client_frame key 0x81 bytes) st =
      (st\<lparr>readers := (readers st)(c := r), app := s'\<rparr>, None) \<and> server_idle c (st\<lparr>readers := (readers st)(c := r), app := s'\<rparr>)"
proof -
  let ?r = "readers st c"
  have "server_run (- 1) junk (arrive (client_wire [(key, 0x81, bytes)]) ?r) =
      ?r\<lparr>incoming := [], callbacks := callbacks ?r @ [MessageReceived (whole (1, [bytes]))]\<rparr>"
    using assms(1-3) client_messages_arrive [of "[(key, 0x81, bytes)]" "[(1, [bytes])]" "arrive (client_wire [(key, 0x81, bytes)]) ?r" junk]
    by (simp add: arrive_def server_idle_def frames_ok_def)
  then show ?thesis
    using assms(1,4) by (intro exI [of _ "?r\<lparr>incoming := [], callbacks := callbacks ?r @ [MessageReceived (whole (1, [bytes]))]\<rparr>"])
      (simp add: bytes_arrive_def reader_moves_def client_wire_def handle_callback_def whole_def server_idle_def)
qed

lemma acknowledgement_received:
  assumes "ws_of_text ops iless ack = Inr (WsAck i)"
  shows "ws_receive emit ops iless now c ack s = (s\<lparr>transport := (transport s)\<lparr>protocol :=
    removeFromResendStore i (protocol (transport s))\<rparr>\<rparr>, None)"
  by (simp add: ws_receive_def on_message_def parseMessage_ack [OF assms] dispatchMessage_def)

section \<open>Properties\<close>

text \<open>C8. A push goes all the way and back, for a message of finite amounts and plain names, while the 16-bit identifier
  that it gets is not the one of a message that still waits in the resend store: pushed to a user who is routed to an
  idle connection, it is written there as a text; the frame that carries the text makes the client, idle too, hand
  exactly that message to its handler and answer with an acknowledgement; and the masked frame that carries the
  acknowledgement makes the server forget the message, so that its resend store is what it was before the push. Both
  ends are idle again. (The texts are shorter than 2^60 bytes, and the bytes of a text are read as that text.)\<close>

theorem push_handled_and_acknowledged:
  assumes "wire_laws ops iless" and "ws_sendable m" and "ws_route (transport (app st)) k = Some c"
    and "fresh_id (protocol (transport (app st))) \<notin> fst ` set (resendStore (protocol (transport (app st))))"
    and "ws_text ops iless (WsData (fresh_id (protocol (transport (app st)))) m) = Inr js"
    and "ws_text ops iless (WsAck (fresh_id (protocol (transport (app st))))) = Inr ack"
    and "decode (encode js) = js" and "decode (encode ack) = ack"
    and "length (encode js) < 2 ^ 60" and "length (encode ack) < 2 ^ 60" and "length key = 4"
    and "server_idle c st" and "client_idle cl"
  shows "\<exists>t cl' st'.
    ws_sendToUser ops iless now k m (transport (app st)) = (t, None) \<and>
    wire (protocol t) = wire (protocol (transport (app st))) @ [(c, js)] \<and>
    (\<exists>fuel0. \<forall>n. client_bytes_arrive (fuel0 + n) ops iless decode junk d (server_frame 0x81 (encode js)) cl = (cl', None)) \<and>
    sc_handled cl' = sc_handled cl @ [m] \<and> client_idle cl' \<and>
    wire (cl_protocol (sc_transport cl')) = wire (cl_protocol (sc_transport cl)) @ [(d, ack)] \<and>
    bytes_arrive emit ops iless decode junk' now' c (client_frame key 0x81 (encode ack)) (st\<lparr>app := (app st)\<lparr>transport := t\<rparr>\<rparr>) = (st', None) \<and>
    resendStore (protocol (transport (app st'))) = resendStore (protocol (transport (app st))) \<and> server_idle c st'"
proof -
  let ?p = "protocol (transport (app st))"
  let ?i = "fresh_id ?p"
  note m = ws_sendable_ordinary [OF assms(2), of ?i]
  have js: "ws_of_text ops iless js = Inr (WsData ?i m)"
    using ws_text_roundtrip [OF assms(1) m] assms(5) by auto
  have ack: "ws_of_text ops iless ack = Inr (WsAck ?i)"
    using ws_text_roundtrip [OF assms(1), of "WsAck ?i"] assms(6) by auto
  let ?p1 = "?p\<lparr>outCounter := outCounter ?p + 1, wire := wire ?p @ [(c, js)],
    resendStore := resendStore ?p @ [(?i, stored (WsData ?i m) c now)]\<rparr>"
  let ?t = "(transport (app st))\<lparr>protocol := ?p1\<rparr>"
  have "sendMessage ops iless now m c ?p = (?p1, None)"
    using assms(4,5) by (simp add: sendMessage_eq addToResendStore_fresh stored_def)
  then have sent: "ws_sendToUser ops iless now k m (transport (app st)) = (?t, None)"
    using assms(3) by (auto simp: ws_sendToUser_def ws_route_def split: option.splits if_splits)
  let ?cm = "MessageReceived \<lparr>fin_rsv_opcode = 0x81, msg_length = of_nat (length (encode js)), msg_content = encode js\<rparr>"
  let ?q = "cl_protocol (sc_transport cl)"
  let ?cl = "cl\<lparr>sc_reader := (sc_reader cl)\<lparr>cl_callbacks := cl_callbacks (sc_reader cl) @ [?cm]\<rparr>\<rparr>"
  let ?cl' = "?cl\<lparr>sc_transport := (sc_transport cl)\<lparr>cl_protocol := ?q\<lparr>wire := wire ?q @ [(d, ack)]\<rparr>\<rparr>, sc_handled := sc_handled cl @ [m]\<rparr>"
  have "client_callback ops iless decode d ?cm ?cl = (?cl', None)"
    by (simp add: client_callback_def client_on_message_def assms(6,7) parseMessage_data [OF js])
  from client_gets_text [OF assms(13) _ this, of junk] assms(9) obtain fuel0 where
    handled: "\<forall>n. client_bytes_arrive (fuel0 + n) ops iless decode junk d (server_frame 0x81 (encode js)) cl = (?cl', None)" by auto
  have idle: "client_idle ?cl'" using assms(13) by (simp add: client_idle_def)
  let ?st = "st\<lparr>app := (app st)\<lparr>transport := ?t\<rparr>\<rparr>"
  let ?s' = "(app st)\<lparr>transport := ?t\<lparr>protocol := removeFromResendStore ?i ?p1\<rparr>\<rparr>"
  have recv: "ws_receive emit ops iless now' c (decode (encode ack)) (app ?st) = (?s', None)"
    unfolding assms(8) acknowledgement_received [OF ack] by simp
  have idle_st: "server_idle c ?st" using assms(12) by (simp add: server_idle_def)
  have len: "length (encode ack) + 4 < 2 ^ 64" using assms(10) by simp
  obtain r where
    acked: "bytes_arrive emit ops iless decode junk' now' c (client_frame key 0x81 (encode ack)) ?st = (?st\<lparr>readers := (readers ?st)(c := r), app := ?s'\<rparr>, None)"
      "server_idle c (?st\<lparr>readers := (readers ?st)(c := r), app := ?s'\<rparr>)"
    using server_gets_text [where bytes = "encode ack" and decode = decode and st = ?st and c = c and key = key and s' = ?s',
      OF idle_st len assms(11) recv, of junk'] by blast
  have "resendStore (removeFromResendStore ?i ?p1) = resendStore ?p"
    using remove_fresh [OF assms(4)] by (simp add: removeFromResendStore_def)
  with sent handled idle acked show ?thesis
    by (intro exI [of _ ?t] exI [of _ ?cl'] exI [of _ "?st\<lparr>readers := (readers ?st)(c := r), app := ?s'\<rparr>"]) auto
qed

definition pushing_stack :: "plain_tree socket_server" where
  "pushing_stack = \<lparr>readers = (\<lambda>_. new_connection []), app = example_ws_service
     \<lparr>transport := (transport example_ws_service)\<lparr>userToConnection := [2 \<mapsto> 5]\<rparr>\<rparr>\<rparr>"

definition waiting_client :: "plain_tree socket_client" where
  "waiting_client = \<lparr>sc_reader = new_client [], sc_transport = new_ws_client, sc_handled = []\<rparr>"

theorem push_handled_and_acknowledged_witness:
  "\<exists>encode decode js ack t cl' st' fuel.
    ws_sendToUser plain_ops reference_iless 0 2 example_deal (transport (app pushing_stack)) = (t, None) \<and>
    wire (protocol t) = [(5, js)] \<and>
    client_bytes_arrive fuel plain_ops reference_iless decode (\<lambda>_. 0) 1 (server_frame 0x81 (encode js)) waiting_client = (cl', None) \<and>
    sc_handled cl' = [example_deal] \<and>
    bytes_arrive single_emit plain_ops reference_iless decode (\<lambda>_. 0) 0 5 (client_frame [1, 2, 3, 4] 0x81 (encode ack))
      (pushing_stack\<lparr>app := (app pushing_stack)\<lparr>transport := t\<rparr>\<rparr>) = (st', None) \<and>
    resendStore (protocol (transport (app st'))) = []"
proof -
  let ?st = pushing_stack and ?cl = waiting_client
  let ?p = "protocol (transport (app ?st))"
  have ok: "ws_sendable example_deal" using example_deal_ok by (simp add: ws_sendable_def del: well_typed.simps)
  obtain js where js: "ws_text plain_ops reference_iless (WsData (fresh_id ?p) example_deal) = Inr js"
      "ws_of_text plain_ops reference_iless js = Inr (WsData (fresh_id ?p) example_deal)"
    using ws_text_roundtrip [OF plain_wire_laws ws_sendable_ordinary [OF ok]] by blast
  obtain ack where ack: "ws_text plain_ops reference_iless (WsAck (fresh_id ?p)) = Inr ack"
      "ws_of_text plain_ops reference_iless ack = Inr (WsAck (fresh_id ?p))"
    using ws_text_roundtrip [OF plain_wire_laws, of "WsAck (fresh_id ?p)"] by auto
  have "ack \<noteq> js" using js(2) ack(2) by auto
  define encode :: "plain_tree \<Rightarrow> u8 list" where "encode w = (if w = js then [0x7B] else [0x5B, 0x5D])" for w
  define decode :: "u8 list \<Rightarrow> plain_tree" where "decode b = (if b = [0x7B] then js else ack)" for b
  have codes: "decode (encode js) = js" "decode (encode ack) = ack" "length (encode js) < 2 ^ 60" "length (encode ack) < 2 ^ 60"
    using \<open>ack \<noteq> js\<close> by (simp_all add: encode_def decode_def)
  have route: "ws_route (transport (app ?st)) 2 = Some 5"
    by (simp add: ws_route_def pushing_stack_def example_ws_service_def on_open_def)
  have empty: "resendStore ?p = []" "wire ?p = []"
    by (simp_all add: pushing_stack_def example_ws_service_def on_open_def new_ws_server_def new_protocol_def)
  have idle: "server_idle 5 ?st" "client_idle ?cl"
    by (simp_all add: server_idle_def client_idle_def pushing_stack_def waiting_client_def new_connection_def new_client_def)
  have fresh: "fresh_id ?p \<notin> fst ` set (resendStore ?p)" by (simp only: empty) simp
  have key: "length [1, 2, 3, 4 :: u8] = 4" by simp
  have handled: "sc_handled ?cl = []" by (simp add: waiting_client_def)
  show ?thesis
    using push_handled_and_acknowledged [OF plain_wire_laws ok route fresh js(1) ack(1) codes key idle, of 0 "\<lambda>_. 0" 1 single_emit "\<lambda>_. 0" 0]
    unfolding empty handled append_Nil by blast
qed

end
