(* ===== verification/Web_Status.thy ===== *)
theory Web_Status
  imports Prelude
begin

text \<open>
  \<^verbatim>\<open>webapi/websockets/status_code.hpp\<close>: the HTTP status codes of the WebSocket library, the table of
  their texts and the two lookups.
\<close>

section \<open>Status codes\<close>

datatype status_code =
  unknown
| information_continue
| information_switching_protocols
| information_processing
| success_ok
| success_created
| success_accepted
| success_non_authoritative_information
| success_no_content
| success_reset_content
| success_partial_content
| success_multi_status
| success_already_reported
| success_im_used
| redirection_multiple_choices
| redirection_moved_permanently
| redirection_found
| redirection_see_other
| redirection_not_modified
| redirection_use_proxy
| redirection_switch_proxy
| redirection_temporary_redirect
| redirection_permanent_redirect
| client_error_bad_request
| client_error_unauthorized
| client_error_payment_required
| client_error_forbidden
| client_error_not_found
| client_error_method_not_allowed
| client_error_not_acceptable
| client_error_proxy_authentication_required
| client_error_request_timeout
| client_error_conflict
| client_error_gone
| client_error_length_required
| client_error_precondition_failed
| client_error_payload_too_large
| client_error_uri_too_long
| client_error_unsupported_media_type
| client_error_range_not_satisfiable
| client_error_expectation_failed
| client_error_im_a_teapot
| client_error_misdirection_required
| client_error_unprocessable_entity
| client_error_locked
| client_error_failed_dependency
| client_error_upgrade_required
| client_error_precondition_required
| client_error_too_many_requests
| client_error_request_header_fields_too_large
| client_error_unavailable_for_legal_reasons
| server_error_internal_server_error
| server_error_not_implemented
| server_error_bad_gateway
| server_error_service_unavailable
| server_error_gateway_timeout
| server_error_http_version_not_supported
| server_error_variant_also_negotiates
| server_error_insufficient_storage
| server_error_loop_detected
| server_error_not_extended
| server_error_network_authentication_required

text \<open>The numbers of the enumeration: an enumerator without one follows its predecessor.\<close>

primrec status_code_value :: "status_code \<Rightarrow> int" where
  "status_code_value unknown = 0"
| "status_code_value information_continue = 100"
| "status_code_value information_switching_protocols = 101"
| "status_code_value information_processing = 102"
| "status_code_value success_ok = 200"
| "status_code_value success_created = 201"
| "status_code_value success_accepted = 202"
| "status_code_value success_non_authoritative_information = 203"
| "status_code_value success_no_content = 204"
| "status_code_value success_reset_content = 205"
| "status_code_value success_partial_content = 206"
| "status_code_value success_multi_status = 207"
| "status_code_value success_already_reported = 208"
| "status_code_value success_im_used = 226"
| "status_code_value redirection_multiple_choices = 300"
| "status_code_value redirection_moved_permanently = 301"
| "status_code_value redirection_found = 302"
| "status_code_value redirection_see_other = 303"
| "status_code_value redirection_not_modified = 304"
| "status_code_value redirection_use_proxy = 305"
| "status_code_value redirection_switch_proxy = 306"
| "status_code_value redirection_temporary_redirect = 307"
| "status_code_value redirection_permanent_redirect = 308"
| "status_code_value client_error_bad_request = 400"
| "status_code_value client_error_unauthorized = 401"
| "status_code_value client_error_payment_required = 402"
| "status_code_value client_error_forbidden = 403"
| "status_code_value client_error_not_found = 404"
| "status_code_value client_error_method_not_allowed = 405"
| "status_code_value client_error_not_acceptable = 406"
| "status_code_value client_error_proxy_authentication_required = 407"
| "status_code_value client_error_request_timeout = 408"
| "status_code_value client_error_conflict = 409"
| "status_code_value client_error_gone = 410"
| "status_code_value client_error_length_required = 411"
| "status_code_value client_error_precondition_failed = 412"
| "status_code_value client_error_payload_too_large = 413"
| "status_code_value client_error_uri_too_long = 414"
| "status_code_value client_error_unsupported_media_type = 415"
| "status_code_value client_error_range_not_satisfiable = 416"
| "status_code_value client_error_expectation_failed = 417"
| "status_code_value client_error_im_a_teapot = 418"
| "status_code_value client_error_misdirection_required = 421"
| "status_code_value client_error_unprocessable_entity = 422"
| "status_code_value client_error_locked = 423"
| "status_code_value client_error_failed_dependency = 424"
| "status_code_value client_error_upgrade_required = 426"
| "status_code_value client_error_precondition_required = 428"
| "status_code_value client_error_too_many_requests = 429"
| "status_code_value client_error_request_header_fields_too_large = 431"
| "status_code_value client_error_unavailable_for_legal_reasons = 451"
| "status_code_value server_error_internal_server_error = 500"
| "status_code_value server_error_not_implemented = 501"
| "status_code_value server_error_bad_gateway = 502"
| "status_code_value server_error_service_unavailable = 503"
| "status_code_value server_error_gateway_timeout = 504"
| "status_code_value server_error_http_version_not_supported = 505"
| "status_code_value server_error_variant_also_negotiates = 506"
| "status_code_value server_error_insufficient_storage = 507"
| "status_code_value server_error_loop_detected = 508"
| "status_code_value server_error_not_extended = 510"
| "status_code_value server_error_network_authentication_required = 511"

definition status_code_strings :: "(status_code \<times> string) list" where
  "status_code_strings = [
     (unknown, ''''),
     (information_continue, ''100 Continue''),
     (information_switching_protocols, ''101 Switching Protocols''),
     (information_processing, ''102 Processing''),
     (success_ok, ''200 OK''),
     (success_created, ''201 Created''),
     (success_accepted, ''202 Accepted''),
     (success_non_authoritative_information, ''203 Non-Authoritative Information''),
     (success_no_content, ''204 No Content''),
     (success_reset_content, ''205 Reset Content''),
     (success_partial_content, ''206 Partial Content''),
     (success_multi_status, ''207 Multi-Status''),
     (success_already_reported, ''208 Already Reported''),
     (success_im_used, ''226 IM Used''),
     (redirection_multiple_choices, ''300 Multiple Choices''),
     (redirection_moved_permanently, ''301 Moved Permanently''),
     (redirection_found, ''302 Found''),
     (redirection_see_other, ''303 See Other''),
     (redirection_not_modified, ''304 Not Modified''),
     (redirection_use_proxy, ''305 Use Proxy''),
     (redirection_switch_proxy, ''306 Switch Proxy''),
     (redirection_temporary_redirect, ''307 Temporary Redirect''),
     (redirection_permanent_redirect, ''308 Permanent Redirect''),
     (client_error_bad_request, ''400 Bad Request''),
     (client_error_unauthorized, ''401 Unauthorized''),
     (client_error_payment_required, ''402 Payment Required''),
     (client_error_forbidden, ''403 Forbidden''),
     (client_error_not_found, ''404 Not Found''),
     (client_error_method_not_allowed, ''405 Method Not Allowed''),
     (client_error_not_acceptable, ''406 Not Acceptable''),
     (client_error_proxy_authentication_required, ''407 Proxy Authentication Required''),
     (client_error_request_timeout, ''408 Request Timeout''),
     (client_error_conflict, ''409 Conflict''),
     (client_error_gone, ''410 Gone''),
     (client_error_length_required, ''411 Length Required''),
     (client_error_precondition_failed, ''412 Precondition Failed''),
     (client_error_payload_too_large, ''413 Payload Too Large''),
     (client_error_uri_too_long, ''414 URI Too Long''),
     (client_error_unsupported_media_type, ''415 Unsupported Media Type''),
     (client_error_range_not_satisfiable, ''416 Range Not Satisfiable''),
     (client_error_expectation_failed, ''417 Expectation Failed''),
     (client_error_im_a_teapot, ''418 I'm a teapot''),
     (client_error_misdirection_required, ''421 Misdirected Request''),
     (client_error_unprocessable_entity, ''422 Unprocessable Entity''),
     (client_error_locked, ''423 Locked''),
     (client_error_failed_dependency, ''424 Failed Dependency''),
     (client_error_upgrade_required, ''426 Upgrade Required''),
     (client_error_precondition_required, ''428 Precondition Required''),
     (client_error_too_many_requests, ''429 Too Many Requests''),
     (client_error_request_header_fields_too_large, ''431 Request Header Fields Too Large''),
     (client_error_unavailable_for_legal_reasons, ''451 Unavailable For Legal Reasons''),
     (server_error_internal_server_error, ''500 Internal Server Error''),
     (server_error_not_implemented, ''501 Not Implemented''),
     (server_error_bad_gateway, ''502 Bad Gateway''),
     (server_error_service_unavailable, ''503 Service Unavailable''),
     (server_error_gateway_timeout, ''504 Gateway Timeout''),
     (server_error_http_version_not_supported, ''505 HTTP Version Not Supported''),
     (server_error_variant_also_negotiates, ''506 Variant Also Negotiates''),
     (server_error_insufficient_storage, ''507 Insufficient Storage''),
     (server_error_loop_detected, ''508 Loop Detected''),
     (server_error_not_extended, ''510 Not Extended''),
     (server_error_network_authentication_required, ''511 Network Authentication Required'')]"

section \<open>Lookups\<close>

text \<open>\<^verbatim>\<open>emplace\<close> of an associative container keeps an entry that is there already.\<close>

definition emplace :: "'k \<Rightarrow> 'v \<Rightarrow> ('k \<rightharpoonup> 'v) \<Rightarrow> ('k \<rightharpoonup> 'v)" where
  "emplace k v m = (if m k = None then m(k \<mapsto> v) else m)"

definition string_to_status_code :: "string \<rightharpoonup> status_code" where
  "string_to_status_code = fold (\<lambda>(c, t). emplace t c) status_code_strings Map.empty"

definition status_code_of_string :: "string \<Rightarrow> status_code" where
  "status_code_of_string s = (case string_to_status_code s of None \<Rightarrow> unknown | Some c \<Rightarrow> c)"

definition status_code_text :: "status_code \<Rightarrow> string" where
  "status_code_text c = (case map_of status_code_strings c of None \<Rightarrow> '''' | Some t \<Rightarrow> t)"

lemma emplaced_distinct:
  assumes "distinct (map snd es)" and "\<forall>t \<in> snd ` set es. m t = None"
  shows "fold (\<lambda>(c, t). emplace t c) es m s =
    (case map_of (map prod.swap es) s of None \<Rightarrow> m s | Some c \<Rightarrow> Some c)"
  using assms
proof (induction es arbitrary: m)
  case (Cons e es)
  obtain c t where e: "e = (c, t)" by (cases e)
  have "emplace t c m = m(t \<mapsto> c)"
    using Cons.prems by (simp add: e emplace_def)
  moreover have "map_of (map prod.swap es) t = None"
    using Cons.prems by (force simp: e map_of_eq_None_iff)
  moreover have "fold (\<lambda>(c, t). emplace t c) es (m(t \<mapsto> c)) s =
      (case map_of (map prod.swap es) s of None \<Rightarrow> (m(t \<mapsto> c)) s | Some c \<Rightarrow> Some c)"
    using Cons.prems by (intro Cons.IH) (auto simp: e)
  ultimately show ?case by (auto simp: e split: option.splits)
qed simp

lemma status_texts_distinct: "distinct (map snd status_code_strings)"
  by code_simp

lemma status_codes_distinct: "distinct (map fst status_code_strings)"
  by code_simp

lemma status_texts_numbered:
  "list_all (\<lambda>(c, t). c = unknown \<or> take 4 t = show_nat (nat (status_code_value c)) @ '' '') status_code_strings"
  by code_simp

lemma status_codes_listed: "map fst status_code_strings = [
     unknown, information_continue, information_switching_protocols, information_processing,
     success_ok, success_created, success_accepted, success_non_authoritative_information,
     success_no_content, success_reset_content, success_partial_content, success_multi_status,
     success_already_reported, success_im_used, redirection_multiple_choices,
     redirection_moved_permanently, redirection_found, redirection_see_other,
     redirection_not_modified, redirection_use_proxy, redirection_switch_proxy,
     redirection_temporary_redirect, redirection_permanent_redirect, client_error_bad_request,
     client_error_unauthorized, client_error_payment_required, client_error_forbidden,
     client_error_not_found, client_error_method_not_allowed, client_error_not_acceptable,
     client_error_proxy_authentication_required, client_error_request_timeout,
     client_error_conflict, client_error_gone, client_error_length_required,
     client_error_precondition_failed, client_error_payload_too_large, client_error_uri_too_long,
     client_error_unsupported_media_type, client_error_range_not_satisfiable,
     client_error_expectation_failed, client_error_im_a_teapot, client_error_misdirection_required,
     client_error_unprocessable_entity, client_error_locked, client_error_failed_dependency,
     client_error_upgrade_required, client_error_precondition_required,
     client_error_too_many_requests, client_error_request_header_fields_too_large,
     client_error_unavailable_for_legal_reasons, server_error_internal_server_error,
     server_error_not_implemented, server_error_bad_gateway, server_error_service_unavailable,
     server_error_gateway_timeout, server_error_http_version_not_supported,
     server_error_variant_also_negotiates, server_error_insufficient_storage,
     server_error_loop_detected, server_error_not_extended,
     server_error_network_authentication_required]"
  by (simp add: status_code_strings_def)

lemma status_code_listed: "c \<in> set (map fst status_code_strings)"
  unfolding status_codes_listed by (cases c) simp_all

lemma status_code_entry: "(c, status_code_text c) \<in> set status_code_strings"
proof -
  obtain t where "(c, t) \<in> set status_code_strings"
    using status_code_listed [of c] by auto
  moreover from map_of_is_SomeI [OF status_codes_distinct this] have "status_code_text c = t"
    by (simp add: status_code_text_def)
  ultimately show ?thesis by simp
qed

lemma string_to_status_code_map_of: "string_to_status_code s = map_of (map prod.swap status_code_strings) s"
  using emplaced_distinct [OF status_texts_distinct, of Map.empty s]
  by (simp add: string_to_status_code_def split: option.split)

section \<open>Properties\<close>

text \<open>The two lookups are inverse: the text of a status code is read back as that code, every
  other text is read as \<open>unknown\<close>, and the text of a code other than \<open>unknown\<close> opens with its number
  and a blank, so that the numbering of the enumeration and the texts of the table agree.\<close>

theorem status_code_lookups_inverse:
  "status_code_of_string (status_code_text c) = c \<and>
   (s \<notin> range status_code_text \<longrightarrow> status_code_of_string s = unknown) \<and>
   (c = unknown \<or> take 4 (status_code_text c) = show_nat (nat (status_code_value c)) @ '' '')"
proof (intro conjI impI)
  have swapped: "distinct (map fst (map prod.swap status_code_strings))"
    using status_texts_distinct by (simp add: comp_def)
  have "(status_code_text c, c) \<in> set (map prod.swap status_code_strings)"
    using status_code_entry [of c] by force
  from map_of_is_SomeI [OF swapped this] show "status_code_of_string (status_code_text c) = c"
    by (simp add: status_code_of_string_def string_to_status_code_map_of)
next
  assume s: "s \<notin> range status_code_text"
  have "t \<in> range status_code_text" if "(c, t) \<in> set status_code_strings" for c t
    using map_of_is_SomeI [OF status_codes_distinct that] by (auto simp: status_code_text_def intro: range_eqI [of _ _ c])
  with s have "map_of (map prod.swap status_code_strings) s = None"
    by (force simp: map_of_eq_None_iff)
  then show "status_code_of_string s = unknown"
    by (simp add: status_code_of_string_def string_to_status_code_map_of)
next
  show "c = unknown \<or> take 4 (status_code_text c) = show_nat (nat (status_code_value c)) @ '' ''"
    using status_texts_numbered status_code_entry [of c] by (auto simp: list_all_iff)
qed

theorem status_code_lookups_inverse_witness:
  "status_code_of_string (status_code_text success_ok) = success_ok \<and> status_code_of_string ''200'' = unknown"
proof -
  have "''200'' \<notin> set (map snd status_code_strings)" by code_simp
  then have "status_code_text c \<noteq> ''200''" for c
    using status_code_entry [of c] by force
  then have "''200'' \<notin> range status_code_text" by (metis rangeE)
  then show ?thesis
    using status_code_lookups_inverse [of success_ok "''200''"] by blast
qed

end
