(* ===== verification/Web_Utility.thy ===== *)
theory Web_Utility
  imports Prelude
begin

text \<open>
  \<^verbatim>\<open>webapi/websockets/utility.hpp\<close>, the text handling of the WebSocket library: case-insensitive names,
  percent encoding, query strings, and the parsers of HTTP requests and responses. A string is a list
  of bytes. \<^verbatim>\<open>npos\<close> is \<open>None\<close>. A \<^verbatim>\<open>CaseInsensitiveMultimap\<close> is the list of its entries in the order they
  were put in; its own iteration order and the entry \<^verbatim>\<open>find\<close> picks are not used before a theory says so.
  An input stream is the text still to be read and the flag that its end was met: a \<^verbatim>\<open>getline\<close> on a
  stream past its end leaves the line as it was, so the loop over header lines may not end, and has fuel.
\<close>

section \<open>Characters and positions\<close>

definition char_code :: "char \<Rightarrow> nat" where
  "char_code c = of_char c"

definition tolower :: "char \<Rightarrow> char" where
  "tolower c = (if 65 \<le> char_code c \<and> char_code c \<le> 90 then char_of (char_code c + 32) else c)"

definition find_from :: "char \<Rightarrow> nat \<Rightarrow> string \<Rightarrow> nat option" where
  "find_from x i s = List.find (\<lambda>j. s ! j = x) [i..<length s]"

definition substr :: "nat \<Rightarrow> nat \<Rightarrow> string \<Rightarrow> string" where
  "substr pos n s = take n (drop pos s)"

abbreviation newline :: char where
  "newline \<equiv> CHR 0x0A"

abbreviation carriage_return :: char where
  "carriage_return \<equiv> CHR 0x0D"

section \<open>Case-insensitive names\<close>

definition case_insensitive_equal :: "string \<Rightarrow> string \<Rightarrow> bool" where
  "case_insensitive_equal str1 str2 \<longleftrightarrow>
     length str1 = length str2 \<and> list_all (\<lambda>(a, b). tolower a = tolower b) (zip str1 str2)"

text \<open>\<^verbatim>\<open>std::hash<int>\<close> is left to the standard library: the parameter \<open>hash\<close>. A \<^verbatim>\<open>char\<close> is signed.\<close>

definition signed_char :: "char \<Rightarrow> int" where
  "signed_char c = (if char_code c < 128 then int (char_code c) else int (char_code c) - 256)"

definition case_insensitive_hash :: "(int \<Rightarrow> u64) \<Rightarrow> string \<Rightarrow> u64" where
  "case_insensitive_hash hash str =
     foldl (\<lambda>h c. xor h (hash (signed_char (tolower c)) + 0x9e3779b9 + push_bit 6 h + drop_bit 2 h)) 0 str"

type_synonym multimap = "(string \<times> string) list"

section \<open>Percent encoding\<close>

definition hex_char :: "nat \<Rightarrow> char" where
  "hex_char n = ''0123456789ABCDEF'' ! n"

definition percent_reserved :: "char \<Rightarrow> bool" where
  "percent_reserved chr \<longleftrightarrow>
     chr = CHR ''!'' \<or> chr = CHR ''#'' \<or> chr = CHR ''$'' \<or>
     (char_code (CHR ''&'') \<le> char_code chr \<and> char_code chr \<le> char_code (CHR '','')) \<or>
     (char_code (CHR ''/'') \<le> char_code chr \<and> char_code chr \<le> char_code (CHR '';'')) \<or>
     chr = CHR ''='' \<or> chr = CHR ''?'' \<or> chr = CHR ''@'' \<or> chr = CHR ''['' \<or> chr = CHR '']''"

fun percent_encode :: "string \<Rightarrow> string" where
  "percent_encode [] = []"
| "percent_encode (chr # value) =
     (if chr = CHR '' '' then ''+''
      else if percent_reserved chr then
        ''%'' @ [hex_char (char_code chr div 16), hex_char (char_code chr mod 16)]
      else [chr]) @ percent_encode value"

text \<open>\<^verbatim>\<open>strtol\<close> with base 16, of a short text: blanks, a sign, a prefix, and the digits that follow.\<close>

definition is_space :: "char \<Rightarrow> bool" where
  "is_space c \<longleftrightarrow> c = CHR '' '' \<or> (9 \<le> char_code c \<and> char_code c \<le> 13)"

definition hex_value :: "char \<Rightarrow> nat option" where
  "hex_value c =
     (let n = char_code c
      in if 48 \<le> n \<and> n \<le> 57 then Some (n - 48)
         else if 65 \<le> n \<and> n \<le> 70 then Some (n - 55)
         else if 97 \<le> n \<and> n \<le> 102 then Some (n - 87)
         else None)"

fun hex_digits :: "int \<Rightarrow> string \<Rightarrow> int" where
  "hex_digits acc [] = acc"
| "hex_digits acc (c # s) = (case hex_value c of None \<Rightarrow> acc | Some d \<Rightarrow> hex_digits (16 * acc + int d) s)"

fun hex_prefixed :: "string \<Rightarrow> string" where
  "hex_prefixed (a # b # c # s) =
     (if a = CHR ''0'' \<and> (b = CHR ''x'' \<or> b = CHR ''X'') \<and> hex_value c \<noteq> None then c # s else a # b # c # s)"
| "hex_prefixed s = s"

definition strtol16 :: "string \<Rightarrow> int" where
  "strtol16 s =
     (case dropWhile is_space s of
        [] \<Rightarrow> 0
      | c # r \<Rightarrow> if c = CHR ''-'' then - hex_digits 0 (hex_prefixed r)
                else if c = CHR ''+'' then hex_digits 0 (hex_prefixed r)
                else hex_digits 0 (hex_prefixed (c # r)))"

fun percent_decode :: "string \<Rightarrow> string" where
  "percent_decode [] = []"
| "percent_decode (chr # value) =
     (if chr = CHR ''%'' \<and> 2 \<le> length value then
        char_of (nat (strtol16 (take 2 value) mod 256)) # percent_decode (drop 2 value)
      else if chr = CHR ''+'' then CHR '' '' # percent_decode value
      else chr # percent_decode value)"

section \<open>Query strings\<close>

fun query_fields :: "bool \<Rightarrow> multimap \<Rightarrow> string" where
  "query_fields first [] = []"
| "query_fields first (field # fields) =
     (if first then [] else ''&'') @ fst field @ ''='' @ percent_encode (snd field) @ query_fields False fields"

definition query_create :: "multimap \<Rightarrow> string" where
  "query_create fields = query_fields True fields"

record query_scan =
  name_pos :: nat
  name_end_pos :: "nat option"
  value_pos :: "nat option"
  query_result :: multimap

definition query_step :: "string \<Rightarrow> nat \<Rightarrow> query_scan \<Rightarrow> query_scan" where
  "query_step query_string c st =
     (if query_string ! c = CHR ''&'' then
        let name = substr (name_pos st) ((case name_end_pos st of None \<Rightarrow> c | Some e \<Rightarrow> e) - name_pos st) query_string;
            value = (case value_pos st of None \<Rightarrow> [] | Some v \<Rightarrow> substr v (c - v) query_string)
        in \<lparr>name_pos = c + 1, name_end_pos = None, value_pos = None,
            query_result = query_result st @ (if name \<noteq> [] then [(name, percent_decode value)] else [])\<rparr>
      else if query_string ! c = CHR ''='' then st\<lparr>name_end_pos := Some c, value_pos := Some (c + 1)\<rparr>
      else st)"

text \<open>The field that ends with the string.\<close>

definition query_finish :: "string \<Rightarrow> query_scan \<Rightarrow> multimap" where
  "query_finish query_string st =
     (if name_pos st < length query_string then
        let name = (case name_end_pos st of None \<Rightarrow> drop (name_pos st) query_string
                      | Some e \<Rightarrow> substr (name_pos st) (e - name_pos st) query_string);
            value = (case value_pos st of None \<Rightarrow> []
                       | Some v \<Rightarrow> if length query_string \<le> v then [] else drop v query_string)
        in query_result st @ (if name \<noteq> [] then [(name, percent_decode value)] else [])
      else query_result st)"

definition query_parse :: "string \<Rightarrow> multimap" where
  "query_parse query_string =
     (if query_string = [] then []
      else query_finish query_string (fold (query_step query_string) [0..<length query_string]
             \<lparr>name_pos = 0, name_end_pos = None, value_pos = None, query_result = []\<rparr>))"

section \<open>HTTP messages\<close>

record istream =
  unread :: string
  at_end :: bool

definition getline :: "istream \<Rightarrow> string \<Rightarrow> istream \<times> string" where
  "getline stream line =
     (if at_end stream then (stream, line)
      else case dropWhile (\<lambda>c. c \<noteq> newline) (unread stream) of
             [] \<Rightarrow> (\<lparr>unread = [], at_end = True\<rparr>, unread stream)
           | _ # r \<Rightarrow> (\<lparr>unread = r, at_end = False\<rparr>, takeWhile (\<lambda>c. c \<noteq> newline) (unread stream)))"

text \<open>One turn of the loop in \<^verbatim>\<open>HttpHeader::parse\<close>: the field of a line with its colon at \<open>param_end\<close>.\<close>

definition header_field :: "string \<Rightarrow> nat \<Rightarrow> multimap" where
  "header_field line param_end =
     (let value_start = param_end + 1
      in if value_start < length line then
           let value_start = (if line ! value_start = CHR '' '' then value_start + 1 else value_start)
           in if value_start < length line
              then [(substr 0 param_end line, substr value_start (length line - value_start - 1) line)] else []
         else [])"

fun header_lines :: "nat \<Rightarrow> istream \<Rightarrow> string \<Rightarrow> multimap \<Rightarrow> (multimap \<times> istream) option" where
  "header_lines 0 stream line result = None"
| "header_lines (Suc fuel) stream line result =
     (case find_from (CHR '':'') 0 line of
        None \<Rightarrow> Some (result, stream)
      | Some param_end \<Rightarrow>
          let (stream', line') = getline stream line
          in header_lines fuel stream' line' (result @ header_field line param_end))"

definition header_parse :: "nat \<Rightarrow> istream \<Rightarrow> (multimap \<times> istream) option" where
  "header_parse fuel stream = (let (stream', line) = getline stream [] in header_lines fuel stream' line [])"

record http_request =
  request_method :: string
  path :: string
  query_string :: string
  http_version :: string
  header :: multimap

text \<open>The loop over the target: the start of the query, if any, and the blank that ends the target.\<close>

fun scan_target :: "string \<Rightarrow> nat list \<Rightarrow> nat option \<Rightarrow> nat option \<times> nat option" where
  "scan_target line [] query_start = (query_start, None)"
| "scan_target line (i # is) query_start =
     (if line ! i = CHR ''?'' \<and> i + 1 < length line then scan_target line is (Some (i + 1))
      else if line ! i = CHR '' '' then (query_start, Some i)
      else scan_target line is query_start)"

definition request_target :: "string \<Rightarrow> nat \<Rightarrow> nat option \<Rightarrow> nat \<Rightarrow> http_request \<Rightarrow> http_request" where
  "request_target line method_end query_start target_end r =
     (case query_start of
        Some q \<Rightarrow> r\<lparr>path := substr (method_end + 1) (q - method_end - 2) line,
                   query_string := substr q (target_end - q) line\<rparr>
      | None \<Rightarrow> r\<lparr>path := substr (method_end + 1) (target_end - method_end - 1) line\<rparr>)"

definition request_parse :: "nat \<Rightarrow> istream \<Rightarrow> http_request \<Rightarrow> (bool \<times> http_request \<times> istream) option" where
  "request_parse fuel stream r0 =
     (let r = r0\<lparr>header := []\<rparr>; (stream, line) = getline stream []
      in case find_from (CHR '' '') 0 line of
           None \<Rightarrow> Some (False, r, stream)
         | Some method_end \<Rightarrow>
             let r = r\<lparr>request_method := substr 0 method_end line\<rparr>;
                 (query_start, target_end) = scan_target line [method_end + 1..<length line] None
             in case target_end of
                  None \<Rightarrow> Some (False, r, stream)
                | Some e \<Rightarrow>
                    let r = request_target line method_end query_start e r
                    in case find_from (CHR ''/'') (e + 1) line of
                         None \<Rightarrow> Some (False, r, stream)
                       | Some protocol_end \<Rightarrow>
                           if substr (e + 1) (protocol_end - e - 1) line \<noteq> ''HTTP'' then Some (False, r, stream)
                           else
                             let r = r\<lparr>http_version := substr (protocol_end + 1) (length line - protocol_end - 2) line\<rparr>
                             in case header_parse fuel stream of
                                  None \<Rightarrow> None
                                | Some (h, stream) \<Rightarrow> Some (True, r\<lparr>header := h\<rparr>, stream))"

record http_response =
  rs_version :: string
  rs_status_code :: string
  rs_header :: multimap

text \<open>The difference \<^verbatim>\<open>version_end - 5\<close> wraps below zero; \<^verbatim>\<open>substr\<close> then takes the rest of the line.\<close>

definition response_parse :: "nat \<Rightarrow> istream \<Rightarrow> http_response \<Rightarrow> (bool \<times> http_response \<times> istream) option" where
  "response_parse fuel stream r0 =
     (let r = r0\<lparr>rs_header := []\<rparr>; (stream, line) = getline stream []
      in case find_from (CHR '' '') 0 line of
           None \<Rightarrow> Some (False, r, stream)
         | Some version_end \<Rightarrow>
             if \<not> 5 < length line then Some (False, r, stream)
             else
               let r = r\<lparr>rs_version := (if version_end < 5 then drop 5 line else substr 5 (version_end - 5) line)\<rparr>
               in if \<not> version_end + 1 < length line then Some (False, r, stream)
                  else
                    let r = r\<lparr>rs_status_code := substr (version_end + 1) (length line - (version_end + 1) - 1) line\<rparr>
                    in case header_parse fuel stream of
                         None \<Rightarrow> None
                       | Some (h, stream) \<Rightarrow> Some (True, r\<lparr>rs_header := h\<rparr>, stream))"

section \<open>Facts about the operations\<close>

lemma case_insensitive_hash_cong:
  assumes "case_insensitive_equal s t"
  shows "case_insensitive_hash hash s = case_insensitive_hash hash t"
proof -
  have "foldl (\<lambda>h c. xor h (hash (signed_char (tolower c)) + 0x9e3779b9 + push_bit 6 h + drop_bit 2 h)) h s =
      foldl (\<lambda>h c. xor h (hash (signed_char (tolower c)) + 0x9e3779b9 + push_bit 6 h + drop_bit 2 h)) h t" for h
    using assms unfolding case_insensitive_equal_def
  proof (induction s arbitrary: t h)
    case (Cons c s)
    then show ?case by (cases t) auto
  qed simp
  then show ?thesis by (simp add: case_insensitive_hash_def)
qed

lemma char_code_less: "char_code c < 256"
  using of_char_mod_256 [where 'a = nat, of c] by (metis char_code_def mod_less_divisor zero_less_numeral)

lemma hex_pair: "list_all (\<lambda>n. nat (strtol16 [hex_char (n div 16), hex_char (n mod 16)] mod 256) = n) [0..<256]"
  by code_simp

lemma separators_reserved:
  "percent_reserved (CHR ''+'')" "percent_reserved (CHR ''&'')" "percent_reserved (CHR ''='')"
  by code_simp+

lemma decode_encoded:
  assumes "c \<noteq> CHR ''%''"
  shows "percent_decode (percent_encode (c # s)) = c # percent_decode (percent_encode s)"
proof -
  have "nat (strtol16 [hex_char (char_code c div 16), hex_char (char_code c mod 16)] mod 256) = char_code c"
    using hex_pair char_code_less [of c] by (simp add: list_all_iff)
  moreover have "char_of (char_code c) = c" by (simp add: char_code_def)
  ultimately have reserved: "percent_decode (percent_encode (c # s)) = c # percent_decode (percent_encode s)"
    if "percent_reserved c" "c \<noteq> CHR '' ''"
    using that by simp
  have plain: "percent_decode (percent_encode (c # s)) = c # percent_decode (percent_encode s)"
    if "\<not> percent_reserved c" "c \<noteq> CHR '' ''"
    using that assms separators_reserved by auto
  show ?thesis
  proof (cases "c = CHR '' ''")
    case True
    then show ?thesis by simp
  next
    case False
    then show ?thesis using reserved plain by blast
  qed
qed

lemma percent_roundtrip: "CHR ''%'' \<notin> set s \<Longrightarrow> percent_decode (percent_encode s) = s"
proof (induction s)
  case (Cons c s)
  then show ?case using decode_encoded [of c s] by (metis list.set_intros(1,2))
qed simp

lemma hex_char_plain: "n < 16 \<Longrightarrow> CHR ''&'' \<noteq> hex_char n \<and> CHR ''='' \<noteq> hex_char n"
proof -
  have "list_all (\<lambda>n. CHR ''&'' \<noteq> hex_char n \<and> CHR ''='' \<noteq> hex_char n) [0..<16]" by code_simp
  then show "n < 16 \<Longrightarrow> CHR ''&'' \<noteq> hex_char n \<and> CHR ''='' \<noteq> hex_char n" by (simp add: list_all_iff)
qed

lemma encoded_char_separators:
  assumes "x = CHR ''&'' \<or> x = CHR ''=''"
  shows "x \<notin> set (if c = CHR '' '' then ''+'' else if percent_reserved c then
      ''%'' @ [hex_char (char_code c div 16), hex_char (char_code c mod 16)] else [c])"
proof -
  have "char_code c div 16 < 16" "char_code c mod 16 < 16" using char_code_less [of c] by simp_all
  note hex = this [THEN hex_char_plain]
  have 1: "x \<notin> set ''+''" "x \<noteq> CHR ''%''" using assms by auto
  have 2: "x \<noteq> hex_char (char_code c div 16)" "x \<noteq> hex_char (char_code c mod 16)" using assms hex by metis+
  have 3: "x \<noteq> c" if "\<not> percent_reserved c" using assms that separators_reserved by metis
  show ?thesis
  proof (cases "c = CHR '' ''")
    case True
    with 1 show ?thesis by simp
  next
    case False
    with 1 2 3 show ?thesis by (cases "percent_reserved c") simp_all
  qed
qed

lemma encoded_separators:
  assumes "x = CHR ''&'' \<or> x = CHR ''=''"
  shows "x \<notin> set (percent_encode s)"
  by (induction s) (simp_all only: percent_encode.simps set_append Un_iff encoded_char_separators [OF assms] list.set empty_iff simp_thms)

section \<open>Scanning a query string\<close>

lemma fold_fixpoint: "(\<And>x. x \<in> set xs \<Longrightarrow> f x st = st) \<Longrightarrow> fold f xs st = st"
  by (induction xs) simp_all

lemma upt_around: "a \<le> b \<Longrightarrow> [a..<b + 1 + n] = [a..<b] @ [b] @ [b + 1..<b + 1 + n]"
proof -
  assume "a \<le> b"
  then have "[a..<b + (1 + n)] = [a..<b] @ [b..<b + (1 + n)]" by (rule upt_add_eq_append)
  moreover have "[b..<b + (1 + n)] = b # [Suc b..<b + (1 + n)]" by (rule upt_conv_Cons) simp
  ultimately show ?thesis by (simp only: add.assoc append_Cons append_Nil Suc_eq_plus1)
qed

lemma query_scan_plain:
  assumes "\<forall>i. a \<le> i \<and> i < b \<longrightarrow> q ! i \<noteq> CHR ''&'' \<and> q ! i \<noteq> CHR ''=''"
  shows "fold (query_step q) [a..<b] st = st"
proof -
  have "query_step q i st = st" if "i \<in> set [a..<b]" for i
    using that assms by (simp add: query_step_def)
  then show ?thesis by (rule fold_fixpoint)
qed

lemma query_scan_word:
  assumes "q = pre @ w @ suf" and "CHR ''&'' \<notin> set w" and "CHR ''='' \<notin> set w"
  shows "fold (query_step q) [length pre..<length pre + length w] st = st"
  using assms by (intro query_scan_plain) (auto simp: nth_append in_set_conv_nth)

text \<open>A field, from its first character to the end of its value.\<close>

lemma query_scan_field:
  assumes "q = pre @ k @ ''='' @ v @ suf" and "CHR ''&'' \<notin> set k \<union> set v" and "CHR ''='' \<notin> set k \<union> set v"
  shows "fold (query_step q) [length pre..<length pre + length k + 1 + length v] st =
    st\<lparr>name_end_pos := Some (length pre + length k), value_pos := Some (length pre + length k + 1)\<rparr>"
proof -
  let ?a = "length pre + length k"
  have split: "[length pre..<?a + 1 + length v] = [length pre..<?a] @ [?a] @ [?a + 1..<?a + 1 + length v]"
    by (rule upt_around) simp
  have name: "fold (query_step q) [length pre..<?a] st = st" for st
    using query_scan_word [of q pre k "''='' @ v @ suf"] assms by simp
  have "value": "fold (query_step q) [?a + 1..<?a + 1 + length v] st = st" for st
    using query_scan_word [of q "pre @ k @ ''=''" v suf] assms by (simp add: add.commute)
  have "query_step q ?a st = st\<lparr>name_end_pos := Some ?a, value_pos := Some (?a + 1)\<rparr>"
    using assms(1) by (simp add: query_step_def nth_append)
  then show ?thesis
    unfolding split by (simp only: fold_append comp_apply fold_simps name "value")
qed

text \<open>The scan of a whole query string made of fields.\<close>

definition query_field_ok :: "string \<times> string \<Rightarrow> bool" where
  "query_field_ok f \<longleftrightarrow> fst f \<noteq> [] \<and> CHR ''&'' \<notin> set (fst f) \<and> CHR ''='' \<notin> set (fst f) \<and> CHR ''%'' \<notin> set (snd f)"

lemma query_scan_fields:
  assumes "\<forall>f \<in> set (f # fs). query_field_ok f" and "q = pre @ query_fields True (f # fs)"
    and "name_pos st = length pre" and "name_end_pos st = None" and "value_pos st = None"
  shows "query_finish q (fold (query_step q) [length pre..<length q] st) = query_result st @ f # fs"
  using assms
proof (induction fs arbitrary: f pre st)
  case Nil
  let ?k = "fst f" and ?v = "percent_encode (snd f)"
  have q: "q = pre @ ?k @ ''='' @ ?v @ []" and len: "length q = length pre + length ?k + 1 + length ?v"
    using Nil.prems(2) by simp_all
  have "fold (query_step q) [length pre..<length q] st =
      st\<lparr>name_end_pos := Some (length pre + length ?k), value_pos := Some (length pre + length ?k + 1)\<rparr>"
    unfolding len using Nil.prems(1) encoded_separators
    by (intro query_scan_field [OF q]) (auto simp: query_field_ok_def)
  moreover have "?k \<noteq> []" and "percent_decode ?v = snd f"
    using Nil.prems(1) by (simp_all add: query_field_ok_def percent_roundtrip)
  moreover have "drop (length pre + length ?k + 1) q = ?v" and "substr (length pre) (length ?k) q = ?k"
    by (simp_all add: q substr_def)
  ultimately show ?case
    using Nil.prems(3) len by (auto simp: query_finish_def Let_def prod_eq_iff)
next
  case (Cons g fs)
  let ?k = "fst f" and ?v = "percent_encode (snd f)"
  let ?pre = "pre @ ?k @ ''='' @ ?v @ ''&''"
  let ?c = "length pre + length ?k + 1 + length ?v"
  let ?st = "\<lparr>name_pos = ?c + 1, name_end_pos = None, value_pos = None, query_result = query_result st @ [f]\<rparr>"
  have q: "q = pre @ ?k @ ''='' @ ?v @ ''&'' @ query_fields True (g # fs)"
    using Cons.prems(2) by simp
  have k: "?k \<noteq> []" and v: "percent_decode ?v = snd f"
    using Cons.prems(1) by (simp_all add: query_field_ok_def percent_roundtrip)
  have "fold (query_step q) [length pre..<?c] st =
      st\<lparr>name_end_pos := Some (length pre + length ?k), value_pos := Some (length pre + length ?k + 1)\<rparr>"
    using Cons.prems(1) encoded_separators
    by (intro query_scan_field [OF q]) (auto simp: query_field_ok_def)
  moreover have "q ! ?c = CHR ''&''" by (simp add: q nth_append)
  moreover have sub: "substr (length pre + length ?k + 1) (length ?v) q = ?v" "substr (length pre) (length ?k) q = ?k"
    by (simp_all add: q substr_def)
  ultimately have "query_step q ?c (fold (query_step q) [length pre..<?c] st) = ?st"
    using Cons.prems(3) k v sub by (simp add: query_step_def Let_def)
  moreover have "?c + 1 \<le> length q" by (simp add: q)
  then obtain n where n: "length q = ?c + 1 + n" using le_Suc_ex by blast
  have "[length pre..<length q] = [length pre..<?c] @ [?c] @ [?c + 1..<length q]"
    unfolding n by (rule upt_around) simp
  moreover have "length ?pre = ?c + 1" by simp
  ultimately have "fold (query_step q) [length pre..<length q] st = fold (query_step q) [length ?pre..<length q] ?st"
    by (simp only: fold_append comp_apply fold_simps)
  moreover have "query_finish q (fold (query_step q) [length ?pre..<length q] ?st) = query_result ?st @ g # fs"
    using Cons.prems(1) q by (intro Cons.IH) auto
  ultimately show ?case by simp
qed

section \<open>Reading lines\<close>

text \<open>The lines \<^verbatim>\<open>getline\<close> yields, the last one being what follows the last line break.\<close>

fun lines_of :: "string \<Rightarrow> string list" where
  "lines_of [] = [[]]"
| "lines_of (c # s) = (if c = newline then [] # lines_of s
     else case lines_of s of [] \<Rightarrow> [[c]] | l # ls \<Rightarrow> (c # l) # ls)"

lemma lines_of_not_Nil [simp]: "lines_of s \<noteq> []"
  by (cases s) (auto split: list.split)

lemma lines_of_takeWhile:
  "lines_of s = takeWhile (\<lambda>c. c \<noteq> newline) s #
    (case dropWhile (\<lambda>c. c \<noteq> newline) s of [] \<Rightarrow> [] | _ # r \<Rightarrow> lines_of r)"
proof (induction s)
  case (Cons c s)
  then show ?case by (cases "lines_of s") auto
qed simp

text \<open>One \<^verbatim>\<open>getline\<close> takes the first of the lines; at the end of the stream it keeps the old one.\<close>

definition lines_left :: "istream \<Rightarrow> string list" where
  "lines_left stream = (if at_end stream then [] else lines_of (unread stream))"

lemma getline_lines:
  assumes "lines_left stream = l # ls"
  shows "snd (getline stream x) = l" and "lines_left (fst (getline stream x)) = ls"
proof -
  have open_stream: "\<not> at_end stream" and lines: "lines_of (unread stream) = l # ls"
    using assms by (auto simp: lines_left_def split: if_splits)
  note lines' = lines [unfolded lines_of_takeWhile [of "unread stream"]]
  have "snd (getline stream x) = l \<and> lines_left (fst (getline stream x)) = ls"
  proof (cases "dropWhile (\<lambda>c. c \<noteq> newline) (unread stream)")
    case Nil
    then have "takeWhile (\<lambda>c. c \<noteq> newline) (unread stream) = unread stream"
      by (simp add: dropWhile_eq_Nil_conv takeWhile_eq_all_conv)
    from open_stream have "getline stream x = (\<lparr>unread = [], at_end = True\<rparr>, unread stream)"
      by (simp add: getline_def Nil)
    moreover from lines' have "unread stream = l" "ls = []" by (simp_all add: Nil \<open>takeWhile _ _ = _\<close>)
    ultimately show ?thesis by (simp add: lines_left_def)
  next
    case (Cons c r)
    with lines' open_stream show ?thesis by (simp add: getline_def lines_left_def)
  qed
  then show "snd (getline stream x) = l" and "lines_left (fst (getline stream x)) = ls" by simp_all
qed

lemma getline_at_end: "lines_left stream = [] \<Longrightarrow> getline stream x = (stream, x)"
  by (auto simp: getline_def lines_left_def split: if_splits)

lemma find_from_None: "find_from x 0 s = None \<longleftrightarrow> x \<notin> set s"
  by (auto simp: find_from_def find_None_iff in_set_conv_nth)

lemma find_from_first:
  assumes "s = pre @ x # suf" and "i \<le> length pre" and "x \<notin> set (drop i pre)"
  shows "find_from x i s = Some (length pre)"
proof -
  have "s ! j \<noteq> x" if "i \<le> j" "j < length pre" for j
    using that assms nth_mem [of "j - i" "drop i pre"] by (auto simp: nth_append)
  moreover have "length pre - i < length [i..<length s]" and "[i..<length s] ! (length pre - i) = length pre"
    using assms(1,2) by (simp_all add: nth_upt del: upt_Suc)
  moreover have "s ! length pre = x" using assms(1) by (simp add: nth_append)
  ultimately show ?thesis
    using assms(1,2) unfolding find_from_def find_Some_iff
    by (intro exI [of _ "length pre - i"]) (auto simp: nth_upt simp del: upt_Suc)
qed

lemma header_lines_stop:
  assumes "\<forall>l \<in> set (line # ls). CHR '':'' \<in> set l" and "lines_left stream = ls"
  shows "header_lines fuel stream line result = None"
  using assms
proof (induction fuel arbitrary: stream line ls result)
  case (Suc fuel)
  obtain stream' line' where g: "getline stream line = (stream', line')" by force
  have "\<forall>l \<in> set (line' # lines_left stream'). CHR '':'' \<in> set l"
    using Suc.prems g getline_lines [of stream _ _ line] getline_at_end [of stream line]
    by (cases "lines_left stream") auto
  with Suc.IH [of line' "lines_left stream'" stream'] show ?case
    using Suc.prems find_from_None [of "CHR '':''" line] by (cases "find_from (CHR '':'') 0 line") (auto simp: g)
qed simp

lemma header_lines_return:
  assumes "\<exists>l \<in> set (line # ls). CHR '':'' \<notin> set l" and "lines_left stream = ls" and "length ls < fuel"
  shows "\<exists>r. header_lines fuel stream line result = Some r"
  using assms
proof (induction fuel arbitrary: stream line ls result)
  case (Suc fuel)
  obtain stream' line' where g: "getline stream line = (stream', line')" by force
  show ?case
  proof (cases "find_from (CHR '':'') 0 line")
    case (Some e)
    then have "CHR '':'' \<in> set line" using find_from_None [of "CHR '':''" line] by auto
    with Suc.prems obtain l ls' where ls: "ls = l # ls'" by (cases ls) auto
    with Suc.prems g have "line' = l" "lines_left stream' = ls'"
      using getline_lines [of stream l ls' line] by auto
    with Suc.prems ls \<open>CHR '':'' \<in> set line\<close> show ?thesis
      using Suc.IH [of line' ls' stream'] by (auto simp: Some g)
  qed simp
qed simp

section \<open>Header lines\<close>

text \<open>Header fields the way both ends write them.\<close>

definition header_text :: "multimap \<Rightarrow> string" where
  "header_text fs = concat (map (\<lambda>(k, v). k @ '': '' @ v @ [carriage_return, newline]) fs)"

definition header_ok :: "multimap \<Rightarrow> bool" where
  "header_ok fs \<longleftrightarrow> list_all (\<lambda>(k, v). CHR '':'' \<notin> set k \<and> newline \<notin> set k \<and> newline \<notin> set v) fs"

lemma getline_first:
  assumes "newline \<notin> set l"
  shows "getline \<lparr>unread = l @ newline # r, at_end = False\<rparr> x = (\<lparr>unread = r, at_end = False\<rparr>, l)"
proof -
  have "takeWhile (\<lambda>c. c \<noteq> newline) (l @ newline # r) = l" "dropWhile (\<lambda>c. c \<noteq> newline) (l @ newline # r) = newline # r"
    using assms by (induction l) auto
  then show ?thesis by (simp add: getline_def)
qed

lemma header_field_line: "header_field (k @ '': '' @ v @ [carriage_return]) (length k) = [(k, v)]"
  by (simp add: header_field_def substr_def nth_append Let_def)

lemma header_lines_fields:
  assumes "header_ok fs" and "length fs < fuel"
    and "getline \<lparr>unread = header_text fs @ [carriage_return, newline] @ rest, at_end = False\<rparr> x = (stream, line)"
  shows "header_lines fuel stream line acc = Some (acc @ fs, \<lparr>unread = rest, at_end = False\<rparr>)"
  using assms
proof (induction fs arbitrary: fuel x stream line acc)
  case Nil
  have "getline \<lparr>unread = [carriage_return] @ newline # rest, at_end = False\<rparr> x = (\<lparr>unread = rest, at_end = False\<rparr>, [carriage_return])"
    by (rule getline_first) simp
  with Nil have "stream = \<lparr>unread = rest, at_end = False\<rparr>" "line = [carriage_return]"
    by (simp_all add: header_text_def)
  moreover have "find_from (CHR '':'') 0 [carriage_return] = None" by (simp add: find_from_None)
  ultimately show ?case using Nil.prems(2) by (cases fuel) simp_all
next
  case (Cons f fs)
  obtain k v where f: "f = (k, v)" by (cases f)
  from Cons.prems(2) obtain fuel' where fuel: "fuel = Suc fuel'" "length fs < fuel'" by (cases fuel) auto
  let ?line = "k @ '': '' @ v @ [carriage_return]"
  let ?stream = "\<lparr>unread = header_text fs @ [carriage_return, newline] @ rest, at_end = False\<rparr>"
  have ok: "CHR '':'' \<notin> set k" "newline \<notin> set ?line" "header_ok fs"
    using Cons.prems(1) by (simp_all add: f header_ok_def)
  have "stream = ?stream" "line = ?line"
    using Cons.prems(3) getline_first [OF ok(2), of "header_text fs @ [carriage_return, newline] @ rest" x]
    by (simp_all add: f header_text_def)
  moreover have "find_from (CHR '':'') 0 ?line = Some (length k)"
    by (rule find_from_first [of _ k _ "CHR '' '' # v @ [carriage_return]"]) (simp_all add: ok(1))
  moreover obtain stream' line' where g: "getline ?stream ?line = (stream', line')" by force
  moreover have "header_lines fuel' stream' line' (acc @ [(k, v)]) = Some ((acc @ [(k, v)]) @ fs, \<lparr>unread = rest, at_end = False\<rparr>)"
    by (rule Cons.IH [OF ok(3) fuel(2) g])
  ultimately show ?case using header_field_line [of k v] by (simp add: fuel f)
qed

lemma header_parse_fields:
  assumes "header_ok fs" and "length fs < fuel"
  shows "header_parse fuel \<lparr>unread = header_text fs @ [carriage_return, newline] @ rest, at_end = False\<rparr> =
    Some (fs, \<lparr>unread = rest, at_end = False\<rparr>)"
proof -
  obtain stream line where g:
    "getline \<lparr>unread = header_text fs @ [carriage_return, newline] @ rest, at_end = False\<rparr> [] = (stream, line)" by force
  from header_lines_fields [OF assms g, of "[]"] show ?thesis unfolding header_parse_def g by simp
qed

section \<open>Properties\<close>

text \<open>Fields survive the query string: whatever names without \<^verbatim>\<open>&\<close> and \<^verbatim>\<open>=\<close> and values without
  \<^verbatim>\<open>%\<close> \<^verbatim>\<open>QueryString::create\<close> is given, \<^verbatim>\<open>QueryString::parse\<close> finds in its result, in the same order.\<close>

theorem query_string_roundtrip:
  assumes "\<forall>f \<in> set fs. query_field_ok f"
  shows "query_parse (query_create fs) = fs"
proof (cases fs)
  case Nil
  then show ?thesis by (simp add: query_create_def query_parse_def)
next
  case (Cons f fs')
  let ?st = "\<lparr>name_pos = 0, name_end_pos = None, value_pos = None, query_result = []\<rparr>"
  have "query_create fs \<noteq> []" by (simp add: query_create_def Cons)
  moreover have "query_finish (query_create fs) (fold (query_step (query_create fs)) [0..<length (query_create fs)] ?st) = f # fs'"
    using query_scan_fields [of f fs' "query_create fs" "[]" ?st] assms by (simp add: Cons query_create_def)
  ultimately show ?thesis by (simp add: query_parse_def Cons)
qed

theorem query_string_roundtrip_witness:
  "query_parse (query_create [(''name'', ''a&b=c d''), (''x'', [])]) = [(''name'', ''a&b=c d''), (''x'', [])] \<and>
   query_create [(''x'', ''&'')] = ''x=%26''"
proof -
  have "query_create [(''x'', ''&'')] = ''x=%26''" by code_simp
  then show ?thesis
    using query_string_roundtrip [of "[(''name'', ''a&b=c d''), (''x'', [])]"] by (simp add: query_field_ok_def)
qed

text \<open>The encoder leaves the percent sign itself as it is, so that a value with one can come back as
  something else: three characters become one.\<close>

theorem percent_sign_not_encoded:
  "percent_encode ''%AB'' = ''%AB'' \<and> percent_decode (percent_encode ''%AB'') = [CHR 0xAB]"
  by code_simp

text \<open>C39. The loop over the header lines ends if and only if some line, the rest of the stream after the
  last line break included, has no colon: at the end of the stream \<^verbatim>\<open>getline\<close> keeps the line it has,
  and a colon in it keeps the loop running, adding the same field again and again.\<close>

theorem header_parse_returns_iff:
  "(\<exists>fuel r. header_parse fuel \<lparr>unread = s, at_end = False\<rparr> = Some r) \<longleftrightarrow>
   (\<exists>l \<in> set (lines_of s). CHR '':'' \<notin> set l)"
proof -
  let ?stream = "\<lparr>unread = s, at_end = False\<rparr>"
  obtain l ls where ls: "lines_of s = l # ls" by (cases "lines_of s") auto
  then have left: "lines_left ?stream = l # ls" by (simp add: lines_left_def)
  obtain stream' line where g: "getline ?stream [] = (stream', line)" by force
  with getline_lines [OF left, of "[]"] have "line = l" "lines_left stream' = ls" by simp_all
  have start: "header_parse fuel ?stream = header_lines fuel stream' line []" for fuel
    by (simp add: header_parse_def g)
  show ?thesis
  proof (cases "\<exists>l \<in> set (line # ls). CHR '':'' \<notin> set l")
    case True
    with header_lines_return [OF this \<open>lines_left stream' = ls\<close> lessI, of "[]"] show ?thesis
      unfolding start ls \<open>line = l\<close> by blast
  next
    case False
    then have "header_lines fuel stream' line [] = None" for fuel
      using header_lines_stop [of line ls stream' fuel "[]"] \<open>lines_left stream' = ls\<close> by blast
    with False show ?thesis unfolding start ls \<open>line = l\<close> by simp
  qed
qed

theorem header_parse_returns_iff_witness:
  "(\<forall>fuel. header_parse fuel \<lparr>unread = ''Host: here'', at_end = False\<rparr> = None) \<and>
   (\<exists>n. header_parse n \<lparr>unread = ''Host: here'' @ [carriage_return, newline, carriage_return, newline], at_end = False\<rparr> \<noteq> None)"
proof -
  have "lines_of ''Host: here'' = [''Host: here'']" by code_simp
  then have "header_parse fuel \<lparr>unread = ''Host: here'', at_end = False\<rparr> = None" for fuel
    using header_parse_returns_iff [of "''Host: here''"] by (cases "header_parse fuel \<lparr>unread = ''Host: here'', at_end = False\<rparr>") auto
  moreover have "[carriage_return] \<in> set (lines_of (''Host: here'' @ [carriage_return, newline, carriage_return, newline]))"
    by code_simp
  then have "\<exists>l \<in> set (lines_of (''Host: here'' @ [carriage_return, newline, carriage_return, newline])). CHR '':'' \<notin> set l"
    by (rule bexI [rotated]) simp
  then have "\<exists>n r. header_parse n \<lparr>unread = ''Host: here'' @ [carriage_return, newline, carriage_return, newline], at_end = False\<rparr> = Some r"
    by (rule header_parse_returns_iff [THEN iffD2])
  ultimately show ?thesis by blast
qed

end
