(* ===== verification/Web_Attributes.thy ===== *)
theory Web_Attributes
  imports Web_Utility
begin

text \<open>
  \<^verbatim>\<open>HttpHeader::FieldValue::SemicolonSeparatedAttributes\<close> of \<^verbatim>\<open>webapi/websockets/utility.hpp\<close>: the scanner of
  a header field value that is a list of attributes, as in \<^verbatim>\<open>form-data; name="a"; filename=b\<close>.
\<close>

section \<open>The scanner\<close>

record attribute_scan =
  as_name_start :: "nat option"
  as_name_end :: "nat option"
  as_value_start :: "nat option"
  as_result :: multimap

definition no_attribute :: "attribute_scan \<Rightarrow> attribute_scan" where
  "no_attribute st = st\<lparr>as_name_start := None, as_name_end := None, as_value_start := None\<rparr>"

definition attribute_step :: "string \<Rightarrow> nat \<Rightarrow> attribute_scan \<Rightarrow> attribute_scan" where
  "attribute_step str c st =
     (case as_name_start st of
        None \<Rightarrow> if str ! c \<noteq> CHR '' '' \<and> str ! c \<noteq> CHR '';'' then st\<lparr>as_name_start := Some c\<rparr> else st
      | Some n \<Rightarrow>
          (case as_name_end st of
             None \<Rightarrow>
               if str ! c = CHR '';'' then
                 st\<lparr>as_result := as_result st @ [(substr n (c - n) str, [])], as_name_start := None\<rparr>
               else if str ! c = CHR ''='' then st\<lparr>as_name_end := Some c\<rparr> else st
           | Some e \<Rightarrow>
               (case as_value_start st of
                  None \<Rightarrow>
                    if str ! c = CHR 0x22 \<and> c + 1 < length str then st\<lparr>as_value_start := Some (c + 1)\<rparr>
                    else st\<lparr>as_value_start := Some c\<rparr>
                | Some v \<Rightarrow>
                    if str ! c = CHR 0x22 \<or> str ! c = CHR '';'' then
                      no_attribute (st\<lparr>as_result := as_result st @
                        [(substr n (e - n) str, percent_decode (substr v (c - v) str))]\<rparr>)
                    else st)))"

text \<open>The attribute that ends with the string; in the branch of a closing quote the length is that of the
  whole string less one, so the quote is not cut off.\<close>

definition attribute_finish :: "string \<Rightarrow> attribute_scan \<Rightarrow> multimap" where
  "attribute_finish str st =
     (case as_name_start st of
        None \<Rightarrow> as_result st
      | Some n \<Rightarrow>
          (case as_name_end st of
             None \<Rightarrow> as_result st @ [(drop n str, [])]
           | Some e \<Rightarrow>
               (case as_value_start st of
                  None \<Rightarrow> as_result st
                | Some v \<Rightarrow>
                    if last str = CHR 0x22
                    then as_result st @ [(substr n (e - n) str, percent_decode (substr v (length str - 1) str))]
                    else as_result st @ [(substr n (e - n) str, percent_decode (drop v str))])))"

definition attributes_parse :: "string \<Rightarrow> multimap" where
  "attributes_parse str =
     attribute_finish str (fold (attribute_step str) [0..<length str]
       \<lparr>as_name_start = None, as_name_end = None, as_value_start = None, as_result = []\<rparr>)"

lemma attribute_examples:
  "attributes_parse ''form-data; name=%22a%22; b=c'' = [(''form-data'', []), (''name'', [CHR 0x22, CHR ''a'', CHR 0x22]), (''b'', ''c'')]"
  "attributes_parse (''a='' @ [CHR 0x22] @ ''x;y'' @ [CHR 0x22] @ ''; b'') = [(''a'', ''x''), (''y'' @ [CHR 0x22], []), (''b'', [])]"
  "attributes_parse ''a=;b=c'' = [(''a'', '';b=c'')]"
  "attributes_parse ''a='' = []"
  by code_simp+

end
