(* ===== verification/Web_Crypto.thy ===== *)
theory Web_Crypto
  imports Web_Utility
begin

text \<open>
  \<^verbatim>\<open>webapi/websockets/crypto.hpp\<close>, the digests: what the code does around the functions of OpenSSL, which
  are parameters. For each algorithm these are the digest of a text, and a context that is started, fed
  pieces and finished; \<open>hash_laws\<close> is the documented relation of the two.
\<close>

section \<open>Parameters\<close>

record 'c hash_ops =
  hash_text :: "string \<Rightarrow> string"
  hash_init :: 'c
  hash_update :: "string \<Rightarrow> 'c \<Rightarrow> 'c"
  hash_final :: "'c \<Rightarrow> string"

definition hash_laws :: "'c hash_ops \<Rightarrow> bool" where
  "hash_laws h \<longleftrightarrow> (\<forall>pieces. hash_final h (fold (hash_update h) pieces (hash_init h)) = hash_text h (concat pieces))"

record 'c openssl =
  openssl_md5 :: "'c hash_ops"
  openssl_sha1 :: "'c hash_ops"
  openssl_sha256 :: "'c hash_ops"
  openssl_sha512 :: "'c hash_ops"

section \<open>Digests of texts and streams\<close>

text \<open>The loop that all of them end with.\<close>

definition iterated :: "'c hash_ops \<Rightarrow> u64 \<Rightarrow> string \<Rightarrow> string" where
  "iterated h iterations hash = fold (\<lambda>c hash. hash_text h hash) [1..<unat iterations] hash"

definition buffer_size :: nat where
  "buffer_size = 131072"

text \<open>The loop that reads a stream; \<open>read_length\<close> bytes come, fewer than the buffer holds at its end only.\<close>

function read_stream :: "'c hash_ops \<Rightarrow> string \<Rightarrow> 'c \<Rightarrow> 'c" where
  "read_stream h stream ctx =
     (let read_length = min buffer_size (length stream)
      in if read_length = 0 then ctx
         else read_stream h (drop read_length stream) (hash_update h (take read_length stream) ctx))"
  by auto
termination
  by (relation "measure (\<lambda>(h, stream, ctx). length stream)") auto

declare read_stream.simps [simp del]

definition md5 :: "'c openssl \<Rightarrow> string \<Rightarrow> u64 \<Rightarrow> string" where
  "md5 ssl input iterations = iterated (openssl_md5 ssl) iterations (hash_text (openssl_md5 ssl) input)"

definition md5_stream :: "'c openssl \<Rightarrow> string \<Rightarrow> u64 \<Rightarrow> string" where
  "md5_stream ssl stream iterations =
     (let ctx = read_stream (openssl_md5 ssl) stream (hash_init (openssl_md5 ssl))
      in iterated (openssl_md5 ssl) iterations (hash_final (openssl_md5 ssl) ctx))"

definition sha1_text :: "'c openssl \<Rightarrow> string \<Rightarrow> u64 \<Rightarrow> string" where
  "sha1_text ssl input iterations = iterated (openssl_sha1 ssl) iterations (hash_text (openssl_sha1 ssl) input)"

definition sha1_stream :: "'c openssl \<Rightarrow> string \<Rightarrow> u64 \<Rightarrow> string" where
  "sha1_stream ssl stream iterations =
     (let ctx = read_stream (openssl_sha1 ssl) stream (hash_init (openssl_sha1 ssl))
      in iterated (openssl_sha1 ssl) iterations (hash_final (openssl_sha1 ssl) ctx))"

definition sha256 :: "'c openssl \<Rightarrow> string \<Rightarrow> u64 \<Rightarrow> string" where
  "sha256 ssl input iterations = iterated (openssl_sha256 ssl) iterations (hash_text (openssl_sha256 ssl) input)"

definition sha256_stream :: "'c openssl \<Rightarrow> string \<Rightarrow> u64 \<Rightarrow> string" where
  "sha256_stream ssl stream iterations =
     (let ctx = read_stream (openssl_sha256 ssl) stream (hash_init (openssl_sha256 ssl))
      in iterated (openssl_sha256 ssl) iterations (hash_final (openssl_sha256 ssl) ctx))"

definition sha512 :: "'c openssl \<Rightarrow> string \<Rightarrow> u64 \<Rightarrow> string" where
  "sha512 ssl input iterations = iterated (openssl_sha512 ssl) iterations (hash_text (openssl_sha512 ssl) input)"

definition sha512_stream :: "'c openssl \<Rightarrow> string \<Rightarrow> u64 \<Rightarrow> string" where
  "sha512_stream ssl stream iterations =
     (let ctx = read_stream (openssl_sha512 ssl) stream (hash_init (openssl_sha512 ssl))
      in iterated (openssl_sha512 ssl) iterations (hash_final (openssl_sha512 ssl) ctx))"

section \<open>Hexadecimal text\<close>

definition hex_lower :: "nat \<Rightarrow> char" where
  "hex_lower n = ''0123456789abcdef'' ! n"

fun to_hex_string :: "string \<Rightarrow> string" where
  "to_hex_string [] = []"
| "to_hex_string (byte # input) = hex_lower (char_code byte div 16) # hex_lower (char_code byte mod 16) # to_hex_string input"

section \<open>What is shown\<close>

lemma read_stream_pieces:
  "\<exists>pieces. read_stream h stream ctx = fold (hash_update h) pieces ctx \<and> concat pieces = stream"
proof (induction h stream ctx rule: read_stream.induct)
  case (1 h stream ctx)
  let ?n = "min buffer_size (length stream)"
  show ?case
  proof (cases "?n = 0")
    case True
    then have "stream = []" by (auto simp: buffer_size_def min_def split: if_splits)
    then show ?thesis by (intro exI [of _ "[]"]) (simp add: read_stream.simps)
  next
    case False
    from "1.IH" [OF refl this] obtain pieces where
      "read_stream h (drop ?n stream) (hash_update h (take ?n stream) ctx) =
         fold (hash_update h) pieces (hash_update h (take ?n stream) ctx)" "concat pieces = drop ?n stream" by blast
    moreover have "read_stream h stream ctx = read_stream h (drop ?n stream) (hash_update h (take ?n stream) ctx)"
      using False by (subst read_stream.simps) (simp only: Let_def if_False)
    ultimately show ?thesis by (intro exI [of _ "take ?n stream # pieces"]) (simp only: fold_simps concat.simps append_take_drop_id)
  qed
qed

lemma stream_digest:
  assumes "hash_laws h"
  shows "hash_final h (read_stream h stream (hash_init h)) = hash_text h stream"
  using read_stream_pieces [of h stream "hash_init h"] assms by (auto simp: hash_laws_def)

text \<open>A stream of any length has the digest of the text it holds, for every algorithm and any number of
  iterations.\<close>

theorem stream_digests_agree:
  assumes "hash_laws (openssl_md5 ssl)" and "hash_laws (openssl_sha1 ssl)"
    and "hash_laws (openssl_sha256 ssl)" and "hash_laws (openssl_sha512 ssl)"
  shows "md5_stream ssl input n = md5 ssl input n \<and> sha1_stream ssl input n = sha1_text ssl input n \<and>
    sha256_stream ssl input n = sha256 ssl input n \<and> sha512_stream ssl input n = sha512 ssl input n"
  using assms by (simp add: md5_def md5_stream_def sha1_text_def sha1_stream_def sha256_def sha256_stream_def
      sha512_def sha512_stream_def stream_digest Let_def)

text \<open>A digest for the witness: the length of the text, as so many letters, modulo a number.\<close>

definition count_ops :: "nat \<Rightarrow> nat hash_ops" where
  "count_ops k = \<lparr>hash_text = (\<lambda>s. replicate (length s mod k) (CHR ''x'')), hash_init = 0,
     hash_update = (\<lambda>s n. n + length s), hash_final = (\<lambda>n. replicate (n mod k) (CHR ''x''))\<rparr>"

lemma count_ops_laws: "hash_laws (count_ops k)"
proof -
  have "fold (\<lambda>s n. n + length s) pieces m = m + length (concat pieces)" for pieces :: "string list" and m
    by (induction pieces arbitrary: m) simp_all
  then show ?thesis by (simp add: hash_laws_def count_ops_def)
qed

theorem stream_digests_agree_witness:
  "md5_stream \<lparr>openssl_md5 = count_ops 5, openssl_sha1 = count_ops 7, openssl_sha256 = count_ops 11, openssl_sha512 = count_ops 13\<rparr>
     ''abcdefgh'' 3 = ''xxx''"
proof -
  let ?ssl = "\<lparr>openssl_md5 = count_ops 5, openssl_sha1 = count_ops 7, openssl_sha256 = count_ops 11, openssl_sha512 = count_ops 13\<rparr>"
  have "md5_stream ?ssl ''abcdefgh'' 3 = md5 ?ssl ''abcdefgh'' 3"
    using stream_digests_agree [of ?ssl] by (simp add: count_ops_laws)
  also have "\<dots> = ''xxx''"
  proof -
    have "[1..<unat (3 :: u64)] = [1, 2]" by (simp add: upt_rec)
    then show ?thesis by (simp add: md5_def iterated_def count_ops_def) (simp add: numeral_eq_Suc)
  qed
  finally show ?thesis .
qed

text \<open>Hexadecimal text is read back by the digits \<^verbatim>\<open>strtol\<close> reads.\<close>

fun of_hex_string :: "string \<Rightarrow> string" where
  "of_hex_string (a # b # s) = char_of (nat (strtol16 [a, b])) # of_hex_string s"
| "of_hex_string _ = []"

lemma hex_lower_value:
  assumes "n < 16"
  shows "hex_value (hex_lower n) = Some n" and "\<not> is_space (hex_lower n)" and "hex_lower n \<noteq> CHR ''-''"
    and "hex_lower n \<noteq> CHR ''+''" and "hex_lower n \<noteq> CHR ''x''" and "hex_lower n \<noteq> CHR ''X''"
proof -
  have "list_all (\<lambda>n. hex_value (hex_lower n) = Some n \<and> \<not> is_space (hex_lower n) \<and> hex_lower n \<noteq> CHR ''-'' \<and>
      hex_lower n \<noteq> CHR ''+'' \<and> hex_lower n \<noteq> CHR ''x'' \<and> hex_lower n \<noteq> CHR ''X'') [0..<16]" by code_simp
  with assms show "hex_value (hex_lower n) = Some n" "\<not> is_space (hex_lower n)" "hex_lower n \<noteq> CHR ''-''"
    "hex_lower n \<noteq> CHR ''+''" "hex_lower n \<noteq> CHR ''x''" "hex_lower n \<noteq> CHR ''X''"
    by (auto simp: list_all_iff)
qed

theorem hex_string_roundtrip: "of_hex_string (to_hex_string input) = input"
proof (induction input)
  case (Cons byte input)
  have "char_code byte < 256" by (rule char_code_less)
  then have "char_code byte div 16 < 16" "char_code byte mod 16 < 16" by simp_all
  note h = hex_lower_value [OF this(1)] and l = hex_lower_value [OF this(2)]
  have "strtol16 [hex_lower (char_code byte div 16), hex_lower (char_code byte mod 16)] = int (char_code byte)"
    using h l by (simp add: strtol16_def) presburger
  with Cons show ?case by (simp add: char_code_def)
qed simp

end
