(* ===== verification/Ws_Handshake.thy ===== *)
theory Ws_Handshake
  imports Web_Utility
begin

text \<open>
  The opening handshake of \<^verbatim>\<open>webapi/websockets/server_ws.hpp\<close> and \<^verbatim>\<open>client_ws.hpp\<close>: the request of the
  client, the answer of the server, the check of the answer, and the address the client connects to.
  The functions of \<^verbatim>\<open>Crypto\<close>, which wraps OpenSSL, are the fields of \<open>crypto_ops\<close>, and \<open>crypto_laws\<close> is what
  the handshake needs of them. \<open>pick\<close> is the choice the multimap
  makes when it holds several fields of one name, and \<open>matches\<close> is the regular expression library.
  The bytes an end has read up to the blank line are given as one text.
\<close>

section \<open>Parameters\<close>

record crypto_ops =
  sha1 :: "string \<Rightarrow> string"
  base64_encode :: "string \<Rightarrow> string"
  base64_decode :: "string \<Rightarrow> string"

text \<open>A digest is short and not empty; encoding yields no line breaks, and is undone by decoding, for short texts at
  least. \<open>Web_Base64\<close> shows this of the functions of \<^verbatim>\<open>Crypto\<close>.\<close>

definition crypto_laws :: "crypto_ops \<Rightarrow> bool" where
  "crypto_laws ops \<longleftrightarrow>
     (\<forall>s. sha1 ops s \<noteq> [] \<and> length (sha1 ops s) \<le> 64) \<and>
     (\<forall>s. s \<noteq> [] \<and> length s \<le> 64 \<longrightarrow> base64_decode ops (base64_encode ops s) = s) \<and>
     (\<forall>s. newline \<notin> set (base64_encode ops s))"

definition pick_law :: "(string list \<Rightarrow> string) \<Rightarrow> bool" where
  "pick_law pick \<longleftrightarrow> (\<forall>vs. vs \<noteq> [] \<longrightarrow> pick vs \<in> set vs)"

definition header_find :: "(string list \<Rightarrow> string) \<Rightarrow> string \<Rightarrow> multimap \<Rightarrow> string option" where
  "header_find pick name h =
     (case map snd (filter (\<lambda>(k, v). case_insensitive_equal k name) h) of
        [] \<Rightarrow> None
      | v # vs \<Rightarrow> Some (pick (v # vs)))"

section \<open>The client's request\<close>

definition crlf :: string where
  "crlf = [carriage_return, newline]"

definition ws_magic_string :: string where
  "ws_magic_string = ''258EAFA5-E914-47DA-95CA-C5AB0DC85B11''"

text \<open>The request; \<open>nonce_base64\<close> is the encoded nonce.\<close>

definition client_request :: "string \<Rightarrow> string \<Rightarrow> string \<Rightarrow> multimap \<Rightarrow> string" where
  "client_request target host nonce_base64 config_header =
     ''GET '' @ target @ '' HTTP/1.1'' @ crlf @
     ''Host: '' @ host @ crlf @
     ''Upgrade: websocket'' @ crlf @
     ''Connection: Upgrade'' @ crlf @
     ''Sec-WebSocket-Key: '' @ nonce_base64 @ crlf @
     ''Sec-WebSocket-Version: 13'' @ crlf @
     concat (map (\<lambda>header_field. fst header_field @ '': '' @ snd header_field @ crlf) config_header) @
     crlf"

section \<open>The server's answer\<close>

definition generate_handshake :: "crypto_ops \<Rightarrow> (string list \<Rightarrow> string) \<Rightarrow> multimap \<Rightarrow> string option" where
  "generate_handshake ops pick h =
     (case header_find pick ''Sec-WebSocket-Key'' h of
        None \<Rightarrow> None
      | Some key \<Rightarrow> Some (
          ''HTTP/1.1 101 Web Socket Protocol Handshake'' @ crlf @
          ''Upgrade: websocket'' @ crlf @
          ''Connection: Upgrade'' @ crlf @
          ''Sec-WebSocket-Accept: '' @ base64_encode ops (sha1 ops (key @ ws_magic_string)) @ crlf @
          crlf))"

text \<open>The first endpoint whose expression matches the path answers, or nobody does.\<close>

definition write_handshake ::
  "crypto_ops \<Rightarrow> (string list \<Rightarrow> string) \<Rightarrow> (string \<Rightarrow> string \<Rightarrow> bool) \<Rightarrow> string list \<Rightarrow> http_request \<Rightarrow> (string \<times> string) option" where
  "write_handshake ops pick matches endpoints request =
     (case List.find (\<lambda>e. matches e (path request)) endpoints of
        None \<Rightarrow> None
      | Some e \<Rightarrow> map_option (\<lambda>answer. (e, answer)) (generate_handshake ops pick (header request)))"

definition empty_request :: http_request where
  "empty_request = \<lparr>request_method = [], path = [], query_string = [], http_version = [], header = []\<rparr>"

text \<open>What the server makes of the text it has read: the endpoint and the answer, if any, and the bytes
  behind the request. The outer option is \<open>None\<close> where the parser runs out of fuel.\<close>

definition read_handshake ::
  "nat \<Rightarrow> crypto_ops \<Rightarrow> (string list \<Rightarrow> string) \<Rightarrow> (string \<Rightarrow> string \<Rightarrow> bool) \<Rightarrow> string list \<Rightarrow> string
    \<Rightarrow> ((string \<times> string) option \<times> string) option" where
  "read_handshake fuel ops pick matches endpoints input =
     (case request_parse fuel \<lparr>unread = input, at_end = False\<rparr> empty_request of
        None \<Rightarrow> None
      | Some (ok, request, stream) \<Rightarrow>
          Some (if ok then write_handshake ops pick matches endpoints request else None, unread stream))"

section \<open>The client's check\<close>

datatype handshake_result = HandshakeDone string | ProtocolError

definition empty_response :: http_response where
  "empty_response = \<lparr>rs_version = [], rs_status_code = [], rs_header = []\<rparr>"

definition check_answer ::
  "nat \<Rightarrow> crypto_ops \<Rightarrow> (string list \<Rightarrow> string) \<Rightarrow> string \<Rightarrow> string \<Rightarrow> handshake_result option" where
  "check_answer fuel ops pick nonce_base64 input =
     (case response_parse fuel \<lparr>unread = input, at_end = False\<rparr> empty_response of
        None \<Rightarrow> None
      | Some (ok, response, stream) \<Rightarrow> Some (
          if \<not> ok \<or> rs_status_code response = [] \<or> take 4 (rs_status_code response) \<noteq> ''101 '' then ProtocolError
          else
            case header_find pick ''Sec-WebSocket-Accept'' (rs_header response) of
              None \<Rightarrow> ProtocolError
            | Some accept \<Rightarrow>
                if base64_decode ops accept = sha1 ops (nonce_base64 @ ws_magic_string)
                then HandshakeDone (unread stream) else ProtocolError))"

section \<open>The address\<close>

text \<open>\<^verbatim>\<open>std::stoul\<close>; it throws where there is no digit or the number does not fit.\<close>

definition is_digit :: "char \<Rightarrow> bool" where
  "is_digit c \<longleftrightarrow> 48 \<le> char_code c \<and> char_code c \<le> 57"

definition decimal :: "string \<Rightarrow> nat" where
  "decimal ds = foldl (\<lambda>n d. 10 * n + (char_code d - 48)) 0 ds"

definition stoul :: "string \<Rightarrow> u64 option" where
  "stoul s =
     (let s = dropWhile is_space s;
          negative = (s \<noteq> [] \<and> hd s = CHR ''-'');
          ds = takeWhile is_digit (if s \<noteq> [] \<and> (hd s = CHR ''-'' \<or> hd s = CHR ''+'') then tl s else s)
      in if ds = [] \<or> 2 ^ 64 \<le> decimal ds then None
         else Some (if negative then - of_nat (decimal ds) else of_nat (decimal ds)))"

record client_address =
  ca_host :: string
  ca_port :: u16
  ca_path :: string

text \<open>The constructor is \<^verbatim>\<open>noexcept\<close>: where \<^verbatim>\<open>stoul\<close> throws, the process ends (\<open>None\<close>).\<close>

definition client_address_of :: "string \<Rightarrow> u16 \<Rightarrow> client_address option" where
  "client_address_of host_port_path default_port =
     (let colon = find_from (CHR '':'') 0 host_port_path; slash = find_from (CHR ''/'') 0 host_port_path;
          port = (case colon of
              None \<Rightarrow> Some default_port
            | Some e \<Rightarrow> map_option ucast (stoul
                (case slash of
                   None \<Rightarrow> drop (e + 1) host_port_path
                 | Some p \<Rightarrow> if p < e + 1 then drop (e + 1) host_port_path
                            else substr (e + 1) (p - (e + 1)) host_port_path)));
          target = (case slash of None \<Rightarrow> ''/'' | Some p \<Rightarrow> drop p host_port_path);
          host_end = (case colon of None \<Rightarrow> slash | Some e \<Rightarrow> Some e);
          host = (case host_end of None \<Rightarrow> host_port_path | Some e \<Rightarrow> substr 0 e host_port_path)
      in map_option (\<lambda>p. \<lparr>ca_host = host, ca_port = p, ca_path = target\<rparr>) port)"

text \<open>The address the \<^verbatim>\<open>WsTransportClient\<close> of the application gives it.\<close>

definition ws_client_address :: "string \<Rightarrow> int \<Rightarrow> client_address option" where
  "ws_client_address host port = client_address_of (host @ '':'' @ show_int port @ ''/rating'') 80"

section \<open>Parsing the first lines\<close>

lemma crlf_lines: "l @ crlf @ s = (l @ [carriage_return]) @ newline # s"
  by (simp add: crlf_def)

lemma substr_middle: "pos = length pre \<Longrightarrow> n = length w \<Longrightarrow> substr pos n (pre @ w @ suf) = w"
  by (simp add: substr_def)

lemma scan_target_blank:
  assumes "\<forall>i \<in> set is. line ! i \<noteq> CHR ''?'' \<and> line ! i \<noteq> CHR '' ''" and "line ! j = CHR '' ''"
  shows "scan_target line (is @ j # js) q = (q, Some j)"
  using assms by (induction "is" arbitrary: q) auto

lemma request_parse_fields:
  assumes "CHR '' '' \<notin> set t" and "CHR ''?'' \<notin> set t" and "newline \<notin> set t" and "header_ok fs" and "length fs < fuel"
  shows "request_parse fuel \<lparr>unread = ''GET '' @ t @ '' HTTP/1.1'' @ crlf @ header_text fs @ crlf @ rest, at_end = False\<rparr> r0 =
    Some (True, r0\<lparr>request_method := ''GET'', path := t, http_version := ''1.1'', header := fs\<rparr>, \<lparr>unread = rest, at_end = False\<rparr>)"
proof -
  let ?line = "''GET '' @ t @ '' HTTP/1.1'' @ [carriage_return]"
  let ?rest = "\<lparr>unread = header_text fs @ crlf @ rest, at_end = False\<rparr>"
  let ?e = "4 + length t"
  have "newline \<notin> set ?line" using assms(3) by simp
  from getline_first [OF this, of "header_text fs @ crlf @ rest" "[]"]
  have line: "getline \<lparr>unread = ''GET '' @ t @ '' HTTP/1.1'' @ crlf @ header_text fs @ crlf @ rest, at_end = False\<rparr> [] = (?rest, ?line)"
    by (simp add: crlf_def)
  have m: "find_from (CHR '' '') 0 ?line = Some 3"
    using find_from_first [of ?line "''GET''" "CHR '' ''" "t @ '' HTTP/1.1'' @ [carriage_return]" 0] by simp
  have "[4..<length ?line] = [4..<?e] @ ?e # [?e + 1..<?e + 1 + 9]"
  proof -
    have len: "length ?line = ?e + 1 + 9" by simp
    have "4 \<le> ?e" by simp
    from upt_around [OF this, of 9] show ?thesis unfolding len by (simp only: append_Cons append_Nil)
  qed
  moreover have "?line ! i \<noteq> CHR ''?'' \<and> ?line ! i \<noteq> CHR '' ''" if "i \<in> set [4..<?e]" for i
  proof -
    have "?line ! i = t ! (i - 4)" using that by (auto simp: nth_append nth_Cons' numeral_eq_Suc)
    moreover have "t ! (i - 4) \<in> set t" using that by auto
    ultimately show ?thesis using assms(1,2) by metis
  qed
  moreover have "?line ! ?e = CHR '' ''" by (simp add: nth_append)
  ultimately have target: "scan_target ?line [3 + 1..<length ?line] None = (None, Some ?e)"
    using scan_target_blank [of "[4..<?e]" ?line ?e "[?e + 1..<?e + 1 + 9]" None] by (simp del: upt_Suc)
  have protocol: "find_from (CHR ''/'') (?e + 1) ?line = Some (?e + 5)"
  proof -
    let ?pre = "(''GET '' @ t @ '' '') @ ''HTTP''"
    have "drop (length xs) (xs @ ys) = ys" for xs ys :: string by simp
    moreover have e: "?e + 1 = length (''GET '' @ t @ '' '')" by simp
    ultimately have "drop (?e + 1) ?pre = ''HTTP''" unfolding e by blast
    moreover have "length ?pre = ?e + 5" by simp
    ultimately show ?thesis
      using find_from_first [of ?line ?pre "CHR ''/''" "''1.1'' @ [carriage_return]" "?e + 1"] by (simp add: add.commute del: drop_append)
  qed
  have parts: "substr 0 3 ?line = ''GET''" "substr (3 + 1) (?e - 3 - 1) ?line = t"
    "substr (?e + 1) (?e + 5 - ?e - 1) ?line = ''HTTP''"
    "substr (?e + 5 + 1) (length ?line - (?e + 5) - 2) ?line = ''1.1''"
    using substr_middle [of "?e + 1" "''GET '' @ t @ '' ''" "?e + 5 - ?e - 1" "''HTTP''" "''/1.1'' @ [carriage_return]"]
      substr_middle [of "?e + 5 + 1" "''GET '' @ t @ '' HTTP/''" "length ?line - (?e + 5) - 2" "''1.1''" "[carriage_return]"]
    by (simp_all add: substr_def [of _ _ "_ # _ # _ # _ # t @ _"] substr_def [of 0])
  have "header_parse fuel ?rest = Some (fs, \<lparr>unread = rest, at_end = False\<rparr>)"
    using header_parse_fields [OF assms(4,5), of rest] by (simp only: crlf_def)
  then show ?thesis
    unfolding request_parse_def Let_def line split m option.case target protocol parts
    by (simp add: request_target_def parts [simplified])
qed

lemma response_parse_fields:
  assumes "header_ok fs" and "length fs < fuel"
  shows "response_parse fuel \<lparr>unread = ''HTTP/1.1 101 Web Socket Protocol Handshake'' @ crlf @ header_text fs @ crlf @ rest, at_end = False\<rparr> r0 =
    Some (True, r0\<lparr>rs_version := ''1.1'', rs_status_code := ''101 Web Socket Protocol Handshake'', rs_header := fs\<rparr>,
      \<lparr>unread = rest, at_end = False\<rparr>)"
proof -
  let ?line = "''HTTP/1.1 101 Web Socket Protocol Handshake'' @ [carriage_return]"
  let ?rest = "\<lparr>unread = header_text fs @ crlf @ rest, at_end = False\<rparr>"
  have "newline \<notin> set ?line" by simp
  from getline_first [OF this, of "header_text fs @ crlf @ rest" "[]"]
  have line: "getline \<lparr>unread = ''HTTP/1.1 101 Web Socket Protocol Handshake'' @ crlf @ header_text fs @ crlf @ rest, at_end = False\<rparr> [] =
      (?rest, ?line)"
    by (simp add: crlf_def)
  have v: "find_from (CHR '' '') 0 ?line = Some 8"
    using find_from_first [of ?line "''HTTP/1.1''" "CHR '' ''" "''101 Web Socket Protocol Handshake'' @ [carriage_return]" 0] by simp
  have parts: "5 < length ?line" "\<not> (8 :: nat) < 5" "8 + 1 < length ?line" "substr 5 (8 - 5) ?line = ''1.1''"
    "substr (8 + 1) (length ?line - (8 + 1) - 1) ?line = ''101 Web Socket Protocol Handshake''"
    by (simp_all add: substr_def)
  have "header_parse fuel ?rest = Some (fs, \<lparr>unread = rest, at_end = False\<rparr>)"
    using header_parse_fields [OF assms, of rest] by (simp only: crlf_def)
  then show ?thesis
    unfolding response_parse_def Let_def line split v option.case using parts by simp
qed

section \<open>The two ends together\<close>

definition standard_fields :: "string \<Rightarrow> string \<Rightarrow> multimap" where
  "standard_fields host nonce_base64 =
     [(''Host'', host), (''Upgrade'', ''websocket''), (''Connection'', ''Upgrade''),
      (''Sec-WebSocket-Key'', nonce_base64), (''Sec-WebSocket-Version'', ''13'')]"

lemma client_request_fields:
  "client_request target host nonce_base64 config_header =
    ''GET '' @ target @ '' HTTP/1.1'' @ crlf @ header_text (standard_fields host nonce_base64 @ config_header) @ crlf"
  by (simp add: client_request_def header_text_def standard_fields_def crlf_def case_prod_unfold)

lemma header_find_only:
  assumes "pick_law pick" and "filter (\<lambda>(k, v). case_insensitive_equal k name) h = [(k, v)]"
  shows "header_find pick name h = Some v"
proof -
  have "pick [v] \<in> set [v]" using assms(1) unfolding pick_law_def by blast
  then show ?thesis using assms(2) by (simp add: header_find_def)
qed

lemma key_found:
  assumes "pick_law pick" and "\<forall>(k, v) \<in> set fs. \<not> case_insensitive_equal k ''Sec-WebSocket-Key''"
  shows "header_find pick ''Sec-WebSocket-Key'' (standard_fields host nonce_base64 @ fs) = Some nonce_base64"
proof (rule header_find_only [OF assms(1)])
  have "case_insensitive_equal ''Sec-WebSocket-Key'' ''Sec-WebSocket-Key''"
    "\<not> case_insensitive_equal ''Host'' ''Sec-WebSocket-Key''" "\<not> case_insensitive_equal ''Upgrade'' ''Sec-WebSocket-Key''"
    "\<not> case_insensitive_equal ''Connection'' ''Sec-WebSocket-Key''"
    "\<not> case_insensitive_equal ''Sec-WebSocket-Version'' ''Sec-WebSocket-Key''"
    by (simp_all add: case_insensitive_equal_def)
  moreover have "filter (\<lambda>(k, v). case_insensitive_equal k ''Sec-WebSocket-Key'') fs = []"
    using assms(2) by (auto simp: filter_empty_conv)
  ultimately show "filter (\<lambda>(k, v). case_insensitive_equal k ''Sec-WebSocket-Key'') (standard_fields host nonce_base64 @ fs) =
      [(''Sec-WebSocket-Key'', nonce_base64)]"
    by (simp add: standard_fields_def)
qed

definition answer_fields :: "string \<Rightarrow> multimap" where
  "answer_fields accept = [(''Upgrade'', ''websocket''), (''Connection'', ''Upgrade''), (''Sec-WebSocket-Accept'', accept)]"

lemma accept_found:
  assumes "pick_law pick"
  shows "header_find pick ''Sec-WebSocket-Accept'' (answer_fields accept) = Some accept"
  by (rule header_find_only [OF assms, of _ _ "''Sec-WebSocket-Accept''"])
    (simp add: answer_fields_def case_insensitive_equal_def)

section \<open>Decimal numbers\<close>

lemma digit_char_code: "d < 10 \<Longrightarrow> char_code (digit_char d) = 48 + d"
  by (simp add: char_code_def digit_char_def)

lemma show_nat_digits: "list_all is_digit (show_nat n) \<and> show_nat n \<noteq> [] \<and> decimal (show_nat n) = n"
proof (induction n rule: show_nat.induct)
  case (1 n)
  have last: "is_digit (digit_char d)" "char_code (digit_char d) - 48 = d" if "d < 10" for d
    using digit_char_code [OF that] that by (simp_all add: is_digit_def)
  show ?case
  proof (cases "n < 10")
    case True
    with last [OF this] show ?thesis by (simp add: show_nat.simps [of n] decimal_def)
  next
    case False
    with 1 last [of "n mod 10"] show ?thesis
      by (simp add: show_nat.simps [of n] decimal_def)
  qed
qed

lemma digit_not_special: "is_digit c \<Longrightarrow> \<not> is_space c \<and> c \<noteq> CHR ''-'' \<and> c \<noteq> CHR ''+'' \<and> c \<noteq> CHR ''/'' \<and> c \<noteq> CHR '':''"
  by (auto simp: is_digit_def is_space_def char_code_def)

lemma stoul_show_nat:
  assumes "n < 2 ^ 64"
  shows "stoul (show_nat n) = Some (of_nat n)"
proof -
  obtain c s where cs: "show_nat n = c # s" using show_nat_digits [of n] by (cases "show_nat n") auto
  with show_nat_digits [of n] have digits: "takeWhile is_digit (c # s) = c # s" and c: "is_digit c" and n: "decimal (c # s) = n"
    by (auto simp: list_all_iff takeWhile_eq_all_conv)
  show ?thesis
    using digit_not_special [OF c] assms by (simp add: stoul_def cs Let_def digits n del: takeWhile.simps)
qed

section \<open>Properties\<close>

text \<open>C12. The two ends agree: the request of the client is understood by the server, the first endpoint that
  matches the target answers it, and the client accepts the answer; bytes that came behind the request
  or the answer are left over for the frames. A client that sent another key, with another digest,
  refuses the same answer.\<close>

theorem handshake_succeeds:
  assumes "crypto_laws ops" and "pick_law pick"
    and "CHR '' '' \<notin> set target" and "CHR ''?'' \<notin> set target" and "newline \<notin> set target"
    and "newline \<notin> set host" and "header_ok fs"
    and "\<forall>(k, v) \<in> set fs. \<not> case_insensitive_equal k ''Sec-WebSocket-Key''"
    and "List.find (\<lambda>e. matches e target) endpoints = Some e"
    and "length fs + 5 < fuel" and "3 < fuel'"
  shows "\<exists>answer.
    read_handshake fuel ops pick matches endpoints (client_request target host (base64_encode ops nonce) fs @ early) =
      Some (Some (e, answer), early) \<and>
    check_answer fuel' ops pick (base64_encode ops nonce) (answer @ later) = Some (HandshakeDone later) \<and>
    (\<forall>other. sha1 ops (other @ ws_magic_string) \<noteq> sha1 ops (base64_encode ops nonce @ ws_magic_string) \<longrightarrow>
      check_answer fuel' ops pick other (answer @ later) = Some ProtocolError)"
proof -
  let ?key = "base64_encode ops nonce" and ?digest = "sha1 ops (base64_encode ops nonce @ ws_magic_string)"
  let ?fields = "standard_fields host ?key @ fs" and ?accept = "base64_encode ops ?digest"
  have laws: "newline \<notin> set (base64_encode ops s)" "base64_decode ops ?accept = ?digest" for s
    using assms(1) by (simp_all add: crypto_laws_def)
  define answer where "answer = ''HTTP/1.1 101 Web Socket Protocol Handshake'' @ crlf @ header_text (answer_fields ?accept) @ crlf"
  have "header_ok ?fields"
    using assms(6,7) laws(1) by (simp add: header_ok_def standard_fields_def)
  from request_parse_fields [OF assms(3-5) this, of fuel early empty_request] assms(10)
  have request: "request_parse fuel \<lparr>unread = client_request target host ?key fs @ early, at_end = False\<rparr> empty_request =
      Some (True, empty_request\<lparr>request_method := ''GET'', path := target, http_version := ''1.1'', header := ?fields\<rparr>,
        \<lparr>unread = early, at_end = False\<rparr>)"
    unfolding client_request_fields by (simp add: standard_fields_def)
  have "generate_handshake ops pick ?fields = Some answer"
    using key_found [OF assms(2,8), of host ?key]
    by (simp add: generate_handshake_def answer_def header_text_def answer_fields_def crlf_def)
  with request assms(9) have "read_handshake fuel ops pick matches endpoints (client_request target host ?key fs @ early) =
      Some (Some (e, answer), early)"
    by (simp add: read_handshake_def write_handshake_def)
  moreover have "header_ok (answer_fields ?accept)" "length (answer_fields ?accept) < fuel'"
    using laws(1) assms(11) by (simp_all add: header_ok_def answer_fields_def)
  from response_parse_fields [OF this, of later empty_response]
  have response: "response_parse fuel' \<lparr>unread = answer @ later, at_end = False\<rparr> empty_response =
      Some (True, empty_response\<lparr>rs_version := ''1.1'', rs_status_code := ''101 Web Socket Protocol Handshake'',
        rs_header := answer_fields ?accept\<rparr>, \<lparr>unread = later, at_end = False\<rparr>)"
    by (simp add: answer_def)
  have "check_answer fuel' ops pick k (answer @ later) =
      Some (if ?digest = sha1 ops (k @ ws_magic_string) then HandshakeDone later else ProtocolError)" for k
    using accept_found [OF assms(2), of ?accept] laws(2) by (simp add: check_answer_def response)
  ultimately show ?thesis by auto
qed

text \<open>A crypto instance for the closed examples: hexadecimal digits, and a digest that keeps the start of the text.\<close>

fun hex_encode :: "string \<Rightarrow> string" where
  "hex_encode [] = []"
| "hex_encode (c # s) = hex_char (char_code c div 16) # hex_char (char_code c mod 16) # hex_encode s"

fun hex_decode :: "string \<Rightarrow> string" where
  "hex_decode (a # b # s) = char_of (nat (strtol16 [a, b] mod 256)) # hex_decode s"
| "hex_decode s = []"

definition example_crypto :: crypto_ops where
  "example_crypto = \<lparr>sha1 = (\<lambda>s. take 64 (''#'' @ s)), base64_encode = hex_encode, base64_decode = hex_decode\<rparr>"

lemma hex_roundtrip: "hex_decode (hex_encode s) = s"
proof (induction s)
  case (Cons c s)
  have "nat (strtol16 [hex_char (char_code c div 16), hex_char (char_code c mod 16)] mod 256) = char_code c"
    using hex_pair char_code_less [of c] by (simp add: list_all_iff)
  with Cons show ?case by (simp add: char_code_def)
qed simp

lemma hex_lines: "newline \<notin> set (hex_encode s)"
proof (induction s)
  case (Cons c s)
  have "list_all (\<lambda>n. newline \<noteq> hex_char n) [0..<16]" by code_simp
  then have "newline \<noteq> hex_char n" if "n < 16" for n using that by (simp add: list_all_iff)
  moreover have "char_code c div 16 < 16" "char_code c mod 16 < 16" using char_code_less [of c] by simp_all
  ultimately show ?case using Cons by simp
qed simp

lemma example_crypto_laws: "crypto_laws example_crypto"
  by (simp add: crypto_laws_def example_crypto_def hex_roundtrip hex_lines)

theorem handshake_succeeds_witness:
  "\<exists>answer. read_handshake 10 example_crypto hd (=) [''/rating''] (client_request ''/rating'' ''localhost'' (hex_encode ''nonce'') [] @ []) =
      Some (Some (''/rating'', answer), []) \<and>
    check_answer 10 example_crypto hd (hex_encode ''nonce'') (answer @ ''frame'') = Some (HandshakeDone ''frame'')"
proof -
  have "pick_law hd" by (simp add: pick_law_def)
  from handshake_succeeds [OF example_crypto_laws this, of "''/rating''" "''localhost''" "[]" "(=)" "[''/rating'']" "''/rating''"
      10 10 "''nonce''" "[]" "''frame''"]
  show ?thesis by (auto simp: header_ok_def example_crypto_def)
qed

text \<open>The client connects to the port it is told to, cut to sixteen bits, and to the endpoint of the
  rating service, at every host whose name has no colon and no slash.\<close>

theorem client_address_agrees:
  assumes "CHR '':'' \<notin> set host" and "CHR ''/'' \<notin> set host" and "0 \<le> port" and "port < 2 ^ 31"
  shows "ws_client_address host port = Some \<lparr>ca_host = host, ca_port = word_of_int port, ca_path = ''/rating''\<rparr>"
proof -
  let ?d = "show_nat (nat port)"
  let ?s = "host @ '':'' @ ?d @ ''/rating''"
  have d: "CHR ''/'' \<notin> set ?d"
    using show_nat_digits [of "nat port"] digit_not_special by (auto simp: list_all_iff)
  have colon: "find_from (CHR '':'') 0 ?s = Some (length host)"
    using assms(1) by (intro find_from_first) simp_all
  have slash: "find_from (CHR ''/'') 0 ?s = Some (length host + 1 + length ?d)"
    using assms(2) d find_from_first [of ?s "host @ '':'' @ ?d" "CHR ''/''" "''rating''" 0] by simp
  have "substr (length host + 1) (length host + 1 + length ?d - (length host + 1)) ?s = ?d"
    using substr_middle [of "length host + 1" "host @ '':''" "length ?d" ?d "''/rating''"] by simp
  moreover have "stoul ?d = Some (of_nat (nat port))" using assms(4) by (intro stoul_show_nat) simp
  moreover have "ucast (of_nat (nat port) :: u64) = (word_of_int port :: u16)"
  proof -
    have "ucast (of_nat (nat port) :: u64) = (of_nat (nat port) :: u16)"
      using assms(4) by (simp add: unsigned_of_nat take_bit_nat_eq_self)
    also have "\<dots> = word_of_int (int (nat port))" by simp
    finally show ?thesis using assms(3) by simp
  qed
  moreover have "substr 0 (length host) ?s = host" "drop (length host + 1 + length ?d) ?s = ''/rating''"
    by (simp_all add: substr_def)
  ultimately show ?thesis
    using assms(3) colon slash by (simp add: ws_client_address_def client_address_of_def show_int_def Let_def)
qed

theorem client_address_agrees_witness:
  "ws_client_address ''localhost'' 88888 = Some \<lparr>ca_host = ''localhost'', ca_port = 23352, ca_path = ''/rating''\<rparr>"
  using client_address_agrees [of "''localhost''" 88888] by simp

end
