(* ===== verification/Web_Base64.thy ===== *)
theory Web_Base64
  imports Web_Crypto Ws_Handshake
begin

text \<open>
  The rest of \<^verbatim>\<open>webapi/websockets/crypto.hpp\<close>: \<^verbatim>\<open>Base64\<close>, which has OpenSSL write into a string it has sized before, and
  \<^verbatim>\<open>pbkdf2\<close>; and the functions of the handshake (\<open>crypto_ops\<close>) as these wrappers, with \<open>crypto_laws\<close> from what is
  documented of OpenSSL (\<open>bio_laws\<close>). Sizes pass through \<^verbatim>\<open>int\<close>, which \<open>int_cast\<close> wraps around.
\<close>

section \<open>Parameters\<close>

text \<open>\<open>bio_write\<close>: what a base 64 BIO has put into the BIO behind it once a text was written and flushed, unless
  one of them fails; \<open>mem_text\<close>: what a memory BIO over a text holds when told that length; \<open>bio_read\<close>: what a
  read of at most so many bytes gets from the base 64 BIO over it, nothing when it fails; \<open>pkcs5_pbkdf2\<close>: the
  content of the buffer for the key.\<close>

record bio_ops =
  bio_write :: "string \<Rightarrow> string option"
  mem_text :: "string \<Rightarrow> int \<Rightarrow> string"
  bio_read :: "string \<Rightarrow> nat \<Rightarrow> string"
  pkcs5_pbkdf2 :: "string \<Rightarrow> string \<Rightarrow> int \<Rightarrow> nat \<Rightarrow> string"

text \<open>Base 64 takes four characters for three bytes, pads the last ones, breaks no line with
  \<^verbatim>\<open>BIO_FLAGS_BASE64_NO_NL\<close>, and is undone by reading it.\<close>

definition encoded_length :: "nat \<Rightarrow> nat" where
  "encoded_length n = 4 * ((n + 2) div 3)"

definition bio_laws :: "bio_ops \<Rightarrow> bool" where
  "bio_laws bio \<longleftrightarrow>
     (\<forall>s. s \<noteq> [] \<longrightarrow> (\<exists>e. bio_write bio s = Some e \<and> length e = encoded_length (length s) \<and> newline \<notin> set e \<and>
        (\<forall>n. length s \<le> n \<longrightarrow> bio_read bio e n = s))) \<and>
     (\<forall>s n. n \<le> length s \<longrightarrow> mem_text bio s (int n) = take n s)"

section \<open>Base64 and pbkdf2\<close>

definition int_cast :: "nat \<Rightarrow> int" where
  "int_cast n = sint (word_of_nat n :: 32 word)"

text \<open>The string is sized first, and filled by the memory BIO in place; what does not fit is written behind it.
  A length that is not positive is refused by \<^verbatim>\<open>BIO_write\<close>.\<close>

definition base64_encoded :: "bio_ops \<Rightarrow> string \<Rightarrow> string result" where
  "base64_encoded bio ascii =
     (let base64 = replicate (encoded_length (length ascii)) (CHR 0x00);
          size = int_cast (length ascii)
      in if size \<le> 0 then Inr []
         else (case bio_write bio (take (nat size) ascii) of
             None \<Rightarrow> Inr []
           | Some written \<Rightarrow>
               if length base64 < length written then Inl UndefinedBehaviour
               else Inr (written @ drop (length written) base64)))"

text \<open>\<^verbatim>\<open>BIO_read\<close> gets no more than it asks for, and nothing where the length is not positive.\<close>

definition base64_decoded :: "bio_ops \<Rightarrow> string \<Rightarrow> string" where
  "base64_decoded bio base64 =
     (let size = int_cast (6 * length base64 div 8)
      in if size \<le> 0 then []
         else take (nat size) (bio_read bio (mem_text bio base64 (int_cast (length base64))) (nat size)))"

text \<open>A negative \<^verbatim>\<open>key_size\<close> makes \<^verbatim>\<open>resize\<close> throw, which no handler stops in a function that is \<^verbatim>\<open>noexcept\<close>: \<open>None\<close>.\<close>

definition pbkdf2 :: "bio_ops \<Rightarrow> string \<Rightarrow> string \<Rightarrow> int \<Rightarrow> int \<Rightarrow> string option" where
  "pbkdf2 bio password salt iterations key_size =
     (if key_size < 0 then None
      else Some (take (nat key_size) (pkcs5_pbkdf2 bio password salt iterations (nat key_size))))"

section \<open>Sizes\<close>

lemma int_cast_wraps: "int_cast n = (int n + 2 ^ 31) mod 2 ^ 32 - 2 ^ 31"
proof -
  have "int_cast n = signed_take_bit 31 (int n)" unfolding int_cast_def by transfer simp
  then show ?thesis by (simp add: signed_take_bit_eq_take_bit_shift take_bit_eq_mod)
qed

lemma int_cast_small: "n < 2 ^ 31 \<Longrightarrow> int_cast n = int n"
  by (simp add: int_cast_wraps)

lemma int_cast_large:
  assumes "2 ^ 31 \<le> n" and "n \<le> 2 ^ 32"
  shows "int_cast n \<le> 0"
proof -
  have n: "0 \<le> int n - 2 ^ 31" "int n - 2 ^ 31 < 2 ^ 32" "int n \<le> 2 ^ 32" using assms by simp_all
  have "(int n - 2 ^ 31 + 2 ^ 32) mod 2 ^ 32 = int n - 2 ^ 31"
    by (simp only: mod_add_self2 mod_pos_pos_trivial [OF n(1,2)])
  then have "(int n + 2 ^ 31) mod 2 ^ 32 = int n - 2 ^ 31" by (simp add: algebra_simps)
  with n(3) show ?thesis by (simp add: int_cast_wraps)
qed

lemma encoded_length_fits: "n \<le> 6 * encoded_length n div 8" and encoded_length_room: "6 * encoded_length n div 8 = 3 * ((n + 2) div 3)"
  by (simp_all add: encoded_length_def)

lemma encoded_is:
  assumes "bio_laws bio" and "s \<noteq> []" and "length s < 2 ^ 31"
  obtains e where "base64_encoded bio s = Inr e" and "bio_write bio s = Some e" and "length e = encoded_length (length s)"
    and "newline \<notin> set e" and "\<And>n. length s \<le> n \<Longrightarrow> bio_read bio e n = s"
  using assms by (auto simp: bio_laws_def base64_encoded_def int_cast_small Let_def)

text \<open>What is encoded is decoded to what it was, up to 1610612733 bytes; beyond, the size of the encoded text is
  not an \<^verbatim>\<open>int\<close>. From \<^verbatim>\<open>2 ^ 31\<close> bytes on nothing is encoded at all.\<close>

theorem base64_roundtrip:
  assumes "bio_laws bio" and "length s \<le> 1610612733"
  shows "\<exists>e. base64_encoded bio s = Inr e \<and> base64_decoded bio e = s"
proof (cases "s = []")
  case True
  then show ?thesis by (simp add: base64_encoded_def base64_decoded_def int_cast_def)
next
  case False
  with assms obtain e where e: "base64_encoded bio s = Inr e" "length e = encoded_length (length s)"
    "\<And>n. length s \<le> n \<Longrightarrow> bio_read bio e n = s" by (auto elim: encoded_is)
  let ?size = "6 * length e div 8"
  have size: "length s \<le> ?size" "0 < length s" using e(2) encoded_length_fits False by simp_all
  moreover have "?size < 2 ^ 31" "length e < 2 ^ 31"
    using assms(2) unfolding e(2) by (simp_all add: encoded_length_def)
  moreover have "mem_text bio e (int (length e)) = e" using assms(1) by (simp add: bio_laws_def)
  moreover from size have "0 < ?size" by linarith
  ultimately have "base64_decoded bio e = s"
    using e(3) [of ?size] by (simp add: base64_decoded_def int_cast_small Let_def del: div_mult_mult1_if)
  with e(1) show ?thesis by simp
qed

lemma base64_of_too_much:
  assumes "2 ^ 31 \<le> length s" and "length s \<le> 2 ^ 32"
  shows "base64_encoded bio s = Inr []"
  using int_cast_large [OF assms] by (simp add: base64_encoded_def)

text \<open>OpenSSL never writes behind the string.\<close>

lemma base64_stays_inside:
  assumes "bio_laws bio"
  shows "\<exists>e. base64_encoded bio s = Inr e \<and> newline \<notin> set e"
proof (cases "int_cast (length s) \<le> 0 \<or> s = []")
  case True
  then show ?thesis by (auto simp: base64_encoded_def int_cast_def)
next
  case False
  let ?n = "nat (int_cast (length s))"
  from False have "take ?n s \<noteq> []" by simp
  with assms obtain e where e: "bio_write bio (take ?n s) = Some e" "length e = encoded_length (length (take ?n s))"
    "newline \<notin> set e" unfolding bio_laws_def by blast
  from e(2) have "length e \<le> encoded_length (length s)"
    by (simp add: encoded_length_def div_le_mono)
  with e(1,3) False show ?thesis by (auto simp: base64_encoded_def Let_def dest: in_set_dropD)
qed

section \<open>The wrappers keep what the handshake relies on\<close>

definition wrapped :: "'c openssl \<Rightarrow> bio_ops \<Rightarrow> crypto_ops" where
  "wrapped ssl bio =
     \<lparr>sha1 = (\<lambda>s. sha1_text ssl s 1), base64_encode = (\<lambda>s. projr (base64_encoded bio s)), base64_decode = base64_decoded bio\<rparr>"

lemma wrapped_crypto_laws:
  assumes "bio_laws bio" and "\<And>s. length (hash_text (openssl_sha1 ssl) s) = 20"
  shows "crypto_laws (wrapped ssl bio)"
proof -
  have "base64_decoded bio (projr (base64_encoded bio s)) = s" if "length s \<le> 64" for s
    using base64_roundtrip [OF assms(1), of s] that by auto
  moreover have "newline \<notin> set (projr (base64_encoded bio s))" for s
    using base64_stays_inside [OF assms(1), of s] by auto
  moreover have "length (sha1_text ssl s 1) = 20" for s using assms(2) by (simp add: sha1_text_def iterated_def)
  then have "sha1_text ssl s 1 \<noteq> []" for s by (metis length_0_conv zero_neq_numeral)
  ultimately show ?thesis using \<open>\<And>s. length (sha1_text ssl s 1) = 20\<close> by (simp add: crypto_laws_def wrapped_def)
qed


section \<open>An instance\<close>

text \<open>Base 64 itself, as a function.\<close>

definition base64_alphabet :: string where
  "base64_alphabet = ''ABCDEFGHIJKLMNOPQRSTUVWXYZabcdefghijklmnopqrstuvwxyz0123456789+/''"

definition base64_char :: "nat \<Rightarrow> char" where
  "base64_char n = base64_alphabet ! n"

definition base64_value :: "char \<Rightarrow> nat" where
  "base64_value c = length (takeWhile (\<lambda>a. a \<noteq> c) base64_alphabet)"

fun plain_encode :: "string \<Rightarrow> string" where
  "plain_encode [] = []"
| "plain_encode [a] =
     (let n = char_code a * 16 in [base64_char (n div 64), base64_char (n mod 64), CHR ''='', CHR ''=''])"
| "plain_encode [a, b] =
     (let n = (char_code a * 256 + char_code b) * 4
      in [base64_char (n div 64 div 64), base64_char (n div 64 mod 64), base64_char (n mod 64), CHR ''=''])"
| "plain_encode (a # b # c # s) =
     (let n = (char_code a * 256 + char_code b) * 256 + char_code c
      in base64_char (n div 64 div 64 div 64) # base64_char (n div 64 div 64 mod 64) #
         base64_char (n div 64 mod 64) # base64_char (n mod 64) # plain_encode s)"

fun plain_decode :: "string \<Rightarrow> string" where
  "plain_decode (w # x # y # z # s) =
     (if y = CHR ''='' then [char_of ((base64_value w * 64 + base64_value x) div 16)]
      else if z = CHR ''='' then
        (let n = ((base64_value w * 64 + base64_value x) * 64 + base64_value y) div 4 in [char_of (n div 256), char_of (n mod 256)])
      else
        (let n = ((base64_value w * 64 + base64_value x) * 64 + base64_value y) * 64 + base64_value z
         in char_of (n div 256 div 256) # char_of (n div 256 mod 256) # char_of (n mod 256) # plain_decode s))"
| "plain_decode _ = []"

lemma base64_digit:
  assumes "n < 64"
  shows "base64_value (base64_char n) = n" and "base64_char n \<noteq> CHR ''=''" and "base64_char n \<noteq> newline"
proof -
  have "list_all (\<lambda>n. base64_value (base64_char n) = n \<and> base64_char n \<noteq> CHR ''='' \<and> base64_char n \<noteq> newline) [0..<64]"
    by code_simp
  with assms show "base64_value (base64_char n) = n" "base64_char n \<noteq> CHR ''=''" "base64_char n \<noteq> newline"
    by (auto simp: list_all_iff)
qed

lemma char_of_code [simp]: "char_of (char_code c) = c"
  by (simp add: char_code_def)

lemma char_of_shifted [simp]: "char_of (256 * n + char_code c) = c"
proof -
  have "(256 * n + char_code c) mod 256 = char_code c" using char_code_less [of c] by simp
  then show ?thesis by (metis char_of_mod_256 char_of_code)
qed

lemma plain_encode_length: "length (plain_encode s) = encoded_length (length s)"
proof (induction s rule: plain_encode.induct)
  case (4 a b c s)
  have "(5 + length s) div 3 = Suc ((2 + length s) div 3)" by presburger
  with 4 show ?case by (simp add: encoded_length_def Let_def)
qed (simp_all add: encoded_length_def Let_def)

lemma plain_encode_lines: "newline \<notin> set (plain_encode s)"
proof (induction s rule: plain_encode.induct)
  case (2 a)
  show ?case using char_code_less [of a] by (simp add: Let_def base64_digit(3) [symmetric])
next
  case (3 a b)
  show ?case using char_code_less [of a] char_code_less [of b]
    by (simp add: Let_def base64_digit(3) [symmetric])
next
  case (4 a b c s)
  then show ?case using char_code_less [of a] char_code_less [of b] char_code_less [of c]
    by (simp add: Let_def base64_digit(3) [symmetric])
qed simp

lemma decode_digits:
  assumes "w < 64" and "x < 64" and "y < 64" and "z < 64"
  shows "plain_decode (base64_char w # base64_char x # CHR ''='' # CHR ''='' # s) = [char_of ((w * 64 + x) div 16)]"
    and "plain_decode (base64_char w # base64_char x # base64_char y # CHR ''='' # s) =
      (let n = ((w * 64 + x) * 64 + y) div 4 in [char_of (n div 256), char_of (n mod 256)])"
    and "plain_decode (base64_char w # base64_char x # base64_char y # base64_char z # s) =
      (let n = ((w * 64 + x) * 64 + y) * 64 + z
       in char_of (n div 256 div 256) # char_of (n div 256 mod 256) # char_of (n mod 256) # plain_decode s)"
  using assms by (simp_all only: plain_decode.simps base64_digit if_False if_True refl)

lemma code_parts: "(n * 256 + char_code c) div 256 = n" "char_of ((n * 256 + char_code c) mod 256) = c"
  using char_code_less [of c] by simp_all

lemma plain_roundtrip: "plain_decode (plain_encode s) = s"
proof (induction s rule: plain_encode.induct)
  case (2 a)
  let ?n = "char_code a * 16"
  have digits: "?n div 64 < 64" "?n mod 64 < 64" using char_code_less [of a] by simp_all
  have "?n div 64 * 64 + ?n mod 64 = ?n" by (rule div_mult_mod_eq)
  then show ?case by (simp only: plain_encode.simps Let_def decode_digits [OF digits digits]) simp
next
  case (3 a b)
  let ?m = "char_code a * 256 + char_code b"
  let ?n = "?m * 4"
  have digits: "?n div 64 div 64 < 64" "?n div 64 mod 64 < 64" "?n mod 64 < 64"
    using char_code_less [of a] char_code_less [of b] by simp_all
  have n: "(?n div 64 div 64 * 64 + ?n div 64 mod 64) * 64 + ?n mod 64 = ?n" by (simp only: div_mult_mod_eq)
  have m: "?n div 4 = ?m" by simp
  show ?case
    by (simp only: plain_encode.simps Let_def decode_digits(2) [OF digits digits(3)] n m code_parts char_of_code)
next
  case (4 a b c s)
  let ?n = "(char_code a * 256 + char_code b) * 256 + char_code c"
  have digits: "?n div 64 div 64 div 64 < 64" "?n div 64 div 64 mod 64 < 64" "?n div 64 mod 64 < 64" "?n mod 64 < 64"
    using char_code_less [of a] char_code_less [of b] char_code_less [of c] by simp_all
  have n: "((?n div 64 div 64 div 64 * 64 + ?n div 64 div 64 mod 64) * 64 + ?n div 64 mod 64) * 64 + ?n mod 64 = ?n"
    by (simp only: div_mult_mod_eq)
  show ?case
    by (simp only: plain_encode.simps Let_def decode_digits(3) [OF digits] n code_parts char_of_code 4)
qed simp

definition plain_bio :: bio_ops where
  "plain_bio = \<lparr>bio_write = (\<lambda>s. Some (plain_encode s)), mem_text = (\<lambda>s n. take (nat n) s),
     bio_read = (\<lambda>s n. take n (plain_decode s)), pkcs5_pbkdf2 = (\<lambda>password salt iterations n. replicate n (CHR ''k''))\<rparr>"

lemma plain_bio_laws: "bio_laws plain_bio"
  by (simp add: bio_laws_def plain_bio_def plain_encode_length plain_encode_lines plain_roundtrip)

theorem base64_roundtrip_witness:
  "base64_encoded plain_bio ''Man!'' = Inr ''TWFuIQ=='' \<and>
   base64_decoded plain_bio ''TWFuIQ=='' = ''Man!''"
proof -
  have "plain_encode ''Man!'' = ''TWFuIQ==''"
    by (simp add: char_code_def base64_char_def base64_alphabet_def Let_def)
  then have "base64_encoded plain_bio ''Man!'' = Inr ''TWFuIQ==''"
    by (simp add: base64_encoded_def plain_bio_def int_cast_small encoded_length_def)
  then show ?thesis using base64_roundtrip [OF plain_bio_laws, of "''Man!''"] by simp
qed

text \<open>The wrappers over this instance, with a digest of twenty bytes, are what the handshake needs.\<close>

lemma wrapped_instance:
  "crypto_laws (wrapped (ssl\<lparr>openssl_sha1 := (openssl_sha1 ssl)\<lparr>hash_text := (\<lambda>s. take 20 (s @ replicate 20 (CHR ''x'')))\<rparr>\<rparr>) plain_bio)"
  by (rule wrapped_crypto_laws [OF plain_bio_laws]) simp

end
