(* ===== verification/Send_Queue.thy ===== *)
theory Send_Queue
  imports Ws_Client_Frame
begin

text \<open>
  The send queue of a connection, in \<^verbatim>\<open>webapi/websockets/server_ws.hpp\<close> and \<^verbatim>\<open>client_ws.hpp\<close>. \<^verbatim>\<open>send\<close> posts
  its frame to the strand, where it joins the queue; the first frame of the queue is being written, by
  the server in two writes (header, message), by the client in one. What the strand runs next is an
  event: a posted frame, the posted start of a write, or the handler of a finished write with its
  outcome. \<^verbatim>\<open>async_write\<close> writes all of its bytes, or some of them and reports an error. A handler
  that finds the scope runner stopped returns at once. Handlers of the same strand do not overlap.
\<close>

section \<open>Events and state\<close>

record queued_frame =
  frame_header :: "u8 list"
  frame_message :: "u8 list"
  frame_callback :: nat

datatype write_stage = NoWrite | WritePosted | HeaderWrite | MessageWrite | WriteAbandoned

record send_channel =
  send_queue :: "queued_frame list"
  write_stage :: write_stage
  wire_bytes :: "u8 list"
  reports :: "(nat \<times> bool) list"

definition new_channel :: send_channel where
  "new_channel = \<lparr>send_queue = [], write_stage = NoWrite, wire_bytes = [], reports = []\<rparr>"

text \<open>How a write ends: \<open>Written\<close>, or \<open>Failed n\<close> after \<open>n\<close> bytes.\<close>

datatype write_outcome = Written | Failed nat

datatype strand_event =
    FramePosted queued_frame
  | WriteStarts
  | WriteEnds bool write_outcome

text \<open>\<open>NotEnabled\<close>: no such handler is outstanding. \<open>Undefined\<close>: the code uses the front of an empty queue.\<close>

datatype 's strand_result = NotEnabled | Undefined | Went 's

definition written_bytes :: "write_outcome \<Rightarrow> u8 list \<Rightarrow> u8 list" where
  "written_bytes r bs = (case r of Written \<Rightarrow> bs | Failed n \<Rightarrow> take n bs)"

section \<open>Operations\<close>

definition send_from_queue :: "send_channel \<Rightarrow> send_channel" where
  "send_from_queue c = c\<lparr>write_stage := WritePosted\<rparr>"

definition enqueue :: "queued_frame \<Rightarrow> send_channel \<Rightarrow> send_channel" where
  "enqueue f c =
     (let c = c\<lparr>send_queue := send_queue c @ [f]\<rparr>
      in if length (send_queue c) = 1 then send_from_queue c else c)"

text \<open>The end of the frame at the front: its callback runs, and the next write is posted, or the queue
  is dropped.\<close>

definition frame_ends :: "bool \<Rightarrow> queued_frame \<Rightarrow> queued_frame list \<Rightarrow> send_channel \<Rightarrow> send_channel" where
  "frame_ends ok f fs c =
     (let c = c\<lparr>reports := reports c @ [(frame_callback f, ok)], write_stage := NoWrite\<rparr>
      in if ok then
           let c = c\<lparr>send_queue := fs\<rparr> in if 0 < length fs then send_from_queue c else c
         else c\<lparr>send_queue := []\<rparr>)"

text \<open>The handlers of the server's two writes.\<close>

definition header_written :: "bool \<Rightarrow> write_outcome \<Rightarrow> queued_frame \<Rightarrow> queued_frame list \<Rightarrow> send_channel \<Rightarrow> send_channel" where
  "header_written lock r f fs c =
     (let c = c\<lparr>wire_bytes := wire_bytes c @ written_bytes r (frame_header f)\<rparr>
      in if \<not> lock then c\<lparr>write_stage := WriteAbandoned\<rparr>
         else if r = Written then c\<lparr>write_stage := MessageWrite\<rparr>
         else frame_ends False f fs c)"

definition message_written :: "bool \<Rightarrow> write_outcome \<Rightarrow> queued_frame \<Rightarrow> queued_frame list \<Rightarrow> send_channel \<Rightarrow> send_channel" where
  "message_written lock r f fs c =
     (let c = c\<lparr>wire_bytes := wire_bytes c @ written_bytes r (frame_message f)\<rparr>
      in if \<not> lock then c\<lparr>write_stage := WriteAbandoned\<rparr> else frame_ends (r = Written) f fs c)"

fun server_strand :: "strand_event \<Rightarrow> send_channel \<Rightarrow> send_channel strand_result" where
  "server_strand (FramePosted f) c = Went (enqueue f c)"
| "server_strand WriteStarts c =
     (if write_stage c \<noteq> WritePosted then NotEnabled
      else case send_queue c of [] \<Rightarrow> Undefined | f # fs \<Rightarrow> Went (c\<lparr>write_stage := HeaderWrite\<rparr>))"
| "server_strand (WriteEnds lock r) c =
     (case write_stage c of
        HeaderWrite \<Rightarrow> (case send_queue c of [] \<Rightarrow> Undefined | f # fs \<Rightarrow> Went (header_written lock r f fs c))
      | MessageWrite \<Rightarrow> (case send_queue c of [] \<Rightarrow> Undefined | f # fs \<Rightarrow> Went (message_written lock r f fs c))
      | _ \<Rightarrow> NotEnabled)"

text \<open>The client writes one stream, which holds header, mask and message.\<close>

definition client_written :: "bool \<Rightarrow> write_outcome \<Rightarrow> queued_frame \<Rightarrow> queued_frame list \<Rightarrow> send_channel \<Rightarrow> send_channel" where
  "client_written lock r f fs c =
     (let c = c\<lparr>wire_bytes := wire_bytes c @ written_bytes r (frame_message f)\<rparr>
      in if \<not> lock then c\<lparr>write_stage := WriteAbandoned\<rparr> else frame_ends (r = Written) f fs c)"

fun client_strand :: "strand_event \<Rightarrow> send_channel \<Rightarrow> send_channel strand_result" where
  "client_strand (FramePosted f) c = Went (enqueue f c)"
| "client_strand WriteStarts c =
     (if write_stage c \<noteq> WritePosted then NotEnabled
      else case send_queue c of [] \<Rightarrow> Undefined | f # fs \<Rightarrow> Went (c\<lparr>write_stage := MessageWrite\<rparr>))"
| "client_strand (WriteEnds lock r) c =
     (case write_stage c of
        MessageWrite \<Rightarrow> (case send_queue c of [] \<Rightarrow> Undefined | f # fs \<Rightarrow> Went (client_written lock r f fs c))
      | _ \<Rightarrow> NotEnabled)"

text \<open>A sequence of events, as long as each is enabled.\<close>

fun strand_run :: "('e \<Rightarrow> 's \<Rightarrow> 's strand_result) \<Rightarrow> 'e list \<Rightarrow> 's \<Rightarrow> 's strand_result" where
  "strand_run step [] s = Went s"
| "strand_run step (e # es) s = (case step e s of Went s' \<Rightarrow> strand_run step es s' | r \<Rightarrow> r)"

lemmas channel_defs =
  send_from_queue_def enqueue_def frame_ends_def header_written_def message_written_def client_written_def

section \<open>The contract of a send queue\<close>

text \<open>What a write puts on the wire of a frame, the frame that an event posts, and an event in which nothing fails.\<close>

definition channel_ok :: "send_channel \<Rightarrow> bool" where
  "channel_ok c \<longleftrightarrow> (write_stage c = NoWrite) = (send_queue c = [])"

fun posted_frame :: "strand_event \<Rightarrow> queued_frame list" where
  "posted_frame (FramePosted f) = [f]"
| "posted_frame _ = []"

fun smooth :: "strand_event \<Rightarrow> bool" where
  "smooth (WriteEnds lock r) \<longleftrightarrow> lock \<and> r = Written"
| "smooth _ \<longleftrightarrow> True"

definition posted :: "strand_event list \<Rightarrow> queued_frame list" where
  "posted es = concat (map posted_frame es)"

lemma posted_simps [simp]:
  "posted [] = []" "posted (e # es) = posted_frame e @ posted es" "posted (es @ es') = posted es @ posted es'"
  by (simp_all add: posted_def)

definition promised :: "queued_frame list \<Rightarrow> (nat \<times> bool) list" where
  "promised fs = map (\<lambda>f. (frame_callback f, True)) fs"

lemma promised_simps [simp]:
  "promised [] = []" "promised (f # fs) = (frame_callback f, True) # promised fs" "promised (fs @ gs) = promised fs @ promised gs"
  by (simp_all add: promised_def)

locale write_queue =
  fixes step :: "strand_event \<Rightarrow> send_channel \<Rightarrow> send_channel strand_result"
    and ok :: "send_channel \<Rightarrow> bool"
    and bytes :: "queued_frame \<Rightarrow> u8 list"
    and pending :: "send_channel \<Rightarrow> u8 list"
    and work :: "send_channel \<Rightarrow> nat"
  assumes step_defined: "ok c \<Longrightarrow> step e c \<noteq> Undefined"
    and step_ok: "ok c \<Longrightarrow> step e c = Went c' \<Longrightarrow> ok c'"
    and step_conserves: "ok c \<Longrightarrow> smooth e \<Longrightarrow> step e c = Went c' \<Longrightarrow>
      wire_bytes c' @ pending c' = wire_bytes c @ pending c @ concat (map bytes (posted_frame e)) \<and>
      reports c' @ promised (send_queue c') = reports c @ promised (send_queue c) @ promised (posted_frame e) \<and>
      (write_stage c \<noteq> WriteAbandoned \<longrightarrow> write_stage c' \<noteq> WriteAbandoned)"
    and empty_pending: "send_queue c = [] \<Longrightarrow> ok c \<Longrightarrow> pending c = []"
    and step_progress: "ok c \<Longrightarrow> send_queue c \<noteq> [] \<Longrightarrow> write_stage c \<noteq> WriteAbandoned \<Longrightarrow>
      \<exists>e c'. smooth e \<and> posted_frame e = [] \<and> step e c = Went c' \<and> work c' < work c"
begin

lemma run_ok: "ok c \<Longrightarrow> strand_run step es c \<noteq> Undefined \<and> (\<forall>c'. strand_run step es c = Went c' \<longrightarrow> ok c')"
proof (induction es arbitrary: c)
  case (Cons e es)
  then show ?case using step_defined [OF Cons.prems, of e] step_ok [OF Cons.prems, of e]
    by (cases "step e c") auto
qed simp

lemma run_conserves:
  "ok c \<Longrightarrow> list_all smooth es \<Longrightarrow> strand_run step es c = Went c' \<Longrightarrow>
    wire_bytes c' @ pending c' = wire_bytes c @ pending c @ concat (map bytes (posted es)) \<and>
    reports c' @ promised (send_queue c') = reports c @ promised (send_queue c) @ promised (posted es) \<and>
    (write_stage c \<noteq> WriteAbandoned \<longrightarrow> write_stage c' \<noteq> WriteAbandoned)"
proof (induction es arbitrary: c)
  case (Cons e es)
  then obtain c1 where c1: "step e c = Went c1" "strand_run step es c1 = Went c'"
    by (cases "step e c") auto
  from Cons.prems(2) have "smooth e" "list_all smooth es" by simp_all
  with step_conserves [OF Cons.prems(1) _ c1(1)] Cons.IH [OF step_ok [OF Cons.prems(1) c1(1)] _ c1(2)]
  have one: "wire_bytes c1 @ pending c1 = wire_bytes c @ pending c @ concat (map bytes (posted_frame e))"
      "reports c1 @ promised (send_queue c1) = reports c @ promised (send_queue c) @ promised (posted_frame e)"
      "write_stage c \<noteq> WriteAbandoned \<longrightarrow> write_stage c1 \<noteq> WriteAbandoned"
    and all: "wire_bytes c' @ pending c' = (wire_bytes c1 @ pending c1) @ concat (map bytes (posted es))"
      "reports c' @ promised (send_queue c') = (reports c1 @ promised (send_queue c1)) @ promised (posted es)"
      "write_stage c1 \<noteq> WriteAbandoned \<longrightarrow> write_stage c' \<noteq> WriteAbandoned" by auto
  show ?case using one(3) all(3) unfolding all(1,2) one(1,2) by simp
qed simp

lemma run_append: "strand_run step es c = Went c1 \<Longrightarrow> strand_run step (es @ es') c = strand_run step es' c1"
proof (induction es arbitrary: c)
  case (Cons e es)
  then show ?case by (cases "step e c") auto
qed simp

text \<open>If nothing fails, the queue can be emptied without posting anything else.\<close>

lemma run_drains:
  "ok c \<Longrightarrow> write_stage c \<noteq> WriteAbandoned \<Longrightarrow>
    \<exists>es c'. list_all smooth es \<and> posted es = [] \<and> strand_run step es c = Went c' \<and> send_queue c' = []"
proof (induction "work c" arbitrary: c rule: less_induct)
  case less
  show ?case
  proof (cases "send_queue c = []")
    case True
    then show ?thesis by (intro exI [of _ "[]"] exI [of _ c]) simp
  next
    case False
    from step_progress [OF less.prems(1) False less.prems(2)] obtain e c1
      where e: "smooth e" "posted_frame e = []" "step e c = Went c1" "work c1 < work c" by blast
    moreover from step_conserves [OF less.prems(1) e(1,3)] less.prems(2) have "write_stage c1 \<noteq> WriteAbandoned" by simp
    ultimately obtain es c' where "list_all smooth es" "posted es = []" "strand_run step es c1 = Went c'" "send_queue c' = []"
      using less.hyps [OF e(4) step_ok [OF less.prems(1) e(3)]] by blast
    with e show ?thesis by (intro exI [of _ "e # es"] exI [of _ c']) simp
  qed
qed

text \<open>All that was posted goes out, in the order it was posted, and every callback is told so.\<close>

lemma all_written:
  assumes "ok c" and "write_stage c \<noteq> WriteAbandoned" and "list_all smooth es" and "strand_run step es c = Went c1"
  shows "\<exists>es' c'. list_all smooth es' \<and> posted es' = [] \<and> strand_run step (es @ es') c = Went c' \<and> send_queue c' = [] \<and>
    wire_bytes c' = wire_bytes c @ pending c @ concat (map bytes (posted es)) \<and>
    reports c' = reports c @ promised (send_queue c) @ promised (posted es)"
proof -
  note okr = run_ok [OF assms(1), of es]
  from run_conserves [OF assms(1,3,4)] assms(2) have stage: "write_stage c1 \<noteq> WriteAbandoned" by blast
  from okr assms(4) have "ok c1" by blast
  from run_drains [OF this stage] obtain es' c' where
    es': "list_all smooth es'" "posted es' = []" "strand_run step es' c1 = Went c'" "send_queue c' = []" by blast
  have run: "strand_run step (es @ es') c = Went c'" using run_append [OF assms(4)] es'(3) by simp
  have "ok c'" using run_ok [OF assms(1), of "es @ es'"] run by blast
  then have "pending c' = []" by (rule empty_pending [OF es'(4)])
  with run_conserves [OF assms(1) _ run] es' assms(3) show ?thesis
    by (intro exI [of _ es'] exI [of _ c']) (simp add: run)
qed

end

section \<open>The two queues\<close>

definition server_bytes :: "queued_frame \<Rightarrow> u8 list" where
  "server_bytes f = frame_header f @ frame_message f"

definition server_pending :: "send_channel \<Rightarrow> u8 list" where
  "server_pending c =
     (case send_queue c of [] \<Rightarrow> []
      | f # fs \<Rightarrow> (if write_stage c = MessageWrite then frame_message f else server_bytes f) @ concat (map server_bytes fs))"

fun stage_work :: "write_stage \<Rightarrow> nat" where
  "stage_work NoWrite = 3"
| "stage_work WritePosted = 2"
| "stage_work HeaderWrite = 1"
| "stage_work _ = 0"

definition channel_work :: "send_channel \<Rightarrow> nat" where
  "channel_work c = 4 * length (send_queue c) + stage_work (write_stage c)"

definition client_pending :: "send_channel \<Rightarrow> u8 list" where
  "client_pending c = concat (map frame_message (send_queue c))"

definition client_ok :: "send_channel \<Rightarrow> bool" where
  "client_ok c \<longleftrightarrow> channel_ok c \<and> write_stage c \<noteq> HeaderWrite"

lemmas queue_proof_defs =
  channel_defs client_ok_def channel_ok_def server_pending_def server_bytes_def client_pending_def channel_work_def written_bytes_def

interpretation server_queue: write_queue server_strand channel_ok server_bytes server_pending channel_work
proof
  fix c c' e
  assume ok: "channel_ok c"
  show "server_strand e c \<noteq> Undefined"
    using ok by (cases e) (auto simp: channel_ok_def split: write_stage.splits list.splits)
  show "server_strand e c = Went c' \<Longrightarrow> channel_ok c'"
    using ok by (cases e) (auto simp: queue_proof_defs Let_def split: write_stage.splits list.splits if_splits)
  show "smooth e \<Longrightarrow> server_strand e c = Went c' \<Longrightarrow>
      wire_bytes c' @ server_pending c' = wire_bytes c @ server_pending c @ concat (map server_bytes (posted_frame e)) \<and>
      reports c' @ promised (send_queue c') = reports c @ promised (send_queue c) @ promised (posted_frame e) \<and>
      (write_stage c \<noteq> WriteAbandoned \<longrightarrow> write_stage c' \<noteq> WriteAbandoned)"
    using ok by (cases e) (auto simp: queue_proof_defs Let_def split: write_stage.splits list.splits if_splits)
  show "send_queue c = [] \<Longrightarrow> server_pending c = []" by (simp add: server_pending_def)
  assume "send_queue c \<noteq> []" and "write_stage c \<noteq> WriteAbandoned"
  then obtain f fs where q: "send_queue c = f # fs" by (cases "send_queue c") auto
  show "\<exists>e c'. smooth e \<and> posted_frame e = [] \<and> server_strand e c = Went c' \<and> channel_work c' < channel_work c"
  proof (cases "write_stage c = WritePosted")
    case True
    with q show ?thesis by (intro exI [of _ WriteStarts]) (simp add: channel_work_def)
  next
    case False
    with q ok \<open>write_stage c \<noteq> WriteAbandoned\<close> show ?thesis
      by (intro exI [of _ "WriteEnds True Written"])
        (cases "write_stage c"; simp add: queue_proof_defs Let_def)
  qed
qed

interpretation client_queue: write_queue client_strand client_ok frame_message client_pending channel_work
proof
  fix c c' e
  assume ok: "client_ok c"
  show "client_strand e c \<noteq> Undefined"
    using ok by (cases e) (auto simp: client_ok_def channel_ok_def split: write_stage.splits list.splits)
  show "client_strand e c = Went c' \<Longrightarrow> client_ok c'"
    using ok by (cases e) (auto simp: queue_proof_defs Let_def split: write_stage.splits list.splits if_splits)
  show "smooth e \<Longrightarrow> client_strand e c = Went c' \<Longrightarrow>
      wire_bytes c' @ client_pending c' = wire_bytes c @ client_pending c @ concat (map frame_message (posted_frame e)) \<and>
      reports c' @ promised (send_queue c') = reports c @ promised (send_queue c) @ promised (posted_frame e) \<and>
      (write_stage c \<noteq> WriteAbandoned \<longrightarrow> write_stage c' \<noteq> WriteAbandoned)"
    using ok by (cases e) (auto simp: queue_proof_defs Let_def split: write_stage.splits list.splits if_splits)
  show "send_queue c = [] \<Longrightarrow> client_pending c = []" by (simp add: client_pending_def)
  assume "send_queue c \<noteq> []" and "write_stage c \<noteq> WriteAbandoned"
  then obtain f fs where q: "send_queue c = f # fs" by (cases "send_queue c") auto
  show "\<exists>e c'. smooth e \<and> posted_frame e = [] \<and> client_strand e c = Went c' \<and> channel_work c' < channel_work c"
  proof (cases "write_stage c = WritePosted")
    case True
    with q show ?thesis by (intro exI [of _ WriteStarts]) (simp add: channel_work_def)
  next
    case False
    with q ok \<open>write_stage c \<noteq> WriteAbandoned\<close> show ?thesis
      by (intro exI [of _ "WriteEnds True Written"])
        (cases "write_stage c"; simp add: queue_proof_defs Let_def)
  qed
qed

text \<open>Where the frames and the reports of a channel come from.\<close>

definition told :: "send_channel \<Rightarrow> nat set" where
  "told c = fst ` set (reports c)"

definition waiting :: "send_channel \<Rightarrow> nat set" where
  "waiting c = frame_callback ` set (send_queue c)"

lemma strand_reports:
  assumes "server_strand e c = Went c'"
  shows "told c' \<union> waiting c' \<subseteq> told c \<union> waiting c \<union> frame_callback ` set (posted_frame e)"
  using assms by (cases e) (auto simp: channel_defs Let_def told_def waiting_def split: write_stage.splits list.splits if_splits)

lemma run_reports:
  "strand_run server_strand es c = Went c' \<Longrightarrow> told c' \<union> waiting c' \<subseteq> told c \<union> waiting c \<union> frame_callback ` set (posted es)"
proof (induction es arbitrary: c)
  case (Cons e es)
  then obtain c1 where c1: "server_strand e c = Went c1" "strand_run server_strand es c1 = Went c'"
    by (cases "server_strand e c") auto
  from strand_reports [OF c1(1)] Cons.IH [OF c1(2)] show ?case unfolding posted_simps set_append image_Un by blast
qed simp

section \<open>Properties\<close>

text \<open>What \<^verbatim>\<open>send\<close> of the server and of the client post.\<close>

definition server_queued :: "nat \<times> u8 \<times> u8 list \<Rightarrow> queued_frame" where
  "server_queued = (\<lambda>(cb, opcode, msg).
     \<lparr>frame_header = server_header opcode (of_nat (length msg)), frame_message = msg, frame_callback = cb\<rparr>)"

definition client_queued :: "nat \<times> u8 list \<times> u8 \<times> u8 list \<Rightarrow> queued_frame" where
  "client_queued = (\<lambda>(cb, key, opcode, msg).
     \<lparr>frame_header = [], frame_message = client_frame key opcode msg, frame_callback = cb\<rparr>)"

lemma server_queued_bytes: "server_bytes (server_queued (cb, opcode, msg)) = server_frame opcode msg"
  by (simp add: server_bytes_def server_queued_def server_frame_def)

lemma new_channel_facts [simp]:
  "channel_ok new_channel" "client_ok new_channel" "write_stage new_channel = NoWrite" "send_queue new_channel = []"
  "wire_bytes new_channel = []" "reports new_channel = []" "server_pending new_channel = []" "client_pending new_channel = []"
  by (simp_all add: new_channel_def channel_ok_def client_ok_def server_pending_def client_pending_def)

text \<open>C23. Whatever is posted, and however writes end, no handler takes the front of an empty queue.\<close>

theorem send_queue_never_undefined:
  "strand_run server_strand es new_channel \<noteq> Undefined \<and> strand_run client_strand es new_channel \<noteq> Undefined"
  using server_queue.run_ok [of new_channel es] client_queue.run_ok [of new_channel es] by simp

text \<open>C10. Messages that several threads hand to \<^verbatim>\<open>send\<close> of the server leave one after the other. If no write
  fails, the queue can be emptied; then every callback has been told of its success, in order, and the
  client that reads the bytes calls its message handler once for each message, in the order in which
  they joined the queue.\<close>

theorem server_queue_delivers:
  assumes "list_all smooth es" and "posted es = map server_queued ms" and "strand_run server_strand es new_channel = Went c"
    and "\<forall>(cb, opcode, msg) \<in> set ms. (opcode = 0x81 \<or> opcode = 0x82) \<and> length msg < 2 ^ 64"
  shows "\<exists>es' c'. list_all smooth es' \<and> posted es' = [] \<and> strand_run server_strand (es @ es') new_channel = Went c' \<and>
    send_queue c' = [] \<and> reports c' = map (\<lambda>(cb, _, _). (cb, True)) ms \<and>
    (\<exists>k. client_run k (- 1) junk (new_client (wire_bytes c')) = (new_client [])\<lparr>cl_callbacks :=
      map (\<lambda>(_, opcode, msg). MessageReceived
        \<lparr>fin_rsv_opcode = opcode, msg_length = of_nat (length msg), msg_content = msg\<rparr>) ms\<rparr>)"
proof -
  obtain es' c' where c': "list_all smooth es'" "posted es' = []" "strand_run server_strand (es @ es') new_channel = Went c'"
      "send_queue c' = []" "wire_bytes c' = concat (map server_bytes (posted es))" "reports c' = promised (posted es)"
    using server_queue.all_written [OF _ _ assms(1,3)] by auto
  have "wire_bytes c' = concat (map (\<lambda>(opcode, msg). server_frame opcode msg) (map snd ms))"
    unfolding c'(5) assms(2) by (auto simp: server_queued_bytes intro!: arg_cong [of _ _ concat])
  then have "\<exists>k. \<forall>n. client_run (k + n) (- 1) junk (new_client (wire_bytes c')) =
      (new_client (wire_bytes c'))\<lparr>cl_incoming := [], cl_callbacks := cl_callbacks (new_client (wire_bytes c')) @
        map (\<lambda>(opcode, msg). MessageReceived
          \<lparr>fin_rsv_opcode = opcode, msg_length = of_nat (length msg), msg_content = msg\<rparr>) (map snd ms)\<rparr>"
    using assms(4) by (intro server_messages_arrive) (auto simp: new_client_def)
  then obtain k where "\<forall>n. client_run (k + n) (- 1) junk (new_client (wire_bytes c')) = (new_client [])\<lparr>cl_callbacks :=
      map (\<lambda>(_, opcode, msg). MessageReceived
        \<lparr>fin_rsv_opcode = opcode, msg_length = of_nat (length msg), msg_content = msg\<rparr>) ms\<rparr>"
    by (auto simp: new_client_def comp_def split_def)
  then have "\<exists>k. client_run k (- 1) junk (new_client (wire_bytes c')) = (new_client [])\<lparr>cl_callbacks :=
      map (\<lambda>(_, opcode, msg). MessageReceived
        \<lparr>fin_rsv_opcode = opcode, msg_length = of_nat (length msg), msg_content = msg\<rparr>) ms\<rparr>" by blast
  moreover have "promised (posted es) = map (\<lambda>(cb, _, _). (cb, True)) ms"
    unfolding assms(2) by (auto simp: promised_def server_queued_def)
  ultimately show ?thesis using c' by (intro exI [of _ es'] exI [of _ c'] conjI) simp_all
qed

text \<open>C11. The same for the client: the frames it masks and queues, whole messages or fragments of them, reach
  the message handler of the server.\<close>

theorem client_queue_delivers:
  assumes "list_all smooth es" and "posted es = map client_queued fs" and "strand_run client_strand es new_channel = Went c"
    and "map (\<lambda>(_, _, f). f) fs = concat (map (\<lambda>(opcode, ps). fragments opcode ps) ms)" and "frames_ok (map snd fs)"
    and "\<forall>(opcode, ps) \<in> set ms. ps \<noteq> [] \<and> (opcode = 1 \<or> opcode = 2)"
  shows "\<exists>es' c'. list_all smooth es' \<and> posted es' = [] \<and> strand_run client_strand (es @ es') new_channel = Went c' \<and>
    send_queue c' = [] \<and> reports c' = map (\<lambda>(cb, _). (cb, True)) fs \<and>
    server_run (- 1) junk (new_connection (wire_bytes c')) =
      (new_connection [])\<lparr>callbacks := map (\<lambda>m. MessageReceived (whole m)) ms\<rparr>"
proof -
  obtain es' c' where c': "list_all smooth es'" "posted es' = []" "strand_run client_strand (es @ es') new_channel = Went c'"
      "send_queue c' = []" "wire_bytes c' = concat (map frame_message (posted es))" "reports c' = promised (posted es)"
    using client_queue.all_written [OF _ _ assms(1,3)] by auto
  have "wire_bytes c' = client_wire (map snd fs)"
    unfolding c'(5) assms(2) client_wire_def by (auto simp: client_queued_def intro!: arg_cong [of _ _ concat])
  moreover have "map snd (map snd fs) = concat (map (\<lambda>(opcode, ps). fragments opcode ps) ms)"
    using assms(4) by (simp add: comp_def split_def)
  ultimately have "server_run (- 1) junk (new_connection (wire_bytes c')) =
      (new_connection [])\<lparr>callbacks := map (\<lambda>m. MessageReceived (whole m)) ms\<rparr>"
    using assms(5,6) client_messages_arrive [of "map snd fs" ms "new_connection (wire_bytes c')" junk]
    by (simp add: new_connection_def)
  moreover have "promised (posted es) = map (\<lambda>(cb, _). (cb, True)) fs"
    unfolding assms(2) by (auto simp: promised_def client_queued_def)
  ultimately show ?thesis using c' by (intro exI [of _ es'] exI [of _ c'] conjI) simp_all
qed

theorem server_queue_delivers_witness:
  "\<exists>c k. strand_run server_strand
      [FramePosted (server_queued (7, 0x81, [72, 105])), FramePosted (server_queued (8, 0x82, [])), WriteStarts,
       WriteEnds True Written, WriteEnds True Written, WriteStarts, WriteEnds True Written, WriteEnds True Written] new_channel = Went c \<and>
    reports c = [(7, True), (8, True)] \<and>
    client_run k (- 1) (\<lambda>_. 0) (new_client (wire_bytes c)) = (new_client [])\<lparr>cl_callbacks := [
      MessageReceived \<lparr>fin_rsv_opcode = 0x81, msg_length = 2, msg_content = [72, 105]\<rparr>,
      MessageReceived \<lparr>fin_rsv_opcode = 0x82, msg_length = 0, msg_content = []\<rparr>]\<rparr>"
proof -
  let ?es = "[FramePosted (server_queued (7, 0x81, [72, 105])), FramePosted (server_queued (8, 0x82, [])), WriteStarts,
    WriteEnds True Written, WriteEnds True Written, WriteStarts, WriteEnds True Written, WriteEnds True Written]"
  obtain c where c: "strand_run server_strand ?es new_channel = Went c" "write_stage c = NoWrite"
    by (simp add: new_channel_def channel_defs server_queued_def Let_def)
  obtain es' c' k where c': "list_all smooth es'" "posted es' = []" "strand_run server_strand (?es @ es') new_channel = Went c'"
      "reports c' = [(7, True), (8, True)]"
      "client_run k (- 1) (\<lambda>_. 0) (new_client (wire_bytes c')) = (new_client [])\<lparr>cl_callbacks := [
        MessageReceived \<lparr>fin_rsv_opcode = 0x81, msg_length = 2, msg_content = [72, 105]\<rparr>,
        MessageReceived \<lparr>fin_rsv_opcode = 0x82, msg_length = 0, msg_content = []\<rparr>]\<rparr>"
    using server_queue_delivers [OF _ _ c(1), of "[(7, 0x81, [72, 105]), (8, 0x82, [])]" "\<lambda>_. 0"] by auto
  have run: "strand_run server_strand es' c = Went c'"
    using server_queue.run_append [OF c(1), of es'] c'(3) by simp
  have "es' = []"
  proof (cases es')
    case (Cons e es)
    with c'(2) run c(2) show ?thesis by (cases e) auto
  qed
  with run c(1) c'(4,5) show ?thesis by auto
qed

theorem client_queue_delivers_witness:
  "\<exists>c. strand_run client_strand
      [FramePosted (client_queued (7, [1, 2, 3, 4], 1, [72])), WriteStarts,
       FramePosted (client_queued (8, [5, 6, 7, 8], 0x80, [105])), WriteEnds True Written, WriteStarts, WriteEnds True Written]
      new_channel = Went c \<and>
    reports c = [(7, True), (8, True)] \<and>
    server_run (- 1) (\<lambda>_. 0) (new_connection (wire_bytes c)) =
      (new_connection [])\<lparr>callbacks := [MessageReceived (whole (1, [[72], [105]]))]\<rparr>"
proof -
  let ?es = "[FramePosted (client_queued (7, [1, 2, 3, 4], 1, [72])), WriteStarts,
    FramePosted (client_queued (8, [5, 6, 7, 8], 0x80, [105])), WriteEnds True Written, WriteStarts, WriteEnds True Written]"
  obtain c where c: "strand_run client_strand ?es new_channel = Went c" "write_stage c = NoWrite"
    by (simp add: new_channel_def channel_defs client_queued_def Let_def)
  obtain es' c' where c': "list_all smooth es'" "posted es' = []" "strand_run client_strand (?es @ es') new_channel = Went c'"
      "reports c' = [(7, True), (8, True)]" "server_run (- 1) (\<lambda>_. 0) (new_connection (wire_bytes c')) =
        (new_connection [])\<lparr>callbacks := [MessageReceived (whole (1, [[72], [105]]))]\<rparr>"
    using client_queue_delivers [OF _ _ c(1), of "[(7, [1, 2, 3, 4], 1, [72]), (8, [5, 6, 7, 8], 0x80, [105])]"
      "[(1, [[72], [105]])]" "\<lambda>_. 0"] by (auto simp: frames_ok_def)
  have run: "strand_run client_strand es' c = Went c'"
    using client_queue.run_append [OF c(1), of es'] c'(3) by simp
  have "es' = []"
  proof (cases es')
    case (Cons e es)
    with c'(2) run c(2) show ?thesis by (cases e) auto
  qed
  with run c(1) c'(4,5) show ?thesis by auto
qed

text \<open>A write that fails takes the whole queue with it: the callback of the frame being written is told, the
  callbacks of the frames behind it are not, then or later, unless they are posted once more.\<close>

theorem failed_write_drops_queue:
  assumes "strand_run server_strand es new_channel = Went c" and "send_queue c = f # fs"
    and "server_strand (WriteEnds True (Failed n)) c = Went c'"
    and "strand_run server_strand es' c' = Went c''" and "g \<in> set fs"
    and "frame_callback g \<notin> told c" and "frame_callback g \<noteq> frame_callback f" and "\<forall>h \<in> set (posted es'). frame_callback h \<noteq> frame_callback g"
  shows "reports c' = reports c @ [(frame_callback f, False)] \<and> send_queue c' = [] \<and> frame_callback g \<notin> told c''"
proof -
  have c': "reports c' = reports c @ [(frame_callback f, False)] \<and> send_queue c' = []"
    using assms(2,3) by (auto simp: channel_defs Let_def split: write_stage.splits)
  then have "told c' \<union> waiting c' = insert (frame_callback f) (told c)" by (simp add: told_def waiting_def)
  with run_reports [OF assms(4)] have "told c'' \<subseteq> insert (frame_callback f) (told c) \<union> frame_callback ` set (posted es')" by blast
  moreover have "frame_callback g \<notin> frame_callback ` set (posted es')" using assms(8) by (metis imageE)
  ultimately have "frame_callback g \<notin> told c''" using assms(6,7) by blast
  with c' show ?thesis by blast
qed

theorem failed_write_drops_queue_witness:
  "\<exists>c'. strand_run server_strand
      [FramePosted (server_queued (7, 0x81, [72])), FramePosted (server_queued (8, 0x81, [73])), WriteStarts,
       WriteEnds True (Failed 1)] new_channel = Went c' \<and>
    wire_bytes c' = [0x81] \<and> reports c' = [(7, False)] \<and> (\<forall>c''. strand_run server_strand [] c' = Went c'' \<longrightarrow> 8 \<notin> told c'')"
proof -
  let ?es = "[FramePosted (server_queued (7, 0x81, [72])), FramePosted (server_queued (8, 0x81, [73])), WriteStarts]"
  obtain c c' where c: "strand_run server_strand ?es new_channel = Went c" "server_strand (WriteEnds True (Failed 1)) c = Went c'"
      "send_queue c = [server_queued (7, 0x81, [72]), server_queued (8, 0x81, [73])]" "reports c = []" "wire_bytes c' = [0x81]"
    by (simp add: new_channel_def channel_defs server_queued_def server_header_def written_bytes_def Let_def)
  have "8 \<notin> told c'' \<and> reports c' = [(7, False)]" if "strand_run server_strand [] c' = Went c''" for c''
    using failed_write_drops_queue [OF c(1,3,2) that, of "server_queued (8, 0x81, [73])"] c(4)
    by (simp add: told_def server_queued_def)
  moreover have "strand_run server_strand (?es @ [WriteEnds True (Failed 1)]) new_channel = Went c'"
    using server_queue.run_append [OF c(1), of "[WriteEnds True (Failed 1)]"] c(2) by simp
  ultimately show ?thesis using c(5) by simp
qed

end
