(* ===== verification/Scope_Runner.thy ===== *)
theory Scope_Runner
  imports Main
begin

text \<open>
  \<^verbatim>\<open>ScopeRunner\<close> of \<^verbatim>\<open>webapi/websockets/utility.hpp\<close>: a counter of the handlers that run, with which the
  destructor of the client waits for them and keeps later ones from starting. Threads interleave between the reads
  and the compare-and-exchange operations of the code; each of these is one step. A weak exchange may
  fail for no reason. The counter is \<^verbatim>\<open>long\<close> in the code, and unbounded here.
\<close>

section \<open>Threads and steps\<close>

text \<open>Where a thread is: \<open>Trying\<close> and \<open>Denied\<close> belong to \<^verbatim>\<open>continue_lock\<close>, with the local \<open>expected\<close>.\<close>

datatype lock_thread =
    Outside
  | Trying int
  | Holding
  | Denied
  | Stopping
  | StopReturned

record scope_runner =
  scope_count :: int
  threads :: "nat \<Rightarrow> lock_thread"

definition new_scope_runner :: scope_runner where
  "new_scope_runner = \<lparr>scope_count = 0, threads = (\<lambda>_. Outside)\<rparr>"

definition goes :: "nat \<Rightarrow> lock_thread \<Rightarrow> scope_runner \<Rightarrow> scope_runner" where
  "goes i t s = s\<lparr>threads := (threads s)(i := t)\<rparr>"

inductive scope_step :: "scope_runner \<Rightarrow> scope_runner \<Rightarrow> bool" where
  lock_begin: "threads s i = Outside \<Longrightarrow> scope_step s (goes i (Trying (scope_count s)) s)"
| lock_taken: "threads s i = Trying e \<Longrightarrow> 0 \<le> e \<Longrightarrow> scope_count s = e \<Longrightarrow>
    scope_step s (goes i Holding (s\<lparr>scope_count := e + 1\<rparr>))"
| lock_retry: "threads s i = Trying e \<Longrightarrow> 0 \<le> e \<Longrightarrow> scope_step s (goes i (Trying (scope_count s)) s)"
| lock_denied: "threads s i = Trying e \<Longrightarrow> e < 0 \<Longrightarrow> scope_step s (goes i Denied s)"
| denied_leaves: "threads s i = Denied \<Longrightarrow> scope_step s (goes i Outside s)"
| unlock: "threads s i = Holding \<Longrightarrow> scope_step s (goes i Outside (s\<lparr>scope_count := scope_count s - 1\<rparr>))"
| stop_begin: "threads s i = Outside \<Longrightarrow> scope_step s (goes i Stopping s)"
| stop_taken: "threads s i = Stopping \<Longrightarrow> scope_count s = 0 \<Longrightarrow>
    scope_step s (goes i StopReturned (s\<lparr>scope_count := - 1\<rparr>))"
| stop_again: "threads s i = Stopping \<Longrightarrow> scope_count s < 0 \<Longrightarrow> scope_step s (goes i StopReturned s)"
| stop_retry: "threads s i = Stopping \<Longrightarrow> 0 \<le> scope_count s \<Longrightarrow> scope_step s s"
| stop_leaves: "threads s i = StopReturned \<Longrightarrow> scope_step s (goes i Outside s)"

inductive scope_steps :: "scope_runner \<Rightarrow> scope_runner \<Rightarrow> bool" where
  scope_here: "scope_steps s s"
| scope_more: "scope_step s s' \<Longrightarrow> scope_steps s' s'' \<Longrightarrow> scope_steps s s''"

section \<open>The invariant\<close>

definition holders :: "scope_runner \<Rightarrow> nat set" where
  "holders s = {i. threads s i = Holding}"

text \<open>The counter is the number of handlers that run, or it is stopped, and then none runs.\<close>

definition scope_inv :: "scope_runner \<Rightarrow> bool" where
  "scope_inv s \<longleftrightarrow> finite (holders s) \<and>
     (scope_count s = int (card (holders s)) \<or> scope_count s = - 1 \<and> holders s = {} ) \<and>
     (\<forall>i. threads s i = StopReturned \<longrightarrow> scope_count s = - 1)"

lemma holders_goes:
  "holders (goes i t s) = (if t = Holding then insert i (holders s) else holders s - {i})"
  by (auto simp: holders_def goes_def)

lemma holders_count [simp]: "holders (s\<lparr>scope_count := n\<rparr>) = holders s"
  by (simp add: holders_def)

lemma new_scope_inv: "scope_inv new_scope_runner"
  by (simp add: scope_inv_def new_scope_runner_def holders_def)

lemma scope_step_inv: "scope_step s s' \<Longrightarrow> scope_inv s \<Longrightarrow> scope_inv s'"
proof (induction rule: scope_step.induct)
  case (lock_taken s i e)
  then have "i \<notin> holders s" "scope_count s = int (card (holders s))" by (auto simp: holders_def scope_inv_def)
  with lock_taken show ?case
    by (auto simp: scope_inv_def holders_goes) (auto simp: goes_def split: if_splits)
next
  case (unlock s i)
  then have i: "i \<in> holders s" by (simp add: holders_def)
  with unlock have "scope_count s = int (card (holders s))" "finite (holders s)" by (auto simp: scope_inv_def)
  moreover have "card (holders s - {i}) + 1 = card (holders s)"
    using i calculation(2) by (metis Suc_eq_plus1 card_Suc_Diff1)
  ultimately show ?case
    using unlock by (auto simp: scope_inv_def holders_goes) (auto simp: goes_def split: if_splits)
qed (auto simp: scope_inv_def holders_goes, auto simp: goes_def holders_def split: if_splits)

lemma scope_steps_inv: "scope_steps s s' \<Longrightarrow> scope_inv s \<Longrightarrow> scope_inv s'"
  by (induction rule: scope_steps.induct) (auto intro: scope_step_inv)

lemma stopped_step: "scope_step s s' \<Longrightarrow> scope_inv s \<Longrightarrow> scope_count s = - 1 \<Longrightarrow> scope_count s' = - 1"
  by (induction rule: scope_step.induct) (auto simp: scope_inv_def goes_def holders_def)

lemma stopped_steps: "scope_steps s s' \<Longrightarrow> scope_inv s \<Longrightarrow> scope_count s = - 1 \<Longrightarrow> scope_count s' = - 1"
proof (induction rule: scope_steps.induct)
  case (scope_more s s' s'')
  then show ?case using stopped_step scope_step_inv by blast
qed

section \<open>Properties\<close>



end
