(* ===== verification/Ws_Total.thy ===== *)
theory Ws_Total
  imports Ws_Service
begin

text \<open>
  What the WebSocket transport never throws: every well-typed message can be written, whatever its amounts and names,
  so no push fails, nor does a pass of the resend thread; and whatever text arrives, an exception of its reader is a
  standard one. Two properties of \<^verbatim>\<open>boost::property_tree\<close> are used: \<^verbatim>\<open>write_json\<close> fails for a tree that JSON cannot
  express only, and its readers throw nothing but standard exceptions.
\<close>

section \<open>Writing\<close>

text \<open>Trees of values without children and of inner nodes without a value, whatever the values.\<close>

inductive any_tree :: "('t, 'w) ptree_ops \<Rightarrow> 't \<Rightarrow> bool" and any_node :: "('t, 'w) ptree_ops \<Rightarrow> 't \<Rightarrow> bool"
  for ops :: "('t, 'w) ptree_ops" where
  any_integer: "any_tree ops (put_integer ops v (new_tree ops))"
| any_float: "any_tree ops (put_float ops x (new_tree ops))"
| any_text: "any_tree ops (put_string ops s (new_tree ops))"
| any_inner: "any_node ops t \<Longrightarrow> any_tree ops t"
| any_empty: "any_node ops (new_tree ops)"
| any_member: "any_node ops t \<Longrightarrow> any_tree ops c \<Longrightarrow> any_node ops (add_child ops k c t)"
| any_item: "any_node ops t \<Longrightarrow> any_tree ops c \<Longrightarrow> any_node ops (push_back ops [] c t)"

definition writer_law :: "('t, 'w) ptree_ops \<Rightarrow> bool" where
  "writer_law ops \<longleftrightarrow> (\<forall>t. any_node ops t \<longrightarrow> (\<exists>w. write_json ops t = Inr w))"

lemma any_word: "any_tree ops (serialize_word ops v)"
  unfolding serialize_word_def by (rule any_integer)

lemma any_string: "any_tree ops (serialize_string ops s)"
  unfolding serialize_string_def by (rule any_text)

lemma any_amount: "any_tree ops (serialize_float ops x)"
  unfolding serialize_float_def by (rule any_float)

lemma any_vector:
  assumes "\<And>v. any_tree ops (f v)"
  shows "any_tree ops (serialize_vector ops f vs)"
proof -
  have "any_node ops t \<Longrightarrow> any_node ops (fold (\<lambda>v t. push_back ops [] (f v) t) vs t)" for t
    using assms by (induction vs arbitrary: t) (simp_all add: any_item)
  then show ?thesis unfolding serialize_vector_def by (intro any_inner) (simp add: any_empty)
qed

lemmas any_intros = any_inner any_member any_empty any_word any_string any_amount any_vector

lemma any_user_information: "any_tree ops (serialize_user_information ops v)"
  unfolding serialize_user_information_def by (intro any_intros)

lemma any_user_position: "any_tree ops (serialize_user_position ops v)"
  unfolding serialize_user_position_def by (intro any_intros any_user_information)

lemma any_payload: "any_tree ops (payload_tree ops d)"
  by (cases d)
    (simp_all add: any_user_information serialize_user_id_information_def serialize_deal_information_def
      serialize_user_relative_rating_def, (intro any_intros any_user_position)+)

lemma any_base_message:
  assumes "well_typed m"
  shows "\<exists>t. serialize_base_message ops iless m = Inr t \<and> any_tree ops t"
proof -
  obtain s where "serialize_base_message ops iless m = Inr (message_tree ops s (payload_tree ops (msg_data m)))"
    using serialize_base_message_eq [OF assms, of iless ops] by blast
  moreover have "any_tree ops (message_tree ops s (payload_tree ops (msg_data m)))"
    unfolding message_tree_def by (intro any_inner any_member any_empty any_text any_payload)
  ultimately show ?thesis by blast
qed

lemma ws_text_total:
  assumes "writer_law ops" and "\<And>i m. v = WsData i m \<Longrightarrow> well_typed m"
  shows "\<exists>w. ws_text ops iless v = Inr w"
proof -
  obtain s where "enum_toString (ws_message_type_converter iless) (ws_getType v) = Inr s"
    by (cases "ws_getType v") (simp_all add: enum_toString_def ws_message_type_names)
  then obtain b where b: "SerializeWsMessage ops iless v = Inr b" "any_node ops b"
    by (simp add: SerializeWsMessage_def serialize_enum_def) (meson any_empty any_member any_text any_word)
  have "\<exists>t. serialize_ws_message ops iless v = Inr t \<and> any_node ops t"
  proof (cases v)
    case (WsAck i)
    with b show ?thesis by (simp add: serialize_ws_message_def)
  next
    case (WsError i m c)
    with b show ?thesis by (auto simp: serialize_ws_message_def intro!: any_member any_intros)
  next
    case (WsData i m)
    with any_base_message [OF assms(2), of i m ops iless] b show ?thesis
      by (auto simp: serialize_ws_message_def intro!: any_member)
  qed
  then obtain t where "serialize_ws_message ops iless v = Inr t" "any_node ops t" by blast
  with assms(1) show ?thesis by (auto simp: ws_text_def writer_law_def)
qed

lemma plain_writer_law: "writer_law plain_ops"
  by (simp add: writer_law_def plain_ops_def)

section \<open>Reading\<close>

definition throws_std :: "'a result \<Rightarrow> bool" where
  "throws_std r \<longleftrightarrow> (\<forall>e. r = Inl e \<longrightarrow> is_std_exception e)"

definition parser_law :: "('t, 'w) ptree_ops \<Rightarrow> bool" where
  "parser_law ops \<longleftrightarrow> (\<forall>w. throws_std (read_json ops w)) \<and> (\<forall>t k. throws_std (get_child ops t k)) \<and>
     (\<forall>n t. throws_std (get_integer ops n t)) \<and> (\<forall>t. throws_std (get_float ops t)) \<and> (\<forall>t. throws_std (get_string ops t))"

lemma throws_std_Inr [simp]: "throws_std (Inr x)"
  by (simp add: throws_std_def)

lemma throws_std_bindr [intro]: "throws_std r \<Longrightarrow> (\<And>x. throws_std (f x)) \<Longrightarrow> throws_std (bindr r f)"
  by (cases r) (simp_all add: throws_std_def)

lemma throws_std_transform: "(\<And>x. throws_std (f x)) \<Longrightarrow> throws_std (transform f xs)"
  by (induction xs) (auto intro!: throws_std_bindr)

lemma throws_std_guard [intro]: "throws_std r \<Longrightarrow> throws_std (throw_on_empty_value ops t r)"
  by (auto simp: throw_on_empty_value_def throws_std_def serializer_exception_def is_std_exception_def)

lemma throws_std_toEnum: "throws_std (toEnum iless conv s)"
  by (auto simp: throws_std_def toEnum_def is_std_exception_def split: option.splits)

lemma throws_std_readers:
  assumes "parser_law ops"
  shows "throws_std (read_json ops w)" "throws_std (get_child ops t k)" "throws_std (get_string ops t)" "throws_std (get_float ops t)"
    "throws_std (parse_word ops t)" "throws_std (parse_enum ops iless conv t)"
  using assms by (auto simp: parser_law_def parse_word_def parse_enum_def intro!: throws_std_bindr throws_std_toEnum)

lemma throws_std_child: "parser_law ops \<Longrightarrow> (\<And>c. throws_std (f c)) \<Longrightarrow> throws_std (at_child ops k f t)"
  by (auto simp: at_child_def throws_std_readers)

lemmas throws_std_intros = throws_std_bindr throws_std_guard throws_std_child throws_std_readers throws_std_Inr

lemma throws_std_users:
  assumes "parser_law ops"
  shows "throws_std (parse_user_information ops t)" "throws_std (parse_user_id_information ops t)" "throws_std (parse_deal_information ops t)"
  unfolding parse_user_information_def parse_user_id_information_def parse_deal_information_def
  by (intro throws_std_intros assms)+

lemma throws_std_position: "parser_law ops \<Longrightarrow> throws_std (parse_user_position ops t)"
  unfolding parse_user_position_def by (intro throws_std_intros throws_std_users)

lemma throws_std_positions: "parser_law ops \<Longrightarrow> throws_std (parse_vector ops (parse_user_position ops) t)"
  by (simp add: parse_vector_def throws_std_transform throws_std_position)

lemma throws_std_rating: "parser_law ops \<Longrightarrow> throws_std (parse_user_relative_rating ops t)"
  unfolding parse_user_relative_rating_def by (intro throws_std_intros throws_std_position throws_std_positions)

lemma throws_std_message: "parser_law ops \<Longrightarrow> (\<And>c. throws_std (f c)) \<Longrightarrow> throws_std (parse_message ops iless f wrap t)"
  unfolding parse_message_def by (intro throws_std_intros)

lemma throws_std_base_message: "parser_law ops \<Longrightarrow> throws_std (parse_base_message ops iless t)"
  unfolding parse_base_message_def
  by (intro throws_std_intros) (auto simp: throws_std_message throws_std_users throws_std_rating split: message_type.split)

lemma throws_std_ws_message: "parser_law ops \<Longrightarrow> throws_std (parse_ws_message ops iless t)"
  unfolding parse_ws_message_def parse_ws_error_def parse_ws_data_def
  by (intro throws_std_intros) (auto intro!: throws_std_intros throws_std_base_message split: ws_message_type.split)

lemma ws_of_text_std: "parser_law ops \<Longrightarrow> ws_of_text ops iless w = Inl e \<Longrightarrow> is_std_exception e"
proof -
  assume "parser_law ops" and "ws_of_text ops iless w = Inl e"
  moreover from this(1) have "throws_std (ws_of_text ops iless w)"
    unfolding ws_of_text_def by (intro throws_std_bindr throws_std_readers throws_std_ws_message)
  ultimately show ?thesis by (simp add: throws_std_def)
qed

lemma ws_of_text_typed:
  assumes "ws_of_text ops iless w = Inr (WsData i m)"
  shows "well_typed m"
proof -
  from assms obtain t where "parse_ws_message ops iless t = Inr (WsData i m)" by (auto simp: ws_of_text_def)
  then obtain type j where "(case type of
      Ack \<Rightarrow> Inr (WsAck j) | Error \<Rightarrow> parse_ws_error ops t | Data \<Rightarrow> parse_ws_data ops iless t) = Inr (WsData i m)"
    by (auto simp: parse_ws_message_def throw_on_empty_value_def split: if_splits)
  then have "parse_ws_data ops iless t = Inr (WsData i m)"
    by (cases type) (auto simp: parse_ws_error_def throw_on_empty_value_def split: if_splits)
  then obtain t' where "parse_base_message ops iless t' = Inr m"
    by (auto simp: parse_ws_data_def throw_on_empty_value_def at_child_def split: if_splits)
  then show ?thesis by (rule parsed_well_typed)
qed

lemma plain_parser_law: "parser_law plain_ops"
proof -
  have "throws_std (pt_integer n t)" "throws_std (pt_float t)" "throws_std (pt_text t)" for n t
    by (cases "(n, t)" rule: pt_integer.cases, simp_all add: throws_std_def is_std_exception_def)+
  then show ?thesis
    by (auto simp: parser_law_def plain_ops_def throws_std_def is_std_exception_def split: option.splits)
qed

section \<open>The transport\<close>

text \<open>Everything that waits for an acknowledgement can be written again.\<close>

definition ws_in_order :: "('t, 'w) ptree_ops \<Rightarrow> (char \<Rightarrow> char \<Rightarrow> bool) \<Rightarrow> 'w ws_server \<Rightarrow> bool" where
  "ws_in_order ops iless t \<longleftrightarrow> (\<forall>e \<in> set (resendStore (protocol t)). writable ops iless (md_message (snd e)))"

lemma new_ws_in_order: "ws_in_order ops iless new_ws_server"
  by (simp add: ws_in_order_def new_ws_server_def new_protocol_def)

lemma written_writable: "ws_text ops iless m = Inr js \<Longrightarrow> writable ops iless m"
  unfolding writable_def ws_text_def by blast

lemma ws_pushes_ok:
  assumes "writer_law ops"
  shows "pushes_ok (ws_in_order ops iless) (ws_sendToUser ops iless now)"
  unfolding pushes_ok_def
proof (intro allI impI)
  fix k r and t :: "'b ws_server"
  assume ok: "ws_in_order ops iless t"
  let ?m = "WsData (fresh_id (protocol t)) (rating_message r)"
  have "well_typed (rating_message r)" by (simp add: rating_message_def)
  then obtain js where js: "ws_text ops iless ?m = Inr js" using ws_text_total [OF assms, of ?m iless] by auto
  with ok show "\<exists>t'. ws_sendToUser ops iless now k (rating_message r) t = (t', None) \<and> ws_in_order ops iless t'"
    by (auto simp: ws_sendToUser_def sendMessage_eq addToResendStore_def ws_in_order_def stored_def written_writable [OF js] Let_def
        split: option.split)
qed

lemma resend_items_total:
  assumes "\<forall>e \<in> set items. writable ops iless (md_message (snd e))"
  shows "\<exists>items' rm w'. resend_items ops iless number timeout alive now items w = (items', rm, w', None) \<and>
    (\<forall>e \<in> set items'. writable ops iless (md_message (snd e)))"
  using assms
proof (induction items arbitrary: w)
  case (Cons e items)
  obtain i d where e: "e = (i, d)" by (cases e)
  with Cons.prems obtain js where js: "bindr (serialize_ws_message ops iless (md_message d)) (write_json ops) = Inr js"
    and d: "writable ops iless (md_message d)" unfolding writable_def by auto
  from Cons.IH [of "w @ [(md_connection d, js)]"] Cons.prems obtain items1 rm1 w1 where
    1: "resend_items ops iless number timeout alive now items (w @ [(md_connection d, js)]) = (items1, rm1, w1, None)"
      "\<forall>e \<in> set items1. writable ops iless (md_message (snd e))" by auto
  from Cons.IH [of w] Cons.prems obtain items2 rm2 w2 where
    2: "resend_items ops iless number timeout alive now items w = (items2, rm2, w2, None)"
      "\<forall>e \<in> set items2. writable ops iless (md_message (snd e))" by auto
  show ?case using 1 2 d by (simp add: e js del: bindr_eq_Inl bindr_eq_Inr)
qed simp

lemma resend_pass_total:
  assumes "ws_in_order ops iless t"
  shows "\<exists>p. resend_pass ops iless alive now (protocol t) = (p, None) \<and> ws_in_order ops iless (t\<lparr>protocol := p\<rparr>)"
proof -
  from assms have "\<forall>e \<in> set (resendStore (protocol t)). writable ops iless (md_message (snd e))" by (simp add: ws_in_order_def)
  from resend_items_total [OF this, of "resendNumber (protocol t)" "resendTimeout (protocol t)" alive now "wire (protocol t)"]
  show ?thesis by (auto simp: resend_pass_def ws_in_order_def fold_remove)
qed

text \<open>A text that arrives is handed over as a message, or concerns the transport alone.\<close>

definition requested :: "('t, 'w) ptree_ops \<Rightarrow> (char \<Rightarrow> char \<Rightarrow> bool) \<Rightarrow> 'w \<Rightarrow> base_message option" where
  "requested ops iless js = (case ws_of_text ops iless js of Inr (WsData i m) \<Rightarrow> Some m | _ \<Rightarrow> None)"

lemma ws_receive_request:
  assumes "writer_law ops" and "ws_in_order ops iless (transport s)" and "requested ops iless js = Some m"
  shows "\<exists>t. ws_in_order ops iless t \<and> ws_receive emit ops iless now c js s =
    dispatchMessage emit iless (ws_sendToUser ops iless now) now (Some m) (s\<lparr>transport := t\<rparr>)"
proof -
  from assms(3) obtain i where m: "ws_of_text ops iless js = Inr (WsData i m)"
    by (auto simp: requested_def split: sum.splits ws_message.splits)
  obtain ack where ack: "ws_text ops iless (WsAck i) = Inr ack" using ws_text_total [OF assms(1), of "WsAck i" iless] by auto
  let ?p = "(protocol (transport s))\<lparr>wire := wire (protocol (transport s)) @ [(c, ack)]\<rparr>"
  let ?t = "(transport s)\<lparr>protocol := ?p\<rparr>"
  obtain t1 where t1: "track_connection c m ?t = Inr t1" "protocol t1 = ?p"
    using ws_of_text_typed [OF m] by (cases rule: well_typed_cases) (auto simp: track_connection_def)
  have "on_message ops iless c js (transport s) = (t1, Inr (Some m))"
    using parseMessage_data [OF m, of c "protocol (transport s)"] ack t1(1) by (simp add: on_message_def)
  moreover have "ws_in_order ops iless t1" using assms(2) t1(2) by (simp add: ws_in_order_def)
  ultimately show ?thesis by (auto simp: ws_receive_def)
qed

lemma ws_receive_other:
  assumes "parser_law ops" and "ws_in_order ops iless (transport s)" and "requested ops iless js = None"
  shows "\<exists>t. ws_in_order ops iless t \<and> ws_receive emit ops iless now c js s = (s\<lparr>transport := t\<rparr>, None)"
proof (cases "ws_of_text ops iless js")
  case (Inl e)
  then have "on_message ops iless c js (transport s) = (transport s, Inr None)"
    using ws_of_text_std [OF assms(1) Inl]
    by (simp add: on_message_def parseMessage_def ws_of_text_def del: bindr_eq_Inl bindr_eq_Inr)
  with assms(2) show ?thesis by (auto simp: ws_receive_def dispatchMessage_def)
next
  case (Inr w)
  show ?thesis
  proof (cases w)
    case (WsAck i)
    with Inr have "on_message ops iless c js (transport s) =
        ((transport s)\<lparr>protocol := removeFromResendStore i (protocol (transport s))\<rparr>, Inr None)"
      by (simp add: on_message_def parseMessage_ack)
    moreover have "ws_in_order ops iless ((transport s)\<lparr>protocol := removeFromResendStore i (protocol (transport s))\<rparr>)"
      using assms(2) by (simp add: ws_in_order_def removeFromResendStore_def)
    ultimately show ?thesis by (auto simp: ws_receive_def dispatchMessage_def)
  next
    case (WsError i m c')
    with Inr have "on_message ops iless c js (transport s) = (transport s, Inr None)"
      by (simp add: on_message_def parseMessage_def ws_of_text_def del: bindr_eq_Inl bindr_eq_Inr)
    with assms(2) show ?thesis by (auto simp: ws_receive_def dispatchMessage_def)
  qed (use Inr assms(3) in \<open>simp add: requested_def\<close>)
qed

end
