(* ===== verification/Worker_Threads.thy ===== *)
theory Worker_Threads
  imports Core_Types
begin

text \<open>
  The three threads that work in a loop until they are asked to stop: the update thread of
  \<^verbatim>\<open>service/src/UserRatingWatcher.cpp\<close>, the period thread of \<^verbatim>\<open>tempstore/src/UserRatingProvider.cpp\<close> and the resend
  thread of \<^verbatim>\<open>webapi/src/transport/WsProtocol.cpp\<close>. Here only their control is modelled, with one step
  for each test of the stop token, each wait and each piece of work; what the pieces do is in
  \<open>User_Rating_Watcher\<close>, \<open>User_Rating_Provider\<close> and \<open>Ws_Protocol\<close>. A request to stop, and what other threads
  do to the users and the store, may come between any two steps. A wait on a semaphore ends at its timeout or at
  a request, so it ends; a wait on a condition variable that returns when a stop was requested returns what
  its predicate says.
\<close>

section \<open>What stopping means\<close>

datatype label = Elsewhere | Control | Work

inductive labelled_run :: "(label \<Rightarrow> 's \<Rightarrow> 's \<Rightarrow> bool) \<Rightarrow> 's \<Rightarrow> label list \<Rightarrow> 's \<Rightarrow> bool" for step where
  run_ends: "labelled_run step s [] s"
| run_goes: "step l s s' \<Longrightarrow> labelled_run step s' ls s'' \<Longrightarrow> labelled_run step s (l # ls) s''"

inductive_cases run_goesE: "labelled_run step s (l # ls) s'"
inductive_cases run_endsE: "labelled_run step s [] s'"

text \<open>
  The contract of such a thread: a request is not withdrawn; once it is made the thread has no more work
  to do than its \<open>budget\<close>, no more steps than its \<open>rank\<close>, whatever happens elsewhere, and until it has ended it
  can always go on.
\<close>

locale stoppable_thread =
  fixes step :: "label \<Rightarrow> 's \<Rightarrow> 's \<Rightarrow> bool" and requested :: "'s \<Rightarrow> bool" and ended :: "'s \<Rightarrow> bool"
    and budget :: "'s \<Rightarrow> nat" and rank :: "'s \<Rightarrow> nat"
  assumes request_stays: "step l s s' \<Longrightarrow> requested s \<Longrightarrow> requested s'"
    and work_is_left: "step l s s' \<Longrightarrow> requested s \<Longrightarrow> budget s' + (if l = Work then 1 else 0) \<le> budget s"
    and steps_are_left: "step l s s' \<Longrightarrow> requested s \<Longrightarrow> rank s' + (if l = Elsewhere then 0 else 1) \<le> rank s"
    and goes_on: "requested s \<Longrightarrow> \<not> ended s \<Longrightarrow> \<exists>l s'. l \<noteq> Elsewhere \<and> step l s s'"
begin

lemma run_bounded:
  "labelled_run step s ls s' \<Longrightarrow> requested s \<Longrightarrow>
    requested s' \<and> budget s' + count_list ls Work \<le> budget s \<and>
    rank s' + length (filter (\<lambda>l. l \<noteq> Elsewhere) ls) \<le> rank s"
proof (induction rule: labelled_run.induct)
  case (run_goes l s s' ls s'')
  then have "requested s'" by (blast intro: request_stays)
  with run_goes work_is_left [OF run_goes.hyps(1)] steps_are_left [OF run_goes.hyps(1)] show ?case
    by (fastforce split: if_splits)
qed simp

lemma comes_to_end: "requested s \<Longrightarrow> \<exists>ls s'. labelled_run step s ls s' \<and> Elsewhere \<notin> set ls \<and> ended s'"
proof (induction "rank s" arbitrary: s rule: less_induct)
  case less
  show ?case
  proof (cases "ended s")
    case True
    with run_ends [of step s] show ?thesis by force
  next
    case False
    with goes_on less.prems obtain l s' where s': "l \<noteq> Elsewhere" "step l s s'" by blast
    with steps_are_left [OF s'(2) less.prems] have "rank s' < rank s" by simp
    from less.hyps [OF this request_stays [OF s'(2) less.prems]] obtain ls s'' where
      "labelled_run step s' ls s''" "Elsewhere \<notin> set ls" "ended s''" by blast
    with s' show ?thesis by (auto intro!: exI [of _ "l # ls"] intro: run_goes)
  qed
qed

text \<open>However the rest goes: the work that is left is bounded, and so is the number of steps; the thread ends.\<close>

lemma stops:
  assumes "requested s" and "labelled_run step s ls s'"
  shows "count_list ls Work \<le> budget s \<and> length (filter (\<lambda>l. l \<noteq> Elsewhere) ls) \<le> rank s \<and>
    (\<exists>ls' s''. labelled_run step s' ls' s'' \<and> Elsewhere \<notin> set ls' \<and> ended s'')"
  using run_bounded [OF assms(2,1)] comes_to_end by fastforce

end

section \<open>The update thread\<close>

datatype watcher_pc =
    AwaitUsers
  | TestBeforeSend "user_identifier list"
  | SendRating user_identifier "user_identifier list"
  | AwaitTimeout
  | TestAfterWait
  | WatcherEnded

record watcher_thread =
  watcher_stop :: bool
  watcher_pc :: watcher_pc
  connected :: "user_identifier set"

definition watcher_started :: "user_identifier set \<Rightarrow> watcher_thread" where
  "watcher_started users = \<lparr>watcher_stop = False, watcher_pc = AwaitUsers, connected = users\<rparr>"

inductive watcher_step :: "label \<Rightarrow> watcher_thread \<Rightarrow> watcher_thread \<Rightarrow> bool" where
  w_stop: "watcher_step Elsewhere s (s\<lparr>watcher_stop := True\<rparr>)"
| w_users: "finite users \<Longrightarrow> watcher_step Elsewhere s (s\<lparr>connected := users\<rparr>)"
| w_snapshot: "watcher_pc s = AwaitUsers \<Longrightarrow> set snapshot = connected s \<Longrightarrow> distinct snapshot \<Longrightarrow> snapshot \<noteq> [] \<Longrightarrow>
    watcher_step Control s (s\<lparr>watcher_pc := TestBeforeSend snapshot\<rparr>)"
| w_no_users: "watcher_pc s = AwaitUsers \<Longrightarrow> watcher_stop s \<Longrightarrow> connected s = {} \<Longrightarrow>
    watcher_step Control s (s\<lparr>watcher_pc := WatcherEnded\<rparr>)"
| w_next: "watcher_pc s = TestBeforeSend (u # us) \<Longrightarrow> \<not> watcher_stop s \<Longrightarrow>
    watcher_step Control s (s\<lparr>watcher_pc := SendRating u us\<rparr>)"
| w_broken: "watcher_pc s = TestBeforeSend (u # us) \<Longrightarrow> watcher_stop s \<Longrightarrow>
    watcher_step Control s (s\<lparr>watcher_pc := AwaitTimeout\<rparr>)"
| w_all_sent: "watcher_pc s = TestBeforeSend [] \<Longrightarrow> watcher_step Control s (s\<lparr>watcher_pc := AwaitTimeout\<rparr>)"
| w_send: "watcher_pc s = SendRating u us \<Longrightarrow> watcher_step Work s (s\<lparr>watcher_pc := TestBeforeSend us\<rparr>)"
| w_waited: "watcher_pc s = AwaitTimeout \<Longrightarrow> watcher_step Control s (s\<lparr>watcher_pc := TestAfterWait\<rparr>)"
| w_again: "watcher_pc s = TestAfterWait \<Longrightarrow> \<not> watcher_stop s \<Longrightarrow> watcher_step Control s (s\<lparr>watcher_pc := AwaitUsers\<rparr>)"
| w_ends: "watcher_pc s = TestAfterWait \<Longrightarrow> watcher_stop s \<Longrightarrow> watcher_step Control s (s\<lparr>watcher_pc := WatcherEnded\<rparr>)"

fun watcher_budget :: "watcher_pc \<Rightarrow> nat" where
  "watcher_budget (SendRating u us) = 1"
| "watcher_budget _ = 0"

fun watcher_rank :: "watcher_pc \<Rightarrow> nat" where
  "watcher_rank (SendRating u us) = 5"
| "watcher_rank AwaitUsers = 5"
| "watcher_rank (TestBeforeSend us) = 3"
| "watcher_rank AwaitTimeout = 2"
| "watcher_rank TestAfterWait = 1"
| "watcher_rank WatcherEnded = 0"

text \<open>Users are finitely many.\<close>

definition watcher_requested :: "watcher_thread \<Rightarrow> bool" where
  "watcher_requested s \<longleftrightarrow> watcher_stop s \<and> finite (connected s)"

lemma watcher_goes_on:
  assumes "watcher_requested s" and "watcher_pc s \<noteq> WatcherEnded"
  shows "\<exists>l s'. l \<noteq> Elsewhere \<and> watcher_step l s s'"
proof (cases "watcher_pc s")
  case AwaitUsers
  show ?thesis
  proof (cases "connected s = {}")
    case True
    with AwaitUsers assms(1) w_no_users show ?thesis unfolding watcher_requested_def by blast
  next
    case False
    from assms(1) obtain snapshot where "set snapshot = connected s" "distinct snapshot"
      unfolding watcher_requested_def using finite_distinct_list by blast
    with False AwaitUsers w_snapshot [of s snapshot] show ?thesis by fastforce
  qed
next
  case (TestBeforeSend us)
  with assms(1) w_broken w_all_sent show ?thesis unfolding watcher_requested_def by (cases us) blast+
next
  case (SendRating u us)
  with w_send show ?thesis by blast
next
  case AwaitTimeout
  with w_waited show ?thesis by blast
next
  case TestAfterWait
  with assms(1) w_ends show ?thesis unfolding watcher_requested_def by blast
qed (use assms in simp)

interpretation watcher: stoppable_thread watcher_step watcher_requested "\<lambda>s. watcher_pc s = WatcherEnded"
  "\<lambda>s. watcher_budget (watcher_pc s)" "\<lambda>s. watcher_rank (watcher_pc s)"
proof
  fix l s s'
  assume "watcher_step l s s'" and "watcher_requested s"
  then show "watcher_requested s'" "watcher_budget (watcher_pc s') + (if l = Work then 1 else 0) \<le> watcher_budget (watcher_pc s)"
    "watcher_rank (watcher_pc s') + (if l = Elsewhere then 0 else 1) \<le> watcher_rank (watcher_pc s)"
    by (induction rule: watcher_step.induct) (auto simp: watcher_requested_def)
qed (rule watcher_goes_on)


text \<open>Once the update thread is asked to stop, it starts no more sending: at most the rating it is about to
  send goes out, whatever the other threads do, and after five steps at most it has ended.\<close>

theorem watcher_stops:
  assumes "watcher_stop s" and "finite (connected s)" and "labelled_run watcher_step s ls s'"
  shows "count_list ls Work \<le> 1 \<and> (count_list ls Work = 1 \<longrightarrow> (\<exists>u us. watcher_pc s = SendRating u us)) \<and>
    length (filter (\<lambda>l. l \<noteq> Elsewhere) ls) \<le> 5 \<and>
    (\<exists>ls' s''. labelled_run watcher_step s' ls' s'' \<and> Elsewhere \<notin> set ls' \<and> watcher_pc s'' = WatcherEnded)"
proof -
  have "watcher_requested s" using assms(1,2) by (simp add: watcher_requested_def)
  from watcher.stops [OF this assms(3)] have stops: "count_list ls Work \<le> watcher_budget (watcher_pc s)"
    "length (filter (\<lambda>l. l \<noteq> Elsewhere) ls) \<le> watcher_rank (watcher_pc s)"
    "\<exists>ls' s''. labelled_run watcher_step s' ls' s'' \<and> Elsewhere \<notin> set ls' \<and> watcher_pc s'' = WatcherEnded" by blast+
  have "watcher_budget (watcher_pc s) \<le> 1 \<and> (1 \<le> watcher_budget (watcher_pc s) \<longrightarrow> (\<exists>u us. watcher_pc s = SendRating u us)) \<and>
      watcher_rank (watcher_pc s) \<le> 5"
    by (cases "watcher_pc s") auto
  with stops show ?thesis by auto
qed

theorem watcher_stops_witness:
  "\<exists>s ls s'. watcher_stop s \<and> labelled_run watcher_step s ls s' \<and> count_list ls Work = 1 \<and> watcher_pc s' = AwaitTimeout \<and>
    (\<exists>ls' s''. labelled_run watcher_step s' ls' s'' \<and> watcher_pc s'' = WatcherEnded)"
proof -
  let ?s = "\<lparr>watcher_stop = True, watcher_pc = SendRating 1 [2], connected = {1, 2}\<rparr>"
  have 1: "watcher_step Work ?s (?s\<lparr>watcher_pc := TestBeforeSend [2]\<rparr>)" by (rule w_send) simp
  have 2: "watcher_step Control (?s\<lparr>watcher_pc := TestBeforeSend [2]\<rparr>) (?s\<lparr>watcher_pc := AwaitTimeout\<rparr>)"
    using w_broken [of "?s\<lparr>watcher_pc := TestBeforeSend [2]\<rparr>" 2 "[]"] by simp
  have run: "labelled_run watcher_step ?s [Work, Control] (?s\<lparr>watcher_pc := AwaitTimeout\<rparr>)"
    by (rule run_goes [where step = watcher_step, OF 1 run_goes [where step = watcher_step, OF 2 run_ends]])
  have "watcher_stop ?s" "finite (connected ?s)" by simp_all
  from watcher_stops [OF this run] obtain ls' s''
    where "labelled_run watcher_step (?s\<lparr>watcher_pc := AwaitTimeout\<rparr>) ls' s''" "watcher_pc s'' = WatcherEnded" by blast
  with run show ?thesis
    by (intro exI [of _ ?s] exI [of _ "[Work, Control]"] exI [of _ "?s\<lparr>watcher_pc := AwaitTimeout\<rparr>"]) auto
qed

section \<open>The period thread\<close>

text \<open>The work is the clearing of the table. A wait that a request ends is not followed by one.\<close>

datatype period_pc = TestPeriodLoop | AwaitPeriodEnd | TestPeriodWait | ClearTable | BeginPeriod | PeriodEnded

record period_thread =
  period_stop :: bool
  period_pc :: period_pc

inductive period_thread_step :: "label \<Rightarrow> period_thread \<Rightarrow> period_thread \<Rightarrow> bool" where
  p_stop: "period_thread_step Elsewhere s (s\<lparr>period_stop := True\<rparr>)"
| p_loop: "period_pc s = TestPeriodLoop \<Longrightarrow>
    period_thread_step Control s (s\<lparr>period_pc := (if period_stop s then PeriodEnded else AwaitPeriodEnd)\<rparr>)"
| p_waited: "period_pc s = AwaitPeriodEnd \<Longrightarrow> period_thread_step Control s (s\<lparr>period_pc := TestPeriodWait\<rparr>)"
| p_tested: "period_pc s = TestPeriodWait \<Longrightarrow>
    period_thread_step Control s (s\<lparr>period_pc := (if period_stop s then PeriodEnded else ClearTable)\<rparr>)"
| p_clear: "period_pc s = ClearTable \<Longrightarrow> period_thread_step Work s (s\<lparr>period_pc := BeginPeriod\<rparr>)"
| p_begin: "period_pc s = BeginPeriod \<Longrightarrow> period_thread_step Control s (s\<lparr>period_pc := TestPeriodLoop\<rparr>)"

fun period_rank :: "period_pc \<Rightarrow> nat" where
  "period_rank ClearTable = 3"
| "period_rank BeginPeriod = 2"
| "period_rank AwaitPeriodEnd = 2"
| "period_rank TestPeriodWait = 1"
| "period_rank TestPeriodLoop = 1"
| "period_rank PeriodEnded = 0"

interpretation period_worker: stoppable_thread period_thread_step period_stop "\<lambda>s. period_pc s = PeriodEnded"
  "\<lambda>s. if period_pc s = ClearTable then 1 else 0" "\<lambda>s. period_rank (period_pc s)"
proof
  fix s :: period_thread
  assume "period_pc s \<noteq> PeriodEnded"
  then show "\<exists>l s'. l \<noteq> Elsewhere \<and> period_thread_step l s s'"
    by (cases "period_pc s") (blast intro: period_thread_step.intros)+
next
  fix l s s'
  assume "period_thread_step l s s'" and "period_stop s"
  then show "period_stop s'" "(if period_pc s' = ClearTable then 1 else 0) + (if l = Work then 1 else 0) \<le> (if period_pc s = ClearTable then 1 else (0 :: nat))"
    "period_rank (period_pc s') + (if l = Elsewhere then 0 else 1) \<le> period_rank (period_pc s)"
    by (induction rule: period_thread_step.induct) auto
qed

text \<open>Stopping a service that waits for the end of its week does not empty the table.\<close>

lemma stop_keeps_table:
  assumes "period_stop s" and "period_pc s \<noteq> ClearTable" and "labelled_run period_thread_step s ls s'"
  shows "count_list ls Work = 0"
  using period_worker.stops [OF assms(1,3)] assms(2) by simp

section \<open>The resend thread\<close>

text \<open>The work is a pass over the store. \<open>store_empty\<close> is what the predicate of the wait looks at, and other
  threads change it. A request that finds the thread waiting over a store that is not empty does not end the wait
  without a pass.\<close>

datatype resend_pc = TestResendLoop | AwaitMessages | ResendPass | AwaitResendTimeout | ResendEnded

record resend_thread =
  resend_stop :: bool
  resend_pc :: resend_pc
  store_empty :: bool

inductive resend_thread_step :: "label \<Rightarrow> resend_thread \<Rightarrow> resend_thread \<Rightarrow> bool" where
  r_stop: "resend_thread_step Elsewhere s (s\<lparr>resend_stop := True\<rparr>)"
| r_store: "resend_pc s \<noteq> ResendPass \<Longrightarrow> resend_thread_step Elsewhere s (s\<lparr>store_empty := e\<rparr>)"
| r_loop: "resend_pc s = TestResendLoop \<Longrightarrow>
    resend_thread_step Control s (s\<lparr>resend_pc := (if resend_stop s then ResendEnded else AwaitMessages)\<rparr>)"
| r_messages: "resend_pc s = AwaitMessages \<Longrightarrow> \<not> store_empty s \<Longrightarrow>
    resend_thread_step Control s (s\<lparr>resend_pc := ResendPass\<rparr>)"
| r_no_messages: "resend_pc s = AwaitMessages \<Longrightarrow> store_empty s \<Longrightarrow> resend_stop s \<Longrightarrow>
    resend_thread_step Control s (s\<lparr>resend_pc := ResendEnded\<rparr>)"
| r_pass: "resend_pc s = ResendPass \<Longrightarrow>
    resend_thread_step Work s (s\<lparr>resend_pc := AwaitResendTimeout, store_empty := e\<rparr>)"
| r_waited: "resend_pc s = AwaitResendTimeout \<Longrightarrow> resend_thread_step Control s (s\<lparr>resend_pc := TestResendLoop\<rparr>)"

fun resend_rank :: "resend_pc \<Rightarrow> nat" where
  "resend_rank AwaitMessages = 4"
| "resend_rank ResendPass = 3"
| "resend_rank AwaitResendTimeout = 2"
| "resend_rank TestResendLoop = 1"
| "resend_rank ResendEnded = 0"

interpretation resend_worker: stoppable_thread resend_thread_step resend_stop "\<lambda>s. resend_pc s = ResendEnded"
  "\<lambda>s. if resend_pc s = AwaitMessages \<or> resend_pc s = ResendPass then 1 else 0" "\<lambda>s. resend_rank (resend_pc s)"
proof
  fix s :: resend_thread
  assume "resend_stop s" and "resend_pc s \<noteq> ResendEnded"
  then show "\<exists>l s'. l \<noteq> Elsewhere \<and> resend_thread_step l s s'"
    by (cases "resend_pc s"; cases "store_empty s") (blast intro: resend_thread_step.intros)+
next
  fix l s s'
  assume "resend_thread_step l s s'" and "resend_stop s"
  then show "resend_stop s'"
    "(if resend_pc s' = AwaitMessages \<or> resend_pc s' = ResendPass then 1 else 0) + (if l = Work then 1 else 0)
      \<le> (if resend_pc s = AwaitMessages \<or> resend_pc s = ResendPass then 1 else (0 :: nat))"
    "resend_rank (resend_pc s') + (if l = Elsewhere then 0 else 1) \<le> resend_rank (resend_pc s)"
    by (induction rule: resend_thread_step.induct) auto
qed

lemma resend_stops:
  assumes "resend_stop s" and "labelled_run resend_thread_step s ls s'"
  shows "count_list ls Work \<le> 1 \<and>
    (\<exists>ls' s''. labelled_run resend_thread_step s' ls' s'' \<and> Elsewhere \<notin> set ls' \<and> resend_pc s'' = ResendEnded)"
proof -
  have "(if resend_pc s = AwaitMessages \<or> resend_pc s = ResendPass then 1 else 0) \<le> (1 :: nat)" by simp
  then show ?thesis using resend_worker.stops [OF assms] by (meson le_trans)
qed

end
