(* ===== verification/Service_Run.thy ===== *)
theory Service_Run
  imports Worker_Threads
begin

text \<open>
  \<^verbatim>\<open>ApplicationService::run\<close>: the main thread starts the transport and the update thread, runs the transport, asks the
  update thread to stop and waits for it. The transport is a parameter, the locale \<open>served_process\<close>: what \<^verbatim>\<open>start\<close> does to
  it, what happens to it by itself, and when \<^verbatim>\<open>run\<close> returns. The threads interleave. Nothing in the service
  calls \<^verbatim>\<open>stop\<close> of the transport.
\<close>

datatype main_pc = BeforeStart | TransportStarted | JoiningTransport | StoppingWatcher | JoiningWatcher | RunReturned

record 't service_process =
  main :: main_pc
  transport_thread :: 't
  update_thread :: watcher_thread

definition process_begins :: "'t \<Rightarrow> 't service_process" where
  "process_begins t = \<lparr>main = BeforeStart, transport_thread = t, update_thread = watcher_started {}\<rparr>"

inductive process_step ::
  "('t \<Rightarrow> 't \<Rightarrow> bool) \<Rightarrow> ('t \<Rightarrow> 't \<Rightarrow> bool) \<Rightarrow> ('t \<Rightarrow> bool) \<Rightarrow> 't service_process \<Rightarrow> 't service_process \<Rightarrow> bool"
  for begins goes finished where
  transport_start: "main p = BeforeStart \<Longrightarrow> begins (transport_thread p) t \<Longrightarrow>
    process_step begins goes finished p (p\<lparr>main := TransportStarted, transport_thread := t\<rparr>)"
| watcher_start: "main p = TransportStarted \<Longrightarrow> process_step begins goes finished p (p\<lparr>main := JoiningTransport\<rparr>)"
| transport_joined: "main p = JoiningTransport \<Longrightarrow> finished (transport_thread p) \<Longrightarrow>
    process_step begins goes finished p (p\<lparr>main := StoppingWatcher\<rparr>)"
| watcher_asked: "main p = StoppingWatcher \<Longrightarrow>
    process_step begins goes finished p (p\<lparr>main := JoiningWatcher, update_thread := (update_thread p)\<lparr>watcher_stop := True\<rparr>\<rparr>)"
| watcher_joined: "main p = JoiningWatcher \<Longrightarrow> watcher_pc (update_thread p) = WatcherEnded \<Longrightarrow>
    process_step begins goes finished p (p\<lparr>main := RunReturned\<rparr>)"
| transport_goes: "main p \<noteq> BeforeStart \<Longrightarrow> goes (transport_thread p) t \<Longrightarrow>
    process_step begins goes finished p (p\<lparr>transport_thread := t\<rparr>)"
| watcher_goes: "main p \<notin> {BeforeStart, TransportStarted} \<Longrightarrow> watcher_step l (update_thread p) u \<Longrightarrow>
    watcher_stop u = watcher_stop (update_thread p) \<Longrightarrow> process_step begins goes finished p (p\<lparr>update_thread := u\<rparr>)"

inductive_cases process_stepE: "process_step begins goes finished p p'"

definition process_inv :: "('t \<Rightarrow> bool) \<Rightarrow> 't service_process \<Rightarrow> bool" where
  "process_inv finished p \<longleftrightarrow>
     finite (connected (update_thread p)) \<and>
     (main p \<in> {StoppingWatcher, JoiningWatcher, RunReturned} \<longrightarrow> finished (transport_thread p)) \<and>
     (main p \<in> {JoiningWatcher, RunReturned} \<longrightarrow> watcher_stop (update_thread p)) \<and>
     (main p = RunReturned \<longrightarrow> watcher_pc (update_thread p) = WatcherEnded)"

lemma process_inv_begins: "process_inv finished (process_begins t)"
  by (simp add: process_inv_def process_begins_def watcher_started_def)

lemma ended_stays: "watcher_step l u u' \<Longrightarrow> watcher_pc u = WatcherEnded \<Longrightarrow> watcher_pc u' = WatcherEnded"
  by (induction rule: watcher_step.induct) auto

lemma users_finite: "watcher_step l u u' \<Longrightarrow> finite (connected u) \<Longrightarrow> finite (connected u')"
  by (induction rule: watcher_step.induct) auto

text \<open>What is asked of a transport: once \<^verbatim>\<open>run\<close> may return, it may for good.\<close>

locale served_process =
  fixes begins goes :: "'t \<Rightarrow> 't \<Rightarrow> bool" and finished :: "'t \<Rightarrow> bool"
  assumes finished_stays: "goes t t' \<Longrightarrow> finished t \<Longrightarrow> finished t'"
begin

abbreviation steps :: "'t service_process \<Rightarrow> 't service_process \<Rightarrow> bool" where
  "steps \<equiv> (process_step begins goes finished)\<^sup>*\<^sup>*"

lemma inv_step: "process_step begins goes finished p p' \<Longrightarrow> process_inv finished p \<Longrightarrow> process_inv finished p'"
  by (induction rule: process_step.induct)
    (auto simp: process_inv_def dest: finished_stays ended_stays users_finite)

lemma inv_steps: "steps p p' \<Longrightarrow> process_inv finished p \<Longrightarrow> process_inv finished p'"
  by (induction rule: rtranclp_induct) (auto intro: inv_step)

text \<open>When \<^verbatim>\<open>run\<close> has returned, the transport is finished and the update thread has ended.\<close>

lemma run_returned:
  assumes "steps (process_begins t) p" and "main p = RunReturned"
  shows "finished (transport_thread p) \<and> watcher_pc (update_thread p) = WatcherEnded"
  using inv_steps [OF assms(1) process_inv_begins] assms(2) by (simp add: process_inv_def)

lemma watcher_goes_on_stopped:
  "labelled_run watcher_step u ls u' \<Longrightarrow> watcher_stop u \<Longrightarrow> main p \<notin> {BeforeStart, TransportStarted} \<Longrightarrow> update_thread p = u \<Longrightarrow>
    steps p (p\<lparr>update_thread := u'\<rparr>)"
proof (induction arbitrary: p rule: labelled_run.induct)
  case (run_ends u)
  then have "p\<lparr>update_thread := u\<rparr> = p" by simp
  then show ?case by simp
next
  case (run_goes l u u1 ls u2)
  have stop: "watcher_stop u1" using run_goes.hyps(1) run_goes.prems(1) by (induction rule: watcher_step.induct) auto
  with run_goes have "process_step begins goes finished p (p\<lparr>update_thread := u1\<rparr>)" by (intro watcher_goes) auto
  moreover have "steps (p\<lparr>update_thread := u1\<rparr>) (p\<lparr>update_thread := u1, update_thread := u2\<rparr>)"
    using run_goes.IH [of "p\<lparr>update_thread := u1\<rparr>"] stop run_goes.prems(2) by simp
  ultimately show ?case by simp
qed

definition can_return :: "'t service_process \<Rightarrow> bool" where
  "can_return p \<longleftrightarrow> (\<exists>p'. steps p p' \<and> main p' = RunReturned)"

lemma can_return_step: "process_step begins goes finished p p' \<Longrightarrow> can_return p' \<Longrightarrow> can_return p"
  by (auto simp: can_return_def intro: converse_rtranclp_into_rtranclp)

lemma can_return_steps: "steps p p' \<Longrightarrow> can_return p' \<Longrightarrow> can_return p"
  by (auto simp: can_return_def intro: rtranclp_trans)

lemma joining_returns:
  assumes "main p = JoiningWatcher" and "watcher_stop (update_thread p)" and "finite (connected (update_thread p))"
  shows "can_return p"
proof -
  have "watcher_requested (update_thread p)" using assms by (simp add: watcher_requested_def)
  from watcher.comes_to_end [OF this] obtain ls u where
    u: "labelled_run watcher_step (update_thread p) ls u" "watcher_pc u = WatcherEnded" by blast
  have "process_step begins goes finished (p\<lparr>update_thread := u\<rparr>) (p\<lparr>update_thread := u, main := RunReturned\<rparr>)"
    using watcher_joined [of "p\<lparr>update_thread := u\<rparr>"] assms(1) u(2) by simp
  then have "can_return (p\<lparr>update_thread := u\<rparr>)" by (rule can_return_step) (auto simp: can_return_def)
  with watcher_goes_on_stopped [OF u(1) assms(2), of p] assms(1) show ?thesis by (auto intro: can_return_steps)
qed

lemma stopping_returns: "main p = StoppingWatcher \<Longrightarrow> finite (connected (update_thread p)) \<Longrightarrow> can_return p"
  by (rule can_return_step [OF watcher_asked joining_returns]) simp_all

lemma joined_returns:
  "main p = JoiningTransport \<Longrightarrow> finished (transport_thread p) \<Longrightarrow> finite (connected (update_thread p)) \<Longrightarrow> can_return p"
  by (rule can_return_step [OF transport_joined stopping_returns]) simp_all

text \<open>Once the transport is finished, \<^verbatim>\<open>run\<close> can return, wherever the threads are.\<close>

lemma finished_returns:
  assumes "process_inv finished p" and "main p \<noteq> BeforeStart" and "finished (transport_thread p)"
  shows "can_return p"
proof (cases "main p")
  case TransportStarted
  from watcher_start [OF this] show ?thesis
    by (rule can_return_step) (use assms in \<open>auto simp: process_inv_def intro: joined_returns\<close>)
next
  case RunReturned
  then show ?thesis by (auto simp: can_return_def)
qed (use assms in \<open>auto simp: process_inv_def intro: joined_returns stopping_returns joining_returns\<close>)

end

end
