(* ===== verification/Grpc_Service.thy ===== *)
theory Grpc_Service
  imports Grpc_Transport Ws_Service Service_Run
begin

text \<open>
  The service behind the gRPC transport: an event that a call of \<^verbatim>\<open>Connect\<close> reads, from the stream to the stores, with the
  pushes its handler makes; and the listening server of \<^verbatim>\<open>grpcapi/src/GrpcTransportServer.cpp\<close>: \<^verbatim>\<open>start\<close>, \<^verbatim>\<open>run\<close> and \<^verbatim>\<open>stop\<close>
  under \<^verbatim>\<open>ApplicationService::run\<close>. gRPC itself is two parameters: \<open>bound\<close>, the addresses for which \<^verbatim>\<open>BuildAndStart\<close> gives a
  server and not null, and \<open>wait\<close>, when \<^verbatim>\<open>Wait\<close> returns, of which \<open>wait_law\<close> says what its documentation says.
\<close>

section \<open>An event on its way to the stores\<close>

definition grpc_event_arrives ::
  "rating_provider emitter \<Rightarrow> (char \<Rightarrow> char \<Rightarrow> bool) \<Rightarrow> time_point \<Rightarrow> stream_id \<Rightarrow> client_event
    \<Rightarrow> grpc_server service \<Rightarrow> grpc_server service outcome" where
  "grpc_event_arrives emit iless now stream event s =
     (let (t, message) = connect_event stream event (transport s); s = s\<lparr>transport := t\<rparr>
      in case message of
           None \<Rightarrow> (s, None)
         | Some m \<Rightarrow> dispatchMessage emit iless grpc_sendToUser now (Some m) s)"

lemma rating_is_own:
  assumes "rating_inv (sortedDealContainer p)" and "all_registered store p"
    and "relative_rating store n k p = Inr r" and "rating_of (sortedDealContainer p) k = Some a"
  shows "up_userInformation (ur_userPosition r) = the (users store k)" and "up_amount (ur_userPosition r) = a"
  using relative_rating_content [OF assms(1,2,4), of n] assms(3) by (auto simp: Let_def reported_def)

lemma rating_message_is_rating: "is_rating (rating_message r)"
  by (simp add: is_rating_def rating_message_def)

text \<open>C17. Over gRPC: when a running call reads that a registered user connects, inside the period and while everybody in
  the table is registered, the user joins the connected users and is routed to that call, and the next message
  that its client reads is a rating message with the user's record and the user's rating.\<close>

theorem grpc_event_brings_rating:
  assumes "service_ok s" and "all_registered (userDataStore s) (userRatingProvider s)" and "users (userDataStore s) k = Some u"
    and "within (startTime (userRatingProvider s)) (endTime (userRatingProvider s)) (unsigned_time now)"
  shows "\<exists>s' r. grpc_event_arrives emit iless now stream (CUserConnected k) s = (s', None) \<and> k \<in> connectedUsers s' \<and>
    userToHandle (transport s') k = Some stream \<and>
    grpc_received (transport s') stream = grpc_received (transport s) stream @ [rating_message r] \<and>
    up_userInformation (ur_userPosition r) = u \<and>
    rating_of (sortedDealContainer (userRatingProvider s')) k = Some (up_amount (ur_userPosition r))"
proof -
  let ?t = "fst (connect_event stream (CUserConnected k) (transport s))"
  let ?s = "s\<lparr>transport := ?t, connectedUsers := insert k (connectedUsers s)\<rparr>"
  have "service_ok ?s" using assms(1) by (simp add: service_ok_def)
  from rating_ready [OF this, of k now] assms(2-4) obtain p r where
    p: "ensure_present now k (userRatingProvider s) = Inr p" "rating_inv (sortedDealContainer p)"
      "all_registered (userDataStore s) p" "relative_rating (userDataStore s) (nRatingPositions s) k p = Inr r"
    and rating: "rating_of (sortedDealContainer p) = (rating_of (sortedDealContainer (userRatingProvider s)))
      (k \<mapsto> (case rating_of (sortedDealContainer (userRatingProvider s)) k of None \<Rightarrow> 0 | Some a \<Rightarrow> a))" by auto
  obtain a where a: "rating_of (sortedDealContainer p) k = Some a" using rating by simp
  note r = rating_is_own [OF p(2,3,4) a]
  have route: "userToHandle ?t k = Some stream" and same: "grpc_received ?t stream = grpc_received (transport s) stream"
    by (simp_all add: connect_event_def Let_def grpc_received_def)
  from grpc.routed [OF TrueI route rating_message_is_rating [of r]] obtain t' where
    t': "grpc_sendToUser k (rating_message r) ?t = (t', None)" "userToHandle t' = userToHandle ?t"
      "grpc_received t' = (grpc_received ?t)(stream := grpc_received ?t stream @ [rating_message r])" by auto
  have "userConnected grpc_sendToUser now k (s\<lparr>transport := ?t\<rparr>) = (?s\<lparr>userRatingProvider := p, transport := t'\<rparr>, None)"
    using p(1,4) t'(1) by (simp add: userConnected_def sendUserRelativeRating_def push_rating_def)
  then have "grpc_event_arrives emit iless now stream (CUserConnected k) s = (?s\<lparr>userRatingProvider := p, transport := t'\<rparr>, None)"
    by (simp add: grpc_event_arrives_def connect_event_def Let_def dispatch_connected caught_None)
  with t'(2,3) route same r a assms(3) show ?thesis
    by (intro exI [of _ "?s\<lparr>userRatingProvider := p, transport := t'\<rparr>"] exI [of _ r]) simp
qed

definition example_grpc_service :: "grpc_server service" where
  "example_grpc_service = \<lparr>userDataStore = example_store,
     userDealDataStore = addDealAddedSlot addDeal \<lparr>dealAddedSignal = []\<rparr>,
     userRatingProvider = example_provider, nRatingPositions = 10, connectedUsers = {},
     transport = connect_begin 5 new_grpc_server\<rparr>"

theorem grpc_event_brings_rating_witness:
  "\<exists>s' r. grpc_event_arrives single_emit reference_iless 1515931932000000000 5 (CUserConnected 2) example_grpc_service = (s', None) \<and>
    grpc_received (transport s') 5 = [rating_message r] \<and> up_userInformation (ur_userPosition r) = \<lparr>ui_id = 2, ui_name = ''b''\<rparr>"
proof -
  have same: "service_ok example_grpc_service" "userDataStore example_grpc_service = userDataStore example_ws_service"
    "userRatingProvider example_grpc_service = userRatingProvider example_ws_service"
    using example_ws_service_ok(1) by (simp_all add: service_ok_def example_ws_service_def example_grpc_service_def)
  have "grpc_received (transport example_grpc_service) 5 = []"
    by (simp add: example_grpc_service_def connect_begin_def new_grpc_server_def grpc_received_def client_received_def)
  with grpc_event_brings_rating [OF same(1), unfolded same(2,3), OF example_ready(3,4,1), of single_emit reference_iless 5]
  show ?thesis by auto
qed


section \<open>The listening server\<close>

datatype listening = NoServer | Listens | ShutDown

record grpc_listener =
  grpc_port :: int
  grpc_object :: listening
  calls :: grpc_server

definition new_listener :: "int \<Rightarrow> grpc_listener" where
  "new_listener port = \<lparr>grpc_port = port, grpc_object = NoServer, calls = new_grpc_server\<rparr>"

text \<open>\<^verbatim>\<open>start\<close>, called once. The line that is logged is the same whether there is a server or not.\<close>

definition listening_address :: "grpc_listener \<Rightarrow> string" where
  "listening_address s = ''0.0.0.0:'' @ show_int (grpc_port s)"

definition grpc_start :: "(string \<Rightarrow> bool) \<Rightarrow> grpc_listener \<Rightarrow> grpc_listener" where
  "grpc_start bound s = s\<lparr>grpc_object := (if bound (listening_address s) then Listens else NoServer)\<rparr>"

text \<open>\<^verbatim>\<open>run\<close> returns at once without a server, otherwise when \<^verbatim>\<open>Wait\<close> does.\<close>

definition grpc_run_returns :: "(grpc_listener \<Rightarrow> bool) \<Rightarrow> grpc_listener \<Rightarrow> bool" where
  "grpc_run_returns wait s \<longleftrightarrow> grpc_object s = NoServer \<or> wait s"

definition grpc_stop :: "grpc_listener \<Rightarrow> grpc_listener" where
  "grpc_stop s = (if grpc_object s = NoServer then s else s\<lparr>grpc_object := ShutDown\<rparr>)"

text \<open>What happens by itself: calls of \<^verbatim>\<open>Connect\<close> begin, read events, and end when \<^verbatim>\<open>Read\<close> fails; ratings are pushed. When
  calls begin and end is up to gRPC and the clients: they may at any time.\<close>

fun call_step :: "grpc_event \<Rightarrow> grpc_listener \<Rightarrow> grpc_listener option" where
  "call_step (Opened stream) s =
     (if sessions (calls s) stream = None then Some (s\<lparr>calls := connect_begin stream (calls s)\<rparr>) else None)"
| "call_step (EventRead stream event) s =
     (if sessions (calls s) stream \<noteq> None then Some (s\<lparr>calls := fst (connect_event stream event (calls s))\<rparr>) else None)"
| "call_step (Closed stream) s =
     (if sessions (calls s) stream \<noteq> None then Some (s\<lparr>calls := connect_end stream (calls s)\<rparr>) else None)"
| "call_step (Pushed k m) s = Some (s\<lparr>calls := fst (grpc_sendToUser k m (calls s))\<rparr>)"

lemma call_step_object: "call_step e s = Some s' \<Longrightarrow> grpc_object s' = grpc_object s"
  by (cases e) (auto split: if_splits)

text \<open>\<^verbatim>\<open>Wait\<close> blocks until the server shuts down, so it does not return before \<^verbatim>\<open>Shutdown\<close> has been called, and whatever the
  calls do does not block it again.\<close>

definition wait_law :: "(grpc_listener \<Rightarrow> bool) \<Rightarrow> bool" where
  "wait_law wait \<longleftrightarrow> (\<forall>s. wait s \<longrightarrow> grpc_object s = ShutDown) \<and> (\<forall>e s s'. wait s \<longrightarrow> call_step e s = Some s' \<longrightarrow> wait s')"

section \<open>The service over gRPC\<close>

definition grpc_begins :: "(string \<Rightarrow> bool) \<Rightarrow> grpc_listener \<Rightarrow> grpc_listener \<Rightarrow> bool" where
  "grpc_begins bound s s' \<longleftrightarrow> s' = grpc_start bound s"

definition grpc_goes :: "grpc_listener \<Rightarrow> grpc_listener \<Rightarrow> bool" where
  "grpc_goes s s' \<longleftrightarrow> (\<exists>e. call_step e s = Some s')"

lemma grpc_goes_object: "grpc_goes s s' \<Longrightarrow> grpc_object s' = grpc_object s"
  by (auto simp: grpc_goes_def call_step_object)

lemma grpc_is_served_process:
  assumes "wait_law wait"
  shows "served_process grpc_goes (grpc_run_returns wait)"
proof
  fix s s' assume "grpc_goes s s'" and "grpc_run_returns wait s"
  with assms grpc_goes_object [of s s'] show "grpc_run_returns wait s'"
    by (auto simp: grpc_run_returns_def grpc_goes_def wait_law_def)
qed

text \<open>A \<^verbatim>\<open>Wait\<close> that returns as soon as the server is shut down.\<close>

definition prompt_wait :: "grpc_listener \<Rightarrow> bool" where
  "prompt_wait s \<longleftrightarrow> grpc_object s = ShutDown"

lemma prompt_wait_law: "wait_law prompt_wait"
  by (auto simp: wait_law_def prompt_wait_def call_step_object)

interpretation grpc_process: served_process "grpc_begins bound" grpc_goes "grpc_run_returns prompt_wait" for bound
  by (rule grpc_is_served_process [OF prompt_wait_law])

definition started_on :: "(string \<Rightarrow> bool) \<Rightarrow> int \<Rightarrow> grpc_listener service_process \<Rightarrow> bool" where
  "started_on bound port p \<longleftrightarrow> (main p = BeforeStart \<longrightarrow> transport_thread p = new_listener port) \<and>
     (main p \<noteq> BeforeStart \<longrightarrow> grpc_object (transport_thread p) = grpc_object (grpc_start bound (new_listener port)))"

lemma started_on_steps:
  "(process_step (grpc_begins bound) grpc_goes finished)\<^sup>*\<^sup>* p p' \<Longrightarrow> started_on bound port p \<Longrightarrow> started_on bound port p'"
proof (induction rule: rtranclp_induct)
  case (step p1 p2)
  from step.hyps(2) step.IH [OF step.prems] show ?case
    by (induction rule: process_step.induct) (auto simp: started_on_def grpc_begins_def grpc_goes_object)
qed

text \<open>C25. \<^verbatim>\<open>run\<close> of the service over gRPC can return exactly when gRPC gave no server for the address, as it does when the
  port is taken: then the threads can come to the end from wherever they are, and otherwise no order of their steps
  brings \<^verbatim>\<open>run\<close> to return, for nothing in the service calls \<^verbatim>\<open>stop\<close>.\<close>

theorem grpc_service_returns_iff_not_listening:
  assumes "wait_law wait"
    and "(process_step (grpc_begins bound) grpc_goes (grpc_run_returns wait))\<^sup>*\<^sup>* (process_begins (new_listener port)) p"
  shows "(\<exists>p'. (process_step (grpc_begins bound) grpc_goes (grpc_run_returns wait))\<^sup>*\<^sup>* p p' \<and> main p' = RunReturned) \<longleftrightarrow>
    \<not> bound (''0.0.0.0:'' @ show_int port)"
proof -
  note process = grpc_is_served_process [OF assms(1)]
  note inv_steps = served_process.inv_steps [where begins = "grpc_begins bound", OF process]
  note inv = inv_steps [OF assms(2) process_inv_begins]
  have on: "started_on bound port p" by (rule started_on_steps [OF assms(2)]) (simp add: started_on_def process_begins_def)
  have object: "grpc_object (grpc_start bound (new_listener port)) =
      (if bound (''0.0.0.0:'' @ show_int port) then Listens else NoServer)"
    by (simp add: grpc_start_def new_listener_def listening_address_def)
  have returns: "served_process.can_return (grpc_begins bound) grpc_goes (grpc_run_returns wait) q \<longleftrightarrow>
      (\<exists>p'. (process_step (grpc_begins bound) grpc_goes (grpc_run_returns wait))\<^sup>*\<^sup>* q p' \<and> main p' = RunReturned)" for q
    by (rule served_process.can_return_def [OF process])
  show ?thesis
  proof
    assume "\<exists>p'. (process_step (grpc_begins bound) grpc_goes (grpc_run_returns wait))\<^sup>*\<^sup>* p p' \<and> main p' = RunReturned"
    then obtain p' where p': "(process_step (grpc_begins bound) grpc_goes (grpc_run_returns wait))\<^sup>*\<^sup>* p p'" "main p' = RunReturned" by blast
    from started_on_steps [OF p'(1) on] inv_steps [OF p'(1) inv] p'(2) assms(1)
    have "grpc_object (transport_thread p') \<noteq> Listens" "started_on bound port p'"
      by (auto simp: process_inv_def grpc_run_returns_def wait_law_def)
    with p'(2) object show "\<not> bound (''0.0.0.0:'' @ show_int port)" by (auto simp: started_on_def)
  next
    assume none: "\<not> bound (''0.0.0.0:'' @ show_int port)"
    have finished: "served_process.can_return (grpc_begins bound) grpc_goes (grpc_run_returns wait) q"
      if "started_on bound port q" "process_inv (grpc_run_returns wait) q" "main q \<noteq> BeforeStart" for q
      using that none object by (intro served_process.finished_returns [OF process]) (auto simp: started_on_def grpc_run_returns_def)
    have "served_process.can_return (grpc_begins bound) grpc_goes (grpc_run_returns wait) p"
    proof (cases "main p = BeforeStart")
      case True
      let ?q = "p\<lparr>main := TransportStarted, transport_thread := grpc_start bound (transport_thread p)\<rparr>"
      have step: "process_step (grpc_begins bound) grpc_goes (grpc_run_returns wait) p ?q"
        using True by (intro transport_start) (simp_all add: grpc_begins_def)
      have "started_on bound port ?q" using started_on_steps [OF r_into_rtranclp, OF step on] .
      with finished [of ?q] served_process.inv_step [OF process step inv] have
        "served_process.can_return (grpc_begins bound) grpc_goes (grpc_run_returns wait) ?q" by simp
      with step show ?thesis by (rule served_process.can_return_step [OF process])
    qed (rule finished [OF on inv])
    then show "\<exists>p'. (process_step (grpc_begins bound) grpc_goes (grpc_run_returns wait))\<^sup>*\<^sup>* p p' \<and> main p' = RunReturned"
      by (simp only: returns)
  qed
qed

theorem grpc_service_returns_iff_not_listening_witness:
  "\<exists>p'. (process_step (grpc_begins (\<lambda>address. address \<noteq> ''0.0.0.0:80'')) grpc_goes (grpc_run_returns prompt_wait))\<^sup>*\<^sup>*
      (process_begins (new_listener 80)) p' \<and> main p' = RunReturned"
proof -
  have "show_int 80 = ''80''" by code_simp
  with grpc_service_returns_iff_not_listening [OF prompt_wait_law rtranclp.rtrancl_refl, of "\<lambda>address. address \<noteq> ''0.0.0.0:80''" 80]
  show ?thesis by simp
qed

end
