(* ===== verification/Transport_Survival.thy ===== *)
theory Transport_Survival
  imports Ws_Total Grpc_Service
begin

text \<open>
  The service with its transport, as one sequence of events: what arrives at the transport, with the pushes its handler
  makes, cycles of the update thread, and the two steps of the period thread. The locale \<open>served_transport\<close> is what
  the service needs of a transport to live on; both transports provide it, over WebSockets the resend thread included.
\<close>

section \<open>The service with a transport\<close>

text \<open>What a transport does with an arrival, the message and the time that it hands to the service, if any, and how it
  pushes.\<close>

record ('x, 't) transport_part =
  tp_receive :: "'x \<Rightarrow> 't service \<Rightarrow> 't service outcome"
  tp_request :: "'x \<Rightarrow> (time_point \<times> base_message) option"
  tp_push :: "time_point \<Rightarrow> 't sender"

datatype 'x served_event =
    Arrives 'x
  | Cycle "(time_point \<times> user_identifier) list"
  | TableCleared
  | PeriodBegun

fun served_step :: "('x, 't) transport_part \<Rightarrow> 'x served_event \<Rightarrow> 't service \<Rightarrow> 't service outcome" where
  "served_step T (Arrives x) s = tp_receive T x s"
| "served_step T (Cycle us) s = broadcast (tp_push T) us s"
| "served_step T TableCleared s = (s\<lparr>userRatingProvider := clear_table (userRatingProvider s)\<rparr>, None)"
| "served_step T PeriodBegun s = (s\<lparr>userRatingProvider := next_period (userRatingProvider s)\<rparr>, None)"

fun served_run :: "('x, 't) transport_part \<Rightarrow> 'x served_event list \<Rightarrow> 't service \<Rightarrow> 't service outcome" where
  "served_run T [] s = (s, None)"
| "served_run T (e # es) s = and_then (served_step T e s) (served_run T es)"

text \<open>The discipline: users are announced before they connect or win, won amounts are not negative, and cycles run for
  connected users and inside the period.\<close>

fun well_served :: "('x, 't) transport_part \<Rightarrow> 't service \<Rightarrow> 'x served_event \<Rightarrow> bool" where
  "well_served T s (Arrives x) =
     (case tp_request T x of None \<Rightarrow> True | Some (now, m) \<Rightarrow> disciplined_event s (Received now (Some m)))"
| "well_served T s (Cycle us) = disciplined_event s (UpdateCycle us)"
| "well_served T s TableCleared = True"
| "well_served T s PeriodBegun = True"

fun well_served_run :: "('x, 't) transport_part \<Rightarrow> 'x served_event list \<Rightarrow> 't service \<Rightarrow> bool" where
  "well_served_run T [] s = True"
| "well_served_run T (e # es) s = (well_served T s e \<and> well_served_run T es (fst (served_step T e s)))"

locale served_transport =
  fixes T :: "('x, 't) transport_part" and ok :: "'t \<Rightarrow> bool" and emit :: "rating_provider emitter"
    and iless :: "char \<Rightarrow> char \<Rightarrow> bool"
  assumes takes_ratings: "pushes_ok ok (tp_push T now)"
    and hands_over: "ok (transport s) \<Longrightarrow> tp_request T x = Some (now, m) \<Longrightarrow>
      \<exists>t. ok t \<and> tp_receive T x s = dispatchMessage emit iless (tp_push T now) now (Some m) (s\<lparr>transport := t\<rparr>)"
    and keeps_to_itself: "ok (transport s) \<Longrightarrow> tp_request T x = None \<Longrightarrow>
      \<exists>t. ok t \<and> tp_receive T x s = (s\<lparr>transport := t\<rparr>, None)"
begin

lemma safe_served_step:
  assumes "safe emit s" and "ok (transport s)" and "well_served T s e"
  shows "\<exists>s'. served_step T e s = (s', None) \<and> safe emit s' \<and> ok (transport s')"
proof (cases e)
  case (Arrives x)
  show ?thesis
  proof (cases "tp_request T x")
    case None
    from keeps_to_itself [OF assms(2) None] assms(1) Arrives show ?thesis
      by (auto simp: safe_def service_ok_def wired_def knows_def)
  next
    case (Some r)
    obtain now m where r: "r = (now, m)" by (cases r)
    from hands_over [OF assms(2)] Some r obtain t where
      t: "ok t" "tp_receive T x s = dispatchMessage emit iless (tp_push T now) now (Some m) (s\<lparr>transport := t\<rparr>)" by blast
    have "safe emit (s\<lparr>transport := t\<rparr>)" using assms(1) by (simp add: safe_def service_ok_def wired_def knows_def)
    moreover have "disciplined_event (s\<lparr>transport := t\<rparr>) (Received now (Some m))"
      using assms(3) Arrives Some r by (auto simp: knows_def split: payload.splits)
    ultimately show ?thesis
      using safe_message [OF _ _ takes_ratings, of emit "s\<lparr>transport := t\<rparr>" now m iless now] t Arrives by auto
  qed
next
  case (Cycle us)
  with safe_broadcast [where send = "tp_push T", OF assms(1) _ takes_ratings assms(2)] assms(3) show ?thesis by simp
qed (use assms safe_period in simp_all)

lemma safe_served_run:
  assumes "safe emit s" and "ok (transport s)" and "well_served_run T es s"
  shows "\<exists>s'. served_run T es s = (s', None) \<and> safe emit s'"
  using assms
proof (induction es arbitrary: s)
  case (Cons e es)
  then obtain s1 where "served_step T e s = (s1, None)" "safe emit s1" "ok (transport s1)"
    using safe_served_step [of s e] by auto
  with Cons show ?case by simp
qed simp

lemma new_service_survives:
  assumes "emits_single emit" and "ok t" and "well_served_run T es (new_service n now t)"
  shows "\<exists>s'. served_run T es (new_service n now t) = (s', None) \<and> service_ok s' \<and>
    all_registered (userDataStore s') (userRatingProvider s')"
proof -
  have "ok (transport (new_service n now t))" using assms(2) by (simp add: new_service_def)
  from safe_served_run [OF new_service_safe [OF assms(1)] this assms(3)] show ?thesis by (auto simp: safe_def)
qed

end

section \<open>Over gRPC\<close>

datatype grpc_arrival =
    CallBegins stream_id
  | CallReads stream_id client_event
  | CallEnds stream_id

fun grpc_arrives ::
  "rating_provider emitter \<Rightarrow> (char \<Rightarrow> char \<Rightarrow> bool) \<Rightarrow> time_point \<times> grpc_arrival \<Rightarrow> grpc_server service
    \<Rightarrow> grpc_server service outcome" where
  "grpc_arrives emit iless (now, CallBegins stream) s = (s\<lparr>transport := connect_begin stream (transport s)\<rparr>, None)"
| "grpc_arrives emit iless (now, CallReads stream event) s = grpc_event_arrives emit iless now stream event s"
| "grpc_arrives emit iless (now, CallEnds stream) s = (s\<lparr>transport := connect_end stream (transport s)\<rparr>, None)"

fun grpc_request :: "time_point \<times> grpc_arrival \<Rightarrow> (time_point \<times> base_message) option" where
  "grpc_request (now, CallReads stream event) = map_option (Pair now) (parseClientEvent event)"
| "grpc_request (now, _) = None"

definition over_grpc ::
  "rating_provider emitter \<Rightarrow> (char \<Rightarrow> char \<Rightarrow> bool) \<Rightarrow> (time_point \<times> grpc_arrival, grpc_server) transport_part" where
  "over_grpc emit iless =
     \<lparr>tp_receive = grpc_arrives emit iless, tp_request = grpc_request, tp_push = (\<lambda>now. grpc_sendToUser)\<rparr>"

lemma grpc_pushes_ok: "pushes_ok (\<lambda>t. True) grpc_sendToUser"
  by (auto simp: pushes_ok_def grpc_sendToUser_def Let_def split: option.split)

interpretation grpc_served: served_transport "over_grpc emit iless" "\<lambda>t. True" emit iless for emit iless
proof unfold_locales
  show "pushes_ok (\<lambda>t. True) (tp_push (over_grpc emit iless) now)" for now
    by (simp add: over_grpc_def grpc_pushes_ok)
  show "\<exists>t. True \<and> tp_receive (over_grpc emit iless) x s =
      dispatchMessage emit iless (tp_push (over_grpc emit iless) now) now (Some m) (s\<lparr>transport := t\<rparr>)"
    if "tp_request (over_grpc emit iless) x = Some (now, m)" for s x now m
    using that by (cases x rule: grpc_request.cases) (auto simp: over_grpc_def grpc_event_arrives_def connect_event_def Let_def)
  show "\<exists>t. True \<and> tp_receive (over_grpc emit iless) x s = (s\<lparr>transport := t\<rparr>, None)"
    if "tp_request (over_grpc emit iless) x = None" for s x
    using that by (cases x rule: grpc_request.cases) (auto simp: over_grpc_def grpc_event_arrives_def connect_event_def Let_def)
qed

section \<open>Over WebSockets\<close>

text \<open>\<open>ResendPass\<close>: a pass of the resend thread, which sees the connections that still have an owner.\<close>

datatype 'w ws_arrival =
    ConnectionOpens connection_id
  | TextArrives connection_id 'w
  | ConnectionCloses connection_id
  | ConnectionFails connection_id
  | ConnectionReleased connection_id
  | ResendPass

fun ws_arrives ::
  "rating_provider emitter \<Rightarrow> ('t, 'w) ptree_ops \<Rightarrow> (char \<Rightarrow> char \<Rightarrow> bool) \<Rightarrow> time_point \<times> 'w ws_arrival
    \<Rightarrow> 'w ws_server service \<Rightarrow> 'w ws_server service outcome" where
  "ws_arrives emit ops iless (now, ConnectionOpens c) s = (s\<lparr>transport := on_open c (transport s)\<rparr>, None)"
| "ws_arrives emit ops iless (now, TextArrives c js) s = ws_receive emit ops iless now c js s"
| "ws_arrives emit ops iless (now, ConnectionCloses c) s = (s\<lparr>transport := on_close c (transport s)\<rparr>, None)"
| "ws_arrives emit ops iless (now, ConnectionFails c) s = (s\<lparr>transport := on_error c (transport s)\<rparr>, None)"
| "ws_arrives emit ops iless (now, ConnectionReleased c) s = (s\<lparr>transport := release c (transport s)\<rparr>, None)"
| "ws_arrives emit ops iless (now, ResendPass) s =
     (let (p, e) = resend_pass ops iless (\<lambda>c. c \<in> live (transport s)) now (protocol (transport s))
      in (s\<lparr>transport := (transport s)\<lparr>protocol := p\<rparr>\<rparr>, e))"

fun ws_request ::
  "('t, 'w) ptree_ops \<Rightarrow> (char \<Rightarrow> char \<Rightarrow> bool) \<Rightarrow> time_point \<times> 'w ws_arrival \<Rightarrow> (time_point \<times> base_message) option" where
  "ws_request ops iless (now, TextArrives c js) = map_option (Pair now) (requested ops iless js)"
| "ws_request ops iless (now, _) = None"

definition over_ws ::
  "rating_provider emitter \<Rightarrow> ('t, 'w) ptree_ops \<Rightarrow> (char \<Rightarrow> char \<Rightarrow> bool)
    \<Rightarrow> (time_point \<times> 'w ws_arrival, 'w ws_server) transport_part" where
  "over_ws emit ops iless =
     \<lparr>tp_receive = ws_arrives emit ops iless, tp_request = ws_request ops iless, tp_push = ws_sendToUser ops iless\<rparr>"

lemma ws_is_served:
  assumes "writer_law ops" and "parser_law ops"
  shows "served_transport (over_ws emit ops iless) (ws_in_order ops iless) emit iless"
proof
  show "pushes_ok (ws_in_order ops iless) (tp_push (over_ws emit ops iless) now)" for now
    by (simp add: over_ws_def ws_pushes_ok [OF assms(1)])
  show "\<exists>t. ws_in_order ops iless t \<and> tp_receive (over_ws emit ops iless) x s =
      dispatchMessage emit iless (tp_push (over_ws emit ops iless) now) now (Some m) (s\<lparr>transport := t\<rparr>)"
    if "ws_in_order ops iless (transport s)" and "tp_request (over_ws emit ops iless) x = Some (now, m)" for s x now m
  proof -
    from that(2) obtain c js where x: "x = (now, TextArrives c js)" and m: "requested ops iless js = Some m"
      by (cases "(ops, iless, x)" rule: ws_request.cases) (auto simp: over_ws_def)
    from ws_receive_request [OF assms(1) that(1) m, of emit now c] x show ?thesis by (simp add: over_ws_def)
  qed
  show "\<exists>t. ws_in_order ops iless t \<and> tp_receive (over_ws emit ops iless) x s = (s\<lparr>transport := t\<rparr>, None)"
    if ok: "ws_in_order ops iless (transport s)" and none: "tp_request (over_ws emit ops iless) x = None" for s x
  proof -
    obtain now a where x: "x = (now, a)" by (cases x)
    have same: "ws_in_order ops iless (on_open c t) = ws_in_order ops iless t" "ws_in_order ops iless (on_close c t) = ws_in_order ops iless t"
      "ws_in_order ops iless (on_error c t) = ws_in_order ops iless t" "ws_in_order ops iless (release c t) = ws_in_order ops iless t"
      for c and t :: "'b ws_server"
      by (simp_all add: ws_in_order_def on_open_def on_close_def on_error_def release_def split: option.split)
    show ?thesis
    proof (cases a)
      case (TextArrives c js)
      with x none have "requested ops iless js = None" by (simp add: over_ws_def)
      from ws_receive_other [OF assms(2) ok this, of emit now c] x TextArrives show ?thesis by (simp add: over_ws_def)
    next
      case ResendPass
      from resend_pass_total [OF ok, of "\<lambda>c. c \<in> live (transport s)" now] x ResendPass show ?thesis
        by (auto simp: over_ws_def)
    next
      case (ConnectionOpens c)
      with x ok same(1) show ?thesis by (intro exI [of _ "on_open c (transport s)"]) (simp add: over_ws_def)
    next
      case (ConnectionCloses c)
      with x ok same(2) show ?thesis by (intro exI [of _ "on_close c (transport s)"]) (simp add: over_ws_def)
    next
      case (ConnectionFails c)
      with x ok same(3) show ?thesis by (intro exI [of _ "on_error c (transport s)"]) (simp add: over_ws_def)
    next
      case (ConnectionReleased c)
      with x ok same(4) show ?thesis by (intro exI [of _ "release c (transport s)"]) (simp add: over_ws_def)
    qed
  qed
qed

interpretation plain_ws_served:
  served_transport "over_ws emit plain_ops iless" "ws_in_order plain_ops iless" emit iless for emit iless
  by (rule ws_is_served [OF plain_writer_law plain_parser_law])

section \<open>Properties\<close>



end
