(* ===== verification/Test_Client.thy ===== *)
theory Test_Client
  imports Core_Types
begin

text \<open>
  \<^verbatim>\<open>testClient/src\<close>: the generator of requests, and the two threads of \<^verbatim>\<open>main\<close>, one that registers users
  and one that connects, renames and rewards them at random. A draw of a random number, the time and
  the outcome of the option parser are arguments; \<open>fair_draw\<close> says what the distributions promise. The
  threads interleave between generating a message and sending it. The main thread sleeps in \<^verbatim>\<open>wait\<close> when
  there is no user yet, until it is notified; a wake-up without notification is an event of its own.
\<close>

section \<open>Users\<close>

record test_user =
  tu_information :: user_information
  tu_connected :: bool

definition new_test_user :: "user_identifier \<Rightarrow> string \<Rightarrow> test_user" where
  "new_test_user k name = \<lparr>tu_information = \<lparr>ui_id = k, ui_name = name\<rparr>, tu_connected = False\<rparr>"

definition changeName :: "string \<Rightarrow> test_user \<Rightarrow> test_user" where
  "changeName name u = u\<lparr>tu_information := (tu_information u)\<lparr>ui_name := name\<rparr>\<rparr>"

definition isConnected :: "test_user \<Rightarrow> bool" where
  "isConnected u = tu_connected u"

definition setConnected :: "bool \<Rightarrow> test_user \<Rightarrow> test_user" where
  "setConnected b u = u\<lparr>tu_connected := b\<rparr>"

definition getName :: "test_user \<Rightarrow> string" where
  "getName u = ui_name (tu_information u)"

section \<open>The generator\<close>

type_synonym request_generator = "test_user list"

definition getRegisteredUsersNumber :: "request_generator \<Rightarrow> u64" where
  "getRegisteredUsersNumber us = of_nat (length us)"

text \<open>The message, and whether the waiting thread is notified.\<close>

definition generateUserRegisteredMessage :: "request_generator \<Rightarrow> (base_message \<times> bool) \<times> request_generator" where
  "generateUserRegisteredMessage us =
     (let userId = getRegisteredUsersNumber us;
          name = ''user'' @ show_word userId;
          user = \<lparr>ui_id = userId, ui_name = name\<rparr>
      in ((\<lparr>msg_type = UserRegistered, msg_data = PUserInformation user\<rparr>, 3 < userId), us @ [new_test_user userId name]))"

record draw =
  pickMessage :: u8
  pickUser :: "u64 \<Rightarrow> u64"
  pickAmount :: f32
  timeStamp :: u64

definition user_at :: "request_generator \<Rightarrow> u64 \<Rightarrow> test_user result" where
  "user_at us i = (if unat i < length us then Inr (us ! unat i) else Inl UndefinedBehaviour)"

definition type_is :: "u8 \<Rightarrow> message_type \<Rightarrow> bool" where
  "type_is t m \<longleftrightarrow> t = of_nat (message_type_value m)"

definition generateUserCommonMessage :: "draw \<Rightarrow> request_generator \<Rightarrow> (base_message option \<times> request_generator) result" where
  "generateUserCommonMessage d us =
     (let t = pickMessage d; userId = pickUser d (getRegisteredUsersNumber us - 1)
      in if type_is t UserConnected \<or> type_is t UserDisconnected then
           bindr (user_at us userId) (\<lambda>u.
             Inr (Some \<lparr>msg_type = (if isConnected u then UserDisconnected else UserConnected),
                        msg_data = PUserIdInformation \<lparr>uid_id = userId\<rparr>\<rparr>,
                  us[unat userId := setConnected (\<not> isConnected u) u]))
         else if type_is t UserRenamed then
           bindr (user_at us userId) (\<lambda>u.
             let u = changeName (getName u @ ''_'') u
             in Inr (Some \<lparr>msg_type = UserRenamed, msg_data = PUserInformation \<lparr>ui_id = userId, ui_name = getName u\<rparr>\<rparr>,
                     us[unat userId := u]))
         else if type_is t UserDealWon then
           Inr (Some \<lparr>msg_type = UserDealWon, msg_data = PDealInformation
                  \<lparr>di_userId = userId, di_timestamp = timeStamp d, di_amount = pickAmount d\<rparr>\<rparr>, us)
         else Inr (None, us))"

text \<open>The distributions draw from their ranges: \<^verbatim>\<open>UserRenamed\<close> to \<^verbatim>\<open>UserDealWon\<close>, 0 to the bound, 0.0 to 100.0.\<close>

definition fair_draw :: "draw \<Rightarrow> bool" where
  "fair_draw d \<longleftrightarrow> 1 \<le> pickMessage d \<and> pickMessage d \<le> 4 \<and> (\<forall>b. pickUser d b \<le> b) \<and>
     f32_nonneg (pickAmount d) \<and> f32_finite (pickAmount d)"

section \<open>The threads\<close>

datatype register_phase = Registering | RegisterSending base_message | RegisterDone

datatype main_phase = AtWait | Asleep | Ready | MainSending base_message

record test_client =
  tc_users :: request_generator
  tc_nUsers :: u64
  tc_register :: register_phase
  tc_main :: main_phase
  tc_sent :: "base_message list"

definition new_test_client :: "u64 \<Rightarrow> test_client" where
  "new_test_client n = \<lparr>tc_users = [], tc_nUsers = n, tc_register = Registering, tc_main = AtWait, tc_sent = []\<rparr>"

datatype test_event = RegisterNext | RegisterSend | MainWait | MainWakes | MainGenerates draw | MainSends

text \<open>A thread in \<^verbatim>\<open>waitForUsersToRegister\<close>, with the lock: it goes on, or (back) to sleep.\<close>

definition waitForUsersToRegister :: "test_client \<Rightarrow> test_client" where
  "waitForUsersToRegister c = c\<lparr>tc_main := (if tc_users c \<noteq> [] then Ready else Asleep)\<rparr>"

text \<open>The registering thread at the head of its loop. A notification reaches only a thread that sleeps.\<close>

definition register_next :: "test_client \<Rightarrow> test_client" where
  "register_next c =
     (if getRegisteredUsersNumber (tc_users c) = tc_nUsers c then c\<lparr>tc_register := RegisterDone\<rparr>
      else
        let ((message, notified), us) = generateUserRegisteredMessage (tc_users c);
            c = c\<lparr>tc_users := us, tc_register := RegisterSending message\<rparr>
        in if notified \<and> tc_main c = Asleep then waitForUsersToRegister c else c)"

definition main_generates :: "draw \<Rightarrow> test_client \<Rightarrow> test_client result" where
  "main_generates d c =
     bindr (generateUserCommonMessage d (tc_users c)) (\<lambda>(message, us).
       Inr (c\<lparr>tc_users := us, tc_main := (case message of None \<Rightarrow> AtWait | Some m \<Rightarrow> MainSending m)\<rparr>))"

text \<open>\<open>None\<close>: the thread is not there.\<close>

fun test_step :: "test_event \<Rightarrow> test_client \<Rightarrow> test_client result option" where
  "test_step RegisterNext c = (if tc_register c = Registering then Some (Inr (register_next c)) else None)"
| "test_step RegisterSend c = (case tc_register c of
      RegisterSending m \<Rightarrow> Some (Inr (c\<lparr>tc_sent := tc_sent c @ [m], tc_register := Registering\<rparr>)) | _ \<Rightarrow> None)"
| "test_step MainWait c = (if tc_main c = AtWait then Some (Inr (waitForUsersToRegister c)) else None)"
| "test_step MainWakes c = (if tc_main c = Asleep then Some (Inr (waitForUsersToRegister c)) else None)"
| "test_step (MainGenerates d) c = (if tc_main c = Ready then Some (main_generates d c) else None)"
| "test_step MainSends c = (case tc_main c of
      MainSending m \<Rightarrow> Some (Inr (c\<lparr>tc_sent := tc_sent c @ [m], tc_main := AtWait\<rparr>)) | _ \<Rightarrow> None)"

fun test_run :: "test_event list \<Rightarrow> test_client \<Rightarrow> test_client result option" where
  "test_run [] c = Some (Inr c)"
| "test_run (e # es) c = (case test_step e c of
      None \<Rightarrow> None | Some (Inl x) \<Rightarrow> Some (Inl x) | Some (Inr c') \<Rightarrow> test_run es c')"

section \<open>The command line\<close>

record test_options =
  to_address :: string
  to_port :: int
  to_timeout :: int
  to_users :: u64
  to_transport :: string
  to_help :: bool

definition default_test_options :: test_options where
  "default_test_options = \<lparr>to_address = ''localhost'', to_port = 88888, to_timeout = 1, to_users = 100,
     to_transport = ''ws'', to_help = False\<rparr>"

datatype test_transport = TestWs string int | TestGrpc string int

text \<open>\<open>Inl\<close> is the exit code of a client that does not get to its loop. \<open>connects\<close> is the outcome of \<^verbatim>\<open>connect\<close>
  and \<^verbatim>\<open>waitForConnection\<close>. What the parser throws leaves \<^verbatim>\<open>main\<close>.\<close>

definition test_main ::
  "(string list \<Rightarrow> test_options \<Rightarrow> test_options result) \<Rightarrow> (test_transport \<Rightarrow> bool) \<Rightarrow> string list
    \<Rightarrow> (int + test_transport \<times> test_client) result" where
  "test_main parse connects argv =
     bindr (parse argv default_test_options) (\<lambda>opt.
       if to_help opt then Inr (Inl 0)
       else
         let chosen = (if to_transport opt = ''ws'' then Some (TestWs (to_address opt) (to_port opt))
                       else if to_transport opt = ''grpc'' then Some (TestGrpc (to_address opt) (to_port opt))
                       else None)
         in case chosen of
              None \<Rightarrow> Inr (Inl 1)
            | Some transport \<Rightarrow>
                if \<not> connects transport then Inr (Inl 1)
                else Inr (Inr (transport, new_test_client (to_users opt))))"

section \<open>The users of a run\<close>

definition fair :: "test_event list \<Rightarrow> bool" where
  "fair es \<longleftrightarrow> list_all (\<lambda>e. case e of MainGenerates d \<Rightarrow> fair_draw d | _ \<Rightarrow> True) es"

definition users_ok :: "request_generator \<Rightarrow> bool" where
  "users_ok us \<longleftrightarrow> (\<forall>i < length us. ui_id (tu_information (us ! i)) = of_nat i \<and>
     (\<exists>k. getName (us ! i) = ''user'' @ show_nat i @ replicate k (CHR ''_'')))"

definition client_inv :: "test_client \<Rightarrow> bool" where
  "client_inv c \<longleftrightarrow> users_ok (tc_users c) \<and> length (tc_users c) \<le> unat (tc_nUsers c) \<and> (tc_main c = Ready \<longrightarrow> tc_users c \<noteq> [])"

lemma users_number:
  assumes "length us \<le> unat (n :: u64)"
  shows "unat (getRegisteredUsersNumber us) = length us"
proof -
  have "unat n < 2 ^ LENGTH(64)" by (rule unsigned_less)
  with assms show ?thesis by (simp add: getRegisteredUsersNumber_def unat_of_nat)
qed

text \<open>The user picked exists.\<close>

lemma picked_user:
  assumes "client_inv c" and "tc_main c = Ready" and "fair_draw d"
  shows "unat (pickUser d (getRegisteredUsersNumber (tc_users c) - 1)) < length (tc_users c)"
proof -
  let ?n = "getRegisteredUsersNumber (tc_users c)"
  have n: "unat ?n = length (tc_users c)" "0 < unat ?n"
    using assms(1,2) users_number by (auto simp: client_inv_def)
  have "unat (?n - 1) = unat ?n - 1" using n(2) by (intro unat_minus_one) auto
  moreover have "unat (pickUser d (?n - 1)) \<le> unat (?n - 1)"
    using assms(3) by (simp add: fair_draw_def word_le_nat_alt)
  ultimately show ?thesis using n by linarith
qed

lemma users_ok_append:
  assumes "users_ok us" and "unat (getRegisteredUsersNumber us) = length us"
  shows "users_ok (us @ [new_test_user (getRegisteredUsersNumber us) (''user'' @ show_word (getRegisteredUsersNumber us))])"
proof -
  have "\<exists>k. show_nat (length us) = show_nat (length us) @ replicate k (CHR ''_'')" by (intro exI [of _ 0]) simp
  with assms show ?thesis
    by (auto simp: users_ok_def nth_append new_test_user_def getName_def show_word_def less_Suc_eq
        getRegisteredUsersNumber_def)
qed

lemma users_ok_update:
  assumes "users_ok us" and "i < length us" and "ui_id (tu_information u) = ui_id (tu_information (us ! i))"
    and "getName u = getName (us ! i) \<or> getName u = getName (us ! i) @ ''_''"
  shows "users_ok (us[i := u])"
proof -
  obtain k where k: "getName (us ! i) = ''user'' @ show_nat i @ replicate k (CHR ''_'')"
    using assms(1,2) by (auto simp: users_ok_def)
  have "\<exists>k. getName u = ''user'' @ show_nat i @ replicate k (CHR ''_'')"
    using assms(4)
  proof
    assume "getName u = getName (us ! i) @ ''_''"
    with k show ?thesis by (intro exI [of _ "Suc k"]) (simp add: replicate_append_same)
  qed (use k in auto)
  with assms show ?thesis by (auto simp: users_ok_def nth_list_update)
qed

text \<open>What a draw makes of the users: the message names one of them.\<close>

definition names_user :: "user_identifier set \<Rightarrow> base_message \<Rightarrow> bool" where
  "names_user K m \<longleftrightarrow> well_typed m \<and> (case msg_data m of
       PUserInformation u \<Rightarrow> msg_type m = UserRenamed \<longrightarrow> ui_id u \<in> K
     | PUserIdInformation u \<Rightarrow> uid_id u \<in> K
     | PDealInformation u \<Rightarrow> di_userId u \<in> K \<and> f32_nonneg (di_amount u)
     | PUserRelativeRating _ \<Rightarrow> False)"

definition user_ids :: "request_generator \<Rightarrow> user_identifier set" where
  "user_ids us = ui_id ` tu_information ` set us"

lemma user_ids_nth: "users_ok us \<Longrightarrow> unat i < length us \<Longrightarrow> i \<in> user_ids us"
proof -
  assume "users_ok us" "unat i < length us"
  then have "ui_id (tu_information (us ! unat i)) = i" "us ! unat i \<in> set us" by (simp_all add: users_ok_def)
  then show ?thesis unfolding user_ids_def by (metis imageI)
qed

lemma user_ids_update:
  "i < length us \<Longrightarrow> ui_id (tu_information u) = ui_id (tu_information (us ! i)) \<Longrightarrow> user_ids (us[i := u]) = user_ids us"
proof -
  assume *: "i < length us" "ui_id (tu_information u) = ui_id (tu_information (us ! i))"
  have "map (\<lambda>u. ui_id (tu_information u)) (us[i := u]) = map (\<lambda>u. ui_id (tu_information u)) us"
    using * by (auto simp: map_update list_update_same_conv)
  from arg_cong [OF this, of set] show ?thesis by (simp only: user_ids_def image_image set_map)
qed

lemmas test_user_defs = changeName_def isConnected_def setConnected_def getName_def

lemma common_message:
  assumes "client_inv c" and "tc_main c = Ready" and "fair_draw d"
  shows "\<exists>m us. generateUserCommonMessage d (tc_users c) = Inr (Some m, us) \<and> users_ok us \<and>
    length us = length (tc_users c) \<and> user_ids us = user_ids (tc_users c) \<and> names_user (user_ids (tc_users c)) m \<and>
    msg_type m \<noteq> UserRegistered"
proof -
  let ?us = "tc_users c"
  let ?k = "pickUser d (getRegisteredUsersNumber ?us - 1)"
  have k: "unat ?k < length ?us" by (rule picked_user [OF assms])
  have ok: "users_ok ?us" using assms(1) by (simp add: client_inv_def)
  have id: "?k \<in> user_ids ?us" by (rule user_ids_nth [OF ok k])
  have at: "user_at ?us ?k = Inr (?us ! unat ?k)" using k by (simp add: user_at_def)
  have upd: "users_ok (?us[unat ?k := u]) \<and> user_ids (?us[unat ?k := u]) = user_ids ?us"
    if "ui_id (tu_information u) = ui_id (tu_information (?us ! unat ?k))"
      "getName u = getName (?us ! unat ?k) \<or> getName u = getName (?us ! unat ?k) @ ''_''" for u
    using users_ok_update [OF ok k that] user_ids_update [OF k that(1)] by simp
  note steps = generateUserCommonMessage_def type_is_def at names_user_def id
  have "pickMessage d = 1 \<or> pickMessage d = 2 \<or> pickMessage d = 3 \<or> pickMessage d = 4"
    using assms(3) by (auto simp: fair_draw_def word_le_nat_alt word_unat_eq_iff)
  moreover have ?thesis if "pickMessage d = 1"
    using upd [of "changeName (getName (?us ! unat ?k) @ ''_'') (?us ! unat ?k)"] that
    by (simp add: steps test_user_defs Let_def)
  moreover have ?thesis if "pickMessage d = 2 \<or> pickMessage d = 3"
    using upd [of "setConnected (\<not> isConnected (?us ! unat ?k)) (?us ! unat ?k)"] that
    by (auto simp: steps test_user_defs Let_def)
  moreover have ?thesis if "pickMessage d = 4"
    using that ok assms(3) by (simp add: steps fair_draw_def Let_def)
  ultimately show ?thesis by blast
qed

lemma waiting_inv: "client_inv c \<Longrightarrow> client_inv (waitForUsersToRegister c)"
  by (simp add: client_inv_def waitForUsersToRegister_def)

lemma register_inv:
  assumes "client_inv c"
  shows "client_inv (register_next c)"
proof (cases "getRegisteredUsersNumber (tc_users c) = tc_nUsers c")
  case True
  with assms show ?thesis by (simp add: register_next_def client_inv_def)
next
  case False
  have n: "unat (getRegisteredUsersNumber (tc_users c)) = length (tc_users c)"
    using assms users_number by (auto simp: client_inv_def)
  with False have "length (tc_users c) \<noteq> unat (tc_nUsers c)" by (metis word_unat_eq_iff)
  with assms users_ok_append [OF _ n] show ?thesis
    using False by (auto simp: register_next_def client_inv_def generateUserRegisteredMessage_def Let_def
        waitForUsersToRegister_def)
qed

lemma generates:
  assumes "client_inv c" and "tc_main c = Ready" and "fair_draw d"
  shows "\<exists>m us. main_generates d c = Inr (c\<lparr>tc_users := us, tc_main := MainSending m\<rparr>) \<and>
    client_inv (c\<lparr>tc_users := us, tc_main := MainSending m\<rparr>) \<and> user_ids us = user_ids (tc_users c) \<and>
    names_user (user_ids (tc_users c)) m \<and> msg_type m \<noteq> UserRegistered"
proof -
  from common_message [OF assms] obtain m us where m: "generateUserCommonMessage d (tc_users c) = Inr (Some m, us)" "users_ok us"
    "length us = length (tc_users c)" "user_ids us = user_ids (tc_users c)" "names_user (user_ids (tc_users c)) m" "msg_type m \<noteq> UserRegistered" by blast
  with assms(1) show ?thesis by (intro exI [of _ m] exI [of _ us]) (simp add: main_generates_def client_inv_def)
qed

lemma step_inv:
  assumes "client_inv c" and "fair [e]" and "test_step e c = Some r"
  shows "\<exists>c'. r = Inr c' \<and> client_inv c' \<and> tc_nUsers c' = tc_nUsers c"
proof (cases e)
  case RegisterNext
  with assms register_inv [OF assms(1)] show ?thesis
    by (auto simp: register_next_def waitForUsersToRegister_def Let_def split: if_splits prod.splits)
next
  case (MainGenerates d)
  with assms have "tc_main c = Ready" "fair_draw d" "r = main_generates d c" by (auto simp: fair_def split: if_splits)
  with generates [OF assms(1)] show ?thesis by fastforce
qed (use assms waiting_inv [OF assms(1)] in \<open>auto simp: client_inv_def waitForUsersToRegister_def
    split: if_splits register_phase.splits main_phase.splits\<close>)

lemma fair_Cons: "fair (e # es) \<longleftrightarrow> fair [e] \<and> fair es"
  by (simp add: fair_def)

lemma run_inv:
  "client_inv c \<Longrightarrow> fair es \<Longrightarrow> test_run es c = Some r \<Longrightarrow> \<exists>c'. r = Inr c' \<and> client_inv c' \<and> tc_nUsers c' = tc_nUsers c"
proof (induction es arbitrary: c)
  case (Cons e es)
  from Cons.prems(2) have fair: "fair [e]" "fair es" using fair_Cons by blast+
  from Cons.prems(3) obtain q where q: "test_step e c = Some q" by (cases "test_step e c") auto
  from step_inv [OF Cons.prems(1) fair(1) q] obtain c1 where c1: "q = Inr c1" "client_inv c1" "tc_nUsers c1 = tc_nUsers c" by blast
  with Cons.IH [OF c1(2) fair(2)] Cons.prems(3) q show ?case by auto
qed auto

lemma new_client_inv: "client_inv (new_test_client n)"
  by (simp add: client_inv_def new_test_client_def users_ok_def)

section \<open>Prompt runs\<close>

text \<open>No message is made up while the registration of a user is still to be sent.\<close>

fun prompt :: "test_event list \<Rightarrow> test_client \<Rightarrow> bool" where
  "prompt [] c = True"
| "prompt (e # es) c =
     ((case e of MainGenerates _ \<Rightarrow> (case tc_register c of RegisterSending _ \<Rightarrow> False | _ \<Rightarrow> True) | _ \<Rightarrow> True) \<and>
      (case test_step e c of Some (Inr c') \<Rightarrow> prompt es c' | _ \<Rightarrow> True))"

definition registers :: "base_message \<Rightarrow> user_identifier set" where
  "registers m = (case msg_data m of PUserInformation u \<Rightarrow> if msg_type m = UserRegistered then {ui_id u} else {} | _ \<Rightarrow> {})"

definition registered_by :: "base_message list \<Rightarrow> user_identifier set" where
  "registered_by ms = (\<Union>m \<in> set ms. registers m)"

text \<open>Every message names a user whose registration was sent before it.\<close>

fun announced :: "user_identifier set \<Rightarrow> base_message list \<Rightarrow> bool" where
  "announced K [] = True"
| "announced K (m # ms) = (names_user K m \<and> announced (K \<union> registers m) ms)"

lemma announced_append:
  "announced K (ms @ [m]) \<longleftrightarrow> announced K ms \<and> names_user (K \<union> registered_by ms) m"
  by (induction ms arbitrary: K) (simp_all add: registered_by_def Un_assoc)

lemma names_user_mono: "names_user K m \<Longrightarrow> K \<subseteq> L \<Longrightarrow> names_user L m"
  by (auto simp: names_user_def split: payload.splits)

definition prompt_inv :: "test_client \<Rightarrow> bool" where
  "prompt_inv c \<longleftrightarrow> client_inv c \<and> announced {} (tc_sent c) \<and>
     user_ids (tc_users c) = registered_by (tc_sent c) \<union>
       (case tc_register c of RegisterSending m \<Rightarrow> registers m | _ \<Rightarrow> {}) \<and>
     (case tc_register c of RegisterSending m \<Rightarrow> names_user {} m | _ \<Rightarrow> True) \<and>
     (case tc_main c of MainSending m \<Rightarrow> names_user (registered_by (tc_sent c)) m \<and> registers m = {} | _ \<Rightarrow> True)"
lemma registered_by_append [simp]: "registered_by (ms @ [m]) = registered_by ms \<union> registers m"
  by (auto simp: registered_by_def)

lemma register_prompt:
  assumes "prompt_inv c" and "tc_register c = Registering"
  shows "prompt_inv (register_next c)"
proof -
  have "client_inv (register_next c)" using assms(1) register_inv by (simp add: prompt_inv_def)
  with assms show ?thesis
    by (auto simp: prompt_inv_def register_next_def generateUserRegisteredMessage_def waitForUsersToRegister_def Let_def
        names_user_def registers_def user_ids_def new_test_user_def split: main_phase.splits)
qed

lemma prompt_step:
  assumes "prompt_inv c" and "fair [e]" and "prompt [e] c" and "test_step e c = Some r"
  shows "\<exists>c'. r = Inr c' \<and> prompt_inv c'"
proof -
  have inv: "client_inv c" using assms(1) by (simp add: prompt_inv_def)
  from step_inv [OF inv assms(2,4)] obtain c' where c': "r = Inr c'" "client_inv c'" by blast
  have "prompt_inv c'"
  proof (cases e)
    case RegisterNext
    with assms(4) c' register_prompt [OF assms(1)] show ?thesis by (auto split: if_splits)
  next
    case RegisterSend
    then obtain m where m: "tc_register c = RegisterSending m" using assms(4) by (auto split: register_phase.splits)
    with RegisterSend assms(4) c'(1) have "c' = c\<lparr>tc_sent := tc_sent c @ [m], tc_register := Registering\<rparr>" by simp
    with m assms(1) c'(2) show ?thesis
      by (auto simp: prompt_inv_def announced_append intro: names_user_mono split: main_phase.splits)
  next
    case (MainGenerates d)
    with assms have ready: "tc_main c = Ready" "fair_draw d" "r = main_generates d c"
      by (auto simp: fair_def split: if_splits)
    from generates [OF inv ready(1,2)] obtain m us where
      g: "main_generates d c = Inr (c\<lparr>tc_users := us, tc_main := MainSending m\<rparr>)" "user_ids us = user_ids (tc_users c)"
        "names_user (user_ids (tc_users c)) m" "msg_type m \<noteq> UserRegistered" by blast
    from assms(1,3) MainGenerates have ids: "user_ids (tc_users c) = registered_by (tc_sent c)"
      by (auto simp: prompt_inv_def split: register_phase.splits)
    from g(4) have "registers m = {}" by (simp add: registers_def split: payload.split)
    with ids g ready(3) c' assms(1) show ?thesis by (simp add: prompt_inv_def split: register_phase.splits)
  next
    case MainSends
    then obtain m where m: "tc_main c = MainSending m" using assms(4) by (auto split: main_phase.splits)
    with MainSends assms(4) c'(1) have "c' = c\<lparr>tc_sent := tc_sent c @ [m], tc_main := AtWait\<rparr>" by simp
    with m assms(1) c'(2) show ?thesis
      by (auto simp: prompt_inv_def announced_append intro: names_user_mono split: register_phase.splits)
  qed (use assms(1,4) c' in \<open>auto simp: prompt_inv_def waitForUsersToRegister_def split: if_splits\<close>)
  with c'(1) show ?thesis by blast
qed

lemma prompt_run:
  "prompt_inv c \<Longrightarrow> fair es \<Longrightarrow> prompt es c \<Longrightarrow> test_run es c = Some r \<Longrightarrow> \<exists>c'. r = Inr c' \<and> prompt_inv c'"
proof (induction es arbitrary: c)
  case (Cons e es)
  from Cons.prems(2) have fair: "fair [e]" "fair es" using fair_Cons by blast+
  from Cons.prems(4) obtain q where q: "test_step e c = Some q" by (cases "test_step e c") auto
  have first: "prompt [e] c" using Cons.prems(3) by (simp split: option.splits sum.splits)
  from prompt_step [OF Cons.prems(1) fair(1) first q] obtain c1 where c1: "q = Inr c1" "prompt_inv c1" by blast
  with Cons.IH [OF c1(2) fair(2)] Cons.prems(3,4) q show ?case by simp
qed auto

lemma new_client_prompt: "prompt_inv (new_test_client n)"
  using new_client_inv [of n]
  by (simp add: prompt_inv_def) (simp add: new_test_client_def user_ids_def registered_by_def)

section \<open>Properties\<close>

text \<open>The test client never indexes its users out of range, never registers more users than asked for, and
  numbers them by position: whatever it draws and however its two threads interleave, user \<open>i\<close> has
  the identifier \<open>i\<close> and the name \<^verbatim>\<open>user<i>\<close> followed by an underscore for each renaming.\<close>

theorem test_client_keeps_bounds:
  assumes "fair es" and "test_run es (new_test_client n) = Some r"
  shows "\<exists>c. r = Inr c \<and> length (tc_users c) \<le> unat n \<and>
    (\<forall>i < length (tc_users c). ui_id (tu_information (tc_users c ! i)) = of_nat i \<and>
      (\<exists>k. getName (tc_users c ! i) = ''user'' @ show_nat i @ replicate k (CHR ''_'')))"
  using run_inv [OF new_client_inv assms] by (fastforce simp: client_inv_def users_ok_def new_test_client_def)

definition sample_draw :: "u8 \<Rightarrow> draw" where
  "sample_draw t = \<lparr>pickMessage = t, pickUser = (\<lambda>b. b), pickAmount = 0x3F800000, timeStamp = 1515931000\<rparr>"

lemma sample_draw_fair: "1 \<le> t \<Longrightarrow> t \<le> 4 \<Longrightarrow> fair_draw (sample_draw t)"
  by (simp add: fair_draw_def sample_draw_def f32_defs)

theorem test_client_keeps_bounds_witness:
  "\<exists>c. test_run [RegisterNext, MainWait, RegisterSend, RegisterNext, MainGenerates (sample_draw 1), MainSends]
      (new_test_client 2) = Some (Inr c) \<and> length (tc_users c) \<le> 2 \<and> map getName (tc_users c) = [''user0'', ''user1_'']"
proof -
  let ?es = "[RegisterNext, MainWait, RegisterSend, RegisterNext, MainGenerates (sample_draw 1), MainSends]"
  have fair: "fair ?es" using sample_draw_fair [of 1] by (simp add: fair_def)
  have digits: "show_nat 0 = ''0''" "show_nat (Suc 0) = ''1''" by code_simp+
  obtain c where c: "test_run ?es (new_test_client 2) = Some (Inr c)" "map getName (tc_users c) = [''user0'', ''user1_'']"
    by (simp add: new_test_client_def register_next_def getRegisteredUsersNumber_def generateUserRegisteredMessage_def
        waitForUsersToRegister_def main_generates_def generateUserCommonMessage_def sample_draw_def type_is_def user_at_def
        test_user_defs new_test_user_def show_word_def digits Let_def)
  from test_client_keeps_bounds [OF fair c(1)] c show ?thesis by auto
qed

text \<open>A small test never starts: only the fifth registration and later ones notify the main thread, so with
  four users or fewer a main thread that came first sleeps on, and nothing but the registrations is
  ever sent, unless the main thread wakes up without being notified.\<close>

theorem small_test_sleeps:
  assumes "n \<le> 4" and "MainWakes \<notin> set es" and "test_run (MainWait # es) (new_test_client n) = Some (Inr c)"
  shows "tc_main c = Asleep \<and> (\<forall>m \<in> set (tc_sent c). msg_type m = UserRegistered)"
proof -
  let ?inv = "\<lambda>c. tc_main c = Asleep \<and> tc_nUsers c = n \<and> length (tc_users c) \<le> unat n \<and>
    (\<forall>m \<in> set (tc_sent c). msg_type m = UserRegistered) \<and>
    (\<forall>m. tc_register c = RegisterSending m \<longrightarrow> msg_type m = UserRegistered)"
  have n: "unat n \<le> 4" using assms(1) by (simp add: word_le_nat_alt)
  have reg: "?inv (register_next c)" if "?inv c" for c
  proof (cases "getRegisteredUsersNumber (tc_users c) = n")
    case True
    with that show ?thesis by (simp add: register_next_def)
  next
    case False
    have len: "unat (getRegisteredUsersNumber (tc_users c)) = length (tc_users c)" using that users_number by blast
    with False have less: "length (tc_users c) < unat n" using that by (metis le_neq_implies_less word_unat_eq_iff)
    with n len have "\<not> 3 < getRegisteredUsersNumber (tc_users c)" by (simp add: word_less_nat_alt)
    with that less False show ?thesis by (simp add: register_next_def generateUserRegisteredMessage_def Let_def)
  qed
  have "?inv c" if "MainWakes \<notin> set es" "?inv c0" "test_run es c0 = Some (Inr c)" for es c0
    using that
  proof (induction es arbitrary: c0)
    case (Cons e es)
    from Cons.prems(3) obtain c1 where c1: "test_step e c0 = Some (Inr c1)" "test_run es c1 = Some (Inr c)"
      by (cases "test_step e c0") (auto split: sum.splits)
    have "?inv c1"
    proof (cases e)
      case RegisterNext
      with c1(1) reg [OF Cons.prems(2)] show ?thesis by (auto split: if_splits)
    qed (use Cons.prems c1(1) in \<open>auto split: if_splits register_phase.splits main_phase.splits\<close>)
    then show ?case by (rule Cons.IH [rotated, OF _ c1(2)]) (use Cons.prems(1) in simp)
  qed simp
  from this [OF assms(2), of "(new_test_client n)\<lparr>tc_main := Asleep\<rparr>"] assms(3)
  show ?thesis by (simp add: new_test_client_def waitForUsersToRegister_def)
qed

theorem small_test_sleeps_witness:
  "\<exists>c. test_run [MainWait, RegisterNext, RegisterSend, RegisterNext, RegisterSend, RegisterNext] (new_test_client 2) = Some (Inr c) \<and>
    tc_register c = RegisterDone \<and> tc_main c = Asleep \<and> length (tc_sent c) = 2"
proof -
  obtain c where c: "test_run [MainWait, RegisterNext, RegisterSend, RegisterNext, RegisterSend, RegisterNext]
      (new_test_client 2) = Some (Inr c)" "tc_register c = RegisterDone" "length (tc_sent c) = 2"
    by (simp add: new_test_client_def register_next_def getRegisteredUsersNumber_def generateUserRegisteredMessage_def
        waitForUsersToRegister_def Let_def)
  with small_test_sleeps [OF _ _ c(1)] show ?thesis by auto
qed

end
