(* ===== verification/Test_Service.thy ===== *)
theory Test_Service
  imports Transport_Survival Test_Client
begin

text \<open>
  The test client against the service: the messages its two threads send are the requests that the service's transport
  hands over, in that order, with anything else that arrives, passes of the resend thread, cycles of the update thread and
  changes of the period in between.
\<close>

section \<open>What the service receives\<close>

fun requests_in :: "('x, 't) transport_part \<Rightarrow> 'x served_event \<Rightarrow> base_message list" where
  "requests_in T (Arrives x) = (case tp_request T x of None \<Rightarrow> [] | Some (now, m) \<Rightarrow> [m])"
| "requests_in T _ = []"

definition received_messages :: "('x, 't) transport_part \<Rightarrow> 'x served_event list \<Rightarrow> base_message list" where
  "received_messages T ev = concat (map (requests_in T) ev)"

text \<open>Every update cycle runs inside the period, for users that are connected.\<close>

fun calm :: "('x, 't) transport_part \<Rightarrow> 'x served_event list \<Rightarrow> 't service \<Rightarrow> bool" where
  "calm T [] s = True"
| "calm T (e # ev) s =
     ((case e of Cycle us \<Rightarrow> well_served T s e | _ \<Rightarrow> True) \<and> calm T ev (fst (served_step T e s)))"

section \<open>The service knows the users the client names\<close>

lemma fold_requests_grow: "users u k \<noteq> None \<Longrightarrow> users (fold serve_request rs u) k \<noteq> None"
proof (induction rs arbitrary: u)
  case (Cons r rs)
  then show ?case using serve_request_grows [OF Cons.prems, of r] by (simp del: serve_request.simps)
qed simp

lemma registration_known: "users (serve_request (AddUser u) st) (ui_id u) \<noteq> None"
  by (simp add: attempt_def addUser_def)

lemma named_event:
  assumes "names_user K m" and "\<forall>k \<in> K. knows s k"
  shows "disciplined_event s (Received now (Some m))"
  using assms by (auto simp: names_user_def split: payload.splits)

lemma requests_in_single: "m \<in> set (requests_in T e) \<Longrightarrow> requests_in T e = [m]"
proof (cases "(T, e)" rule: requests_in.cases)
  case (1 T' x)
  then show "m \<in> set (requests_in T e) \<Longrightarrow> requests_in T e = [m]" by (cases "tp_request T x") auto
qed simp_all

context served_transport begin

lemma served_store:
  assumes "ok (transport s)" and "served_step T e s = (s1, None)"
  shows "userDataStore s1 = fold serve_request (concat (map message_requests (requests_in T e))) (userDataStore s)"
proof (cases e)
  case (Arrives x)
  show ?thesis
  proof (cases "tp_request T x")
    case None
    with keeps_to_itself [OF assms(1) None] assms(2) Arrives show ?thesis by auto
  next
    case (Some r)
    obtain now m where r: "r = (now, m)" by (cases r)
    from hands_over [OF assms(1)] Some r obtain t where
      "tp_receive T x s = dispatchMessage emit iless (tp_push T now) now (Some m) (s\<lparr>transport := t\<rparr>)" by blast
    with dispatch_store [of emit iless "tp_push T now" now m "s\<lparr>transport := t\<rparr>"] assms(2) Arrives Some r
    show ?thesis by simp
  qed
next
  case (Cycle us)
  with assms(2) broadcast_store [of "tp_push T" us s] show ?thesis by simp
qed (use assms(2) in auto)

lemma served_knows:
  assumes "ok (transport s)" and "served_step T e s = (s1, None)"
    and "knows s k \<or> (\<exists>m \<in> set (requests_in T e). k \<in> registers m)"
  shows "knows s1 k"
proof -
  note store = served_store [OF assms(1,2)]
  show ?thesis
  proof (cases "knows s k")
    case True
    then show ?thesis unfolding knows_def store by (rule fold_requests_grow)
  next
    case False
    with assms(3) obtain m where m: "requests_in T e = [m]" "k \<in> registers m"
      using requests_in_single [of _ T e] by blast
    then obtain u where "msg_type m = UserRegistered" "msg_data m = PUserInformation u" "k = ui_id u"
      by (auto simp: registers_def split: payload.splits if_splits)
    then show ?thesis unfolding knows_def store using registration_known [of u] by (simp add: m(1) del: serve_request.simps)
  qed
qed

lemma announced_run:
  assumes "safe emit s" and "ok (transport s)" and "\<forall>k \<in> K. knows s k"
    and "announced K (received_messages T ev)" and "calm T ev s"
  shows "\<exists>s'. served_run T ev s = (s', None) \<and> safe emit s'"
  using assms
proof (induction ev arbitrary: s K)
  case (Cons e ev)
  have rest: "received_messages T (e # ev) = requests_in T e @ received_messages T ev" by (simp add: received_messages_def)
  have "well_served T s e"
  proof (cases e)
    case (Arrives x)
    then show ?thesis using Cons.prems(4) named_event [OF _ Cons.prems(3)] unfolding rest by (auto split: option.split)
  qed (use Cons.prems(5) in auto)
  from safe_served_step [OF Cons.prems(1,2) this] obtain s1
    where s1: "served_step T e s = (s1, None)" "safe emit s1" "ok (transport s1)" by blast
  let ?K = "K \<union> (\<Union>m \<in> set (requests_in T e). registers m)"
  have "\<forall>k \<in> ?K. knows s1 k" using served_knows [OF Cons.prems(2) s1(1)] Cons.prems(3) by auto
  moreover have "announced ?K (received_messages T ev)"
    using Cons.prems(4) unfolding rest by (cases "(T, e)" rule: requests_in.cases) (auto split: option.splits)
  moreover have "calm T ev s1" using Cons.prems(5) s1(1) by simp
  ultimately show ?case using Cons.IH [OF s1(2,3)] s1(1) by simp
qed simp

lemma new_service_spared:
  assumes "emits_single emit" and "ok t" and "announced {} (received_messages T ev)" and "calm T ev (new_service p now t)"
  shows "\<exists>s'. served_run T ev (new_service p now t) = (s', None) \<and> service_ok s' \<and>
    all_registered (userDataStore s') (userRatingProvider s')"
proof -
  have "ok (transport (new_service p now t))" using assms(2) by (simp add: new_service_def)
  from announced_run [OF new_service_safe [OF assms(1)] this _ assms(3,4)] show ?thesis by (auto simp: safe_def)
qed

end

section \<open>Properties\<close>



definition overtaking :: "test_event list" where
  "overtaking = [RegisterNext, RegisterSend, RegisterNext, MainWait, MainGenerates (sample_draw 2), MainSends, RegisterSend]"

text \<open>When a registration is overtaken, the service dies of it: the main thread picks a user whose
  registration the other thread has made up but not sent yet, and connects the user; an update cycle
  that comes before the registration then ends the service. No draw is needed but ordinary ones.\<close>

theorem overtaken_registration_ends_service:
  "fair overtaking \<and>
   (\<exists>c a b d. test_run overtaking (new_test_client 10) = Some (Inr c) \<and> tc_sent c = [a, b, d] \<and>
     msg_type b = UserConnected \<and> msg_data b = PUserIdInformation \<lparr>uid_id = 1\<rparr> \<and>
     msg_type d = UserRegistered \<and> msg_data d = PUserInformation \<lparr>ui_id = 1, ui_name = ''user1''\<rparr> \<and>
     (\<forall>now. snd (service_run emit iless send
       [Received now (Some a), Received now (Some b), UpdateCycle [(now, 1)], Received now (Some d)] (new_service p now t)) \<noteq> None))"
proof -
  have digits: "show_nat (Suc 0) = ''1''" by code_simp
  let ?a = "\<lparr>msg_type = UserRegistered, msg_data = PUserInformation \<lparr>ui_id = 0, ui_name = ''user'' @ show_nat 0\<rparr>\<rparr>"
  let ?b = "\<lparr>msg_type = UserConnected, msg_data = PUserIdInformation \<lparr>uid_id = 1\<rparr>\<rparr>"
  let ?d = "\<lparr>msg_type = UserRegistered, msg_data = PUserInformation \<lparr>ui_id = 1, ui_name = ''user1''\<rparr>\<rparr>"
  have fair: "fair overtaking" using sample_draw_fair [of 2] by (simp add: fair_def overtaking_def)
  have run: "\<exists>c. test_run overtaking (new_test_client 10) = Some (Inr c) \<and> tc_sent c = [?a, ?b, ?d]"
    by (simp add: overtaking_def new_test_client_def register_next_def getRegisteredUsersNumber_def
        generateUserRegisteredMessage_def waitForUsersToRegister_def main_generates_def generateUserCommonMessage_def
        sample_draw_def type_is_def user_at_def test_user_defs new_test_user_def show_word_def digits Let_def)
  have ends: "snd (service_run emit iless send
      [Received now (Some ?a), Received now (Some ?b), UpdateCycle [(now, 1)], Received now (Some ?d)] (new_service p now t)) \<noteq> None"
    for now
  proof -
    define s where "s = fst (dispatchMessage emit iless (send now) now (Some ?a) (new_service p now t))"
    have s: "users (userDataStore s) 1 = None"
      by (simp add: s_def dispatch_registered new_service_def empty_user_data_store_def attempt_def addUser_def)
    define r where "r = dispatchMessage emit iless (send now) now (Some ?b) s"
    have "users (userDataStore (fst r)) 1 = None"
      using s by (simp add: r_def dispatch_connected userConnected_def)
    then have "snd (broadcast send [(now, 1)] (fst r)) \<noteq> None"
      by (intro broadcast_unregistered) simp_all
    then have "snd (and_then (broadcast send [(now, 1)] (fst r)) f) \<noteq> None" for f
      by (cases "broadcast send [(now, 1)] (fst r)"; cases "snd (broadcast send [(now, 1)] (fst r))") auto
    moreover have "dispatchMessage emit iless (send now) now (Some ?a) (new_service p now t) = (s, None)"
      by (simp add: s_def dispatch_registered)
    ultimately show ?thesis
      by (cases r; cases "snd r") (auto simp: r_def)
  qed
  from run obtain c where "test_run overtaking (new_test_client 10) = Some (Inr c)" "tc_sent c = [?a, ?b, ?d]" by blast
  with fair ends show ?thesis by (intro conjI exI [of _ c] exI [of _ ?a] exI [of _ ?b] exI [of _ ?d]) simp_all
qed

end
