(* ===== verification/Ws_Timer.thy ===== *)
theory Ws_Timer
  imports Ws_Frame
begin

text \<open>
  The timers of \<^verbatim>\<open>webapi/websockets/server_ws.hpp\<close> and \<^verbatim>\<open>client_ws.hpp\<close>, and the life of a connection of the
  server from \<^verbatim>\<open>accept\<close> on. A connection has one \<^verbatim>\<open>steady_timer\<close> at most: setting a timer destroys the
  one before, whose handler then sees an error and does nothing. But a handler that is queued already,
  because its time has come, is not called back: it is in \<open>due\<close>. Timers are punctual: time does not
  pass over a deadline, or over a handler that is due; other handlers may be as late as they like. Times
  are seconds. What the reader does is that of \<open>Ws_Frame\<close>, now with its calls of the timer.
\<close>

section \<open>Timers\<close>

text \<open>\<open>timer\<close>: the deadline waited for, and \<^verbatim>\<open>use_timeout_idle\<close>.\<close>

record conn_timer =
  timeout_idle :: int
  clock :: int
  timer :: "(int \<times> bool) option"
  due :: "bool list"
  socket_open :: bool

definition close_socket :: "'z conn_timer_scheme \<Rightarrow> 'z conn_timer_scheme" where
  "close_socket c = c\<lparr>socket_open := False\<rparr>"

definition set_timeout :: "int \<Rightarrow> 'z conn_timer_scheme \<Rightarrow> 'z conn_timer_scheme" where
  "set_timeout seconds c =
     (let use_timeout_idle = (seconds = - 1);
          seconds = (if use_timeout_idle then timeout_idle c else seconds)
      in if seconds = 0 then c\<lparr>timer := None\<rparr> else c\<lparr>timer := Some (clock c + seconds, use_timeout_idle)\<rparr>)"

definition cancel_timeout :: "'z conn_timer_scheme \<Rightarrow> 'z conn_timer_scheme" where
  "cancel_timeout c = c\<lparr>timer := None\<rparr>"

text \<open>The idle timer starts anew.\<close>

definition restart_timeout :: "'z conn_timer_scheme \<Rightarrow> 'z conn_timer_scheme" where
  "restart_timeout c = set_timeout (- 1) (cancel_timeout c)"

definition timer_expires :: "'z conn_timer_scheme \<Rightarrow> 'z conn_timer_scheme option" where
  "timer_expires c =
     (case timer c of
        None \<Rightarrow> None
      | Some (deadline, idle) \<Rightarrow> if deadline \<le> clock c then Some (c\<lparr>timer := None, due := due c @ [idle]\<rparr>) else None)"

definition time_passes :: "nat \<Rightarrow> 'z conn_timer_scheme \<Rightarrow> 'z conn_timer_scheme option" where
  "time_passes n c =
     (if due c = [] \<and> (case timer c of None \<Rightarrow> True | Some (deadline, idle) \<Rightarrow> clock c + int n \<le> deadline)
      then Some (c\<lparr>clock := clock c + int n\<rparr>) else None)"

fun run_events :: "('e \<Rightarrow> 's \<Rightarrow> 's option) \<Rightarrow> 'e list \<Rightarrow> 's \<Rightarrow> 's option" where
  "run_events step [] s = Some s"
| "run_events step (e # es) s = (case step e s of None \<Rightarrow> None | Some s' \<Rightarrow> run_events step es s')"

lemma run_events_append:
  "run_events step (es @ fs) s = (case run_events step es s of None \<Rightarrow> None | Some s' \<Rightarrow> run_events step fs s')"
  by (induction es arbitrary: s) (auto split: option.splits)

lemma run_events_induct [consumes 2, case_names step]:
  assumes "run_events step es s = Some s'" and "P s" and "\<And>e c c'. step e c = Some c' \<Longrightarrow> P c \<Longrightarrow> P c'"
  shows "P s'"
  using assms(1,2) by (induction es arbitrary: s) (auto split: option.splits dest: assms(3))

section \<open>Chains of requests\<close>

text \<open>
  An end that waits for one answer after the other, each under a timer of its own: \<open>waits\<close> is the number
  of the answer waited for, \<open>over\<close> says that it waits no more. A step of such an end leaves the timer
  alone, goes on to the next answer with a new timer, is a step of the timer or of time, or ends the chain,
  by its success, by an error or by closing the socket.
\<close>

definition chain_move :: "int \<Rightarrow> nat \<Rightarrow> nat \<Rightarrow> nat option \<Rightarrow> conn_timer \<Rightarrow> conn_timer \<Rightarrow> bool" where
  "chain_move timeout stages k w v v' \<longleftrightarrow>
     w = Some k \<and> (\<not> socket_open v' \<or> v' = v \<or> timer_expires v = Some v' \<or> (\<exists>n. time_passes n v = Some v')) \<or>
     w = Some (Suc k) \<and> Suc k < stages \<and> v' = v\<lparr>timer := Some (clock v + timeout, False)\<rparr>"

text \<open>The \<open>k\<close>-th answer is waited for, and not too late.\<close>

definition in_phase :: "int \<Rightarrow> int \<Rightarrow> nat \<Rightarrow> conn_timer \<Rightarrow> bool" where
  "in_phase timeout start k v \<longleftrightarrow>
     True \<notin> set (due v) \<and> clock v \<le> start + (int k + 1) * timeout \<and>
     (case timer v of
        None \<Rightarrow> due v \<noteq> []
      | Some (d, idle) \<Rightarrow> \<not> idle \<and> clock v \<le> d \<and> d \<le> start + (int k + 1) * timeout)"

lemma chain_move_in_phase:
  assumes "chain_move timeout stages k w v v'" and "in_phase timeout start k v" and "0 < timeout" and "k < stages"
  shows "w \<noteq> None \<and> \<not> socket_open v' \<or> (\<exists>k'. w = Some k' \<and> k' < stages \<and> in_phase timeout start k' v')"
  using assms
  by (auto simp: chain_move_def in_phase_def timer_expires_def time_passes_def algebra_simps
      split: option.splits prod.splits if_splits)

locale request_chain =
  fixes step :: "'e \<Rightarrow> 's \<Rightarrow> 's option" and waits :: "'s \<Rightarrow> nat option" and over :: "'s \<Rightarrow> bool"
    and view :: "'s \<Rightarrow> conn_timer" and timeout :: int and stages :: nat
  assumes over_stays: "step e c = Some c' \<Longrightarrow> over c \<Longrightarrow> over c'"
    and waits_moves: "step e c = Some c' \<Longrightarrow> waits c = Some k \<Longrightarrow> 0 < timeout \<Longrightarrow> True \<notin> set (due (view c)) \<Longrightarrow>
      over c' \<or> chain_move timeout stages k (waits c') (view c) (view c')"
    and closed_stays: "step e c = Some c' \<Longrightarrow> waits c = Some k \<Longrightarrow> \<not> socket_open (view c) \<Longrightarrow>
      over c' \<or> waits c' \<noteq> None \<and> \<not> socket_open (view c')"
begin

definition in_time :: "int \<Rightarrow> 's \<Rightarrow> bool" where
  "in_time start c \<longleftrightarrow>
     over c \<or>
     waits c \<noteq> None \<and> \<not> socket_open (view c) \<or>
     (\<exists>k. waits c = Some k \<and> k < stages \<and> in_phase timeout start k (view c))"

lemma in_time_step:
  assumes "step e c = Some c'" and "0 < timeout" and "in_time start c"
  shows "in_time start c'"
proof (cases "over c \<or> waits c \<noteq> None \<and> \<not> socket_open (view c)")
  case True
  then show ?thesis using over_stays [OF assms(1)] closed_stays [OF assms(1)] by (auto simp: in_time_def)
next
  case False
  with assms(3) obtain k where k: "waits c = Some k" "k < stages" "in_phase timeout start k (view c)"
    by (auto simp: in_time_def)
  then have "True \<notin> set (due (view c))" by (simp add: in_phase_def)
  from waits_moves [OF assms(1) k(1) assms(2) this] chain_move_in_phase [OF _ k(3) assms(2) k(2)] show ?thesis
    by (auto simp: in_time_def)
qed

text \<open>After as many timeouts as there are answers the end has finished, or given up.\<close>

lemma chain_ends:
  assumes "run_events step es c = Some c'" and "0 < timeout" and "in_time start c"
    and "start + int stages * timeout < clock (view c')"
  shows "over c' \<or> \<not> socket_open (view c')"
proof -
  have "in_time start c'"
    using assms(1,3) by (rule run_events_induct) (rule in_time_step [OF _ assms(2)])
  moreover have "(int k + 1) * timeout \<le> int stages * timeout" if "k < stages" for k
    using that assms(2) by (intro mult_right_mono) auto
  ultimately show ?thesis using assms(4) by (fastforce simp: in_time_def in_phase_def)
qed

end

section \<open>Ends that are left in peace\<close>

text \<open>No timer of a request is left, so that nothing closes the socket: a timer that runs out is the idle timer.\<close>

definition idle_only :: "'z conn_timer_scheme \<Rightarrow> bool" where
  "idle_only c \<longleftrightarrow> socket_open c \<and> False \<notin> set (due c) \<and> (timer c = None \<or> (\<exists>d. timer c = Some (d, True)))"

lemma timer_waited_for:
  assumes "timer_expires v = Some v' \<or> (\<exists>n. time_passes n v = Some v')"
    and "clock v \<le> d" and "timer v = Some (d, True) \<or> due v \<noteq> []"
  shows "clock v' \<le> d \<and> (timer v' = Some (d, True) \<or> due v' \<noteq> [])"
  using assms by (auto simp: timer_expires_def time_passes_def split: option.splits if_splits prod.splits)

text \<open>
  An end with its idle timer. Where its peer and its owner are silent, a step is one of the timer or of time, or the
  handler of the idle timer, which closes the connection, as far as that has not been done.
\<close>

locale idle_end =
  fixes step :: "'e \<Rightarrow> 's \<Rightarrow> 's option" and silent :: "'e \<Rightarrow> bool" and kept :: "'s \<Rightarrow> bool" and view :: "'s \<Rightarrow> conn_timer"
    and core :: "'s \<Rightarrow> 'r" and close_once :: "'r \<Rightarrow> 'r"
  assumes close_idem: "close_once (close_once r) = close_once r"
    and silent_step: "step e c = Some c' \<Longrightarrow> silent e \<Longrightarrow> kept c \<Longrightarrow> idle_only (view c) \<Longrightarrow>
      kept c' \<and> idle_only (view c') \<and>
      (core c' = core c \<and> (timer_expires (view c) = Some (view c') \<or> (\<exists>n. time_passes n (view c) = Some (view c'))) \<or>
       due (view c) \<noteq> [] \<and> core c' = close_once (core c))"
begin

text \<open>Silence since the moment when the connection was \<open>r\<close> and the idle timer was set to \<open>d\<close>, if any.\<close>

definition silence :: "'r \<Rightarrow> int option \<Rightarrow> 's \<Rightarrow> bool" where
  "silence r d c \<longleftrightarrow> kept c \<and> idle_only (view c) \<and>
     (core c = close_once r \<or>
      core c = r \<and> (case d of None \<Rightarrow> True | Some d \<Rightarrow> clock (view c) \<le> d \<and> (timer (view c) = Some (d, True) \<or> due (view c) \<noteq> [])))"

lemma silence_step:
  assumes "step e c = Some c'" and "silent e" and "silence r d c"
  shows "silence r d c'"
proof -
  from assms(3) have "kept c" "idle_only (view c)" by (simp_all add: silence_def)
  from silent_step [OF assms(1,2) this] assms(3) show ?thesis
    using timer_waited_for [of "view c" "view c'"] by (auto simp: silence_def close_idem split: option.splits)
qed

lemma silent_end_kept:
  assumes "run_events step es c = Some c'" and "list_all silent es" and "kept c" and "idle_only (view c)"
  shows "kept c' \<and> idle_only (view c') \<and> (core c' = core c \<or> core c' = close_once (core c)) \<and>
    (\<forall>d. timer (view c) = Some (d, True) \<and> d < clock (view c') \<and> clock (view c) \<le> d \<longrightarrow> core c' = close_once (core c))"
proof -
  have keeps: "silence r d c'" if "silence r d c" for r d
    using assms(1,2) that by (induction es arbitrary: c) (auto split: option.splits dest: silence_step)
  have "silence (core c) None c" using assms(3,4) by (simp add: silence_def)
  from keeps [OF this] have kept: "kept c'" "idle_only (view c')" "core c' = core c \<or> core c' = close_once (core c)"
    by (auto simp: silence_def)
  have "core c' = close_once (core c)" if "timer (view c) = Some (d, True)" "d < clock (view c')" "clock (view c) \<le> d" for d
  proof -
    have "silence (core c) (Some d) c" using assms(3,4) that by (simp add: silence_def)
    from keeps [OF this] that(2) show ?thesis by (auto simp: silence_def)
  qed
  with kept show ?thesis by blast
qed

end

section \<open>A connection of the server\<close>

datatype server_phase = ReadingRequest | WritingAnswer | Serving | Ended

record timed_connection = conn_timer +
  phase :: server_phase
  conn :: ws_connection

definition on_conn :: "(ws_connection \<Rightarrow> ws_connection) \<Rightarrow> timed_connection \<Rightarrow> timed_connection" where
  "on_conn f c = c\<lparr>conn := f (conn c)\<rparr>"

definition timed_send :: "u8 \<Rightarrow> u8 list \<Rightarrow> timed_connection \<Rightarrow> timed_connection" where
  "timed_send opcode msg c = on_conn (send_frame opcode msg) (set_timeout (- 1) (cancel_timeout c))"

definition timed_send_close :: "int \<Rightarrow> u8 list \<Rightarrow> timed_connection \<Rightarrow> timed_connection" where
  "timed_send_close status reason c =
     (if closed (conn c) then c
      else timed_send 136 (close_payload status reason) (on_conn (\<lambda>c. c\<lparr>closed := True\<rparr>) c))"

definition timed_open :: "timed_connection \<Rightarrow> timed_connection" where
  "timed_open c = on_conn connection_open (set_timeout (- 1) (cancel_timeout c))"

definition timed_close :: "int \<Rightarrow> u8 list \<Rightarrow> timed_connection \<Rightarrow> timed_connection" where
  "timed_close status reason c = on_conn (connection_close status reason) (set_timeout (- 1) (cancel_timeout c))"

definition timed_error :: "ws_error \<Rightarrow> timed_connection \<Rightarrow> timed_connection" where
  "timed_error e c = on_conn (connection_error e) (set_timeout (- 1) (cancel_timeout c))"

definition goes_to :: "read_stage \<Rightarrow> timed_connection \<Rightarrow> timed_connection" where
  "goes_to s c = on_conn (\<lambda>c. c\<lparr>stage := s\<rparr>) c"

text \<open>The handler of the content, behind the unmasking. A fragment that is not the last one leaves the timer
  alone.\<close>

definition timed_frame_received :: "u8 \<Rightarrow> u64 \<Rightarrow> u8 list \<Rightarrow> timed_connection \<Rightarrow> timed_connection" where
  "timed_frame_received opcode l bytes c =
     (let fragment = opcode AND 0x80 = 0 \<or> opcode AND 0x0f = 0;
          message = (if fragment then add_fragment opcode l bytes (fragmented_message (conn c))
                     else \<lparr>fin_rsv_opcode = opcode, msg_length = l, msg_content = bytes\<rparr>);
          c = (if fragment then on_conn (\<lambda>c. c\<lparr>fragmented_message := Some message\<rparr>) c else c)
      in if opcode AND 0x0f = 8 then
           let status = close_status l (msg_content message); reason = close_reason l (msg_content message)
           in goes_to ReadingStopped (timed_close status reason (timed_send_close status reason (restart_timeout c)))
         else if opcode AND 0x0f = 9 then
           goes_to AwaitHeader (on_conn (call PingReceived) (timed_send (opcode + 1) [] (restart_timeout c)))
         else if opcode AND 0x0f = 10 then goes_to AwaitHeader (on_conn (call PongReceived) (restart_timeout c))
         else if opcode AND 0x80 = 0 then goes_to AwaitHeader c
         else goes_to AwaitHeader (on_conn (\<lambda>c. c\<lparr>fragmented_message := None\<rparr>)
                (on_conn (call (MessageReceived message)) (restart_timeout c))))"

definition timed_content_read :: "(nat \<Rightarrow> u8) \<Rightarrow> u64 \<Rightarrow> u8 \<Rightarrow> timed_connection \<Rightarrow> timed_connection" where
  "timed_content_read junk l opcode c =
     (let buffer = read_buffer (conn c);
          key = map (\<lambda>i. if i < length buffer then buffer ! i else junk i) [0..<4];
          rest = drop 4 buffer;
          bytes = map (\<lambda>i. (if i < length rest then rest ! i else 0xFF) XOR (key ! (i mod 4))) [0..<unat l]
      in timed_frame_received opcode l bytes (on_conn (\<lambda>c. c\<lparr>read_buffer := drop (unat l) rest\<rparr>) c))"

definition timed_message_content :: "u64 \<Rightarrow> u64 \<Rightarrow> u8 \<Rightarrow> timed_connection \<Rightarrow> timed_connection" where
  "timed_message_content max_message_size l opcode c =
     (if l + (case fragmented_message (conn c) of None \<Rightarrow> 0 | Some m \<Rightarrow> msg_length m) > max_message_size then
        goes_to ReadingStopped (timed_close 1009 (bytes_of ''message too big'')
          (timed_send_close 1009 (bytes_of ''message too big'') (timed_error MessageSize c)))
      else goes_to (AwaitContent l opcode) c)"

definition timed_header_read :: "u64 \<Rightarrow> timed_connection \<Rightarrow> timed_connection" where
  "timed_header_read max_message_size c =
     (let opcode = read_buffer (conn c) ! 0; second = read_buffer (conn c) ! 1;
          c = on_conn (\<lambda>c. c\<lparr>read_buffer := drop 2 (read_buffer c)\<rparr>) c
      in if second < 128 then
           goes_to ReadingStopped (timed_close 1002 (bytes_of ''message from client not masked'')
             (timed_send_close 1002 (bytes_of ''message from client not masked'') c))
         else if second AND 127 = 126 then goes_to (AwaitLength2 opcode) c
         else if second AND 127 = 127 then goes_to (AwaitLength8 opcode) c
         else timed_message_content max_message_size (ucast (second AND 127)) opcode c)"

definition timed_length_read :: "u64 \<Rightarrow> nat \<Rightarrow> u8 \<Rightarrow> timed_connection \<Rightarrow> timed_connection" where
  "timed_length_read max_message_size num_bytes opcode c =
     timed_message_content max_message_size (length_value (take num_bytes (read_buffer (conn c)))) opcode
       (on_conn (\<lambda>c. c\<lparr>read_buffer := drop num_bytes (read_buffer c)\<rparr>) c)"

definition timed_async_read :: "nat \<Rightarrow> timed_connection \<Rightarrow> timed_connection option" where
  "timed_async_read n c = map_option (\<lambda>r. c\<lparr>conn := r\<rparr>) (async_read n (conn c))"

definition timed_step :: "u64 \<Rightarrow> (nat \<Rightarrow> u8) \<Rightarrow> timed_connection \<Rightarrow> timed_connection option" where
  "timed_step max_message_size junk c =
     (case stage (conn c) of
        AwaitHeader \<Rightarrow> map_option (timed_header_read max_message_size) (timed_async_read 2 c)
      | AwaitLength2 opcode \<Rightarrow> map_option (timed_length_read max_message_size 2 opcode) (timed_async_read 2 c)
      | AwaitLength8 opcode \<Rightarrow> map_option (timed_length_read max_message_size 8 opcode) (timed_async_read 8 c)
      | AwaitContent l opcode \<Rightarrow> map_option (timed_content_read junk l opcode) (timed_async_read (unat (4 + l)) c)
      | ReadingStopped \<Rightarrow> None)"

section \<open>The life of a connection\<close>

text \<open>\<^verbatim>\<open>accept\<close> has taken the connection at the time \<open>now\<close>, and \<^verbatim>\<open>read_handshake\<close> begins.\<close>

record timer_config =
  timeout_request :: int
  config_timeout_idle :: int
  max_size :: u64

text \<open>What \<^verbatim>\<open>WsTransportServer\<close> leaves as it is.\<close>

definition default_config :: timer_config where
  "default_config = \<lparr>timeout_request = 5, config_timeout_idle = 0, max_size = - 1\<rparr>"

definition new_ws_connection :: ws_connection where
  "new_ws_connection =
     \<lparr>incoming = [], read_buffer = [], fragmented_message = None, stage = ReadingStopped, closed = False,
      sent_frames = [], registered = False, callbacks = []\<rparr>"

definition accepted :: "timer_config \<Rightarrow> int \<Rightarrow> timed_connection" where
  "accepted cfg now =
     set_timeout (timeout_request cfg)
       \<lparr>timeout_idle = config_timeout_idle cfg, clock = now, timer = None, due = [], socket_open = True,
        phase = ReadingRequest, conn = new_ws_connection\<rparr>"

text \<open>The last reference to the connection is gone, and with it the socket and the timer.\<close>

definition released :: "timed_connection \<Rightarrow> timed_connection" where
  "released c = (close_socket (cancel_timeout c))\<lparr>phase := Ended\<rparr>"

text \<open>The handler of the request; \<open>answer\<close> is what \<open>read_handshake\<close> of the handshake makes of the text.\<close>

definition request_read :: "timer_config \<Rightarrow> (string \<times> string) option \<Rightarrow> timed_connection \<Rightarrow> timed_connection" where
  "request_read cfg answer c =
     (let c = cancel_timeout c
      in case answer of
           None \<Rightarrow> released c
         | Some (endpoint, text) \<Rightarrow> (set_timeout (timeout_request cfg) c)\<lparr>phase := WritingAnswer\<rparr>)"

definition answer_written :: "bool \<Rightarrow> timed_connection \<Rightarrow> timed_connection" where
  "answer_written success c =
     (let c = cancel_timeout c
      in if success then (goes_to AwaitHeader (timed_open c))\<lparr>phase := Serving\<rparr>
         else released (timed_error SocketError c))"

text \<open>The handler of the timer.\<close>

definition timer_handler :: "bool \<Rightarrow> timed_connection \<Rightarrow> timed_connection" where
  "timer_handler idle c =
     (if phase c = Ended then c
      else if idle then timed_send_close 1000 (bytes_of ''idle timeout'') c
      else close_socket c)"

datatype life_event =
    RequestRead "(string \<times> string) option"
  | RequestLost
  | AnswerWritten bool
  | BytesArrive "u8 list"
  | ReaderRuns
  | ReadFails
  | Sends u8 "u8 list"
  | Released
  | TimerExpires
  | TimerHandlerRuns
  | TimePasses nat

text \<open>One event; \<open>None\<close> where it cannot happen. A connection that serves is released when nothing reads on
  and its queue is empty.\<close>

fun life_step :: "timer_config \<Rightarrow> (nat \<Rightarrow> u8) \<Rightarrow> life_event \<Rightarrow> timed_connection \<Rightarrow> timed_connection option" where
  "life_step cfg junk (RequestRead answer) c = (if phase c = ReadingRequest then Some (request_read cfg answer c) else None)"
| "life_step cfg junk RequestLost c = (if phase c = ReadingRequest then Some (released (cancel_timeout c)) else None)"
| "life_step cfg junk (AnswerWritten success) c = (if phase c = WritingAnswer then Some (answer_written success c) else None)"
| "life_step cfg junk (BytesArrive bytes) c =
     (if phase c = Serving \<and> socket_open c then Some (on_conn (\<lambda>c. c\<lparr>incoming := incoming c @ bytes\<rparr>) c) else None)"
| "life_step cfg junk ReaderRuns c = (if phase c = Serving then timed_step (max_size cfg) junk c else None)"
| "life_step cfg junk ReadFails c =
     (if phase c = Serving \<and> stage (conn c) \<noteq> ReadingStopped then Some (goes_to ReadingStopped (timed_error SocketError c)) else None)"
| "life_step cfg junk (Sends opcode msg) c = (if phase c = Serving then Some (timed_send opcode msg c) else None)"
| "life_step cfg junk Released c =
     (if phase c = Serving \<and> stage (conn c) = ReadingStopped then Some (released c) else None)"
| "life_step cfg junk TimerExpires c = timer_expires c"
| "life_step cfg junk TimerHandlerRuns c =
     (case due c of [] \<Rightarrow> None | idle # later \<Rightarrow> Some (timer_handler idle (c\<lparr>due := later\<rparr>)))"
| "life_step cfg junk (TimePasses n) c = time_passes n c"

definition life_run :: "timer_config \<Rightarrow> (nat \<Rightarrow> u8) \<Rightarrow> life_event list \<Rightarrow> timed_connection \<Rightarrow> timed_connection option" where
  "life_run cfg junk = run_events (life_step cfg junk)"

section \<open>The reader with its timer is the reader\<close>

lemmas timer_defs = set_timeout_def cancel_timeout_def restart_timeout_def close_socket_def

lemma conn_of_timers [simp]:
  "conn (set_timeout s c) = conn c" "conn (cancel_timeout c) = conn c" "conn (restart_timeout c) = conn c"
  "conn (close_socket c) = conn c"
  by (simp_all add: timer_defs Let_def)

lemma conn_on_conn [simp]: "conn (on_conn f c) = f (conn c)"
  by (simp add: on_conn_def)

lemma conn_timed [simp]:
  "conn (timed_send opcode msg c) = send_frame opcode msg (conn c)"
  "conn (timed_send_close status reason c) = send_close status reason (conn c)"
  "conn (timed_open c) = connection_open (conn c)"
  "conn (timed_close status reason c) = connection_close status reason (conn c)"
  "conn (timed_error e c) = connection_error e (conn c)"
  "conn (goes_to s c) = (conn c)\<lparr>stage := s\<rparr>"
  by (simp_all add: timed_send_def timed_send_close_def send_close_def timed_open_def timed_close_def timed_error_def goes_to_def)

lemma conn_frame_received: "conn (timed_frame_received opcode l bytes c) = frame_received opcode l bytes (conn c)"
  by (simp add: timed_frame_received_def frame_received_def Let_def)

lemma conn_message_content: "conn (timed_message_content m l opcode c) = read_message_content m l opcode (conn c)"
  by (simp add: timed_message_content_def read_message_content_def)

lemma conn_readers:
  "conn (timed_content_read junk l opcode c) = content_read junk l opcode (conn c)"
  "conn (timed_header_read m c) = header_read m (conn c)"
  "conn (timed_length_read m n opcode c) = length_read m n opcode (conn c)"
  by (simp_all only: timed_content_read_def content_read_def timed_length_read_def length_read_def timed_header_read_def
      header_read_def conn_message_content conn_frame_received Let_def conn_on_conn conn_timed if_distrib [of conn] cong: if_cong)

lemma timed_read: "map_option conn (map_option f (timed_async_read n c)) = map_option g (async_read n (conn c))"
  if "\<And>c. conn (f c) = g (conn c)"
  by (simp add: timed_async_read_def option.map_comp comp_def that)

lemma timed_step_reads: "map_option conn (timed_step m junk c) = server_step m junk (conn c)"
  by (cases "stage (conn c)")
    (simp_all add: timed_step_def server_step.simps timed_read conn_readers)


section \<open>The handshake ends in time\<close>

definition awaited :: "timed_connection \<Rightarrow> nat option" where
  "awaited c = (case phase c of ReadingRequest \<Rightarrow> Some 0 | WritingAnswer \<Rightarrow> Some 1 | Serving \<Rightarrow> None | Ended \<Rightarrow> None)"

definition awaits_nothing :: "timed_connection \<Rightarrow> bool" where
  "awaits_nothing c \<longleftrightarrow> phase c = Serving \<or> phase c = Ended"

lemma view_fields [simp]:
  "timeout_idle (conn_timer.truncate c) = timeout_idle c" "clock (conn_timer.truncate c) = clock c"
  "timer (conn_timer.truncate c) = timer c" "due (conn_timer.truncate c) = due c"
  "socket_open (conn_timer.truncate c) = socket_open c"
  by (simp_all add: conn_timer.truncate_def)

lemma view_expires: "timer_expires c = Some c' \<Longrightarrow> timer_expires (conn_timer.truncate c) = Some (conn_timer.truncate c')"
  by (auto simp: timer_expires_def conn_timer.truncate_def split: option.splits prod.splits if_splits)

lemma view_passes: "time_passes n c = Some c' \<Longrightarrow> time_passes n (conn_timer.truncate c) = Some (conn_timer.truncate c')"
  by (auto simp: time_passes_def conn_timer.truncate_def split: if_splits option.splits)

lemma phase_kept [simp]:
  "phase (set_timeout s c) = phase c" "phase (cancel_timeout c) = phase c" "phase (close_socket c) = phase c"
  "phase (on_conn f c) = phase c" "phase (restart_timeout c) = phase c"
  by (simp_all add: timer_defs on_conn_def Let_def)

lemma phase_timed [simp]:
  "phase (timed_send opcode msg c) = phase c" "phase (timed_send_close status reason c) = phase c"
  "phase (timed_open c) = phase c" "phase (timed_close status reason c) = phase c" "phase (timed_error e c) = phase c"
  "phase (goes_to s c) = phase c"
  by (simp_all add: timed_send_def timed_send_close_def timed_open_def timed_close_def timed_error_def goes_to_def)

lemma phase_frame_received [simp]: "phase (timed_frame_received opcode l bytes c) = phase c"
  by (simp add: timed_frame_received_def Let_def)

lemma phase_step: "timed_step m junk c = Some c' \<Longrightarrow> phase c' = phase c"
  by (cases "stage (conn c)")
    (auto simp: timed_step_def timed_async_read_def timed_header_read_def timed_length_read_def timed_content_read_def
      timed_message_content_def Let_def split: if_splits)

lemma phase_timer: "timer_expires c = Some c' \<Longrightarrow> phase c' = phase c" "time_passes n c = Some c' \<Longrightarrow> phase c' = phase c"
  by (auto simp: timer_expires_def time_passes_def split: option.splits prod.splits if_splits)

lemma phase_timer_handler [simp]: "phase (timer_handler idle c) = phase c"
  by (simp add: timer_handler_def)

lemma server_over_stays: "life_step cfg junk e c = Some c' \<Longrightarrow> awaits_nothing c \<Longrightarrow> awaits_nothing c'"
  by (cases e) (auto simp: awaits_nothing_def released_def phase_step phase_timer split: if_splits list.splits)

lemma server_moves:
  assumes "life_step cfg junk e c = Some c'" and "awaited c = Some k" and "0 < timeout_request cfg" and "True \<notin> set (due c)"
  shows "awaits_nothing c' \<or>
    chain_move (timeout_request cfg) 2 k (awaited c') (conn_timer.truncate c) (conn_timer.truncate c')"
proof (cases e)
  case (RequestRead answer)
  with assms show ?thesis
    by (auto simp: awaits_nothing_def request_read_def released_def awaited_def chain_move_def Let_def timer_defs
        conn_timer.truncate_def split: option.splits if_splits server_phase.splits)
next
  case TimerExpires
  with assms have "timer_expires c = Some c'" by simp
  with assms(2) view_expires [OF this] phase_timer(1) [OF this] show ?thesis by (simp add: chain_move_def awaited_def)
next
  case (TimePasses n)
  with assms have "time_passes n c = Some c'" by simp
  with assms(2) view_passes [OF this] phase_timer(2) [OF this] show ?thesis by (auto simp: chain_move_def awaited_def)
next
  case TimerHandlerRuns
  with assms show ?thesis
    by (auto simp: chain_move_def awaited_def timer_handler_def close_socket_def
        split: list.splits if_splits server_phase.splits)
qed (use assms in \<open>auto simp: awaits_nothing_def awaited_def answer_written_def released_def Let_def split: if_splits server_phase.splits\<close>)

lemma server_closed_stays:
  assumes "life_step cfg junk e c = Some c'" and "awaited c = Some k" and "\<not> socket_open c"
  shows "awaits_nothing c' \<or> awaited c' \<noteq> None \<and> \<not> socket_open c'"
  using assms
  by (cases e)
    (auto simp: awaits_nothing_def awaited_def request_read_def answer_written_def released_def Let_def timer_defs timer_handler_def
      timed_send_close_def timed_send_def on_conn_def timer_expires_def time_passes_def
      split: if_splits server_phase.splits option.splits list.splits prod.splits)

interpretation server_chain:
  request_chain "life_step cfg junk" awaited awaits_nothing conn_timer.truncate "timeout_request cfg" 2 for cfg junk
  by unfold_locales (auto intro: server_over_stays dest: server_moves server_closed_stays)


text \<open>Who is slow to ask is cut off: twice the request timeout after the connection was accepted, it has
  been opened, or is gone, or its socket is closed, whatever the peer sends or does not send and however
  late the other handlers run.\<close>

theorem slow_handshake_cut_off:
  assumes "0 < timeout_request cfg" and "life_run cfg junk es (accepted cfg now) = Some c"
    and "now + 2 * timeout_request cfg < clock c"
  shows "phase c = Serving \<or> phase c = Ended \<or> \<not> socket_open c"
proof -
  have "server_chain.in_time cfg now (accepted cfg now)"
    using assms(1)
    by (simp add: server_chain.in_time_def in_phase_def awaited_def accepted_def timer_defs Let_def conn_timer.truncate_def)
  from server_chain.chain_ends [OF assms(2) [unfolded life_run_def] assms(1) this] assms(3)
  show ?thesis by (auto simp: awaits_nothing_def)
qed

lemmas life_defs =
  life_run_def accepted_def default_config_def timer_defs timer_expires_def time_passes_def timer_handler_def
  request_read_def answer_written_def released_def timed_open_def goes_to_def on_conn_def

text \<open>A peer that sends nothing: its timer runs out after five seconds.\<close>

theorem slow_handshake_cut_off_witness:
  "\<exists>c. life_run default_config (\<lambda>_. 0) [TimePasses 5, TimerExpires, TimerHandlerRuns, TimePasses 6] (accepted default_config 0) = Some c \<and>
    phase c = ReadingRequest \<and> \<not> socket_open c"
proof -
  obtain c where c: "life_run default_config (\<lambda>_. 0) [TimePasses 5, TimerExpires, TimerHandlerRuns, TimePasses 6] (accepted default_config 0) = Some c"
    "phase c = ReadingRequest" "clock c = 11"
    by (simp add: life_defs Let_def)
  have "0 < timeout_request default_config" "0 + 2 * timeout_request default_config < clock c"
    using c(3) by (simp_all add: default_config_def)
  from slow_handshake_cut_off [OF this(1) c(1) this(2)] c show ?thesis by auto
qed

text \<open>The timer of the request runs out while the answer is being written, and its handler comes after the
  one of the answer: the connection is opened, and closed again at once.\<close>

lemma late_timer_closes_open:
  "\<exists>c. life_run default_config junk [RequestRead (Some (endpoint, text)), TimePasses 5, TimerExpires, AnswerWritten True, TimerHandlerRuns]
      (accepted default_config now) = Some c \<and>
    phase c = Serving \<and> registered (conn c) \<and> callbacks (conn c) = [ConnectionOpened] \<and> \<not> socket_open c"
  by (simp add: life_defs Let_def connection_open_def call_def new_ws_connection_def)

section \<open>A silent peer\<close>

fun silent :: "life_event \<Rightarrow> bool" where
  "silent (TimePasses n) = True"
| "silent TimerExpires = True"
| "silent TimerHandlerRuns = True"
| "silent _ = False"

definition idle_close :: "ws_connection \<Rightarrow> ws_connection" where
  "idle_close = send_close 1000 (bytes_of ''idle timeout'')"

definition only_idle :: "timed_connection \<Rightarrow> bool" where
  "only_idle c \<longleftrightarrow> phase c = Serving \<and> idle_only c"

lemma idle_close_idem [simp]: "idle_close (idle_close r) = idle_close r"
  by (simp add: idle_close_def send_close_def send_frame_def)

lemma idle_only_view [simp]: "idle_only (conn_timer.truncate c) = idle_only c"
  by (simp add: idle_only_def)

lemma idle_only_on_conn [simp]: "idle_only (on_conn f c) = idle_only c"
  by (simp add: idle_only_def on_conn_def)

lemma idle_only_timeouts [simp]:
  "idle_only c \<Longrightarrow> idle_only (set_timeout (- 1) c)" "idle_only c \<Longrightarrow> idle_only (cancel_timeout c)"
  by (auto simp: idle_only_def timer_defs Let_def)

lemma idle_handler:
  assumes "idle_only c" and "due c = idle # later" and "phase c = Serving"
  shows "idle_only (timer_handler idle (c\<lparr>due := later\<rparr>)) \<and> conn (timer_handler idle (c\<lparr>due := later\<rparr>)) = idle_close (conn c)"
proof -
  from assms(1,2) have idle: "idle" and later: "idle_only (c\<lparr>due := later\<rparr>)" by (auto simp: idle_only_def)
  show ?thesis
    using later assms(3)
    by (simp add: timer_handler_def idle idle_close_def timed_send_close_def timed_send_def)
      (simp add: send_close_def on_conn_def)
qed

lemma server_silent_step:
  assumes "life_step cfg junk e c = Some c'" and "silent e" and "phase c = Serving" and "idle_only c"
  shows "phase c' = Serving \<and> idle_only c' \<and>
    (conn c' = conn c \<and> (timer_expires (conn_timer.truncate c) = Some (conn_timer.truncate c') \<or>
       (\<exists>n. time_passes n (conn_timer.truncate c) = Some (conn_timer.truncate c'))) \<or>
     due c \<noteq> [] \<and> conn c' = idle_close (conn c))"
proof (cases e)
  case TimerExpires
  with assms(1) have "timer_expires c = Some c'" by simp
  moreover from this assms(4) have "idle_only c'" "conn c' = conn c"
    by (auto simp: timer_expires_def idle_only_def split: option.splits if_splits)
  ultimately show ?thesis using view_expires phase_timer(1) assms(3) by metis
next
  case (TimePasses n)
  with assms(1) have "time_passes n c = Some c'" by simp
  moreover from this assms(4) have "idle_only c'" "conn c' = conn c"
    by (auto simp: time_passes_def idle_only_def split: option.splits if_splits)
  ultimately show ?thesis using view_passes phase_timer(2) assms(3) by metis
next
  case TimerHandlerRuns
  with assms(1) obtain idle later where "due c = idle # later" "c' = timer_handler idle (c\<lparr>due := later\<rparr>)"
    by (auto split: list.splits)
  with idle_handler [OF assms(4) _ assms(3)] assms(3) show ?thesis by auto
qed (use assms(2) in simp_all)

interpretation idle_server:
  idle_end "life_step cfg junk" silent "\<lambda>c. phase c = Serving" conn_timer.truncate conn idle_close for cfg junk
  by unfold_locales (simp_all add: server_silent_step)

text \<open>C32. A peer that has fallen silent is kept, once its connection is served and the handler of no request timer is left
  over (neither set nor queued; \<open>late_timer_closes_open\<close> is what such a handler does): however much time passes, the
  connection stays registered and its socket open, and all the server does is to send it one close frame, when there
  is an idle timeout and it has run out; no further timer will bring the server to give the connection up.\<close>

theorem silent_peer_kept:
  assumes "only_idle c" and "life_run cfg junk es c = Some c'" and "list_all silent es"
  shows "phase c' = Serving \<and> socket_open c' \<and> registered (conn c') = registered (conn c) \<and>
    (conn c' = conn c \<or> conn c' = send_close 1000 (bytes_of ''idle timeout'') (conn c)) \<and>
    (\<forall>d. timer c = Some (d, True) \<and> d < clock c' \<and> clock c \<le> d \<longrightarrow> conn c' = send_close 1000 (bytes_of ''idle timeout'') (conn c))"
proof -
  have "registered (idle_close (conn c)) = registered (conn c)"
    by (simp add: idle_close_def send_close_def send_frame_def)
  moreover from assms(1) have "phase c = Serving" "idle_only (conn_timer.truncate c)" by (simp_all add: only_idle_def)
  from idle_server.silent_end_kept [OF assms(2) [unfolded life_run_def] assms(3) this]
  have "phase c' = Serving" "socket_open c'" "conn c' = conn c \<or> conn c' = idle_close (conn c)"
    "\<forall>d. timer c = Some (d, True) \<and> d < clock c' \<and> clock c \<le> d \<longrightarrow> conn c' = idle_close (conn c)"
    by (simp_all add: idle_only_def)
  ultimately show ?thesis unfolding idle_close_def by metis
qed

text \<open>An idle timeout of ten seconds: the close frame goes out after ten, and a thousand seconds after that the
  connection is still there.\<close>

theorem silent_peer_kept_witness:
  "\<exists>c c'. life_run \<lparr>timeout_request = 5, config_timeout_idle = 10, max_size = - 1\<rparr> (\<lambda>_. 0)
       [RequestRead (Some ([], [])), AnswerWritten True] (accepted \<lparr>timeout_request = 5, config_timeout_idle = 10, max_size = - 1\<rparr> 0) = Some c \<and>
     life_run \<lparr>timeout_request = 5, config_timeout_idle = 10, max_size = - 1\<rparr> (\<lambda>_. 0)
       [TimePasses 10, TimerExpires, TimerHandlerRuns, TimePasses 10, TimerExpires, TimerHandlerRuns, TimePasses 1000] c = Some c' \<and>
     registered (conn c') \<and> socket_open c' \<and> sent_frames (conn c') = [server_frame 136 (close_payload 1000 (bytes_of ''idle timeout''))]"
proof -
  let ?cfg = "\<lparr>timeout_request = 5, config_timeout_idle = 10, max_size = - 1\<rparr>"
  let ?es = "[TimePasses 10, TimerExpires, TimerHandlerRuns, TimePasses 10, TimerExpires, TimerHandlerRuns, TimePasses 1000]"
  have "\<exists>c. life_run ?cfg (\<lambda>_. 0) [RequestRead (Some ([], [])), AnswerWritten True] (accepted ?cfg 0) = Some c \<and>
    only_idle c \<and> timer c = Some (10, True) \<and> clock c = 0 \<and> timeout_idle c = 10 \<and> due c = [] \<and> phase c = Serving \<and>
    conn c = new_ws_connection\<lparr>registered := True, stage := AwaitHeader, callbacks := [ConnectionOpened]\<rparr>"
    by (simp add: life_defs Let_def only_idle_def idle_only_def connection_open_def call_def new_ws_connection_def)
  then obtain c where c: "life_run ?cfg (\<lambda>_. 0) [RequestRead (Some ([], [])), AnswerWritten True] (accepted ?cfg 0) = Some c"
    "only_idle c" "timer c = Some (10, True)" "clock c = 0" "timeout_idle c = 10" "due c = []" "phase c = Serving"
    "conn c = new_ws_connection\<lparr>registered := True, stage := AwaitHeader, callbacks := [ConnectionOpened]\<rparr>" by blast
  from c(3-8) have "\<exists>c'. life_run ?cfg (\<lambda>_. 0) ?es c = Some c' \<and> clock c' = 1020"
    by (simp add: life_defs timed_send_close_def timed_send_def Let_def send_frame_def new_ws_connection_def)
  then obtain c' where c': "life_run ?cfg (\<lambda>_. 0) ?es c = Some c'" "clock c' = 1020" by blast
  have "list_all silent ?es" by simp
  from silent_peer_kept [OF c(2) c'(1) this] c c'
  show ?thesis by (auto simp: send_close_def send_frame_def new_ws_connection_def)
qed

text \<open>With the configuration of \<^verbatim>\<open>WsTransportServer\<close> there is no idle timer at all, and a silent peer does not even
  get a close frame.\<close>

lemma default_sends_nothing:
  assumes "only_idle c" and "timer c = None" and "due c = []" and "life_run cfg junk es c = Some c'" and "list_all silent es"
  shows "conn c' = conn c"
proof -
  have "timer c' = None \<and> due c' = [] \<and> conn c' = conn c"
    using assms(2-5) unfolding life_run_def
  proof (induction es arbitrary: c)
    case (Cons e es)
    from Cons.prems obtain c1 where c1: "life_step cfg junk e c = Some c1" "run_events (life_step cfg junk) es c1 = Some c'"
      by (auto split: option.splits)
    with Cons.prems have "timer c1 = None \<and> due c1 = [] \<and> conn c1 = conn c"
      by (cases e) (auto simp: timer_expires_def time_passes_def)
    with Cons.IH [of c1] c1(2) Cons.prems show ?case by auto
  qed simp
  then show ?thesis by simp
qed

end
