(* ===== verification/Ws_Client_Life.thy ===== *)
theory Ws_Client_Life
  imports Ws_Timer Ws_Handshake
begin

text \<open>
  \<^verbatim>\<open>SocketClient::connect\<close> and \<^verbatim>\<open>handshake\<close> of \<^verbatim>\<open>webapi/websockets/client_ws.hpp\<close>: resolving the name of the host,
  connecting, writing the request and reading the answer, each under a timer of its own, until the
  connection is open or has failed. Frames are read by \<open>Ws_Client_Frame\<close>. The timer of the client is that of
  the server, word for word.
\<close>

section \<open>Until the connection is open\<close>

datatype client_phase = Resolving | Connecting | WritingRequest | ReadingAnswer | ClientOpen | ClientFailed

datatype client_call = OnOpen | OnError

record client_life = conn_timer +
  client_phase :: client_phase
  client_calls :: "client_call list"

definition enters :: "client_phase \<Rightarrow> client_life \<Rightarrow> client_life" where
  "enters p c = c\<lparr>client_phase := p\<rparr>"

definition client_open :: "client_life \<Rightarrow> client_life" where
  "client_open c = (set_timeout (- 1) (cancel_timeout c))\<lparr>client_calls := client_calls c @ [OnOpen], client_phase := ClientOpen\<rparr>"

definition client_error :: "client_life \<Rightarrow> client_life" where
  "client_error c = (set_timeout (- 1) (cancel_timeout c))\<lparr>client_calls := client_calls c @ [OnError], client_phase := ClientFailed\<rparr>"

text \<open>The connection is made, and its socket is not open before the address is known.\<close>

definition connect :: "timer_config \<Rightarrow> int \<Rightarrow> client_life" where
  "connect cfg now =
     set_timeout (timeout_request cfg)
       \<lparr>timeout_idle = config_timeout_idle cfg, clock = now, timer = None, due = [], socket_open = False,
        client_phase = Resolving, client_calls = []\<rparr>"

definition host_resolved :: "timer_config \<Rightarrow> bool \<Rightarrow> client_life \<Rightarrow> client_life" where
  "host_resolved cfg success c =
     (let c = cancel_timeout c
      in if success then enters Connecting ((set_timeout (timeout_request cfg) c)\<lparr>socket_open := True\<rparr>)
         else client_error c)"

definition host_connected :: "timer_config \<Rightarrow> bool \<Rightarrow> client_life \<Rightarrow> client_life" where
  "host_connected cfg success c =
     (let c = cancel_timeout c
      in if success then enters WritingRequest (set_timeout (timeout_request cfg) c) else client_error c)"

definition request_written :: "timer_config \<Rightarrow> bool \<Rightarrow> client_life \<Rightarrow> client_life" where
  "request_written cfg success c =
     (let c = cancel_timeout c
      in if success then enters ReadingAnswer (set_timeout (timeout_request cfg) c) else client_error c)"

text \<open>\<open>answer\<close> is \<open>None\<close> where the read fails, and otherwise what \<open>check_answer\<close> says of the text.\<close>

definition answer_read :: "handshake_result option \<Rightarrow> client_life \<Rightarrow> client_life" where
  "answer_read answer c =
     (let c = cancel_timeout c
      in case answer of
           None \<Rightarrow> client_error c
         | Some ProtocolError \<Rightarrow> client_error c
         | Some (HandshakeDone rest) \<Rightarrow> client_open c)"

datatype client_life_event =
    HostResolved bool
  | HostConnected bool
  | RequestWritten bool
  | AnswerRead "handshake_result option"
  | ClientTimerExpires
  | ClientTimerHandler
  | ClientTimePasses nat

text \<open>The handler of a timer closes the socket; to a socket that is not open yet that does nothing.\<close>

fun client_life_step :: "timer_config \<Rightarrow> client_life_event \<Rightarrow> client_life \<Rightarrow> client_life option" where
  "client_life_step cfg (HostResolved success) c = (if client_phase c = Resolving then Some (host_resolved cfg success c) else None)"
| "client_life_step cfg (HostConnected success) c = (if client_phase c = Connecting then Some (host_connected cfg success c) else None)"
| "client_life_step cfg (RequestWritten success) c = (if client_phase c = WritingRequest then Some (request_written cfg success c) else None)"
| "client_life_step cfg (AnswerRead answer) c = (if client_phase c = ReadingAnswer then Some (answer_read answer c) else None)"
| "client_life_step cfg ClientTimerExpires c = timer_expires c"
| "client_life_step cfg ClientTimerHandler c =
     (case due c of
        False # later \<Rightarrow> Some (close_socket (c\<lparr>due := later\<rparr>))
      | _ \<Rightarrow> None)"
| "client_life_step cfg (ClientTimePasses n) c = time_passes n c"

section \<open>Once the address is known\<close>

definition client_awaits :: "client_life \<Rightarrow> nat option" where
  "client_awaits c =
     (case client_phase c of Connecting \<Rightarrow> Some 0 | WritingRequest \<Rightarrow> Some 1 | ReadingAnswer \<Rightarrow> Some 2 | _ \<Rightarrow> None)"

definition client_decided :: "client_life \<Rightarrow> bool" where
  "client_decided c \<longleftrightarrow> client_phase c = ClientOpen \<or> client_phase c = ClientFailed"

lemma client_phase_kept [simp]:
  "client_phase (set_timeout s c) = client_phase c" "client_phase (cancel_timeout c) = client_phase c"
  "client_phase (close_socket c) = client_phase c"
  by (simp_all add: timer_defs Let_def)

lemma client_phase_timer:
  "timer_expires c = Some c' \<Longrightarrow> client_phase c' = client_phase c"
  "time_passes n c = Some c' \<Longrightarrow> client_phase c' = client_phase c"
  by (auto simp: timer_expires_def time_passes_def split: option.splits prod.splits if_splits)

lemmas client_defs =
  host_connected_def request_written_def answer_read_def client_open_def client_error_def enters_def

lemma client_over_stays: "client_life_step cfg e c = Some c' \<Longrightarrow> client_decided c \<Longrightarrow> client_decided c'"
  by (cases e) (auto simp: client_decided_def client_phase_timer split: if_splits list.splits bool.splits)

lemma client_moves:
  assumes "client_life_step cfg e c = Some c'" and "client_awaits c = Some k" and "0 < timeout_request cfg" and "True \<notin> set (due c)"
  shows "client_decided c' \<or>
    chain_move (timeout_request cfg) 3 k (client_awaits c') (conn_timer.truncate c) (conn_timer.truncate c')"
proof (cases e)
  case ClientTimerExpires
  with assms have "timer_expires c = Some c'" by simp
  with assms(2) view_expires [OF this] client_phase_timer(1) [OF this] show ?thesis by (simp add: chain_move_def client_awaits_def)
next
  case (ClientTimePasses n)
  with assms have "time_passes n c = Some c'" by simp
  with assms(2) view_passes [OF this] client_phase_timer(2) [OF this] show ?thesis by (auto simp: chain_move_def client_awaits_def)
qed (use assms in \<open>auto simp: client_decided_def client_awaits_def chain_move_def client_defs timer_defs conn_timer.truncate_def Let_def
    split: if_splits client_phase.splits option.splits handshake_result.splits list.splits bool.splits\<close>)

lemma client_closed_stays:
  assumes "client_life_step cfg e c = Some c'" and "client_awaits c = Some k" and "\<not> socket_open c"
  shows "client_decided c' \<or> client_awaits c' \<noteq> None \<and> \<not> socket_open c'"
  using assms
  by (cases e)
    (auto simp: client_decided_def client_awaits_def client_defs timer_defs timer_expires_def time_passes_def Let_def
      split: if_splits client_phase.splits option.splits handshake_result.splits list.splits bool.splits prod.splits)

interpretation client_chain:
  request_chain "client_life_step cfg" client_awaits client_decided conn_timer.truncate "timeout_request cfg" 3 for cfg
  by unfold_locales (auto intro: client_over_stays dest: client_moves client_closed_stays)

text \<open>From the moment when the address is known, three timeouts decide.\<close>

lemma client_decides:
  assumes "0 < timeout_request cfg" and "client_phase c = Resolving" and "due c = []"
    and "run_events (client_life_step cfg) es (host_resolved cfg True c) = Some c'"
    and "clock c + 3 * timeout_request cfg < clock c'"
  shows "client_phase c' = ClientOpen \<or> client_phase c' = ClientFailed \<or> \<not> socket_open c'"
proof -
  have "client_chain.in_time cfg (clock c) (host_resolved cfg True c)"
    using assms(1,3)
    by (simp add: client_chain.in_time_def in_phase_def client_awaits_def host_resolved_def enters_def timer_defs Let_def conn_timer.truncate_def)
  from client_chain.chain_ends [OF assms(4,1) this] assms(5) show ?thesis by (auto simp: client_decided_def)
qed

text \<open>Before, the timer has no effect: it runs out and closes a socket that is not open, and a resolver that
  answers later finds the client going on as if nothing had happened.\<close>

lemma resolving_has_no_timeout:
  "\<exists>c. run_events (client_life_step cfg) [ClientTimePasses 5, ClientTimerExpires, ClientTimerHandler, ClientTimePasses n, HostResolved True]
      (connect cfg now) = Some c \<and>
    client_phase c = Connecting \<and> socket_open c \<and> client_calls c = [] \<and> clock c = now + 5 + int n"
  if "timeout_request cfg = 5"
  using that
  by (simp add: connect_def host_resolved_def enters_def timer_defs timer_expires_def time_passes_def Let_def)

fun client_silent :: "client_life_event \<Rightarrow> bool" where
  "client_silent (ClientTimePasses n) = True"
| "client_silent ClientTimerExpires = True"
| "client_silent ClientTimerHandler = True"
| "client_silent _ = False"

text \<open>With the configuration that \<^verbatim>\<open>WsTransportClient\<close> leaves as it is, no request has a timer: where the peer is
  silent, the client waits, and neither \<^verbatim>\<open>on_open\<close> nor \<^verbatim>\<open>on_error\<close> is ever called.\<close>

definition client_default_config :: timer_config where
  "client_default_config = \<lparr>timeout_request = 0, config_timeout_idle = 0, max_size = - 1\<rparr>"

lemma default_client_waits_forever:
  assumes "timer c = None" and "due c = []" and "run_events (client_life_step client_default_config) es c = Some c'"
    and "list_all client_silent es"
  shows "client_phase c' = client_phase c \<and> client_calls c' = client_calls c \<and> timer c' = None \<and> due c' = []"
  using assms
proof (induction es arbitrary: c)
  case (Cons e es)
  from Cons.prems obtain c1 where c1: "client_life_step client_default_config e c = Some c1"
    "run_events (client_life_step client_default_config) es c1 = Some c'"
    by (auto split: option.splits)
  with Cons.prems have "timer c1 = None \<and> due c1 = [] \<and> client_phase c1 = client_phase c \<and> client_calls c1 = client_calls c"
    by (cases e) (auto simp: timer_expires_def time_passes_def)
  with Cons.IH [of c1] c1(2) Cons.prems show ?case by auto
qed simp

lemma default_client_has_no_timer:
  assumes "run_events (client_life_step client_default_config) es (connect client_default_config now) = Some c"
  shows "timer c = None \<and> due c = [] \<and> timeout_idle c = 0"
  using assms
proof (rule run_events_induct)
  show "timer (connect client_default_config now) = None \<and> due (connect client_default_config now) = [] \<and>
    timeout_idle (connect client_default_config now) = 0"
    by (simp add: connect_def client_default_config_def timer_defs Let_def)
next
  fix e :: client_life_event and c c'
  assume "client_life_step client_default_config e c = Some c'" and "timer c = None \<and> due c = [] \<and> timeout_idle c = 0"
  then show "timer c' = None \<and> due c' = [] \<and> timeout_idle c' = 0"
    by (cases e)
      (auto simp: host_resolved_def client_defs client_default_config_def timer_defs timer_expires_def time_passes_def Let_def
        split: if_splits option.splits handshake_result.splits)
qed

end
