(* ===== verification/Ws_Server.thy ===== *)
theory Ws_Server
  imports Ws_Stack Ws_Timer
begin

text \<open>
  The whole server of \<^verbatim>\<open>webapi/websockets/server_ws.hpp\<close> with the callbacks of \<^verbatim>\<open>WsTransportServer\<close> and the service
  behind them: the acceptor, all connections with their timers and readers (\<open>Ws_Timer\<close>), the set of
  connections of the endpoint, and \<^verbatim>\<open>stop\<close>. The service has one endpoint. Handlers are taken one at a time.
\<close>

section \<open>State and operations\<close>

text \<open>\<open>known\<close> lists the connections accepted so far; those of the endpoint are the registered ones.\<close>

record 'w running_server =
  server_clock :: int
  accepting :: bool
  context_stopped :: bool
  known :: "connection_id list"
  conns :: "connection_id \<Rightarrow> timed_connection"
  application :: "'w ws_server service"

definition new_running_server :: "int \<Rightarrow> 'w ws_server service \<Rightarrow> 'w running_server" where
  "new_running_server now service =
     \<lparr>server_clock = now, accepting = True, context_stopped = False, known = [], conns = (\<lambda>_. accepted default_config now), application = service\<rparr>"

text \<open>\<^verbatim>\<open>SocketServerBase::get_connections\<close>.\<close>

definition get_connections :: "'w running_server \<Rightarrow> connection_id set" where
  "get_connections st = {c \<in> set (known st). registered (conn (conns st c))}"

text \<open>\<^verbatim>\<open>accept\<close>: the handler accepts on, and begins the handshake of the new connection; where accepting was
  aborted, it does neither.\<close>

definition accept_connection :: "timer_config \<Rightarrow> connection_id \<Rightarrow> 'w running_server \<Rightarrow> 'w running_server" where
  "accept_connection cfg c st =
     st\<lparr>known := c # known st, conns := (conns st)(c := accepted cfg (server_clock st))\<rparr>"

text \<open>\<^verbatim>\<open>stop\<close>: the connections of the endpoint are closed and forgotten, without a call of \<^verbatim>\<open>on_close\<close>.\<close>

definition forget_connection :: "timed_connection \<Rightarrow> timed_connection" where
  "forget_connection tc =
     (if registered (conn tc) then on_conn (\<lambda>r. r\<lparr>registered := False\<rparr>) (close_socket tc) else tc)"

definition stop_running :: "'w running_server \<Rightarrow> 'w running_server" where
  "stop_running st =
     st\<lparr>accepting := False, conns := (\<lambda>c. forget_connection (conns st c)), context_stopped := True\<rparr>"

text \<open>A connection has gone on from what it was to \<open>tc\<close>: its new callbacks run. \<^verbatim>\<open>on_error\<close> calls \<^verbatim>\<open>stop\<close>, and
  the last reference to a connection takes the transport's with it.\<close>

definition connection_moves ::
  "rating_provider emitter \<Rightarrow> ('t, 'w) ptree_ops \<Rightarrow> (char \<Rightarrow> char \<Rightarrow> bool) \<Rightarrow> (u8 list \<Rightarrow> 'w) \<Rightarrow> time_point
    \<Rightarrow> connection_id \<Rightarrow> timed_connection \<Rightarrow> 'w running_server \<Rightarrow> 'w running_server outcome" where
  "connection_moves emit ops iless decode now c tc st =
     (let (service, e) = fold_outcome (handle_callback emit ops iless decode now c)
            (drop (length (callbacks (conn (conns st c)))) (callbacks (conn tc))) (application st);
          service = (if phase tc = Ended then service\<lparr>transport := release c (transport service)\<rparr> else service);
          st = st\<lparr>conns := (conns st)(c := tc), application := service\<rparr>
      in (if stopped (transport service) then stop_running st else st, e))"

datatype socket_event =
    NewConnection connection_id
  | OnConnection connection_id life_event time_point
  | ClockGoes nat

definition clock_goes :: "nat \<Rightarrow> 'w running_server \<Rightarrow> 'w running_server option" where
  "clock_goes n st =
     (if list_all (\<lambda>c. time_passes n (conns st c) \<noteq> None) (known st)
      then Some (st\<lparr>server_clock := server_clock st + int n,
        conns := (\<lambda>c. if c \<in> set (known st) then the (time_passes n (conns st c)) else conns st c)\<rparr>)
      else None)"

text \<open>One event; \<open>None\<close> where it cannot happen. Once the context is stopped no handler runs any more.\<close>

fun socket_step ::
  "rating_provider emitter \<Rightarrow> ('t, 'w) ptree_ops \<Rightarrow> (char \<Rightarrow> char \<Rightarrow> bool) \<Rightarrow> (u8 list \<Rightarrow> 'w) \<Rightarrow> timer_config \<Rightarrow> (nat \<Rightarrow> u8)
    \<Rightarrow> socket_event \<Rightarrow> 'w running_server \<Rightarrow> 'w running_server outcome option" where
  "socket_step emit ops iless decode cfg junk (NewConnection c) st =
     (if context_stopped st \<or> \<not> accepting st \<or> c \<in> set (known st) then None else Some (accept_connection cfg c st, None))"
| "socket_step emit ops iless decode cfg junk (OnConnection c e now) st =
     (if context_stopped st \<or> c \<notin> set (known st) \<or> (\<exists>n. e = TimePasses n) then None
      else map_option (\<lambda>tc. connection_moves emit ops iless decode now c tc st) (life_step cfg junk e (conns st c)))"
| "socket_step emit ops iless decode cfg junk (ClockGoes n) st =
     (if context_stopped st then None else map_option (\<lambda>st. (st, None)) (clock_goes n st))"

text \<open>A run of the server, as long as no handler ends the process.\<close>

fun socket_run ::
  "rating_provider emitter \<Rightarrow> ('t, 'w) ptree_ops \<Rightarrow> (char \<Rightarrow> char \<Rightarrow> bool) \<Rightarrow> (u8 list \<Rightarrow> 'w) \<Rightarrow> timer_config \<Rightarrow> (nat \<Rightarrow> u8)
    \<Rightarrow> socket_event list \<Rightarrow> 'w running_server \<Rightarrow> 'w running_server option" where
  "socket_run emit ops iless decode cfg junk [] st = Some st"
| "socket_run emit ops iless decode cfg junk (e # es) st =
     (case socket_step emit ops iless decode cfg junk e st of
        Some (st', None) \<Rightarrow> socket_run emit ops iless decode cfg junk es st'
      | _ \<Rightarrow> None)"


section \<open>What the handlers leave alone\<close>

text \<open>Dispatching a message changes of the transport only what sending changes.\<close>

lemma dispatch_transport:
  fixes f :: "'t \<Rightarrow> 'a"
  assumes send: "\<And>k m t. f (fst (send k m t)) = f t"
  shows "f (transport (fst (dispatchMessage emit iless send now message s))) = f (transport s)"
proof -
  have push: "f (transport (fst (push_rating send k s))) = f (transport s)" for k s
    using send [of k _ "transport s"] by (auto simp: push_rating_def Let_def split: sum.split prod.splits) (metis fst_conv)
  have update: "transport (fst (update_by put r s)) = transport s" if "\<And>x. transport (put x s) = transport s"
    for put :: "'c \<Rightarrow> 't service \<Rightarrow> 't service" and r s
    using that by (cases r) simp_all
  have rating: "f (transport (fst (sendUserRelativeRating send now k s))) = f (transport s)" for k s
    unfolding sendUserRelativeRating_def
    by (cases "ensure_present now k (userRatingProvider s)") (simp_all add: push)
  show ?thesis
    by (auto simp: dispatchMessage_def dispatch_body_def with_data_def userConnected_def userDisconnected_def
        rating update split: option.split sum.split)
qed

lemma ws_send_keeps:
  "connectionToUser (fst (ws_sendToUser ops iless now k m t)) = connectionToUser t"
  "stopped (fst (ws_sendToUser ops iless now k m t)) = stopped t"
  by (auto simp: ws_sendToUser_def Let_def split: option.split prod.splits)

lemma on_message_keeps:
  assumes "on_message ops iless c w t = (t', r)"
  shows "c' \<noteq> c \<Longrightarrow> connectionToUser t' c' = connectionToUser t c'" and "stopped t' = stopped t"
  using assms by (auto simp: on_message_def track_connection_def Let_def
      split: prod.splits sum.splits option.splits if_splits)


lemma receive_keeps:
  shows "c' \<noteq> c \<Longrightarrow> connectionToUser (transport (fst (ws_receive emit ops iless now c w s))) c' = connectionToUser (transport s) c'"
    and "stopped (transport (fst (ws_receive emit ops iless now c w s))) = stopped (transport s)"
proof -
  obtain t r where t: "on_message ops iless c w (transport s) = (t, r)" by (cases "on_message ops iless c w (transport s)")
  note keeps = on_message_keeps [OF t]
  show "c' \<noteq> c \<Longrightarrow> connectionToUser (transport (fst (ws_receive emit ops iless now c w s))) c' = connectionToUser (transport s) c'"
    using keeps(1) dispatch_transport [of connectionToUser "ws_sendToUser ops iless now", OF ws_send_keeps(1)]
    by (auto simp: ws_receive_def t Let_def split: sum.split)
  show "stopped (transport (fst (ws_receive emit ops iless now c w s))) = stopped (transport s)"
    using keeps(2) dispatch_transport [of stopped "ws_sendToUser ops iless now", OF ws_send_keeps(2)]
    by (auto simp: ws_receive_def t Let_def split: sum.split)
qed

section \<open>What a connection does in one event\<close>

text \<open>What one handler of the reader does to the registration and the callbacks.\<close>

definition reader_effect :: "ws_connection \<Rightarrow> ws_connection \<Rightarrow> bool" where
  "reader_effect r r' \<longleftrightarrow> stage r \<noteq> ReadingStopped \<and>
     (registered r' = registered r \<and> stage r' \<noteq> ReadingStopped \<and>
        (callbacks r' = callbacks r \<or> (\<exists>m. callbacks r' = callbacks r @ [MessageReceived m]) \<or>
         callbacks r' = callbacks r @ [PingReceived] \<or> callbacks r' = callbacks r @ [PongReceived]) \<or>
      \<not> registered r' \<and> stage r' = ReadingStopped \<and>
        (\<exists>status reason. callbacks r' = callbacks r @ [ConnectionClosed status reason] \<or>
          callbacks r' = callbacks r @ [ConnectionFailed MessageSize, ConnectionClosed status reason]))"

lemma reader_effect_buffers [simp]:
  "reader_effect (r\<lparr>read_buffer := b\<rparr>) r' = reader_effect r r'" "reader_effect (r\<lparr>incoming := i\<rparr>) r' = reader_effect r r'"
  by (simp_all add: reader_effect_def)

lemma closing_effect:
  assumes "stage r \<noteq> ReadingStopped" and "callbacks q = callbacks r"
  shows "reader_effect r ((connection_close status reason q)\<lparr>stage := ReadingStopped\<rparr>)"
  using assms by (simp add: reader_effect_def connection_close_def call_def)

lemma callbacks_kept [simp]:
  "callbacks (send_frame opcode msg r) = callbacks r" "callbacks (send_close status reason r) = callbacks r"
  "registered (send_frame opcode msg r) = registered r" "registered (send_close status reason r) = registered r"
  "stage (send_frame opcode msg r) = stage r" "stage (send_close status reason r) = stage r"
  by (simp_all add: send_frame_def send_close_def)

lemma frame_effect: "stage r \<noteq> ReadingStopped \<Longrightarrow> reader_effect r (frame_received opcode l bytes r)"
  unfolding frame_received_def Let_def
  by (simp add: closing_effect) (simp add: reader_effect_def call_def)

lemma content_effect: "stage r \<noteq> ReadingStopped \<Longrightarrow> reader_effect r (read_message_content m l opcode r)"
  unfolding read_message_content_def
  by (simp add: reader_effect_def connection_close_def connection_error_def call_def)

lemma header_effect: "stage r \<noteq> ReadingStopped \<Longrightarrow> reader_effect r (header_read m r)"
  using content_effect [of "r\<lparr>read_buffer := drop 2 (read_buffer r)\<rparr>" m "ucast (read_buffer r ! 1 AND 127)" "read_buffer r ! 0"]
  unfolding header_read_def Let_def
  by (simp add: closing_effect) (simp add: reader_effect_def)

lemma server_step_effect:
  assumes "server_step m junk r = Some r'"
  shows "reader_effect r r'"
proof -
  have read: "reader_effect r q" if "async_read n r = Some p" "stage p \<noteq> ReadingStopped \<Longrightarrow> reader_effect p q" "stage r \<noteq> ReadingStopped" for n p q
    using that by (auto simp: async_read_def split: if_splits)
  show ?thesis
    using assms
    by (cases "stage r")
      (auto simp: server_step.simps length_read_def content_read_def Let_def
        intro!: read header_effect content_effect [of "_\<lparr>read_buffer := _\<rparr>", simplified] frame_effect [of "_\<lparr>read_buffer := _\<rparr>", simplified])
qed

text \<open>A connection is registered from its opening on for as long as it is read.\<close>

definition connection_ok :: "timed_connection \<Rightarrow> bool" where
  "connection_ok tc \<longleftrightarrow> registered (conn tc) = (phase tc = Serving \<and> stage (conn tc) \<noteq> ReadingStopped)"

definition life_effect :: "timed_connection \<Rightarrow> timed_connection \<Rightarrow> bool" where
  "life_effect tc tc' \<longleftrightarrow> connection_ok tc' \<and>
     (callbacks (conn tc') = callbacks (conn tc) \<and> registered (conn tc') = registered (conn tc) \<or>
      callbacks (conn tc') = callbacks (conn tc) @ [ConnectionOpened] \<and> registered (conn tc') \<or>
      (\<exists>e. callbacks (conn tc') = callbacks (conn tc) @ [ConnectionFailed e]) \<or>
      phase tc = Serving \<and> registered (conn tc) \<and> reader_effect (conn tc) (conn tc'))"

lemma quiet_effect:
  assumes "connection_ok tc" and "callbacks (conn tc') = callbacks (conn tc)" and "registered (conn tc') = registered (conn tc)"
    and "stage (conn tc') = stage (conn tc)" and "phase tc' = phase tc \<or> phase tc' \<noteq> Serving \<and> \<not> registered (conn tc)"
  shows "life_effect tc tc'"
proof -
  have "connection_ok tc'"
    using assms(1,5) unfolding connection_ok_def assms(3,4) by auto
  then show ?thesis by (simp add: life_effect_def assms(2,3))
qed

lemma life_step_effect:
  assumes "life_step cfg junk e tc = Some tc'" and "connection_ok tc"
  shows "life_effect tc tc'"
proof (cases e)
  case ReaderRuns
  with assms(1) have serving: "phase tc = Serving" and step: "timed_step (max_size cfg) junk tc = Some tc'" by (simp_all split: if_splits)
  from timed_step_reads [of "max_size cfg" junk tc] step have "server_step (max_size cfg) junk (conn tc) = Some (conn tc')" by simp
  from server_step_effect [OF this] serving phase_step [OF step] assms(2) show ?thesis
    by (auto simp: life_effect_def connection_ok_def reader_effect_def)
next
  case (AnswerWritten success)
  with assms(1) have tc': "tc' = answer_written success tc" by (simp split: if_splits)
  show ?thesis
  proof (cases success)
    case True
    then show ?thesis
      by (simp add: tc' life_effect_def connection_ok_def answer_written_def connection_open_def call_def)
  next
    case False
    then show ?thesis
      by (simp add: tc' life_effect_def connection_ok_def answer_written_def released_def connection_error_def call_def Let_def)
  qed
next
  case ReadFails
  with assms(1) have "tc' = goes_to ReadingStopped (timed_error SocketError tc)" by (simp split: if_splits)
  then show ?thesis by (simp add: life_effect_def connection_ok_def connection_error_def call_def)
next
  case (RequestRead answer)
  with assms(1) have tc': "tc' = request_read cfg answer tc" and phase: "phase tc = ReadingRequest" by (simp_all split: if_splits)
  then have "\<not> registered (conn tc)" using assms(2) by (simp add: connection_ok_def)
  with assms(2) phase show ?thesis
    by (cases answer) (auto simp: tc' request_read_def released_def Let_def intro!: quiet_effect)
next
  case TimerHandlerRuns
  with assms show ?thesis
    by (intro quiet_effect) (auto simp: timer_handler_def send_close_def send_frame_def split: list.splits if_splits)
next
  case TimerExpires
  with assms show ?thesis
    by (intro quiet_effect) (auto simp: timer_expires_def split: option.splits prod.splits if_splits)
next
  case (TimePasses n)
  with assms show ?thesis by (intro quiet_effect) (auto simp: time_passes_def split: if_splits)
next
  case RequestLost
  with assms show ?thesis by (intro quiet_effect) (auto simp: released_def connection_ok_def split: if_splits)
next
  case Released
  with assms show ?thesis by (intro quiet_effect) (auto simp: released_def connection_ok_def split: if_splits)
next
  case (BytesArrive bytes)
  with assms show ?thesis by (intro quiet_effect) (auto split: if_splits)
next
  case (Sends opcode msg)
  with assms show ?thesis by (intro quiet_effect) (auto simp: send_frame_def split: if_splits)
qed


section \<open>The server and its routes\<close>

lemma handle_effect:
  assumes "s' = fst (handle_callback emit ops iless decode now c cb s)"
  shows "c' \<noteq> c \<Longrightarrow> connectionToUser (transport s') c' = connectionToUser (transport s) c'"
    and "stopped (transport s') = (stopped (transport s) \<or> (\<exists>e. cb = ConnectionFailed e))"
    and "cb = ConnectionClosed status reason \<Longrightarrow> connectionToUser (transport s') c = None"
proof -
  show "c' \<noteq> c \<Longrightarrow> connectionToUser (transport s') c' = connectionToUser (transport s) c'"
    by (cases cb) (simp_all add: assms handle_callback_def receive_keeps on_open_def on_error_def on_close_def split: option.split)
  show "stopped (transport s') = (stopped (transport s) \<or> (\<exists>e. cb = ConnectionFailed e))"
    by (cases cb) (simp_all add: assms handle_callback_def receive_keeps on_open_def on_error_def on_close_def split: option.split)
  show "cb = ConnectionClosed status reason \<Longrightarrow> connectionToUser (transport s') c = None"
    by (simp add: assms handle_callback_def on_close_def split: option.split)
qed

lemma and_then_last [simp]: "and_then r (fold_outcome f []) = r"
  by (cases r; cases "snd r") auto

text \<open>While the server runs: its connections are in order and share its clock, a connection that a user is
  recorded for belongs to the endpoint, and no error has been reported.\<close>

definition server_ok :: "'w running_server \<Rightarrow> bool" where
  "server_ok st \<longleftrightarrow> context_stopped st \<or>
     (\<forall>c \<in> set (known st). connection_ok (conns st c)) \<and>
     (\<forall>c k. connectionToUser (transport (application st)) c = Some k \<longrightarrow> c \<in> get_connections st) \<and>
     \<not> stopped (transport (application st))"

lemma stop_running_ok: "server_ok (stop_running st)"
  by (simp add: server_ok_def stop_running_def)

lemma moves_ok:
  assumes "server_ok st" and "\<not> context_stopped st" and "c \<in> set (known st)"
    and "life_effect (conns st c) tc" and "connection_moves emit ops iless decode now c tc st = (st', None)"
  shows "server_ok st'"
proof -
  let ?old = "conn (conns st c)" and ?h = "handle_callback emit ops iless decode now c"
  let ?cbs = "drop (length (callbacks ?old)) (callbacks (conn tc))"
  obtain s e where fold: "fold_outcome ?h ?cbs (application st) = (s, e)" by (cases "fold_outcome ?h ?cbs (application st)")
  let ?s = "if phase tc = Ended then s\<lparr>transport := release c (transport s)\<rparr> else s"
  let ?st = "st\<lparr>conns := (conns st)(c := tc), application := ?s\<rparr>"
  have release: "connectionToUser (transport ?s) = connectionToUser (transport s)" "stopped (transport ?s) = stopped (transport s)"
    by (simp_all add: release_def)
  have st': "st' = (if stopped (transport s) then stop_running ?st else ?st)"
    using assms(5) by (simp add: connection_moves_def fold Let_def release(2))
  have e: "e = None" using assms(5) by (simp add: connection_moves_def fold Let_def)
  from assms(1,2) have ok: "\<forall>c \<in> set (known st). connection_ok (conns st c)"
    "\<And>c k. connectionToUser (transport (application st)) c = Some k \<Longrightarrow> c \<in> get_connections st"
    "\<not> stopped (transport (application st))"
    by (auto simp: server_ok_def)
  have goal: "server_ok st'" if "stopped (transport s) \<or>
      (\<forall>c'. c' \<noteq> c \<longrightarrow> connectionToUser (transport s) c' = connectionToUser (transport (application st)) c') \<and>
      (connectionToUser (transport s) c \<noteq> None \<longrightarrow> registered (conn tc))"
  proof (cases "stopped (transport s)")
    case True
    then show ?thesis by (simp add: st' stop_running_ok)
  next
    case False
    with that have others: "connectionToUser (transport s) c' = connectionToUser (transport (application st)) c'" if "c' \<noteq> c" for c'
      using that by blast
    have routes: "c' \<in> get_connections ?st" if "connectionToUser (transport s) c' = Some k" for c' k
      using that ok(2) [of c' k] others [of c'] False \<open>stopped (transport s) \<or> _\<close> assms(3)
      by (cases "c' = c") (auto simp: get_connections_def)
    have "connection_ok tc" using assms(4) by (simp add: life_effect_def)
    with routes ok(1) release False show ?thesis by (simp add: st' server_ok_def)
  qed
  from assms(4) consider
      (quiet) "callbacks (conn tc) = callbacks ?old" "registered (conn tc) = registered ?old"
    | (opened) "callbacks (conn tc) = callbacks ?old @ [ConnectionOpened]" "registered (conn tc)"
    | (failed) e where "callbacks (conn tc) = callbacks ?old @ [ConnectionFailed e]"
    | (reader) "registered ?old" "reader_effect ?old (conn tc)"
    by (auto simp: life_effect_def)
  then show ?thesis
  proof cases
    case quiet
    then have "s = application st" using fold by simp
    with quiet ok(2) show ?thesis by (intro goal) (fastforce simp: get_connections_def)
  next
    case opened
    then have "s = fst (?h ConnectionOpened (application st))" using fold by simp
    with opened show ?thesis by (intro goal) (simp add: handle_effect(1) [OF refl])
  next
    case failed
    then have "s = fst (?h (ConnectionFailed e) (application st))" using fold by simp
    then show ?thesis by (intro goal) (simp add: handle_effect(2) [OF refl])
  next
    case reader
    from reader(2) consider
        (same) "callbacks (conn tc) = callbacks ?old" "registered (conn tc)"
      | (one) cb where "callbacks (conn tc) = callbacks ?old @ [cb]" "registered (conn tc)"
      | (closed) status reason where "callbacks (conn tc) = callbacks ?old @ [ConnectionClosed status reason]"
      | (failed) cbs where "callbacks (conn tc) = callbacks ?old @ [ConnectionFailed MessageSize, cbs]"
      using reader(1) by (auto simp: reader_effect_def)
    then show ?thesis
    proof cases
      case same
      then have "s = application st" using fold by simp
      with same show ?thesis by (intro goal) simp
    next
      case one
      then have "s = fst (?h cb (application st))" using fold by simp
      with one show ?thesis by (intro goal) (simp add: handle_effect(1) [OF refl])
    next
      case closed
      then have "s = fst (?h (ConnectionClosed status reason) (application st))" using fold by simp
      then show ?thesis by (intro goal) (simp add: handle_effect(1,3) [OF refl])
    next
      case failed
      obtain s1 e1 where s1: "?h (ConnectionFailed MessageSize) (application st) = (s1, e1)"
        by (cases "?h (ConnectionFailed MessageSize) (application st)")
      then have "stopped (transport s1)" using handle_effect(2) [OF refl, of emit ops iless decode now c "ConnectionFailed MessageSize" "application st"] by simp
      moreover from s1 have "e1 = None" by (simp add: handle_callback_def)
      then have "s = fst (?h cbs s1)" using fold failed s1 by simp
      ultimately show ?thesis by (intro goal) (simp add: handle_effect(2) [OF refl])
    qed
  qed
qed


lemma phase_conn_time: "time_passes n tc = Some tc' \<Longrightarrow> phase tc' = phase tc \<and> conn tc' = conn tc"
  by (auto simp: time_passes_def split: if_splits)

lemma socket_step_ok:
  assumes "socket_step emit ops iless decode cfg junk e st = Some (st', None)" and "server_ok st"
  shows "server_ok st'"
proof (cases e)
  case (NewConnection c)
  have "connection_ok (accepted cfg (server_clock st))"
    by (simp add: connection_ok_def accepted_def new_ws_connection_def)
  with NewConnection assms show ?thesis
    by (fastforce simp: server_ok_def accept_connection_def get_connections_def split: if_splits)
next
  case (OnConnection c l now)
  with assms(1) obtain tc where guard: "\<not> context_stopped st" "c \<in> set (known st)" and tc: "life_step cfg junk l (conns st c) = Some tc"
    and moves: "connection_moves emit ops iless decode now c tc st = (st', None)"
    by (auto split: if_splits)
  from assms(2) guard have "connection_ok (conns st c)" by (simp add: server_ok_def)
  from moves_ok [OF assms(2) guard life_step_effect [OF tc this] moves] show ?thesis .
next
  case (ClockGoes n)
  with assms(1) have guard: "\<not> context_stopped st"
    and st': "st' = st\<lparr>server_clock := server_clock st + int n,
      conns := (\<lambda>c. if c \<in> set (known st) then the (time_passes n (conns st c)) else conns st c)\<rparr>"
    and all: "list_all (\<lambda>c. time_passes n (conns st c) \<noteq> None) (known st)"
    by (auto simp: clock_goes_def split: if_splits)
  have same: "phase (conns st' c) = phase (conns st c)" "conn (conns st' c) = conn (conns st c)" if known: "c \<in> set (known st)" for c
  proof -
    from all known obtain tc where "time_passes n (conns st c) = Some tc" by (auto simp: list_all_iff)
    with phase_conn_time [OF this] known show "phase (conns st' c) = phase (conns st c)" "conn (conns st' c) = conn (conns st c)"
      by (simp_all add: st')
  qed
  have known: "known st' = known st" "application st' = application st" by (simp_all add: st')
  have "get_connections st' = get_connections st" using same(2) by (auto simp: get_connections_def known(1))
  with assms(2) guard same known show ?thesis by (auto simp: server_ok_def connection_ok_def)
qed

lemma socket_run_induct [consumes 2, case_names step]:
  assumes "socket_run emit ops iless decode cfg junk es st = Some st'" and "P st"
    and "\<And>e s s'. socket_step emit ops iless decode cfg junk e s = Some (s', None) \<Longrightarrow> P s \<Longrightarrow> P s'"
  shows "P st'"
  using assms(1,2)
  by (induction es arbitrary: st) (auto split: option.splits prod.splits dest: assms(3))

text \<open>C30. While the server runs, a connection for which a user is recorded is one of the connections of the
  endpoint: whatever connections come, whatever they send, and however they close, the record never
  outlives the registration.\<close>

theorem recorded_connections_registered:
  assumes "socket_run emit ops iless decode cfg junk es (new_running_server start s) = Some st"
    and "connectionToUser (transport s) = Map.empty" and "\<not> stopped (transport s)"
    and "\<not> context_stopped st" and "connectionToUser (transport (application st)) c = Some k"
  shows "c \<in> get_connections st \<and> phase (conns st c) = Serving \<and> stage (conn (conns st c)) \<noteq> ReadingStopped"
proof -
  have "server_ok (new_running_server start s)" using assms(2,3) by (simp add: server_ok_def new_running_server_def)
  with assms(1) have "server_ok st" by (rule socket_run_induct) (rule socket_step_ok)
  with assms(4,5) show ?thesis by (auto simp: server_ok_def get_connections_def connection_ok_def)
qed

section \<open>Slow peers of a server\<close>

lemma forget_in_time: "server_chain.in_time cfg start tc \<Longrightarrow> server_chain.in_time cfg start (forget_connection tc)"
  by (auto simp: server_chain.in_time_def forget_connection_def awaited_def awaits_nothing_def close_socket_def
      split: server_phase.splits) (simp_all add: on_conn_def)

definition watched :: "timer_config \<Rightarrow> int \<Rightarrow> connection_id \<Rightarrow> 'w running_server \<Rightarrow> bool" where
  "watched cfg start c st \<longleftrightarrow> c \<in> set (known st) \<and> clock (conns st c) = server_clock st \<and>
     server_chain.in_time cfg start (conns st c)"

lemma clock_of_timers [simp]:
  "clock (set_timeout s tc) = clock tc" "clock (cancel_timeout tc) = clock tc" "clock (restart_timeout tc) = clock tc"
  "clock (close_socket tc) = clock tc" "clock (on_conn f tc) = clock tc" "clock (goes_to r tc) = clock tc"
  by (simp_all add: timer_defs on_conn_def goes_to_def Let_def)

lemma clock_timed [simp]:
  "clock (timed_send opcode msg tc) = clock tc" "clock (timed_send_close status reason tc) = clock tc"
  "clock (timed_open tc) = clock tc" "clock (timed_close status reason tc) = clock tc" "clock (timed_error er tc) = clock tc"
  "clock (released tc) = clock tc"
  by (simp_all add: timed_send_def timed_send_close_def timed_open_def timed_close_def timed_error_def released_def)

lemma clock_frame [simp]: "clock (timed_frame_received opcode l bytes tc) = clock tc"
  by (simp add: timed_frame_received_def Let_def)

lemma clock_step: "timed_step m junk tc = Some tc' \<Longrightarrow> clock tc' = clock tc"
  by (cases "stage (conn tc)")
    (auto simp: timed_step_def timed_async_read_def timed_header_read_def timed_length_read_def timed_content_read_def
      timed_message_content_def Let_def split: if_splits)

lemma life_step_clock:
  "life_step cfg junk e tc = Some tc' \<Longrightarrow> (\<And>n. e \<noteq> TimePasses n) \<Longrightarrow> clock tc' = clock tc"
  by (cases e)
    (auto simp: request_read_def answer_written_def timer_handler_def timer_expires_def Let_def clock_step
      split: if_splits option.splits list.splits prod.splits)

lemma forget_clock [simp]: "clock (forget_connection tc) = clock tc"
  by (simp add: forget_connection_def)

lemma watched_stop: "watched cfg start c st \<Longrightarrow> watched cfg start c (stop_running st)"
  by (simp add: watched_def stop_running_def forget_in_time)

lemma moves_watched:
  assumes "connection_moves emit ops iless decode now c' tc st = (st', e)" and "c \<noteq> c' \<Longrightarrow> watched cfg start c st"
    and "c = c' \<Longrightarrow> watched cfg start c (st\<lparr>conns := (conns st)(c := tc)\<rparr>)"
  shows "watched cfg start c st'"
proof -
  have move: "watched cfg start c (st\<lparr>conns := (conns st)(c' := tc), application := s\<rparr>)" for s
    using assms(2,3) by (cases "c = c'") (auto simp: watched_def)
  obtain s e' where "st' = (let st = st\<lparr>conns := (conns st)(c' := tc), application := s\<rparr>
      in if stopped (transport s) then stop_running st else st)"
    using assms(1) by (auto simp: connection_moves_def Let_def split: prod.splits)
  with move [of s] watched_stop [OF move [of s]] show ?thesis by (simp add: Let_def)
qed

lemma watched_step:
  assumes "socket_step emit ops iless decode cfg junk e st = Some (st', None)" and "watched cfg start c st"
    and "0 < timeout_request cfg"
  shows "watched cfg start c st'"
proof (cases e)
  case (NewConnection c')
  with assms show ?thesis by (auto simp: watched_def accept_connection_def split: if_splits)
next
  case (OnConnection c' l now)
  with assms(1) obtain tc where tc: "life_step cfg junk l (conns st c') = Some tc" and time: "\<And>n. l \<noteq> TimePasses n"
    and moves: "connection_moves emit ops iless decode now c' tc st = (st', None)"
    by (auto split: if_splits)
  show ?thesis
  proof (rule moves_watched [OF moves assms(2)])
    assume "c = c'"
    with assms(2) tc life_step_clock [OF tc time] server_chain.in_time_step [OF tc assms(3)]
    show "watched cfg start c (st\<lparr>conns := (conns st)(c := tc)\<rparr>)" by (simp add: watched_def)
  qed
next
  case (ClockGoes n)
  with assms(1) have st': "st' = st\<lparr>server_clock := server_clock st + int n,
      conns := (\<lambda>c. if c \<in> set (known st) then the (time_passes n (conns st c)) else conns st c)\<rparr>"
    and all: "list_all (\<lambda>c. time_passes n (conns st c) \<noteq> None) (known st)"
    by (auto simp: clock_goes_def split: if_splits)
  from assms(2) all obtain tc where tc: "time_passes n (conns st c) = Some tc" by (auto simp: watched_def list_all_iff)
  have "life_step cfg junk (TimePasses n) (conns st c) = Some tc" using tc by simp
  from server_chain.in_time_step [OF this assms(3)] assms(2) have "server_chain.in_time cfg start tc" by (simp add: watched_def)
  moreover have "clock tc = clock (conns st c) + int n" using tc by (auto simp: time_passes_def split: if_splits)
  ultimately show ?thesis using assms(2) tc by (simp add: watched_def st')
qed

text \<open>C31. No peer keeps a server waiting: whatever the other connections do, and whatever comes over this one,
  twice the request timeout after it was accepted its handshake is done, or it is gone, or its socket is
  closed.\<close>

theorem server_sheds_slow_peers:
  assumes "0 < timeout_request cfg"
    and "socket_run emit ops iless decode cfg junk (NewConnection c # es) st = Some st'"
    and "server_clock st + 2 * timeout_request cfg < server_clock st'"
  shows "phase (conns st' c) = Serving \<or> phase (conns st' c) = Ended \<or> \<not> socket_open (conns st' c)"
proof -
  let ?st = "accept_connection cfg c st"
  have run: "socket_run emit ops iless decode cfg junk es ?st = Some st'" using assms(2) by (simp split: if_splits)
  have "server_chain.in_time cfg (server_clock st) (accepted cfg (server_clock st))"
    using assms(1)
    by (simp add: server_chain.in_time_def in_phase_def awaited_def accepted_def timer_defs Let_def conn_timer.truncate_def)
  then have "watched cfg (server_clock st) c ?st"
    by (simp add: watched_def accept_connection_def) (simp add: accepted_def)
  with run have "watched cfg (server_clock st) c st'"
    by (rule socket_run_induct) (rule watched_step [OF _ _ assms(1)])
  then have clock: "clock (conns st' c) = server_clock st'" and "server_chain.in_time cfg (server_clock st) (conns st' c)"
    by (simp_all add: watched_def)
  with server_chain.chain_ends [of cfg junk "[]", OF _ assms(1) this(2)] assms(3) show ?thesis
    by (auto simp: awaits_nothing_def)
qed


section \<open>Examples\<close>

lemmas socket_defs =
  life_defs new_running_server_def accept_connection_def connection_moves_def clock_goes_def new_ws_connection_def
  connection_open_def call_def handle_callback_def on_open_def

text \<open>A peer that connects and sends nothing.\<close>

theorem server_sheds_slow_peers_witness:
  "\<exists>st. socket_run single_emit plain_ops reference_iless (\<lambda>_. new_tree plain_ops) default_config (\<lambda>_. 0)
      [NewConnection 5, NewConnection 6, ClockGoes 5, OnConnection 5 TimerExpires 0, OnConnection 6 TimerExpires 0,
       OnConnection 6 TimerHandlerRuns 0, OnConnection 5 TimerHandlerRuns 0, ClockGoes 6]
      (new_running_server 0 example_ws_service) = Some st \<and>
    phase (conns st 5) = ReadingRequest \<and> \<not> socket_open (conns st 5)"
proof -
  let ?es = "[NewConnection 6, ClockGoes 5, OnConnection 5 TimerExpires 0, OnConnection 6 TimerExpires 0,
       OnConnection 6 TimerHandlerRuns 0, OnConnection 5 TimerHandlerRuns 0, ClockGoes 6]"
  have stopped: "\<not> stopped (transport example_ws_service)"
    by (simp add: example_ws_service_def on_open_def new_ws_server_def)
  have "\<exists>st. socket_run single_emit plain_ops reference_iless (\<lambda>_. new_tree plain_ops) default_config (\<lambda>_. 0)
      (NewConnection 5 # ?es) (new_running_server 0 example_ws_service) = Some st \<and>
    server_clock st = 11 \<and> phase (conns st 5) = ReadingRequest"
    by (simp add: socket_defs stopped Let_def)
  then obtain st where st: "socket_run single_emit plain_ops reference_iless (\<lambda>_. new_tree plain_ops) default_config (\<lambda>_. 0)
      (NewConnection 5 # ?es) (new_running_server 0 example_ws_service) = Some st"
    "server_clock st = 11" "phase (conns st 5) = ReadingRequest" by blast
  have "0 < timeout_request default_config"
    "server_clock (new_running_server 0 example_ws_service) + 2 * timeout_request default_config < server_clock st"
    by (simp_all add: st(2) default_config_def new_running_server_def)
  from server_sheds_slow_peers [OF this(1) st(1) this(2)] st show ?thesis by auto
qed

theorem recorded_connections_registered_witness:
  "\<exists>decode st. socket_run single_emit plain_ops reference_iless decode default_config (\<lambda>_. 0)
      [NewConnection 5, OnConnection 5 (RequestRead (Some ([], []))) 0, OnConnection 5 (AnswerWritten True) 0,
       OnConnection 5 (BytesArrive (client_frame [1, 2, 3, 4] 129 [])) 0, OnConnection 5 ReaderRuns 0,
       OnConnection 5 ReaderRuns 1515931932000000000]
      (new_running_server 0 example_ws_service) = Some st \<and>
    connectionToUser (transport (application st)) 5 = Some 2 \<and> get_connections st = {5}"
proof -
  let ?es = "[NewConnection 5, OnConnection 5 (RequestRead (Some ([], []))) 0, OnConnection 5 (AnswerWritten True) 0,
       OnConnection 5 (BytesArrive (client_frame [1, 2, 3, 4] 129 [])) 0, OnConnection 5 ReaderRuns 0,
       OnConnection 5 ReaderRuns 1515931932000000000]"
  obtain js where js: "ws_of_text plain_ops reference_iless js = Inr (WsData 0 (connect_message 2))"
    using example_connect_text by blast
  let ?open = "example_ws_service\<lparr>transport := on_open 5 (transport example_ws_service)\<rparr>"
  have same: "?open = example_ws_service" by (simp add: example_ws_service_def on_open_def)
  obtain t1 where t1: "track_connection 5 (connect_message 2) (transport example_ws_service) = Inr t1"
    "connectionToUser t1 = [5 \<mapsto> 2]" "\<not> stopped t1"
    by (simp add: track_connection_def connect_message_def example_ws_service_def on_open_def new_ws_server_def)
  from ws_receive_data [OF plain_wire_laws js t1(1), of single_emit 1515931932000000000]
  have to: "connectionToUser (transport (fst (ws_receive single_emit plain_ops reference_iless 1515931932000000000 5 js example_ws_service))) = [5 \<mapsto> 2]"
    using dispatch_transport [of connectionToUser "ws_sendToUser plain_ops reference_iless 1515931932000000000", OF ws_send_keeps(1)] t1(2)
    by auto
  obtain s' where s': "ws_receive single_emit plain_ops reference_iless 1515931932000000000 5 js example_ws_service = (s', None)"
    using connect_gets_rating [OF plain_wire_laws js example_ready(2) example_ws_service_ok(1) example_ready(3,4,1,6,5)] by blast
  have stopped: "\<not> stopped (transport example_ws_service)" "\<not> stopped (transport s')"
    using receive_keeps(2) [of single_emit plain_ops reference_iless 1515931932000000000 5 js example_ws_service] s'
    by (simp_all add: example_ws_service_def on_open_def new_ws_server_def)
  have bytes: "client_frame [1, 2, 3, 4] 129 [] = [129, 128, 1, 2, 3, 4]" by (simp add: client_frame_def masked_def)
  have "\<exists>st. socket_run single_emit plain_ops reference_iless (\<lambda>_. js) default_config (\<lambda>_. 0) ?es
      (new_running_server 0 example_ws_service) = Some st \<and> \<not> context_stopped st \<and> application st = s' \<and> known st = [5]"
    by (simp add: socket_defs stopped same [unfolded on_open_def] s' bytes timed_step_def timed_async_read_def async_read_def timed_header_read_def
        timed_message_content_def timed_content_read_def timed_frame_received_def Let_def)
  then obtain st where st: "socket_run single_emit plain_ops reference_iless (\<lambda>_. js) default_config (\<lambda>_. 0) ?es
      (new_running_server 0 example_ws_service) = Some st" "\<not> context_stopped st" "application st = s'" "known st = [5]" by blast
  have start: "connectionToUser (transport example_ws_service) = Map.empty"
    by (simp add: example_ws_service_def on_open_def new_ws_server_def)
  have "connectionToUser (transport (application st)) 5 = Some 2" using to s' st(3) by simp
  with recorded_connections_registered [OF st(1) start stopped(1) st(2) this] st(1,4) show ?thesis
    by (intro exI [of _ "\<lambda>_. js"] exI [of _ st]) (auto simp: get_connections_def)
qed

text \<open>\<^verbatim>\<open>stop\<close> leaves no connection in the endpoint, closes those that were, and tells nobody: the users stay
  connected for the service, and no handler runs any more.\<close>

lemma stop_tells_nobody:
  "get_connections (stop_running st) = {} \<and> application (stop_running st) = application st \<and>
   (\<forall>c \<in> get_connections st. \<not> socket_open (conns (stop_running st) c)) \<and>
   socket_step emit ops iless decode cfg junk e (stop_running st) = None"
  by (cases e) (auto simp: get_connections_def stop_running_def forget_connection_def close_socket_def on_conn_def)

end
