(* ===== verification/Ws_Lifecycle.thy ===== *)
theory Ws_Lifecycle
  imports Main
begin

text \<open>
  Starting and stopping: \<^verbatim>\<open>SocketServerBase::start\<close> and \<^verbatim>\<open>stop\<close> of \<^verbatim>\<open>webapi/websockets/server_ws.hpp\<close> below
  \<^verbatim>\<open>WsTransportServer::start\<close>, \<^verbatim>\<open>run\<close> and \<^verbatim>\<open>stop\<close>, and the same of the client. The thread that serves and the
  thread that stops it interleave between the accesses to what they share: the stop token with its
  callback, the I/O context, the acceptor, the connection. Each access is one step. \<^verbatim>\<open>run\<close> of the context
  returns when the context is stopped, or out of work.
\<close>

section \<open>The server\<close>

datatype acceptor = Unopened | Listening | AcceptorClosed

text \<open>Where the thread that serves is.\<close>

datatype serving =
    RegisterCallback
  | MakeContext
  | RestartContext
  | MakeAcceptor
  | OpenAcceptor
  | Running
  | Finished
  | Died

text \<open>Where the thread that calls \<^verbatim>\<open>WsTransportServer::stop\<close> is.\<close>

datatype stopping = NotStopping | ClosingAcceptor | StoppingContext | Joining | StopDone

text \<open>\<open>io_service\<close>: no context yet, or one that is stopped or not.\<close>

record server_life =
  io_service :: "bool option"
  internal_io_service :: bool
  acceptor :: "acceptor option"
  stop_requested :: bool
  callback_registered :: bool
  serving :: serving
  stopping :: stopping

text \<open>The thread has just been made, by \<^verbatim>\<open>WsTransportServer::start\<close>.\<close>

definition started :: server_life where
  "started =
     \<lparr>io_service = None, internal_io_service = False, acceptor = None, stop_requested = False,
      callback_registered = False, serving = RegisterCallback, stopping = NotStopping\<rparr>"

text \<open>\<^verbatim>\<open>SocketServerBase::stop\<close>, in its two parts.\<close>

definition close_acceptor :: "server_life \<Rightarrow> server_life" where
  "close_acceptor s = s\<lparr>acceptor := Some AcceptorClosed\<rparr>"

definition stop_context :: "server_life \<Rightarrow> server_life" where
  "stop_context s = (if internal_io_service s then s\<lparr>io_service := Some True\<rparr> else s)"

definition stop_server :: "server_life \<Rightarrow> server_life" where
  "stop_server s = (if acceptor s = None then s else stop_context (close_acceptor s))"

inductive server_life_step :: "server_life \<Rightarrow> server_life \<Rightarrow> bool" where
  register: "serving s = RegisterCallback \<Longrightarrow> \<not> stop_requested s \<Longrightarrow>
    server_life_step s (s\<lparr>callback_registered := True, serving := MakeContext\<rparr>)"
| register_late: "serving s = RegisterCallback \<Longrightarrow> stop_requested s \<Longrightarrow>
    server_life_step s ((stop_server s)\<lparr>serving := MakeContext\<rparr>)"
| make_context: "serving s = MakeContext \<Longrightarrow>
    server_life_step s ((if io_service s = None then s\<lparr>io_service := Some False, internal_io_service := True\<rparr> else s)
      \<lparr>serving := RestartContext\<rparr>)"
| restart_context: "serving s = RestartContext \<Longrightarrow> server_life_step s (s\<lparr>io_service := Some False, serving := MakeAcceptor\<rparr>)"
| make_acceptor: "serving s = MakeAcceptor \<Longrightarrow>
    server_life_step s ((if acceptor s = None then s\<lparr>acceptor := Some Unopened\<rparr> else s)\<lparr>serving := OpenAcceptor\<rparr>)"
| open_acceptor: "serving s = OpenAcceptor \<Longrightarrow> server_life_step s (s\<lparr>acceptor := Some Listening, serving := Running\<rparr>)"
| address_refused: "serving s = OpenAcceptor \<Longrightarrow> server_life_step s (s\<lparr>serving := Died\<rparr>)"
| run_returns: "serving s = Running \<Longrightarrow> io_service s = Some True \<Longrightarrow>
    server_life_step s (s\<lparr>callback_registered := False, serving := Finished\<rparr>)"
| out_of_work: "serving s = Running \<Longrightarrow> acceptor s \<noteq> Some Listening \<Longrightarrow>
    server_life_step s (s\<lparr>callback_registered := False, serving := Finished\<rparr>)"
| connection_fails: "serving s = Running \<Longrightarrow> io_service s = Some False \<Longrightarrow> server_life_step s (stop_server s)"
| request_stop: "stopping s = NotStopping \<Longrightarrow>
    server_life_step s (s\<lparr>stop_requested := True, stopping := (if callback_registered s then ClosingAcceptor else Joining)\<rparr>)"
| nothing_to_close: "stopping s = ClosingAcceptor \<Longrightarrow> acceptor s = None \<Longrightarrow> server_life_step s (s\<lparr>stopping := Joining\<rparr>)"
| acceptor_closed: "stopping s = ClosingAcceptor \<Longrightarrow> acceptor s \<noteq> None \<Longrightarrow>
    server_life_step s ((close_acceptor s)\<lparr>stopping := StoppingContext\<rparr>)"
| context_stopped: "stopping s = StoppingContext \<Longrightarrow> server_life_step s ((stop_context s)\<lparr>stopping := Joining\<rparr>)"
| joined: "stopping s = Joining \<Longrightarrow> serving s = Finished \<Longrightarrow> server_life_step s (s\<lparr>stopping := StopDone\<rparr>)"

inductive_cases server_life_stepE: "server_life_step s s'"

abbreviation server_life_steps :: "server_life \<Rightarrow> server_life \<Rightarrow> bool" where
  "server_life_steps \<equiv> server_life_step\<^sup>*\<^sup>*"

text \<open>The acceptor exists, so the context has been made and will not be restarted.\<close>

definition under_way :: "server_life \<Rightarrow> bool" where
  "under_way s \<longleftrightarrow> serving s \<in> {OpenAcceptor, Running, Finished, Died}"

definition life_inv :: "server_life \<Rightarrow> bool" where
  "life_inv s \<longleftrightarrow>
     (acceptor s \<noteq> None \<longleftrightarrow> under_way s) \<and>
     (serving s \<notin> {RegisterCallback, MakeContext} \<longrightarrow> internal_io_service s \<and> io_service s \<noteq> None) \<and>
     (serving s \<in> {RegisterCallback, MakeContext} \<longrightarrow> io_service s = None) \<and>
     (stopping s = StoppingContext \<longrightarrow> under_way s) \<and>
     (stopping s = NotStopping \<and> serving s \<in> {MakeContext, RestartContext, MakeAcceptor, OpenAcceptor, Running} \<longrightarrow> callback_registered s) \<and>
     (stopping s \<noteq> NotStopping \<longleftrightarrow> stop_requested s)"

lemma life_inv_started: "life_inv started"
  by (simp add: life_inv_def started_def under_way_def)

lemma life_inv_step: "server_life_step s s' \<Longrightarrow> life_inv s \<Longrightarrow> life_inv s'"
  by (induction rule: server_life_step.induct)
    (auto simp: life_inv_def under_way_def stop_server_def close_acceptor_def stop_context_def)

lemma life_inv_steps: "server_life_steps s s' \<Longrightarrow> life_inv s \<Longrightarrow> life_inv s'"
  by (induction rule: rtranclp_induct) (auto intro: life_inv_step)

text \<open>A stop that comes when the server is under way is on its way, or has stopped the context, or the
  thread is gone.\<close>

definition heeded :: "server_life \<Rightarrow> bool" where
  "heeded s \<longleftrightarrow> under_way s \<and>
     (stopping s \<in> {ClosingAcceptor, StoppingContext} \<or> io_service s = Some True \<or> serving s \<in> {Finished, Died})"

lemma heeded_step: "server_life_step s s' \<Longrightarrow> life_inv s \<Longrightarrow> stopping s \<noteq> NotStopping \<Longrightarrow> heeded s \<Longrightarrow>
    heeded s' \<and> stopping s' \<noteq> NotStopping"
  by (induction rule: server_life_step.induct)
    (auto simp: life_inv_def heeded_def under_way_def stop_server_def close_acceptor_def stop_context_def)


lemma under_way_step: "server_life_step s s' \<Longrightarrow> under_way s \<Longrightarrow> under_way s'"
  by (induction rule: server_life_step.induct) (auto simp: under_way_def stop_server_def close_acceptor_def stop_context_def)

lemma stop_is_heeded:
  "server_life_step s s' \<Longrightarrow> life_inv s \<Longrightarrow> under_way s \<Longrightarrow> stopping s = NotStopping \<Longrightarrow> stopping s' = NotStopping \<or> heeded s'"
  by (induction rule: server_life_step.induct)
    (auto simp: life_inv_def heeded_def under_way_def stop_server_def close_acceptor_def stop_context_def)

lemma heeded_steps:
  "server_life_steps s s' \<Longrightarrow> life_inv s \<Longrightarrow> under_way s \<Longrightarrow> stopping s = NotStopping \<Longrightarrow>
    life_inv s' \<and> under_way s' \<and> (stopping s' = NotStopping \<or> heeded s')"
  by (induction rule: rtranclp_induct) (use life_inv_step under_way_step stop_is_heeded heeded_step in blast)+

text \<open>What is left to do for a stop that has been heeded.\<close>

lemma heeded_finishes:
  assumes "heeded s" and "life_inv s" and "stopping s = Joining"
  shows "\<exists>s'. server_life_steps s s' \<and> (stopping s' = StopDone \<or> serving s' = Died)"
proof -
  have run: "\<exists>s'. server_life_steps s s' \<and> stopping s' = StopDone" if "serving s = Finished" "stopping s = Joining" for s
    using joined [OF that(2,1)] by (intro exI [of _ "s\<lparr>stopping := StopDone\<rparr>"]) auto
  have stopped: "\<exists>s'. server_life_steps s s' \<and> stopping s' = StopDone"
    if "serving s = Running" "io_service s = Some True" "stopping s = Joining" for s
    using run_returns [OF that(1,2)] run [of "s\<lparr>callback_registered := False, serving := Finished\<rparr>"] that(3)
    by (auto intro: converse_rtranclp_into_rtranclp)
  consider "serving s = Died" | "serving s = Finished" | "serving s = Running" "io_service s = Some True"
    | "serving s = OpenAcceptor" "io_service s = Some True"
    using assms by (auto simp: heeded_def under_way_def)
  then show ?thesis
  proof cases
    case 4
    from open_acceptor [OF 4(1)] stopped [of "s\<lparr>acceptor := Some Listening, serving := Running\<rparr>"] 4 assms(3)
    show ?thesis by (auto intro: converse_rtranclp_into_rtranclp)
  qed (use run stopped assms(3) in blast)+
qed

text \<open>C28. A stop that comes when the server is under way is heeded, whatever the two threads do in between: once
  the stopping thread waits for the other, the context is stopped, or the thread has ended, and
  from there the stop comes to its end, or the address was refused and the process is gone.\<close>

theorem stop_under_way_returns:
  assumes "server_life_steps started s" and "under_way s" and "stopping s = NotStopping"
    and "server_life_steps s s'" and "stopping s' = Joining"
  shows "(io_service s' = Some True \<or> serving s' \<in> {Finished, Died}) \<and>
    (\<exists>s''. server_life_steps s' s'' \<and> (stopping s'' = StopDone \<or> serving s'' = Died))"
proof -
  have "life_inv s" by (rule life_inv_steps [OF assms(1) life_inv_started])
  from heeded_steps [OF assms(4) this assms(2,3)] assms(5) have "life_inv s'" "heeded s'" by simp_all
  with heeded_finishes [OF this(2,1) assms(5)] assms(5) show ?thesis by (auto simp: heeded_def)
qed

text \<open>The thread from its start to \<^verbatim>\<open>run\<close>.\<close>

lemma starts_up:
  "server_life_steps (started\<lparr>callback_registered := b, serving := MakeContext, stop_requested := q, stopping := j\<rparr>)
    \<lparr>io_service = Some False, internal_io_service = True, acceptor = Some Listening, stop_requested = q,
     callback_registered = b, serving = Running, stopping = j\<rparr>"
proof -
  let ?s = "\<lambda>io int acc pc. \<lparr>io_service = io, internal_io_service = int, acceptor = acc, stop_requested = q,
    callback_registered = b, serving = pc, stopping = j\<rparr>"
  have "server_life_step (?s None False None MakeContext) (?s (Some False) True None RestartContext)"
    using make_context [of "?s None False None MakeContext"] by simp
  moreover have "server_life_step (?s (Some False) True None RestartContext) (?s (Some False) True None MakeAcceptor)"
    using restart_context [of "?s (Some False) True None RestartContext"] by simp
  moreover have "server_life_step (?s (Some False) True None MakeAcceptor) (?s (Some False) True (Some Unopened) OpenAcceptor)"
    using make_acceptor [of "?s (Some False) True None MakeAcceptor"] by simp
  moreover have "server_life_step (?s (Some False) True (Some Unopened) OpenAcceptor) (?s (Some False) True (Some Listening) Running)"
    using open_acceptor [of "?s (Some False) True (Some Unopened) OpenAcceptor"] by simp
  ultimately show ?thesis by (simp add: started_def)
qed

theorem stop_under_way_returns_witness:
  "\<exists>s s' s''. server_life_steps started s \<and> serving s = Running \<and> stopping s = NotStopping \<and>
    server_life_steps s s' \<and> stopping s' = Joining \<and>
    server_life_steps s' s'' \<and> (stopping s'' = StopDone \<or> serving s'' = Died)"
proof -
  let ?s = "\<lparr>io_service = Some False, internal_io_service = True, acceptor = Some Listening, stop_requested = False,
    callback_registered = True, serving = Running, stopping = NotStopping\<rparr>"
  have "server_life_step started (started\<lparr>callback_registered := True, serving := MakeContext\<rparr>)"
    by (rule register) (simp_all add: started_def)
  with starts_up [where b = True and q = False and j = NotStopping] have s: "server_life_steps started ?s"
    by (simp add: started_def converse_rtranclp_into_rtranclp)
  let ?r = "?s\<lparr>stop_requested := True, stopping := ClosingAcceptor\<rparr>"
  have "server_life_step ?s ?r" using request_stop [of ?s] by simp
  moreover have "server_life_step ?r (?r\<lparr>acceptor := Some AcceptorClosed, stopping := StoppingContext\<rparr>)"
    using acceptor_closed [of ?r] by (simp add: close_acceptor_def)
  moreover have "server_life_step (?r\<lparr>acceptor := Some AcceptorClosed, stopping := StoppingContext\<rparr>)
      (?r\<lparr>acceptor := Some AcceptorClosed, io_service := Some True, stopping := Joining\<rparr>)"
    using context_stopped [of "?r\<lparr>acceptor := Some AcceptorClosed, stopping := StoppingContext\<rparr>"] by (simp add: stop_context_def)
  ultimately have s': "server_life_steps ?s (?r\<lparr>acceptor := Some AcceptorClosed, io_service := Some True, stopping := Joining\<rparr>)"
    by simp
  have "under_way ?s" by (simp add: under_way_def)
  from stop_under_way_returns [OF s this _ s'] s s' show ?thesis by fastforce
qed

text \<open>C29. A stop that comes too early is lost: when \<^verbatim>\<open>stop\<close> is called right after \<^verbatim>\<open>start\<close>, the callback finds no
  acceptor and does nothing, the server starts up nevertheless, and \<^verbatim>\<open>stop\<close> waits for a thread that serves
  on; all that can happen then is that a connection fails, which stops the server.\<close>

theorem early_stop_lost:
  "\<exists>s. server_life_steps started s \<and> stop_requested s \<and> stopping s = Joining \<and> serving s = Running \<and>
    acceptor s = Some Listening \<and> (\<forall>s'. server_life_step s s' = (s' = stop_server s))"
proof -
  let ?s = "\<lparr>io_service = Some False, internal_io_service = True, acceptor = Some Listening, stop_requested = True,
    callback_registered = False, serving = Running, stopping = Joining\<rparr>"
  let ?r = "started\<lparr>stop_requested := True, stopping := Joining\<rparr>"
  have "server_life_step started ?r" using request_stop [of started] by (simp add: started_def)
  moreover have "server_life_step ?r (?r\<lparr>serving := MakeContext\<rparr>)"
    using register_late [of ?r] by (simp add: started_def stop_server_def)
  ultimately have "server_life_steps started ?s"
    using starts_up [where b = False and q = True and j = Joining] by (simp add: started_def converse_rtranclp_into_rtranclp)
  moreover have "server_life_step ?s s' = (s' = stop_server ?s)" for s'
    by (auto elim: server_life_stepE intro: connection_fails)
  ultimately show ?thesis by (intro exI [of _ ?s]) simp
qed


section \<open>The client\<close>

text \<open>
  The thread of \<^verbatim>\<open>WsTransportClient::connect\<close> with \<^verbatim>\<open>SocketClientBase::start\<close>, and \<^verbatim>\<open>disconnect\<close>. Here
  \<^verbatim>\<open>stop\<close> looks at the connection and at the context separately, and a context that was stopped before the thread has
  looked at it is restarted. \<open>client_socket\<close>: no connection yet, or one that is open or closed.
\<close>

datatype client_serving = CRegister | CMakeContext | CRestartContext | CConnect | CRunning | CFinished

datatype disconnecting = NotDisconnecting | ClosingConnection | StoppingClientContext | CJoining | Disconnected

record client_thread =
  client_io :: "bool option"
  client_internal :: bool
  client_socket :: "bool option"
  client_stop_requested :: bool
  client_callback :: bool
  client_serving :: client_serving
  disconnecting :: disconnecting

definition client_made :: client_thread where
  "client_made =
     \<lparr>client_io = None, client_internal = False, client_socket = None, client_stop_requested = False,
      client_callback = False, client_serving = CRegister, disconnecting = NotDisconnecting\<rparr>"

definition close_connection :: "client_thread \<Rightarrow> client_thread" where
  "close_connection s = (if client_socket s = None then s else s\<lparr>client_socket := Some False\<rparr>)"

definition stop_client_context :: "client_thread \<Rightarrow> client_thread" where
  "stop_client_context s = (if client_internal s then s\<lparr>client_io := Some True\<rparr> else s)"

definition stop_client :: "client_thread \<Rightarrow> client_thread" where
  "stop_client s = stop_client_context (close_connection s)"

inductive client_thread_step :: "client_thread \<Rightarrow> client_thread \<Rightarrow> bool" where
  c_register: "client_serving s = CRegister \<Longrightarrow> \<not> client_stop_requested s \<Longrightarrow>
    client_thread_step s (s\<lparr>client_callback := True, client_serving := CMakeContext\<rparr>)"
| c_register_late: "client_serving s = CRegister \<Longrightarrow> client_stop_requested s \<Longrightarrow>
    client_thread_step s ((stop_client s)\<lparr>client_serving := CMakeContext\<rparr>)"
| c_make_context: "client_serving s = CMakeContext \<Longrightarrow>
    client_thread_step s ((if client_io s = None then s\<lparr>client_io := Some False, client_internal := True\<rparr> else s)
      \<lparr>client_serving := CRestartContext\<rparr>)"
| c_restart_context: "client_serving s = CRestartContext \<Longrightarrow>
    client_thread_step s (s\<lparr>client_io := Some False, client_serving := CConnect\<rparr>)"
| c_connect: "client_serving s = CConnect \<Longrightarrow>
    client_thread_step s (s\<lparr>client_socket := Some True, client_serving := CRunning\<rparr>)"
| c_run_returns: "client_serving s = CRunning \<Longrightarrow> client_io s = Some True \<Longrightarrow>
    client_thread_step s (s\<lparr>client_callback := False, client_serving := CFinished\<rparr>)"
| c_out_of_work: "client_serving s = CRunning \<Longrightarrow> client_socket s = Some False \<Longrightarrow>
    client_thread_step s (s\<lparr>client_callback := False, client_serving := CFinished\<rparr>)"
| c_connection_ends: "client_serving s = CRunning \<Longrightarrow> client_io s = Some False \<Longrightarrow>
    client_thread_step s (if client_stop_requested s then s\<lparr>client_socket := Some False\<rparr>
      else stop_client (s\<lparr>client_stop_requested := True\<rparr>))"
| c_disconnect: "disconnecting s = NotDisconnecting \<Longrightarrow>
    client_thread_step s (s\<lparr>client_stop_requested := True,
      disconnecting := (if client_callback s \<and> \<not> client_stop_requested s then ClosingConnection else CJoining)\<rparr>)"
| c_connection_closed: "disconnecting s = ClosingConnection \<Longrightarrow>
    client_thread_step s ((close_connection s)\<lparr>disconnecting := StoppingClientContext\<rparr>)"
| c_context_stopped: "disconnecting s = StoppingClientContext \<Longrightarrow>
    client_thread_step s ((stop_client_context s)\<lparr>disconnecting := CJoining\<rparr>)"
| c_joined: "disconnecting s = CJoining \<Longrightarrow> client_serving s = CFinished \<Longrightarrow>
    client_thread_step s (s\<lparr>disconnecting := Disconnected\<rparr>)"

inductive_cases client_thread_stepE: "client_thread_step s s'"

abbreviation client_thread_steps :: "client_thread \<Rightarrow> client_thread \<Rightarrow> bool" where
  "client_thread_steps \<equiv> client_thread_step\<^sup>*\<^sup>*"

text \<open>The thread has looked at the context: nothing restarts it any more.\<close>

definition client_under_way :: "client_thread \<Rightarrow> bool" where
  "client_under_way s \<longleftrightarrow> client_serving s \<in> {CConnect, CRunning, CFinished}"

definition client_inv :: "client_thread \<Rightarrow> bool" where
  "client_inv s \<longleftrightarrow>
     (client_under_way s \<longrightarrow> client_internal s \<and> client_io s \<noteq> None) \<and>
     (client_serving s = CRestartContext \<longrightarrow> client_internal s \<and> client_io s \<noteq> None) \<and>
     (client_serving s \<in> {CRegister, CMakeContext} \<longrightarrow> client_io s = None \<and> \<not> client_internal s) \<and>
     (client_socket s \<noteq> None \<longleftrightarrow> client_serving s \<in> {CRunning, CFinished}) \<and>
     (disconnecting s = NotDisconnecting \<and> client_serving s \<noteq> CRegister \<and> client_serving s \<noteq> CFinished \<longrightarrow>
        client_callback s \<and> (client_stop_requested s \<longrightarrow> client_under_way s \<and> client_io s = Some True)) \<and>
     (disconnecting s = NotDisconnecting \<and> client_serving s = CRegister \<longrightarrow> \<not> client_stop_requested s)"

lemma client_inv_made: "client_inv client_made"
  by (simp add: client_inv_def client_made_def client_under_way_def)

lemma client_inv_step: "client_thread_step s s' \<Longrightarrow> client_inv s \<Longrightarrow> client_inv s'"
  by (induction rule: client_thread_step.induct)
    (auto simp: client_inv_def client_under_way_def stop_client_def close_connection_def stop_client_context_def)

definition client_heeded :: "client_thread \<Rightarrow> bool" where
  "client_heeded s \<longleftrightarrow> client_under_way s \<and>
     (disconnecting s \<in> {ClosingConnection, StoppingClientContext} \<or> client_io s = Some True \<or> client_serving s = CFinished)"

lemma client_heeded_step:
  "client_thread_step s s' \<Longrightarrow> client_inv s \<Longrightarrow> client_under_way s \<Longrightarrow>
    disconnecting s = NotDisconnecting \<or> client_heeded s \<Longrightarrow>
    client_under_way s' \<and> (disconnecting s' = NotDisconnecting \<or> client_heeded s')"
  by (induction rule: client_thread_step.induct)
    (auto simp: client_inv_def client_heeded_def client_under_way_def stop_client_def close_connection_def stop_client_context_def)

text \<open>As for the server: once the thread is past the restart of the context, \<^verbatim>\<open>disconnect\<close> stops it.\<close>

lemma disconnect_under_way:
  assumes "client_thread_steps client_made s" and "client_under_way s" and "disconnecting s = NotDisconnecting"
    and "client_thread_steps s s'" and "disconnecting s' = CJoining"
  shows "client_io s' = Some True \<or> client_serving s' = CFinished"
proof -
  have inv: "client_inv s'" if "client_thread_steps s s'" "client_inv s" for s s'
    using that by (induction rule: rtranclp_induct) (auto intro: client_inv_step)
  have "client_inv s" by (rule inv [OF assms(1) client_inv_made])
  from assms(4) have "client_under_way s' \<and> (disconnecting s' = NotDisconnecting \<or> client_heeded s')"
  proof (induction rule: rtranclp_induct)
    case base
    then show ?case using assms(2,3) by simp
  next
    case (step t t')
    from client_heeded_step [OF step.hyps(2) inv [OF step.hyps(1) \<open>client_inv s\<close>]] step.IH show ?case by simp
  qed
  with assms(5) show ?thesis by (simp add: client_heeded_def)
qed

text \<open>Before that it is lost: here the context is made, stopped by \<^verbatim>\<open>disconnect\<close>, and restarted; then the client
  connects and runs on, and \<^verbatim>\<open>disconnect\<close> waits until the connection ends by itself.\<close>

lemma early_disconnect_lost:
  "\<exists>s. client_thread_steps client_made s \<and> disconnecting s = CJoining \<and> client_serving s = CRunning \<and>
    client_socket s = Some True \<and> (\<forall>s'. client_thread_step s s' = (s' = s\<lparr>client_socket := Some False\<rparr>))"
proof -
  let ?s = "\<lambda>io int sock q cb pc d. \<lparr>client_io = io, client_internal = int, client_socket = sock, client_stop_requested = q,
    client_callback = cb, client_serving = pc, disconnecting = d\<rparr>"
  have "client_thread_step client_made (?s None False None False True CMakeContext NotDisconnecting)"
    using c_register [of client_made] by (simp add: client_made_def)
  moreover have "client_thread_step (?s None False None False True CMakeContext NotDisconnecting)
      (?s (Some False) True None False True CRestartContext NotDisconnecting)"
    using c_make_context [of "?s None False None False True CMakeContext NotDisconnecting"] by simp
  moreover have "client_thread_step (?s (Some False) True None False True CRestartContext NotDisconnecting)
      (?s (Some False) True None True True CRestartContext ClosingConnection)"
    using c_disconnect [of "?s (Some False) True None False True CRestartContext NotDisconnecting"] by simp
  moreover have "client_thread_step (?s (Some False) True None True True CRestartContext ClosingConnection)
      (?s (Some False) True None True True CRestartContext StoppingClientContext)"
    using c_connection_closed [of "?s (Some False) True None True True CRestartContext ClosingConnection"]
    by (simp add: close_connection_def)
  moreover have "client_thread_step (?s (Some False) True None True True CRestartContext StoppingClientContext)
      (?s (Some True) True None True True CRestartContext CJoining)"
    using c_context_stopped [of "?s (Some False) True None True True CRestartContext StoppingClientContext"]
    by (simp add: stop_client_context_def)
  moreover have "client_thread_step (?s (Some True) True None True True CRestartContext CJoining)
      (?s (Some False) True None True True CConnect CJoining)"
    using c_restart_context [of "?s (Some True) True None True True CRestartContext CJoining"] by simp
  moreover have "client_thread_step (?s (Some False) True None True True CConnect CJoining)
      (?s (Some False) True (Some True) True True CRunning CJoining)"
    using c_connect [of "?s (Some False) True None True True CConnect CJoining"] by simp
  ultimately have "client_thread_steps client_made (?s (Some False) True (Some True) True True CRunning CJoining)" by simp
  moreover have "client_thread_step (?s (Some False) True (Some True) True True CRunning CJoining) s' =
      (s' = ?s (Some False) True (Some False) True True CRunning CJoining)" for s'
    using c_connection_ends [of "?s (Some False) True (Some True) True True CRunning CJoining"]
    by (auto elim: client_thread_stepE)
  ultimately show ?thesis by (intro exI [of _ "?s (Some False) True (Some True) True True CRunning CJoining"]) simp
qed

end
