(* ===== verification/Service_Process.thy ===== *)
theory Service_Process
  imports Ws_Lifecycle Service_Run
begin

text \<open>
  \<^verbatim>\<open>ApplicationService::run\<close> over the WebSocket transport (\<open>Ws_Lifecycle\<close>), of which nothing asks the serving
  thread to stop: what a connection that fails does to the process.
\<close>

definition ws_begins :: "server_life \<Rightarrow> server_life \<Rightarrow> bool" where
  "ws_begins t t' \<longleftrightarrow> t' = started"

definition ws_goes :: "server_life \<Rightarrow> server_life \<Rightarrow> bool" where
  "ws_goes t t' \<longleftrightarrow> server_life_step t t' \<and> stopping t' = NotStopping"

definition ws_finished :: "server_life \<Rightarrow> bool" where
  "ws_finished t \<longleftrightarrow> serving t = Finished"

interpretation ws_process: served_process ws_begins ws_goes ws_finished
proof unfold_locales
  fix t t' assume "ws_goes t t'" and "ws_finished t"
  then have "server_life_step t t'" "serving t = Finished" by (simp_all add: ws_goes_def ws_finished_def)
  then show "ws_finished t'" unfolding ws_finished_def
    by (induction rule: server_life_step.induct) (auto simp: stop_server_def stop_context_def close_acceptor_def)
qed

abbreviation ws_process_step :: "server_life service_process \<Rightarrow> server_life service_process \<Rightarrow> bool" where
  "ws_process_step \<equiv> process_step ws_begins ws_goes ws_finished"

abbreviation process_steps :: "server_life service_process \<Rightarrow> server_life service_process \<Rightarrow> bool" where
  "process_steps \<equiv> ws_process_step\<^sup>*\<^sup>*"

definition ws_process_inv :: "server_life service_process \<Rightarrow> bool" where
  "ws_process_inv p \<longleftrightarrow> process_inv ws_finished p \<and>
     (main p \<noteq> BeforeStart \<longrightarrow> life_inv (transport_thread p) \<and> stopping (transport_thread p) = NotStopping)"

lemma ws_inv_step: "ws_process_step p p' \<Longrightarrow> ws_process_inv p \<Longrightarrow> ws_process_inv p'"
proof (unfold ws_process_inv_def, elim conjE, intro conjI)
  assume step: "ws_process_step p p'" and "process_inv ws_finished p"
  then show "process_inv ws_finished p'" by (rule ws_process.inv_step)
  assume "main p \<noteq> BeforeStart \<longrightarrow> life_inv (transport_thread p) \<and> stopping (transport_thread p) = NotStopping"
  with step show "main p' \<noteq> BeforeStart \<longrightarrow> life_inv (transport_thread p') \<and> stopping (transport_thread p') = NotStopping"
    by (induction rule: process_step.induct)
      (use life_inv_started in \<open>auto simp: ws_begins_def ws_goes_def dest: life_inv_step\<close>, simp add: started_def)
qed

lemma ws_inv_steps: "process_steps p p' \<Longrightarrow> ws_process_inv p \<Longrightarrow> ws_process_inv p'"
  by (induction rule: rtranclp_induct) (auto intro: ws_inv_step)

section \<open>The way to the end\<close>

lemma stopped_returns:
  assumes "main p = JoiningTransport" and "serving (transport_thread p) = Running"
    and "io_service (transport_thread p) = Some True" and "stopping (transport_thread p) = NotStopping"
    and "finite (connected (update_thread p))"
  shows "ws_process.can_return p"
proof -
  have "ws_process_step p (p\<lparr>transport_thread := (transport_thread p)\<lparr>callback_registered := False, serving := Finished\<rparr>\<rparr>)"
    using run_returns [OF assms(2,3)] assms(1,4) by (intro transport_goes) (simp_all add: ws_goes_def)
  then show ?thesis
    by (rule ws_process.can_return_step) (use assms in \<open>auto simp: ws_finished_def intro: ws_process.joined_returns\<close>)
qed

text \<open>A context that is stopped stays stopped, and the server does not start again.\<close>

definition going_down :: "server_life service_process \<Rightarrow> bool" where
  "going_down p \<longleftrightarrow> main p \<notin> {BeforeStart, TransportStarted} \<and>
     (serving (transport_thread p) = Running \<and> io_service (transport_thread p) = Some True \<or>
      serving (transport_thread p) = Finished)"

lemma server_going_down:
  "server_life_step s s' \<Longrightarrow> serving s = Running \<and> io_service s = Some True \<or> serving s = Finished \<Longrightarrow>
    serving s' = Running \<and> io_service s' = Some True \<or> serving s' = Finished"
  by (induction rule: server_life_step.induct) (auto simp: stop_context_def close_acceptor_def stop_server_def)

lemma going_down_step: "ws_process_step p p' \<Longrightarrow> going_down p \<Longrightarrow> going_down p'"
  by (induction rule: process_step.induct) (auto simp: going_down_def ws_goes_def dest: server_going_down)

lemma going_down_steps: "process_steps p p' \<Longrightarrow> going_down p \<Longrightarrow> going_down p'"
  by (induction rule: rtranclp_induct) (auto intro: going_down_step)

lemma going_down_returns:
  assumes "ws_process_inv p" and "going_down p"
  shows "ws_process.can_return p"
proof (cases "main p = JoiningTransport \<and> serving (transport_thread p) = Running")
  case True
  with assms show ?thesis by (auto simp: ws_process_inv_def process_inv_def going_down_def intro: stopped_returns)
next
  case False
  from assms(1) have inv: "process_inv ws_finished p" by (simp add: ws_process_inv_def)
  have "main p \<noteq> BeforeStart" using assms(2) by (auto simp: going_down_def)
  moreover have "ws_finished (transport_thread p)"
    using False assms(2) inv by (cases "main p") (auto simp: going_down_def process_inv_def ws_finished_def)
  ultimately show ?thesis by (rule ws_process.finished_returns [OF inv])
qed

text \<open>C27. One connection that fails ends the service: from the moment when \<^verbatim>\<open>on_error\<close> has been called for it, in
  any state a running service has come to, the server never runs again, and however the threads go on from there,
  \<^verbatim>\<open>run\<close> can still return, with the update thread ended; it does as soon as each thread has done its part.\<close>

theorem failed_connection_ends_service:
  assumes "process_steps (process_begins t0) p" and "main p = JoiningTransport"
    and "serving (transport_thread p) = Running" and "io_service (transport_thread p) = Some False"
    and "process_steps (p\<lparr>transport_thread := stop_server (transport_thread p)\<rparr>) p'"
  shows "ws_process_step p (p\<lparr>transport_thread := stop_server (transport_thread p)\<rparr>) \<and>
    (io_service (transport_thread p') = Some True \<or> serving (transport_thread p') = Finished) \<and>
    (\<exists>p''. process_steps p' p'' \<and> main p'' = RunReturned \<and> watcher_pc (update_thread p'') = WatcherEnded)"
proof -
  let ?p = "p\<lparr>transport_thread := stop_server (transport_thread p)\<rparr>"
  have inv: "ws_process_inv p"
    by (rule ws_inv_steps [OF assms(1)]) (simp add: ws_process_inv_def process_inv_begins, simp add: process_begins_def)
  then have acc: "acceptor (transport_thread p) \<noteq> None" "internal_io_service (transport_thread p)"
    "stopping (transport_thread p) = NotStopping"
    using assms(2,3) by (auto simp: ws_process_inv_def life_inv_def under_way_def)
  have "stopping (stop_server (transport_thread p)) = NotStopping"
    using acc by (simp add: stop_server_def stop_context_def close_acceptor_def)
  with connection_fails [OF assms(3,4)] assms(2) have step: "ws_process_step p ?p" by (intro transport_goes) (simp_all add: ws_goes_def)
  have "going_down ?p" using assms(2,3) acc by (auto simp: going_down_def stop_server_def stop_context_def close_acceptor_def)
  with assms(5) have down: "going_down p'" by (rule going_down_steps)
  have inv': "ws_process_inv p'" using ws_inv_step [OF step inv] assms(5) by (rule ws_inv_steps [rotated])
  from going_down_returns [OF inv' down] obtain p'' where p'': "process_steps p' p''" "main p'' = RunReturned"
    by (auto simp: ws_process.can_return_def)
  with ws_inv_steps [OF p''(1) inv'] have "watcher_pc (update_thread p'') = WatcherEnded"
    by (simp add: ws_process_inv_def process_inv_def)
  with step down p'' show ?thesis by (auto simp: going_down_def)
qed


lemma not_stopping_before: "server_life_step t t' \<Longrightarrow> stopping t' = NotStopping \<Longrightarrow> stopping t = NotStopping"
  by (induction rule: server_life_step.induct)
    (auto simp: stop_server_def stop_context_def close_acceptor_def split: if_splits)

lemma transport_goes_on:
  "server_life_steps t t' \<Longrightarrow> stopping t' = NotStopping \<Longrightarrow> main p \<noteq> BeforeStart \<Longrightarrow>
    process_steps (p\<lparr>transport_thread := t\<rparr>) (p\<lparr>transport_thread := t'\<rparr>)"
proof (induction rule: rtranclp_induct)
  case (step t1 t2)
  from not_stopping_before [OF step.hyps(2) step.prems(1)] step.IH step.prems
  have "process_steps (p\<lparr>transport_thread := t\<rparr>) (p\<lparr>transport_thread := t1\<rparr>)" by simp
  moreover have "ws_process_step (p\<lparr>transport_thread := t1\<rparr>) (p\<lparr>transport_thread := t1, transport_thread := t2\<rparr>)"
    using step by (intro transport_goes) (simp_all add: ws_goes_def)
  ultimately show ?case by simp
qed simp

theorem failed_connection_ends_service_witness:
  "\<exists>p p'. process_steps (process_begins started) p \<and> serving (transport_thread p) = Running \<and>
    ws_process_step p (p\<lparr>transport_thread := stop_server (transport_thread p)\<rparr>) \<and>
    process_steps (p\<lparr>transport_thread := stop_server (transport_thread p)\<rparr>) p' \<and> main p' = RunReturned"
proof -
  let ?t = "\<lparr>io_service = Some False, internal_io_service = True, acceptor = Some Listening, stop_requested = False,
    callback_registered = True, serving = Running, stopping = NotStopping\<rparr>"
  let ?b = "process_begins started"
  let ?p = "?b\<lparr>main := JoiningTransport, transport_thread := ?t\<rparr>"
  have "ws_process_step ?b (?b\<lparr>main := TransportStarted, transport_thread := started\<rparr>)"
    by (rule transport_start) (simp_all add: process_begins_def ws_begins_def)
  moreover have "ws_process_step (?b\<lparr>main := TransportStarted, transport_thread := started\<rparr>) (?b\<lparr>main := JoiningTransport\<rparr>)"
    using watcher_start [of "?b\<lparr>main := TransportStarted, transport_thread := started\<rparr>"] by (simp add: process_begins_def)
  moreover have "server_life_step started (started\<lparr>callback_registered := True, serving := MakeContext\<rparr>)"
    by (rule register) (simp_all add: started_def)
  then have "server_life_steps started ?t"
    using starts_up [where b = True and q = False and j = NotStopping] by (simp add: started_def converse_rtranclp_into_rtranclp)
  from transport_goes_on [OF this, of "?b\<lparr>main := JoiningTransport\<rparr>"]
  have "process_steps (?b\<lparr>main := JoiningTransport\<rparr>) ?p" by (simp add: process_begins_def)
  ultimately have "process_steps ?b ?p" by simp
  then obtain p where p: "process_steps ?b p" "main p = JoiningTransport" "serving (transport_thread p) = Running"
    "io_service (transport_thread p) = Some False" by fastforce
  from failed_connection_ends_service [OF p rtranclp.rtrancl_refl] p(1,3) show ?thesis by blast
qed

end
