(* ===== verification/Grpc_Lifecycle.thy ===== *)
theory Grpc_Lifecycle
  imports Grpc_Transport "HOL-Library.Multiset"
begin

text \<open>
  What \<open>Grpc_Transport\<close> leaves out: the moment between the two locks of \<^verbatim>\<open>sendToUser\<close> of
  \<^verbatim>\<open>grpcapi/src/GrpcTransportServer.cpp\<close>, and the life of \<^verbatim>\<open>grpcapi/src/GrpcTransportClient.cpp\<close>: connecting, the receive
  thread, and disconnecting.
\<close>

section \<open>A push in two parts\<close>

text \<open>
  \<^verbatim>\<open>sendToUser\<close> looks up the handle under \<^verbatim>\<open>streamsMutex\<close>, and writes under the mutex of the handle. The handle
  is shared and lives on, but the stream it points to is an object of gRPC that is gone when \<^verbatim>\<open>Connect\<close> has returned;
  to write to it then is undefined. \<open>looked_up\<close>: the pushes that have found their handle.
\<close>

record push_state =
  server :: grpc_server
  looked_up :: "(stream_id \<times> server_event) multiset"
  undefined_write :: bool

definition push_lookup :: "user_identifier \<Rightarrow> base_message \<Rightarrow> push_state \<Rightarrow> push_state" where
  "push_lookup userId message p =
     (case userToHandle (server p) userId of
        None \<Rightarrow> p
      | Some handle \<Rightarrow>
          (let ev = toServerEvent message
           in if ev = None then p else p\<lparr>looked_up := add_mset (handle, ev) (looked_up p)\<rparr>))"

definition push_write :: "stream_id \<Rightarrow> server_event \<Rightarrow> push_state \<Rightarrow> push_state" where
  "push_write handle ev p =
     (let p = p\<lparr>looked_up := looked_up p - {#(handle, ev)#}\<rparr>
      in if sessions (server p) handle = None then p\<lparr>undefined_write := True\<rparr>
         else p\<lparr>server := (server p)\<lparr>written := written (server p) @ [(handle, ev)]\<rparr>\<rparr>)"

inductive push_step :: "push_state \<Rightarrow> push_state \<Rightarrow> bool" where
  session_opens: "sessions (server p) stream = None \<Longrightarrow> push_step p (p\<lparr>server := connect_begin stream (server p)\<rparr>)"
| session_reads: "sessions (server p) stream \<noteq> None \<Longrightarrow>
    push_step p (p\<lparr>server := fst (connect_event stream ev (server p))\<rparr>)"
| session_ends: "sessions (server p) stream \<noteq> None \<Longrightarrow> push_step p (p\<lparr>server := connect_end stream (server p)\<rparr>)"
| handle_found: "push_step p (push_lookup k m p)"
| event_written: "(handle, ev) \<in># looked_up p \<Longrightarrow> push_step p (push_write handle ev p)"

text \<open>Where nothing comes in between, the two parts are the push.\<close>

lemma push_in_one_piece:
  assumes "routes_live (server p)"
  shows "\<exists>p'. push_step\<^sup>*\<^sup>* p p' \<and> server p' = fst (grpc_sendToUser k m (server p)) \<and>
    looked_up p' = looked_up p \<and> undefined_write p' = undefined_write p"
proof (cases "userToHandle (server p) k")
  case None
  then show ?thesis by (intro exI [of _ p]) (simp add: grpc_sendToUser_def)
next
  case (Some h)
  with assms have session: "sessions (server p) h \<noteq> None" by (auto simp: routes_live_def)
  show ?thesis
  proof (cases "toServerEvent m")
    case None
    with Some show ?thesis by (intro exI [of _ p]) (simp add: grpc_sendToUser_def)
  next
    case ev: (Some r)
    let ?p = "push_lookup k m p"
    have found: "?p = p\<lparr>looked_up := add_mset (h, Some r) (looked_up p)\<rparr>" using Some ev by (simp add: push_lookup_def)
    have "push_step p ?p" by (rule handle_found)
    moreover have "push_step ?p (push_write h (Some r) ?p)" by (rule event_written) (simp add: found)
    ultimately have "push_step\<^sup>*\<^sup>* p (push_write h (Some r) ?p)" by simp
    then show ?thesis
      using session Some ev
      by (intro exI [of _ "push_write h (Some r) ?p"]) (auto simp: push_write_def found grpc_sendToUser_def Let_def)
  qed
qed

text \<open>As long as no session ends for which a push has found the handle, every write finds its stream.\<close>

definition handles_live :: "push_state \<Rightarrow> bool" where
  "handles_live p \<longleftrightarrow> routes_live (server p) \<and> (\<forall>(h, ev) \<in># looked_up p. sessions (server p) h \<noteq> None) \<and> \<not> undefined_write p"

lemma handles_live_lookup: "handles_live p \<Longrightarrow> handles_live (push_lookup k m p)"
  by (fastforce simp: handles_live_def push_lookup_def routes_live_def Let_def split: option.splits)

lemma handles_live_write: "handles_live p \<Longrightarrow> (h, ev) \<in># looked_up p \<Longrightarrow> handles_live (push_write h ev p)"
  by (auto simp: handles_live_def push_write_def Let_def routes_live_def dest: in_diffD)

lemma handles_live_step:
  assumes "push_step p p'" and "handles_live p" and "\<forall>(h, ev) \<in># looked_up p. sessions (server p') h \<noteq> None"
  shows "handles_live p'"
  using assms
proof (induction rule: push_step.induct)
  case (session_ends p stream)
  then show ?case by (simp add: handles_live_def routes_live_end)
next
  case (session_opens p stream)
  then show ?case by (simp add: handles_live_def routes_live_begin)
next
  case (session_reads p stream ev)
  then show ?case by (simp add: handles_live_def routes_live_event)
qed (simp_all add: handles_live_lookup handles_live_write)

text \<open>Otherwise the write goes to a stream that is gone: a client that leaves while a rating is pushed to it.\<close>

lemma push_outlives_session:
  assumes "toServerEvent m = Some r"
  shows "\<exists>p. push_step\<^sup>*\<^sup>* \<lparr>server = new_grpc_server, looked_up = {#}, undefined_write = False\<rparr> p \<and> undefined_write p"
proof -
  let ?p0 = "\<lparr>server = new_grpc_server, looked_up = {#}, undefined_write = False\<rparr>"
  let ?p1 = "?p0\<lparr>server := connect_begin 1 (server ?p0)\<rparr>"
  let ?p2 = "?p1\<lparr>server := fst (connect_event 1 (CUserConnected 7) (server ?p1))\<rparr>"
  let ?p3 = "push_lookup 7 m ?p2"
  let ?p4 = "?p3\<lparr>server := connect_end 1 (server ?p3)\<rparr>"
  have p3: "?p3 = ?p2\<lparr>looked_up := {#(1, Some r)#}\<rparr>"
    using assms by (simp add: push_lookup_def connect_event_def Let_def)
  note on = converse_rtranclp_into_rtranclp [of push_step]
  have 1: "push_step ?p0 ?p1" using session_opens [of ?p0 1] by (simp add: new_grpc_server_def)
  have 2: "push_step ?p1 ?p2" using session_reads [of ?p1 1 "CUserConnected 7"] by (simp add: connect_begin_def)
  have 3: "push_step ?p2 ?p3" by (rule handle_found)
  have 4: "push_step ?p3 ?p4"
    by (rule session_ends, subst p3) (simp add: connect_event_def connect_begin_def Let_def)
  have 5: "push_step ?p4 (push_write 1 (Some r) ?p4)" by (rule event_written, subst p3) simp
  have "push_step\<^sup>*\<^sup>* ?p0 (push_write 1 (Some r) ?p4)"
    by (rule on [OF 1 on [OF 2 on [OF 3 on [OF 4 on [OF 5 rtranclp.rtrancl_refl]]]]])
  moreover have "undefined_write (push_write 1 (Some r) ?p4)" by (simp add: push_write_def connect_end_def Let_def)
  ultimately show ?thesis by blast
qed

section \<open>The life of the client\<close>

text \<open>
  \<open>link\<close>: no stream yet (the pointer is null), one that is up, or one whose context was cancelled or whose peer is gone, so
  that \<^verbatim>\<open>Read\<close> returns false. \<open>receiver\<close>: where the receive thread is, \<^verbatim>\<open>Unmade\<close> while there is none, \<open>Joined\<close> once it has
  been waited for. \<^verbatim>\<open>std::thread\<close> ends the process when a thread that can still be joined is overwritten or
  destroyed.
\<close>

datatype grpc_link = NoStream | StreamUp | StreamDown

datatype receiver = Unmade | TestsStopped | Reads | Handles base_message | ReceiverEnded | Joined

record grpc_client =
  link :: grpc_link
  client_stopped :: bool
  receiver :: receiver
  handed :: "base_message list"

definition new_grpc_client :: grpc_client where
  "new_grpc_client = \<lparr>link = NoStream, client_stopped = False, receiver = Unmade, handed = []\<rparr>"

text \<open>\<^verbatim>\<open>connect\<close>; \<open>Inl\<close> where the process ends.\<close>

definition grpc_connect :: "grpc_client \<Rightarrow> grpc_client result" where
  "grpc_connect c =
     (if receiver c \<in> {Unmade, Joined} then Inr (c\<lparr>link := StreamUp, receiver := TestsStopped\<rparr>) else Inl UndefinedBehaviour)"

text \<open>\<^verbatim>\<open>disconnect\<close> up to the join, and whether it then waits.\<close>

definition disconnect_begin :: "grpc_client \<Rightarrow> grpc_client \<times> bool" where
  "disconnect_begin c =
     (if client_stopped c then (c, False)
      else (c\<lparr>client_stopped := True, link := (if link c = StreamUp then StreamDown else link c)\<rparr>, receiver c \<notin> {Unmade, Joined}))"

definition disconnect_join :: "grpc_client \<Rightarrow> grpc_client option" where
  "disconnect_join c = (if receiver c = ReceiverEnded then Some (c\<lparr>receiver := Joined\<rparr>) else None)"

text \<open>The receive thread; \<open>event\<close> is what \<^verbatim>\<open>Read\<close> brings, \<open>None\<close> where it returns false.\<close>

inductive receiver_step :: "grpc_client \<Rightarrow> grpc_client \<Rightarrow> bool" where
  tests: "receiver c = TestsStopped \<Longrightarrow>
    receiver_step c (c\<lparr>receiver := (if client_stopped c then ReceiverEnded else Reads)\<rparr>)"
| reads: "receiver c = Reads \<Longrightarrow> link c = StreamUp \<Longrightarrow>
    receiver_step c (c\<lparr>receiver := (case fromServerEvent event of None \<Rightarrow> TestsStopped | Some m \<Rightarrow> Handles m)\<rparr>)"
| reads_nothing: "receiver c = Reads \<Longrightarrow> link c = StreamDown \<Longrightarrow> receiver_step c (c\<lparr>receiver := ReceiverEnded\<rparr>)"
| handles: "receiver c = Handles m \<Longrightarrow> receiver_step c (c\<lparr>receiver := TestsStopped, handed := handed c @ [m]\<rparr>)"

text \<open>After \<^verbatim>\<open>disconnect\<close> has begun, the thread hands over one message more at most, and ends.\<close>

fun receiver_budget :: "receiver \<Rightarrow> nat" where
  "receiver_budget (Handles m) = 1"
| "receiver_budget _ = 0"

fun receiver_rank :: "receiver \<Rightarrow> nat" where
  "receiver_rank (Handles m) = 2"
| "receiver_rank TestsStopped = 1"
| "receiver_rank Reads = 1"
| "receiver_rank _ = 0"

definition disconnected :: "grpc_client \<Rightarrow> bool" where
  "disconnected c \<longleftrightarrow> client_stopped c \<and> link c = StreamDown \<and> receiver c \<notin> {Unmade, Joined}"

lemma disconnected_step:
  "receiver_step c c' \<Longrightarrow> disconnected c \<Longrightarrow>
    disconnected c' \<and> receiver_rank (receiver c') < receiver_rank (receiver c) \<and>
    length (handed c') + receiver_budget (receiver c') \<le> length (handed c) + receiver_budget (receiver c)"
  by (induction rule: receiver_step.induct) (auto simp: disconnected_def)

lemma disconnected_goes_on: "disconnected c \<Longrightarrow> receiver c \<noteq> ReceiverEnded \<Longrightarrow> \<exists>c'. receiver_step c c'"
  by (cases "receiver c") (auto simp: disconnected_def intro: receiver_step.intros)

lemma disconnect_returns:
  "disconnected c \<Longrightarrow> \<exists>c'. receiver_step\<^sup>*\<^sup>* c c' \<and> disconnect_join c' = Some (c'\<lparr>receiver := Joined\<rparr>) \<and>
    length (handed c') \<le> Suc (length (handed c))"
proof -
  have "\<exists>c'. receiver_step\<^sup>*\<^sup>* c c' \<and> receiver c' = ReceiverEnded \<and>
      length (handed c') + receiver_budget (receiver c') \<le> length (handed c) + receiver_budget (receiver c)"
    if "disconnected c" for c
    using that
  proof (induction "receiver_rank (receiver c)" arbitrary: c rule: less_induct)
    case less
    show ?case
    proof (cases "receiver c = ReceiverEnded")
      case True
      then show ?thesis by blast
    next
      case False
      with disconnected_goes_on less.prems obtain c1 where c1: "receiver_step c c1" by blast
      from disconnected_step [OF c1 less.prems] less.hyps [of c1] obtain c' where
        "receiver_step\<^sup>*\<^sup>* c1 c'" "receiver c' = ReceiverEnded"
        "length (handed c') + receiver_budget (receiver c') \<le> length (handed c) + receiver_budget (receiver c)"
        by (meson le_trans)
      with c1 show ?thesis by (blast intro: converse_rtranclp_into_rtranclp)
    qed
  qed
  moreover assume "disconnected c"
  ultimately obtain c' where c': "receiver_step\<^sup>*\<^sup>* c c'" "receiver c' = ReceiverEnded"
    "length (handed c') + receiver_budget (receiver c') \<le> length (handed c) + receiver_budget (receiver c)" by blast
  moreover have "receiver_budget (receiver c) \<le> 1" by (cases "receiver c") simp_all
  ultimately show "\<exists>c'. receiver_step\<^sup>*\<^sup>* c c' \<and> disconnect_join c' = Some (c'\<lparr>receiver := Joined\<rparr>) \<and>
    length (handed c') \<le> Suc (length (handed c))"
    by (intro exI [of _ c']) (simp add: disconnect_join_def)
qed

text \<open>Disconnecting first and connecting then leaves a client that receives nothing and cannot be disconnected any more,
  so that its destructor ends the process.\<close>

lemma connect_after_disconnect:
  "\<exists>c. grpc_connect (fst (disconnect_begin new_grpc_client)) = Inr c \<and>
    (\<forall>c'. receiver_step\<^sup>*\<^sup>* c c' \<longrightarrow> handed c' = [] \<and> disconnect_begin c' = (c', False) \<and> receiver c' \<noteq> Joined)"
proof -
  let ?c = "\<lparr>link = StreamUp, client_stopped = True, receiver = TestsStopped, handed = []\<rparr>"
  have "grpc_connect (fst (disconnect_begin new_grpc_client)) = Inr ?c"
    by (simp add: grpc_connect_def disconnect_begin_def new_grpc_client_def)
  moreover have "handed c' = [] \<and> client_stopped c' \<and> receiver c' \<in> {TestsStopped, ReceiverEnded}"
    if "receiver_step\<^sup>*\<^sup>* ?c c'" for c'
    using that
  proof (induction rule: rtranclp_induct)
    case (step c1 c2)
    from step.hyps(2) step.IH show ?case by (induction rule: receiver_step.induct) auto
  qed simp
  ultimately show ?thesis by (fastforce simp: disconnect_begin_def)
qed

end
