(* ===== verification/Transport_Agreement.thy ===== *)
theory Transport_Agreement
  imports Grpc_Service
begin

text \<open>
  The two transports against each other. \<^verbatim>\<open>core/ITransportClient.hpp\<close> as a contract of both clients: what is sent
  arrives as it was, in order. And the service behind both servers: the same messages at the same times leave it
  with the same data, for nothing that a transport does reaches the stores.
\<close>

section \<open>The interface of clients\<close>

text \<open>\<open>sent\<close> is what a client has written, read as the server of its kind reads it; \<open>up\<close>: it is connected.\<close>

locale transport_client =
  fixes send :: "base_message \<Rightarrow> 'c \<Rightarrow> 'c outcome" and sent :: "'c \<Rightarrow> base_message list"
    and sendable :: "base_message \<Rightarrow> bool" and up :: "'c \<Rightarrow> bool"
  assumes arrives: "up c \<Longrightarrow> sendable m \<Longrightarrow> \<exists>c'. send m c = (c', None) \<and> up c' \<and> sent c' = sent c @ [m]"
begin

lemma all_arrive:
  "up c \<Longrightarrow> \<forall>m \<in> set ms. sendable m \<Longrightarrow>
    \<exists>c'. fold_outcome send ms c = (c', None) \<and> up c' \<and> sent c' = sent c @ ms"
proof (induction ms arbitrary: c)
  case (Cons m ms)
  then obtain c1 where c1: "send m c = (c1, None)" "up c1" "sent c1 = sent c @ [m]" using arrives [of c m] by auto
  with Cons.IH [OF c1(2)] Cons.prems(2) show ?case by auto
qed simp

end

text \<open>The gRPC client; an exception leaves what is written as it was.\<close>

definition grpc_client_send :: "base_message \<Rightarrow> client_event list \<Rightarrow> client_event list outcome" where
  "grpc_client_send m events = update_by (\<lambda>es _. es) (client_sendMessage m events) events"

definition is_request :: "base_message \<Rightarrow> bool" where
  "is_request m \<longleftrightarrow> well_typed m \<and> msg_type m \<noteq> UserRelativeRating"

lemma request_event:
  assumes "is_request m"
  shows "\<exists>ev. toClientEvent m = Inr ev \<and> parseClientEvent ev = Some m"
proof -
  obtain t d where m: "m = \<lparr>msg_type = t, msg_data = d\<rparr>" by (cases m)
  have "well_typed m" using assms unfolding is_request_def by blast
  then show ?thesis by (cases rule: well_typed_cases) (use m assms in \<open>auto simp: toClientEvent_def is_request_def\<close>)
qed

interpretation grpc_client: transport_client grpc_client_send "List.map_filter parseClientEvent" is_request "\<lambda>c. True"
proof unfold_locales
  fix c :: "client_event list" and m assume "is_request m"
  then obtain ev where ev: "toClientEvent m = Inr ev" "parseClientEvent ev = Some m" using request_event by blast
  then have "ev \<noteq> PayloadNotSet" by auto
  with ev show "\<exists>c'. grpc_client_send m c = (c', None) \<and> True \<and>
      List.map_filter parseClientEvent c' = List.map_filter parseClientEvent c @ [m]"
    by (simp add: grpc_client_send_def client_sendMessage_def map_filter_def)
qed

text \<open>The WebSocket client; it is up from \<^verbatim>\<open>on_open\<close> on.\<close>

definition ws_client_sent ::
  "('t, 'w) ptree_ops \<Rightarrow> (char \<Rightarrow> char \<Rightarrow> bool) \<Rightarrow> 'w ws_client \<Rightarrow> base_message list" where
  "ws_client_sent ops iless c =
     concat (map (\<lambda>p. data_of_text ops iless (snd p)) (filter (\<lambda>p. Some (fst p) = cl_connection c) (wire (cl_protocol c))))"

lemma ws_is_transport_client:
  assumes "wire_laws ops iless"
  shows "transport_client (ws_client_sendMessage ops iless now) (ws_client_sent ops iless) ws_sendable (\<lambda>c. cl_connection c \<noteq> None)"
proof
  fix c :: "'b ws_client" and m assume up: "cl_connection c \<noteq> None" and m: "ws_sendable m"
  let ?p = "cl_protocol c"
  obtain conn where conn: "cl_connection c = Some conn" using up by blast
  obtain js where js: "ws_text ops iless (WsData (fresh_id ?p) m) = Inr js"
    "ws_of_text ops iless js = Inr (WsData (fresh_id ?p) m)"
    using ws_text_roundtrip [OF assms ws_sendable_ordinary [OF m]] by blast
  obtain p where p: "sendMessage ops iless now m conn ?p = (p, None)" "wire p = wire ?p @ [(conn, js)]"
    using js(1) by (auto simp: sendMessage_eq addToResendStore_def Let_def)
  then show "\<exists>c'. ws_client_sendMessage ops iless now m c = (c', None) \<and> cl_connection c' \<noteq> None \<and>
      ws_client_sent ops iless c' = ws_client_sent ops iless c @ [m]"
    using conn js(2) by (simp add: ws_client_sendMessage_def ws_client_sent_def data_of_text_def)
qed

interpretation plain_ws_client: transport_client "ws_client_sendMessage plain_ops reference_iless now"
  "ws_client_sent plain_ops reference_iless" ws_sendable "\<lambda>c. cl_connection c \<noteq> None" for now
  by (rule ws_is_transport_client [OF plain_wire_laws])

section \<open>The data of the service\<close>

text \<open>Everything but the transport.\<close>

definition service_data :: "'t service \<Rightarrow> user_data_store \<times> rating_provider user_deal_data_store \<times> rating_provider \<times> nat \<times> user_identifier set" where
  "service_data s = (userDataStore s, userDealDataStore s, userRatingProvider s, nRatingPositions s, connectedUsers s)"

lemma service_data_eq:
  "service_data s = service_data s' \<longleftrightarrow> userDataStore s = userDataStore s' \<and> userDealDataStore s = userDealDataStore s' \<and>
    userRatingProvider s = userRatingProvider s' \<and> nRatingPositions s = nRatingPositions s' \<and> connectedUsers s = connectedUsers s'"
  by (simp add: service_data_def)

lemma service_data_transport [simp]: "service_data (s\<lparr>transport := t\<rparr>) = service_data s"
  by (simp add: service_data_def)

text \<open>A transport that fails with standard exceptions at most, when it is given a rating.\<close>

definition fails_softly :: "'t sender \<Rightarrow> bool" where
  "fails_softly send \<longleftrightarrow> (\<forall>k r t t' e. send k (rating_message r) t = (t', Some e) \<longrightarrow> is_std_exception e)"

definition agree :: "'t service outcome \<Rightarrow> 'u service outcome \<Rightarrow> bool" where
  "agree r r' \<longleftrightarrow> service_data (fst r) = service_data (fst r') \<and>
     (case (snd r, snd r') of
        (Some e, Some e') \<Rightarrow> is_std_exception e = is_std_exception e'
      | (Some e, None) \<Rightarrow> is_std_exception e
      | (None, Some e') \<Rightarrow> is_std_exception e'
      | _ \<Rightarrow> True)"

lemma agree_caught:
  "agree r r' \<Longrightarrow> agree (caught r) (caught r') \<and> (snd (caught r) = None \<longleftrightarrow> snd (caught r') = None)"
  by (auto simp: agree_def caught_def split: option.splits)

lemma agree_push:
  assumes "fails_softly send" and "fails_softly send'" and "service_data s = service_data s'"
  shows "agree (push_rating send k s) (push_rating send' k s')"
proof (cases "relative_rating (userDataStore s) (nRatingPositions s) k (userRatingProvider s)")
  case (Inl e)
  with assms(3) show ?thesis by (simp add: push_rating_def agree_def service_data_eq)
next
  case (Inr r)
  obtain t e t' e' where sends: "send k (rating_message r) (transport s) = (t, e)" "send' k (rating_message r) (transport s') = (t', e')"
    by fastforce
  with assms(1,2) have "\<forall>x. e = Some x \<longrightarrow> is_std_exception x" "\<forall>x. e' = Some x \<longrightarrow> is_std_exception x"
    unfolding fails_softly_def by blast+
  with Inr sends assms(3) show ?thesis by (auto simp: push_rating_def agree_def service_data_eq split: option.splits)
qed

lemma agree_connected:
  assumes "fails_softly send" and "fails_softly send'" and "service_data s = service_data s'"
  shows "agree (userConnected send now k s) (userConnected send' now k s')"
proof (cases "ensure_present now k (userRatingProvider s)")
  case (Inl e)
  with assms(3) show ?thesis by (simp add: userConnected_def sendUserRelativeRating_def agree_def service_data_eq)
next
  case (Inr p)
  with assms(3) show ?thesis
    unfolding userConnected_def sendUserRelativeRating_def
    by (simp add: service_data_eq) (rule agree_push [OF assms(1,2)], simp add: service_data_eq)
qed

lemma agree_update:
  "service_data s = service_data s' \<Longrightarrow> (\<And>c. service_data (put c s) = service_data (put' c s')) \<Longrightarrow>
    agree (update_by put r s) (update_by put' r s')"
  by (cases r) (simp_all add: agree_def)

lemma agree_with_data:
  "service_data s = service_data s' \<Longrightarrow> (\<And>d. agree (f d s) (g d s')) \<Longrightarrow> agree (with_data r f s) (with_data r g s')"
  by (cases r) (simp_all add: with_data_def agree_def)

lemma agree_dispatch:
  assumes "fails_softly send" and "fails_softly send'" and "service_data s = service_data s'"
  shows "agree (dispatchMessage emit iless send now m s) (dispatchMessage emit iless send' now m s') \<and>
    (snd (dispatchMessage emit iless send now m s) = None \<longleftrightarrow> snd (dispatchMessage emit iless send' now m s') = None)"
proof (cases m)
  case None
  with assms(3) show ?thesis by (simp add: dispatchMessage_def agree_def)
next
  case (Some m)
  have eqs: "userDataStore s' = userDataStore s" "userDealDataStore s' = userDealDataStore s"
    "userRatingProvider s' = userRatingProvider s" "nRatingPositions s' = nRatingPositions s" "connectedUsers s' = connectedUsers s"
    using assms(3) by (simp_all add: service_data_eq)
  have users: "agree (with_data r (\<lambda>d s. update_by (\<lambda>u s. s\<lparr>userDataStore := u\<rparr>) (h d (userDataStore s)) s) s)
      (with_data r (\<lambda>d s. update_by (\<lambda>u s. s\<lparr>userDataStore := u\<rparr>) (h d (userDataStore s)) s) s')"
    for r :: "user_information result" and h
    by (rule agree_with_data [OF assms(3)]) (simp only: eqs, rule agree_update [OF assms(3)], simp add: service_data_eq eqs)
  have deals: "agree (with_data r (\<lambda>d s. update_by (\<lambda>p s. s\<lparr>userRatingProvider := p\<rparr>)
        (deal_store_addDeal emit (userDealDataStore s) d (userRatingProvider s)) s) s)
      (with_data r (\<lambda>d s. update_by (\<lambda>p s. s\<lparr>userRatingProvider := p\<rparr>)
        (deal_store_addDeal emit (userDealDataStore s) d (userRatingProvider s)) s) s')" for r
    by (rule agree_with_data [OF assms(3)]) (simp only: eqs, rule agree_update [OF assms(3)], simp add: service_data_eq eqs)
  have connected: "agree (with_data r (\<lambda>d. userConnected send now (uid_id d)) s) (with_data r (\<lambda>d. userConnected send' now (uid_id d)) s')" for r
    by (rule agree_with_data [OF assms(3)]) (rule agree_connected [OF assms])
  have disconnected: "agree (with_data r (\<lambda>d s. (userDisconnected (uid_id d) s, None)) s)
      (with_data r (\<lambda>d s. (userDisconnected (uid_id d) s, None)) s')" for r
    by (rule agree_with_data [OF assms(3)]) (simp add: agree_def userDisconnected_def service_data_eq eqs)
  have skipped: "agree (with_data r (\<lambda>d s. (s, None)) s) (with_data r (\<lambda>d s. (s, None)) s')" for r :: "string result"
    by (rule agree_with_data [OF assms(3)]) (simp add: agree_def assms(3))
  have "agree (dispatch_body emit iless send now m s) (dispatch_body emit iless send' now m s')"
    unfolding dispatch_body_def
    by (cases "msg_type m") (simp_all only: message_type.distinct if_True if_False simp_thms users [of _ addUser]
        users [of _ "\<lambda>d. renameUser (ui_id d) (ui_name d)"] deals connected disconnected skipped)
  with Some agree_caught show ?thesis by (simp add: dispatchMessage_def)
qed


section \<open>The transports agree\<close>

lemma grpc_fails_softly: "fails_softly grpc_sendToUser"
  by (auto simp: fails_softly_def grpc_sendToUser_def Let_def split: option.splits if_splits)

text \<open>\<^verbatim>\<open>write_json\<close> throws exceptions at most.\<close>

definition printer_ok :: "('t, 'w) ptree_ops \<Rightarrow> bool" where
  "printer_ok ops \<longleftrightarrow> (\<forall>t e. write_json ops t = Inl e \<longrightarrow> is_std_exception e)"

lemma ws_fails_softly:
  assumes "printer_ok ops"
  shows "fails_softly (ws_sendToUser ops iless now)"
proof -
  have "is_std_exception e" if "ws_text ops iless (WsData i (rating_message r)) = Inl e" for i r e
    using that assms
    by (auto simp: ws_text_def serialize_ws_message_def SerializeWsMessage_def serialize_enum_def enum_toString_def
        serialize_base_message_def serialize_message_def rating_message_def printer_ok_def is_std_exception_def
        split: option.splits)
  then show ?thesis
    by (auto simp: fails_softly_def ws_sendToUser_def sendMessage_eq split: option.splits if_splits sum.splits prod.splits)
qed

text \<open>The same request at the same time, as a gRPC event and as a text of the WebSocket protocol.\<close>

definition same_request ::
  "('t, 'w) ptree_ops \<Rightarrow> (char \<Rightarrow> char \<Rightarrow> bool) \<Rightarrow> time_point \<times> stream_id \<times> client_event
    \<Rightarrow> time_point \<times> connection_id \<times> 'w \<Rightarrow> bool" where
  "same_request ops iless g w \<longleftrightarrow> fst g = fst w \<and>
     (\<exists>i m. parseClientEvent (snd (snd g)) = Some m \<and> ws_of_text ops iless (snd (snd w)) = Inr (WsData i m))"

lemma same_request_agrees:
  assumes "wire_laws ops iless" and "printer_ok ops" and "same_request ops iless (now, stream, ev) (now', c, js)"
    and "service_data s = service_data s'"
  shows "agree (grpc_event_arrives emit iless now stream ev s) (ws_receive emit ops iless now' c js s') \<and>
    (snd (grpc_event_arrives emit iless now stream ev s) = None \<longleftrightarrow> snd (ws_receive emit ops iless now' c js s') = None)"
proof -
  from assms(3) obtain i m where m: "parseClientEvent ev = Some m" "ws_of_text ops iless js = Inr (WsData i m)" and now: "now' = now"
    by (auto simp: same_request_def)
  obtain t1 where "track_connection c m (transport s') = Inr t1"
    using m(1) by (cases ev) (auto simp: track_connection_def)
  from ws_receive_data [OF assms(1) m(2) this, of emit now] obtain t2 where
    ws: "ws_receive emit ops iless now c js s' = dispatchMessage emit iless (ws_sendToUser ops iless now) now (Some m) (s'\<lparr>transport := t2\<rparr>)"
    by blast
  obtain t where grpc: "grpc_event_arrives emit iless now stream ev s =
      dispatchMessage emit iless grpc_sendToUser now (Some m) (s\<lparr>transport := t\<rparr>)"
    using m(1) by (simp add: grpc_event_arrives_def connect_event_def Let_def)
  show ?thesis unfolding now ws grpc
    by (rule agree_dispatch [OF grpc_fails_softly ws_fails_softly [OF assms(2)]]) (simp add: assms(4))
qed

text \<open>C3. It does not matter over which transport requests come: a service behind gRPC and one behind WebSockets that
  begin with the same data and get the same requests at the same times, whatever the streams and connections
  they come over, hold the same users, deals, ratings and connected users afterwards, and one of them is ended by
  a request exactly when the other is.\<close>

theorem transports_agree:
  assumes "wire_laws ops iless" and "printer_ok ops" and "list_all2 (same_request ops iless) gs ws"
    and "service_data s = service_data s'"
  shows "service_data (fst (fold_outcome (\<lambda>(now, stream, ev). grpc_event_arrives emit iless now stream ev) gs s)) =
      service_data (fst (fold_outcome (\<lambda>(now, c, js). ws_receive emit ops iless now c js) ws s')) \<and>
    (snd (fold_outcome (\<lambda>(now, stream, ev). grpc_event_arrives emit iless now stream ev) gs s) = None \<longleftrightarrow>
      snd (fold_outcome (\<lambda>(now, c, js). ws_receive emit ops iless now c js) ws s') = None)"
  using assms(3,4)
proof (induction gs ws arbitrary: s s' rule: list_all2_induct)
  case (Cons g gs w ws)
  obtain now stream ev now' c js where gw: "g = (now, stream, ev)" "w = (now', c, js)" by (metis prod_cases3)
  obtain s1 e s1' e' where steps: "grpc_event_arrives emit iless now stream ev s = (s1, e)"
    "ws_receive emit ops iless now' c js s' = (s1', e')" by fastforce
  from same_request_agrees [OF assms(1,2) Cons.hyps(1) [unfolded gw] Cons.prems, of emit] steps
  have "service_data s1 = service_data s1'" "e = None \<longleftrightarrow> e' = None" by (auto simp: agree_def)
  with Cons.IH [of s1 s1'] gw steps show ?case by (cases e; cases e') auto
qed simp

lemma plain_printer_ok: "printer_ok plain_ops"
  by (simp add: printer_ok_def plain_ops_def)



theorem transports_agree_witness:
  "\<exists>js deal. ws_of_text plain_ops reference_iless js = Inr (WsData 0 (connect_message 2)) \<and>
    service_data (fst (fold_outcome (\<lambda>(now, stream, ev). grpc_event_arrives single_emit reference_iless now stream ev)
      [(1515931932000000000, 5, CUserConnected 2), (1515931933000000000, 6, CUserDealWon 3 1515931933 0x3F800000)] example_grpc_service)) =
    service_data (fst (fold_outcome (\<lambda>(now, c, js). ws_receive single_emit plain_ops reference_iless now c js)
      [(1515931932000000000, 5, js), (1515931933000000000, 5, deal)] example_ws_service))"
proof -
  obtain js where js: "ws_of_text plain_ops reference_iless js = Inr (WsData 0 (connect_message 2))"
    using example_connect_text by blast
  let ?d = "\<lparr>di_userId = 3, di_timestamp = 1515931933, di_amount = 0x3F800000\<rparr>"
  have "f32_finite 0x3F800000" by (simp add: f32_defs)
  then obtain deal where deal: "ws_of_text plain_ops reference_iless deal = Inr (WsData 1 (deal_message ?d))"
    using ws_text_roundtrip [OF plain_wire_laws, of "WsData 1 (deal_message ?d)"] by (auto simp: deal_message_def)
  have "list_all2 (same_request plain_ops reference_iless)
      [(1515931932000000000, 5, CUserConnected 2), (1515931933000000000, 6, CUserDealWon 3 1515931933 0x3F800000)]
      [(1515931932000000000, 5, js), (1515931933000000000, 5, deal)]"
    using js deal by (simp add: same_request_def connect_message_def deal_message_def)
  moreover have "service_data example_grpc_service = service_data example_ws_service"
    by (simp add: service_data_def example_grpc_service_def example_ws_service_def)
  ultimately show ?thesis
    using transports_agree [OF plain_wire_laws plain_printer_ok, where s = example_grpc_service and s' = example_ws_service] js by blast
qed

end
