(* ===== verification/Data_Store_Factory.thy ===== *)
theory Data_Store_Factory
  imports User_Data_Store User_Rating_Provider
begin

text \<open>
  \<^verbatim>\<open>tempstore/src/DataStoreFactory.cpp\<close>: both stores are local variables of their getters with static storage, made by the
  first call and shared by all factories and callers. The rest of the development holds the two stores in the
  record of the service; \<open>factory_refines\<close> says that this is the same.
\<close>

record 's statics =
  static_userDataStore :: "user_data_store option"
  static_userDealDataStore :: "'s user_deal_data_store option"

definition program_begins :: "'s statics" where
  "program_begins = \<lparr>static_userDataStore = None, static_userDealDataStore = None\<rparr>"

text \<open>A getter gives a reference; the caller uses it to read or to change the store, which \<open>use\<close> stands for.\<close>

definition getUserDataStore :: "(user_data_store \<Rightarrow> user_data_store \<times> 'a) \<Rightarrow> 's statics \<Rightarrow> 's statics \<times> 'a" where
  "getUserDataStore use st =
     (let userDataStore = (case static_userDataStore st of None \<Rightarrow> empty_user_data_store | Some s \<Rightarrow> s);
          (s, a) = use userDataStore
      in (st\<lparr>static_userDataStore := Some s\<rparr>, a))"

definition getUserDealDataStore ::
  "('s user_deal_data_store \<Rightarrow> 's user_deal_data_store \<times> 'a) \<Rightarrow> 's statics \<Rightarrow> 's statics \<times> 'a" where
  "getUserDealDataStore use st =
     (let userDealDataStore = (case static_userDealDataStore st of None \<Rightarrow> \<lparr>dealAddedSignal = []\<rparr> | Some s \<Rightarrow> s);
          (s, a) = use userDealDataStore
      in (st\<lparr>static_userDealDataStore := Some s\<rparr>, a))"

text \<open>Uses of the two stores, by whichever factory, and their results.\<close>

datatype ('s, 'a) store_use =
    UseUsers "user_data_store \<Rightarrow> user_data_store \<times> 'a"
  | UseDeals "'s user_deal_data_store \<Rightarrow> 's user_deal_data_store \<times> 'a"

fun through_factory :: "('s, 'a) store_use list \<Rightarrow> 's statics \<Rightarrow> 's statics \<times> 'a list" where
  "through_factory [] st = (st, [])"
| "through_factory (UseUsers f # us) st =
     (let (st, a) = getUserDataStore f st; (st, xs) = through_factory us st in (st, a # xs))"
| "through_factory (UseDeals f # us) st =
     (let (st, a) = getUserDealDataStore f st; (st, xs) = through_factory us st in (st, a # xs))"

fun held_directly ::
  "('s, 'a) store_use list \<Rightarrow> user_data_store \<times> 's user_deal_data_store \<Rightarrow> (user_data_store \<times> 's user_deal_data_store) \<times> 'a list" where
  "held_directly [] p = (p, [])"
| "held_directly (UseUsers f # us) (s, d) = (let (s, a) = f s; (p, xs) = held_directly us (s, d) in (p, a # xs))"
| "held_directly (UseDeals f # us) (s, d) = (let (d, a) = f d; (p, xs) = held_directly us (s, d) in (p, a # xs))"

definition the_stores :: "'s statics \<Rightarrow> user_data_store \<times> 's user_deal_data_store" where
  "the_stores st =
     (case static_userDataStore st of None \<Rightarrow> empty_user_data_store | Some s \<Rightarrow> s,
      case static_userDealDataStore st of None \<Rightarrow> \<lparr>dealAddedSignal = []\<rparr> | Some s \<Rightarrow> s)"

lemma the_stores_get:
  "getUserDataStore f st = (st', a) \<Longrightarrow> \<exists>s. f (fst (the_stores st)) = (s, a) \<and> the_stores st' = (s, snd (the_stores st))"
  "getUserDealDataStore g st = (st', a) \<Longrightarrow> \<exists>d. g (snd (the_stores st)) = (d, a) \<and> the_stores st' = (fst (the_stores st), d)"
  by (auto simp: getUserDataStore_def getUserDealDataStore_def the_stores_def Let_def split: prod.splits)

text \<open>Any sequence of uses through factories gives the results, and leaves the stores, that two stores held from the
  start do.\<close>

lemma factory_refines:
  "held_directly us (the_stores st) = map_prod the_stores id (through_factory us st)"
proof (induction us st rule: through_factory.induct)
  case (2 f us st)
  obtain st' a where g: "getUserDataStore f st = (st', a)" by fastforce
  from the_stores_get(1) [OF g] 2 [OF g [symmetric] refl] g show ?case
    by (cases "the_stores st") (auto simp: Let_def split: prod.splits)
next
  case (3 f us st)
  obtain st' a where g: "getUserDealDataStore f st = (st', a)" by fastforce
  from the_stores_get(2) [OF g] 3 [OF g [symmetric] refl] g show ?case
    by (cases "the_stores st") (auto simp: Let_def split: prod.splits)
qed simp

lemma factory_begins: "the_stores program_begins = (empty_user_data_store, \<lparr>dealAddedSignal = []\<rparr>)"
  by (simp add: the_stores_def program_begins_def)

text \<open>A user who was registered through one call is found through the next.\<close>

lemma factory_example:
  "snd (through_factory
     [UseUsers (\<lambda>s. (attempt (addUser u) s, True)), UseDeals (\<lambda>d. (d, True)), UseUsers (\<lambda>s. (s, getUserInformation (ui_id u) s = Inr u))]
     program_begins) = [True, True, True]"
  by (simp add: getUserDataStore_def getUserDealDataStore_def program_begins_def attempt_def user_data_store_defs Let_def)

end
