(* ===== verification/Lock_Discipline.thy ===== *)
theory Lock_Discipline
  imports Core_Types
begin

text \<open>
  Threads that run pieces of code over and over, seen as what they do to mutexes and to memory they share; each
  piece is a list of such actions, and the threads interleave at every action. The locale \<open>lock_discipline\<close>: pieces
  that take mutexes in an order, give back what they took, and touch a guarded place only with its mutex held;
  then no two threads ever race for a guarded place, and the threads never stop each other for good.
\<close>

section \<open>Threads over shared memory\<close>

datatype ('m, 'l) action = Acquire 'm | Release 'm | Reads 'l | Writes 'l

record ('i, 'm, 'l) threads =
  pending :: "'i \<Rightarrow> ('m, 'l) action list"
  holder :: "'m \<Rightarrow> 'i option"

definition at_rest :: "('i, 'm, 'l) threads" where
  "at_rest = \<lparr>pending = (\<lambda>_. []), holder = (\<lambda>_. None)\<rparr>"

text \<open>The next action of a thread; \<open>None\<close> while it waits for a mutex.\<close>

fun act :: "'i \<Rightarrow> ('i, 'm, 'l) threads \<Rightarrow> ('i, 'm, 'l) threads option" where
  "act i s =
     (case pending s i of
        [] \<Rightarrow> None
      | Acquire m # p \<Rightarrow>
          if holder s m = None then Some (s\<lparr>pending := (pending s)(i := p), holder := (holder s)(m \<mapsto> i)\<rparr>) else None
      | Release m # p \<Rightarrow> Some (s\<lparr>pending := (pending s)(i := p), holder := (holder s)(m := None)\<rparr>)
      | _ # p \<Rightarrow> Some (s\<lparr>pending := (pending s)(i := p)\<rparr>))"

declare act.simps [simp del]

inductive threads_step ::
  "('i \<Rightarrow> ('m, 'l) action list set) \<Rightarrow> ('i, 'm, 'l) threads \<Rightarrow> ('i, 'm, 'l) threads \<Rightarrow> bool" for pieces where
  begins: "pending s i = [] \<Longrightarrow> p \<in> pieces i \<Longrightarrow> threads_step pieces s (s\<lparr>pending := (pending s)(i := p)\<rparr>)"
| acts: "act i s = Some s' \<Longrightarrow> threads_step pieces s s'"

fun touches :: "'l \<Rightarrow> ('m, 'l) action list \<Rightarrow> bool" where
  "touches l (Reads l' # p) = (l' = l)"
| "touches l (Writes l' # p) = (l' = l)"
| "touches l _ = False"

fun writes :: "'l \<Rightarrow> ('m, 'l) action list \<Rightarrow> bool" where
  "writes l (Writes l' # p) = (l' = l)"
| "writes l _ = False"

text \<open>Two threads are about to touch the same place, and one of them writes.\<close>

definition race :: "'l \<Rightarrow> ('i, 'm, 'l) threads \<Rightarrow> bool" where
  "race l s \<longleftrightarrow> (\<exists>i j. i \<noteq> j \<and> touches l (pending s i) \<and> writes l (pending s j))"

definition race_between :: "'i \<Rightarrow> 'i \<Rightarrow> 'l \<Rightarrow> ('i, 'm, 'l) threads \<Rightarrow> bool" where
  "race_between i j l s \<longleftrightarrow> i \<noteq> j \<and> touches l (pending s i) \<and> writes l (pending s j)"

lemma race_iff_between: "race l s \<longleftrightarrow> (\<exists>i j. race_between i j l s)"
  by (simp add: race_def race_between_def)

section \<open>The discipline\<close>

fun disciplined :: "('l \<Rightarrow> 'm option) \<Rightarrow> ('m \<Rightarrow> nat) \<Rightarrow> 'm set \<Rightarrow> ('m, 'l) action list \<Rightarrow> bool" where
  "disciplined guard rank held [] = (held = {})"
| "disciplined guard rank held (Acquire m # p) = ((\<forall>h \<in> held. rank h < rank m) \<and> disciplined guard rank (insert m held) p)"
| "disciplined guard rank held (Release m # p) = (m \<in> held \<and> disciplined guard rank (held - {m}) p)"
| "disciplined guard rank held (Reads l # p) =
     ((case guard l of None \<Rightarrow> True | Some m \<Rightarrow> m \<in> held) \<and> disciplined guard rank held p)"
| "disciplined guard rank held (Writes l # p) =
     ((case guard l of None \<Rightarrow> True | Some m \<Rightarrow> m \<in> held) \<and> disciplined guard rank held p)"

lemma disciplined_append:
  "disciplined guard rank held p \<Longrightarrow> disciplined guard rank {} q \<Longrightarrow> disciplined guard rank held (p @ q)"
  by (induction guard rank held p rule: disciplined.induct) simp_all

lemma disciplined_concat:
  "\<forall>p \<in> set ps. disciplined guard rank {} p \<Longrightarrow> disciplined guard rank {} (concat ps)"
  by (induction ps) (simp_all add: disciplined_append)

text \<open>Where nobody else holds a mutex, a thread gets through a disciplined part of its piece by itself.\<close>

lemma run_alone_holding:
  "disciplined guard rank held p \<Longrightarrow> pending s i = p @ q \<Longrightarrow> holder s = (\<lambda>m. if m \<in> held then Some i else None) \<Longrightarrow>
    (threads_step pieces)\<^sup>*\<^sup>* s (s\<lparr>pending := (pending s)(i := q), holder := (\<lambda>_. None)\<rparr>)"
proof (induction guard rank held p arbitrary: s rule: disciplined.induct)
  case (1 guard rank held)
  then have "(pending s)(i := q) = pending s" "holder s = (\<lambda>_. None)" by (auto simp: fun_eq_iff)
  then have "s\<lparr>pending := (pending s)(i := q), holder := (\<lambda>_. None)\<rparr> = s" by (cases s) (simp del: fun_upd_apply)
  then show ?case by (simp del: fun_upd_apply)
next
  case (2 guard rank held m p)
  let ?s = "s\<lparr>pending := (pending s)(i := p @ q), holder := (holder s)(m \<mapsto> i)\<rparr>"
  from 2 have "m \<notin> held" by auto
  with 2 have "act i s = Some ?s" by (simp add: act.simps)
  note step = acts [OF this, of pieces]
  have "holder ?s = (\<lambda>x. if x \<in> insert m held then Some i else None)" using "2.prems" by auto
  from "2.IH" [of ?s, OF _ _ this] "2.prems" have "(threads_step pieces)\<^sup>*\<^sup>* ?s (s\<lparr>pending := (pending s)(i := q), holder := (\<lambda>_. None)\<rparr>)"
    by (simp del: fun_upd_apply add: fun_upd_same)
  with step show ?case by (rule converse_rtranclp_into_rtranclp)
next
  case (3 guard rank held m p)
  let ?s = "s\<lparr>pending := (pending s)(i := p @ q), holder := (holder s)(m := None)\<rparr>"
  from 3 have "act i s = Some ?s" by (simp add: act.simps)
  note step = acts [OF this, of pieces]
  have "holder ?s = (\<lambda>x. if x \<in> held - {m} then Some i else None)" using "3.prems" by auto
  from "3.IH" [of ?s, OF _ _ this] "3.prems" have "(threads_step pieces)\<^sup>*\<^sup>* ?s (s\<lparr>pending := (pending s)(i := q), holder := (\<lambda>_. None)\<rparr>)"
    by (simp del: fun_upd_apply add: fun_upd_same)
  with step show ?case by (rule converse_rtranclp_into_rtranclp)
next
  case (4 guard rank held l p)
  let ?s = "s\<lparr>pending := (pending s)(i := p @ q)\<rparr>"
  from 4 have "act i s = Some ?s" by (simp add: act.simps)
  note step = acts [OF this, of pieces]
  from "4.IH" [of ?s] "4.prems" have "(threads_step pieces)\<^sup>*\<^sup>* ?s (s\<lparr>pending := (pending s)(i := q), holder := (\<lambda>_. None)\<rparr>)"
    by (simp del: fun_upd_apply add: fun_upd_same)
  with step show ?case by (rule converse_rtranclp_into_rtranclp)
next
  case (5 guard rank held l p)
  let ?s = "s\<lparr>pending := (pending s)(i := p @ q)\<rparr>"
  from 5 have "act i s = Some ?s" by (simp add: act.simps)
  note step = acts [OF this, of pieces]
  from "5.IH" [of ?s] "5.prems" have "(threads_step pieces)\<^sup>*\<^sup>* ?s (s\<lparr>pending := (pending s)(i := q), holder := (\<lambda>_. None)\<rparr>)"
    by (simp del: fun_upd_apply add: fun_upd_same)
  with step show ?case by (rule converse_rtranclp_into_rtranclp)
qed

lemma reading_goes:
  "pending s i = map Reads ls @ q \<Longrightarrow> (threads_step pieces)\<^sup>*\<^sup>* s (s\<lparr>pending := (pending s)(i := q)\<rparr>)"
proof (induction ls arbitrary: s)
  case Nil
  then have "(pending s)(i := q) = pending s" by auto
  then show ?case by (cases s) (simp del: fun_upd_apply)
next
  case (Cons l ls)
  let ?s = "s\<lparr>pending := (pending s)(i := map Reads ls @ q)\<rparr>"
  from Cons.prems have "act i s = Some ?s" by (simp add: act.simps)
  note step = acts [OF this, of pieces]
  from Cons.IH [of ?s] have "(threads_step pieces)\<^sup>*\<^sup>* ?s (s\<lparr>pending := (pending s)(i := q)\<rparr>)"
    by (simp del: fun_upd_apply add: fun_upd_same)
  with step show ?case by (rule converse_rtranclp_into_rtranclp)
qed

lemma run_alone:
  assumes "p @ q \<in> pieces i" and "disciplined guard rank {} p" and "pending s i = []" and "holder s = (\<lambda>_. None)"
  shows "(threads_step pieces)\<^sup>*\<^sup>* s (s\<lparr>pending := (pending s)(i := q)\<rparr>)"
proof -
  let ?s = "s\<lparr>pending := (pending s)(i := p @ q)\<rparr>"
  have "(threads_step pieces)\<^sup>*\<^sup>* ?s (?s\<lparr>pending := (pending ?s)(i := q), holder := (\<lambda>_. None)\<rparr>)"
    by (rule run_alone_holding [OF assms(2)]) (simp_all add: assms(4))
  moreover have "?s\<lparr>pending := (pending ?s)(i := q), holder := (\<lambda>_. None)\<rparr> = s\<lparr>pending := (pending s)(i := q)\<rparr>"
    using assms(4) by (cases s) simp
  ultimately have "(threads_step pieces)\<^sup>*\<^sup>* ?s (s\<lparr>pending := (pending s)(i := q)\<rparr>)" by simp
  with begins [of s i "p @ q" pieces, OF assms(3,1)] show ?thesis by (rule converse_rtranclp_into_rtranclp)
qed

locale lock_discipline =
  fixes pieces :: "'i \<Rightarrow> ('m, 'l) action list set" and guard :: "'l \<Rightarrow> 'm option" and rank :: "'m \<Rightarrow> nat" and top :: nat
  assumes pieces_ok: "p \<in> pieces i \<Longrightarrow> disciplined guard rank {} p" and ranks: "rank m < top"
begin

definition holds :: "('i, 'm, 'l) threads \<Rightarrow> 'i \<Rightarrow> 'm set" where
  "holds s i = {m. holder s m = Some i}"

definition ok :: "('i, 'm, 'l) threads \<Rightarrow> bool" where
  "ok s \<longleftrightarrow> (\<forall>i. disciplined guard rank (holds s i) (pending s i))"

lemma ok_at_rest: "ok at_rest"
  by (simp add: ok_def at_rest_def holds_def)

lemma ok_act:
  assumes "act i s = Some s'" and "ok s"
  shows "ok s'"
proof -
  from assms(1) obtain a p where p: "pending s i = a # p" by (auto simp: act.simps split: list.splits)
  from assms(2) have i: "disciplined guard rank (holds s i) (a # p)" and others: "\<And>j. disciplined guard rank (holds s j) (pending s j)"
    unfolding ok_def p [symmetric] by simp_all
  show ?thesis
  proof (cases a)
    case (Acquire m)
    with assms(1) p have free: "holder s m = None"
      and s': "s' = s\<lparr>pending := (pending s)(i := p), holder := (holder s)(m \<mapsto> i)\<rparr>" by (auto simp: act.simps split: if_splits)
    have "holds s' i = insert m (holds s i)" "\<And>j. j \<noteq> i \<Longrightarrow> holds s' j = holds s j"
      using free by (auto simp: holds_def s')
    with i others Acquire show ?thesis by (auto simp: ok_def s')
  next
    case (Release m)
    with assms(1) p have s': "s' = s\<lparr>pending := (pending s)(i := p), holder := (holder s)(m := None)\<rparr>" by (simp add: act.simps)
    from i Release have "holder s m = Some i" by (simp add: holds_def)
    then have "holds s' i = holds s i - {m}" "\<And>j. j \<noteq> i \<Longrightarrow> holds s' j = holds s j"
      by (auto simp: holds_def s')
    with i others Release show ?thesis by (auto simp: ok_def s')
  next
    case (Reads l)
    with assms(1) p i others show ?thesis by (auto simp: act.simps ok_def holds_def)
  next
    case (Writes l)
    with assms(1) p i others show ?thesis by (auto simp: act.simps ok_def holds_def)
  qed
qed

lemma ok_step: "threads_step pieces s s' \<Longrightarrow> ok s \<Longrightarrow> ok s'"
proof (induction rule: threads_step.induct)
  case (begins s i p)
  then have "holds s i = {}" by (auto simp: ok_def dest: spec [of _ i])
  moreover have "holds (s\<lparr>pending := (pending s)(i := p)\<rparr>) j = holds s j" for j by (simp add: holds_def)
  ultimately show ?case using begins pieces_ok by (auto simp: ok_def)
qed (rule ok_act)

lemma reachable_ok: "(threads_step pieces)\<^sup>*\<^sup>* at_rest s \<Longrightarrow> ok s"
  by (induction rule: rtranclp_induct) (auto intro: ok_at_rest ok_step)

lemma touching_holds: "ok s \<Longrightarrow> guard l = Some m \<Longrightarrow> touches l (pending s i) \<Longrightarrow> holder s m = Some i"
  by (cases "(l, pending s i)" rule: touches.cases) (auto simp: ok_def holds_def dest: spec [of _ i])

lemma writing_touches: "writes l p \<Longrightarrow> touches l p"
  by (cases "(l, p)" rule: writes.cases) auto

text \<open>Guarded places are safe.\<close>

lemma no_race:
  assumes "(threads_step pieces)\<^sup>*\<^sup>* at_rest s" and "guard l = Some m"
  shows "\<not> race l s"
proof
  assume "race l s"
  then obtain i j where "i \<noteq> j" "touches l (pending s i)" "touches l (pending s j)"
    by (auto simp: race_def dest: writing_touches)
  with touching_holds [OF reachable_ok [OF assms(1)] assms(2)] show False by (metis option.inject)
qed

text \<open>A thread that waits for a mutex waits for one that holds it and goes on, or waits for a higher one.\<close>

lemma waiting_for:
  assumes "ok s" and "pending s i \<noteq> []" and "act i s = None"
  obtains m p j where "pending s i = Acquire m # p" and "holder s m = Some j" and "pending s j \<noteq> []"
    and "\<And>m' q. pending s j = Acquire m' # q \<Longrightarrow> rank m < rank m'"
proof -
  from assms(2,3) obtain m p where p: "pending s i = Acquire m # p" "holder s m \<noteq> None"
    by (auto simp: act.simps split: list.splits action.splits if_splits)
  then obtain j where j: "holder s m = Some j" by blast
  then have m: "m \<in> holds s j" by (simp add: holds_def)
  have ok: "disciplined guard rank (holds s j) (pending s j)" using assms(1) by (simp add: ok_def)
  with m have "pending s j \<noteq> []" by auto
  moreover have "rank m < rank m'" if "pending s j = Acquire m' # q" for m' q using ok m that by auto
  ultimately show thesis using p(1) j by (intro that) auto
qed

lemma no_deadlock:
  assumes "(threads_step pieces)\<^sup>*\<^sup>* at_rest s" and "pending s i \<noteq> []"
  shows "\<exists>j. act j s \<noteq> None"
proof -
  have "\<exists>j. act j s \<noteq> None" if "pending s i = Acquire m # p" for i m p
    using that
  proof (induction "top - rank m" arbitrary: i m p rule: less_induct)
    case less
    show ?case
    proof (cases "act i s")
      case None
      from waiting_for [OF reachable_ok [OF assms(1)] _ None] less.prems obtain j where
        j: "pending s j \<noteq> []" "\<And>m' q. pending s j = Acquire m' # q \<Longrightarrow> rank m < rank m'"
        by (metis action.inject(1) list.distinct(1) list.inject)
      show ?thesis
      proof (cases "act j s")
        case None: None
        from waiting_for [OF reachable_ok [OF assms(1)] j(1) None] obtain m' q where q: "pending s j = Acquire m' # q" by metis
        with j(2) ranks [of m] have "top - rank m' < top - rank m" by (simp add: diff_less_mono2)
        from less.hyps [OF this q] show ?thesis .
      qed auto
    qed auto
  qed
  then show ?thesis
    using waiting_for [OF reachable_ok [OF assms(1)] assms(2)] by (cases "act i s") (metis, auto)
qed

end

end
