(* ===== verification/Shared_State.thy ===== *)
theory Shared_State
  imports Lock_Discipline
begin

text \<open>
  The memory that the threads of the service share, over either transport: the threads that run the handlers (over WebSockets
  those of the pool, five unless told otherwise; over gRPC one for each \<^verbatim>\<open>Connect\<close> call), the update thread, the period thread
  and, over WebSockets, the resend thread. Each operation is given by what it does to mutexes and to shared objects, in the
  order of the code; parameters say which way it goes, how many users a getter looks up, and where an exception
  ends it. The functions themselves are modelled elsewhere, one at a time. Of the WebSocket server below, the timer of a
  connection is here, which everything that is sent sets again; the list of its connections and the closing of sockets are
  not, nor is what the libraries outside the repository lock.
\<close>

section \<open>Mutexes, places and threads\<close>

text \<open>Each stream of gRPC has a handle with a mutex; \<open>StreamWrites\<close>: what is written to it. Each connection of the
  WebSocket server has a timer with a mutex.\<close>

datatype service_mutex =
  WatcherMutex | StoreMutex | ConnectionsMutex | ResendStoreMutex | StreamsMutex | WriteMutex nat | TimerMutex nat

datatype place =
  ConnectedUsers | DealTable | PeriodBounds | UserRegistry | Routes | ResendStore | OutCounter | StreamRoutes | StreamWrites nat |
  ConnectionTimer nat

datatype worker = IoThread nat | UpdateThread | PeriodThread | ResendThread

datatype transport_kind = WebSocket | Grpc

type_synonym accesses = "(service_mutex, place) action list"

section \<open>What the operations touch\<close>

text \<open>\<^verbatim>\<open>UserDataStore\<close> has no mutex; \<^verbatim>\<open>renameUser\<close> writes only where the user is found, \<^verbatim>\<open>addUser\<close> where not.\<close>

definition addUser_accesses :: "bool \<Rightarrow> accesses" where
  "addUser_accesses known = Reads UserRegistry # (if known then [] else [Writes UserRegistry])"

definition renameUser_accesses :: "bool \<Rightarrow> accesses" where
  "renameUser_accesses known = Reads UserRegistry # (if known then [Writes UserRegistry] else [])"

definition isUserPresent_accesses :: accesses where
  "isUserPresent_accesses = [Reads DealTable]"

definition addDeal_accesses :: "bool \<Rightarrow> accesses" where
  "addDeal_accesses accepted =
     Reads PeriodBounds # (if accepted then [Acquire StoreMutex, Writes DealTable, Release StoreMutex] else [])"

text \<open>The four getters: the table, and then the users found.\<close>

definition positions_accesses :: "nat \<Rightarrow> accesses" where
  "positions_accesses n =
     [Acquire StoreMutex, Reads DealTable] @ replicate n (Reads UserRegistry) @ [Release StoreMutex]"

definition period_accesses :: accesses where
  "period_accesses =
     [Reads PeriodBounds, Acquire StoreMutex, Writes DealTable, Release StoreMutex, Reads PeriodBounds, Writes PeriodBounds,
      Reads PeriodBounds]"

text \<open>\<^verbatim>\<open>set_timeout\<close> and \<^verbatim>\<open>cancel_timeout\<close> of a connection, and \<^verbatim>\<open>send\<close>, which calls both and then posts to the strand.\<close>

definition timer_accesses :: "nat \<Rightarrow> accesses" where
  "timer_accesses c = [Acquire (TimerMutex c), Writes (ConnectionTimer c), Release (TimerMutex c)]"

definition connection_send_accesses :: "nat \<Rightarrow> accesses" where
  "connection_send_accesses c = timer_accesses c @ timer_accesses c"

text \<open>\<^verbatim>\<open>sendMessage\<close> of the protocol; \<open>None\<close>: the text cannot be made, which ends it before anything is sent.\<close>

definition sendMessage_accesses :: "nat option \<Rightarrow> accesses" where
  "sendMessage_accesses connection =
     [Reads OutCounter, Writes OutCounter] @
     (case connection of
        None \<Rightarrow> []
      | Some c \<Rightarrow> connection_send_accesses c @ [Acquire ResendStoreMutex, Writes ResendStore, Release ResendStoreMutex])"

definition sendToUser_accesses :: "bool \<Rightarrow> nat option \<Rightarrow> accesses" where
  "sendToUser_accesses routed connection =
     [Acquire ConnectionsMutex, Reads Routes, Release ConnectionsMutex] @ (if routed then sendMessage_accesses connection else [])"

text \<open>Over gRPC: a handle is looked up, and then written to, unless the message is not one to be sent.\<close>

definition grpc_sendToUser_accesses :: "nat option \<Rightarrow> accesses" where
  "grpc_sendToUser_accesses handle =
     [Acquire StreamsMutex, Reads StreamRoutes, Release StreamsMutex] @
     (case handle of None \<Rightarrow> [] | Some n \<Rightarrow> [Acquire (WriteMutex n), Writes (StreamWrites n), Release (WriteMutex n)])"

fun pushes :: "transport_kind \<Rightarrow> accesses set" where
  "pushes WebSocket = {sendToUser_accesses routed connection | routed connection. True}"
| "pushes Grpc = range grpc_sendToUser_accesses"

text \<open>\<open>lookups\<close>: the users that the getters look up, one number for each getter that is called; \<open>push\<close>: what the
  transport does then.\<close>

definition rating_accesses :: "bool \<Rightarrow> bool \<Rightarrow> nat list \<Rightarrow> accesses \<Rightarrow> accesses" where
  "rating_accesses present accepted lookups push =
     isUserPresent_accesses @ (if present then [] else addDeal_accesses accepted) @ concat (map positions_accesses lookups) @ push"

text \<open>The position of the user comes first, with one user to look up where the table has the user; each getter may
  be the last, where an exception leaves it.\<close>

definition ratings :: "transport_kind \<Rightarrow> accesses set" where
  "ratings t = {rating_accesses present accepted (n # ns) push | present accepted n ns push.
     n \<le> 1 \<and> (ns \<noteq> [] \<longrightarrow> n = 1) \<and> length ns \<le> 3 \<and> (push = [] \<or> length ns = 3 \<and> push \<in> pushes t)}"

definition connectedUsers_accesses :: accesses where
  "connectedUsers_accesses = [Acquire WatcherMutex, Writes ConnectedUsers, Release WatcherMutex]"

definition track_accesses :: accesses where
  "track_accesses = [Acquire ConnectionsMutex, Writes Routes, Release ConnectionsMutex]"

definition ack_accesses :: accesses where
  "ack_accesses = [Acquire ResendStoreMutex, Writes ResendStore, Release ResendStoreMutex]"

text \<open>An update cycle, and a pass over the resend store; each may find nothing and wait, without the mutex. The pass sends
  with the mutex held; \<open>Some cs\<close>: the connections that it sends on.\<close>

definition update_accesses :: "accesses list option \<Rightarrow> accesses" where
  "update_accesses cycle =
     (case cycle of
        None \<Rightarrow> [Acquire WatcherMutex, Reads ConnectedUsers, Release WatcherMutex]
      | Some rs \<Rightarrow> [Acquire WatcherMutex, Reads ConnectedUsers, Reads ConnectedUsers, Release WatcherMutex] @ concat rs)"

definition resend_accesses :: "nat list option \<Rightarrow> accesses" where
  "resend_accesses pass =
     [Acquire ResendStoreMutex, Reads ResendStore] @
     (case pass of
        None \<Rightarrow> []
      | Some cs \<Rightarrow> concat (map (\<lambda>c. Reads ResendStore # connection_send_accesses c @ [Writes ResendStore]) cs) @
          [Reads ResendStore, Writes ResendStore]) @
     [Release ResendStoreMutex]"

text \<open>\<^verbatim>\<open>Connect\<close>, for each event it has read, and at its end.\<close>

definition stream_accesses :: accesses where
  "stream_accesses = [Acquire StreamsMutex, Writes StreamRoutes, Release StreamsMutex]"

text \<open>What \<^verbatim>\<open>dispatchMessage\<close> does for each type of message, and the handlers around it. Over WebSockets a message is
  acknowledged first; the readers and writers of a connection set its timer.\<close>

definition user_requests :: "accesses set" where
  "user_requests = range addUser_accesses \<union> range renameUser_accesses \<union> range addDeal_accesses"

definition connection_requests :: "transport_kind \<Rightarrow> accesses set" where
  "connection_requests t = {connectedUsers_accesses} \<union> {connectedUsers_accesses @ r | r. r \<in> ratings t}"

fun handler_pieces :: "transport_kind \<Rightarrow> accesses set" where
  "handler_pieces WebSocket =
     {ack_accesses, track_accesses} \<union> range timer_accesses \<union> range connection_send_accesses \<union>
     {connection_send_accesses c @ p | c p. p \<in> user_requests} \<union>
     {connection_send_accesses c @ track_accesses @ p | c p. p \<in> connection_requests WebSocket}"
| "handler_pieces Grpc =
     {stream_accesses} \<union> {stream_accesses @ p | p. p \<in> user_requests \<union> connection_requests Grpc}"

fun service_pieces :: "transport_kind \<Rightarrow> worker \<Rightarrow> accesses set" where
  "service_pieces t (IoThread n) = handler_pieces t"
| "service_pieces t UpdateThread = {update_accesses None} \<union> {update_accesses (Some rs) | rs. set rs \<subseteq> ratings t}"
| "service_pieces t PeriodThread = {period_accesses}"
| "service_pieces t ResendThread = (if t = WebSocket then range resend_accesses else {})"

lemmas access_defs =
  addUser_accesses_def renameUser_accesses_def isUserPresent_accesses_def addDeal_accesses_def period_accesses_def
  sendMessage_accesses_def sendToUser_accesses_def connectedUsers_accesses_def track_accesses_def ack_accesses_def
  update_accesses_def stream_accesses_def grpc_sendToUser_accesses_def timer_accesses_def connection_send_accesses_def

section \<open>The discipline of the service\<close>

text \<open>Which mutex guards what, as far as one does. That of a timer is the only one that is taken while another is held.\<close>

fun guarded_by :: "place \<Rightarrow> service_mutex option" where
  "guarded_by ConnectedUsers = Some WatcherMutex"
| "guarded_by Routes = Some ConnectionsMutex"
| "guarded_by ResendStore = Some ResendStoreMutex"
| "guarded_by StreamRoutes = Some StreamsMutex"
| "guarded_by (StreamWrites n) = Some (WriteMutex n)"
| "guarded_by (ConnectionTimer n) = Some (TimerMutex n)"
| "guarded_by _ = None"

fun lock_rank :: "service_mutex \<Rightarrow> nat" where
  "lock_rank (TimerMutex c) = 1"
| "lock_rank _ = 0"

abbreviation well_locked :: "service_mutex set \<Rightarrow> accesses \<Rightarrow> bool" where
  "well_locked \<equiv> disciplined guarded_by lock_rank"

lemma positions_well_locked: "well_locked {} (positions_accesses n)"
proof -
  have "well_locked {StoreMutex} (replicate n (Reads UserRegistry) @ [Release StoreMutex])" by (induction n) simp_all
  then show ?thesis by (simp add: positions_accesses_def)
qed

lemma resend_well_locked: "well_locked {} (resend_accesses pass)"
proof -
  have "well_locked {ResendStoreMutex} (concat (map (\<lambda>c. Reads ResendStore # connection_send_accesses c @ [Writes ResendStore]) cs) @
      [Reads ResendStore, Writes ResendStore, Release ResendStoreMutex])" for cs
    by (induction cs) (simp_all add: connection_send_accesses_def timer_accesses_def)
  then show ?thesis by (simp add: resend_accesses_def split: option.split)
qed

lemma sending_well_locked: "well_locked {} (timer_accesses c)" "well_locked {} (connection_send_accesses c)"
  by (simp_all add: timer_accesses_def connection_send_accesses_def)

lemma pushes_well_locked: "p \<in> pushes t \<Longrightarrow> well_locked {} p"
  by (cases t) (auto simp: access_defs split: option.split)

lemma ratings_well_locked: "r \<in> ratings t \<Longrightarrow> well_locked {} r"
  unfolding ratings_def rating_accesses_def
  by (auto simp: positions_well_locked pushes_well_locked isUserPresent_accesses_def addDeal_accesses_def
      intro!: disciplined_append disciplined_concat)

lemma user_requests_well_locked: "p \<in> user_requests \<Longrightarrow> well_locked {} p"
  by (auto simp: user_requests_def access_defs split: if_splits)

lemma connection_requests_well_locked: "p \<in> connection_requests t \<Longrightarrow> well_locked {} p"
  by (auto simp: connection_requests_def connectedUsers_accesses_def ratings_well_locked)

lemma handlers_well_locked: "p \<in> handler_pieces t \<Longrightarrow> well_locked {} p"
  by (cases t)
    (auto simp: ack_accesses_def track_accesses_def stream_accesses_def user_requests_well_locked connection_requests_well_locked
      sending_well_locked intro!: disciplined_append)

interpretation service_threads: lock_discipline "service_pieces t" guarded_by lock_rank 2 for t
proof unfold_locales
  fix p i assume p: "p \<in> service_pieces t i"
  show "well_locked {} p"
  proof (cases i)
    case (IoThread n)
    with p show ?thesis by (simp add: handlers_well_locked)
  next
    case UpdateThread
    have "well_locked {} (concat rs)" if "set rs \<subseteq> ratings t" for rs
      using that by (intro disciplined_concat) (auto intro: ratings_well_locked)
    with UpdateThread p show ?thesis by (auto simp: update_accesses_def)
  qed (use p in \<open>auto simp: period_accesses_def resend_well_locked split: if_splits\<close>)
next
  show "lock_rank m < 2" for m by (cases m) simp_all
qed

abbreviation service_runs :: "transport_kind \<Rightarrow> (worker, service_mutex, place) threads \<Rightarrow> bool" where
  "service_runs t s \<equiv> (threads_step (service_pieces t))\<^sup>*\<^sup>* at_rest s"

text \<open>C19. The threads of the service, however many run the handlers, never race for the connected users, for the routes of
  either transport, for the resend store, for the writing end of a stream or for the timer of a connection, and they never stop each other for good:
  whenever some thread has something left to do, some thread can go on.\<close>

theorem guarded_state_is_safe:
  assumes "service_runs t s"
  shows "(\<forall>l m. guarded_by l = Some m \<longrightarrow> \<not> race l s) \<and> (pending s i \<noteq> [] \<longrightarrow> (\<exists>j. act j s \<noteq> None))"
  using service_threads.no_race [OF assms] service_threads.no_deadlock [OF assms] by blast

text \<open>A handler in the set of connected users, and the update thread that waits for it.\<close>

definition update_waits :: "(worker, service_mutex, place) threads" where
  "update_waits = \<lparr>
     pending = (\<lambda>_. [])(IoThread 0 := [Writes ConnectedUsers, Release WatcherMutex],
       UpdateThread := [Acquire WatcherMutex, Reads ConnectedUsers, Release WatcherMutex]),
     holder = [WatcherMutex \<mapsto> IoThread 0]\<rparr>"

lemma update_waits_reached: "service_runs WebSocket update_waits"
proof -
  let ?s = "at_rest\<lparr>pending := (pending at_rest)(IoThread 0 := connectedUsers_accesses)\<rparr> :: (worker, service_mutex, place) threads"
  let ?s1 = "?s\<lparr>pending := (pending ?s)(IoThread 0 := [Writes ConnectedUsers, Release WatcherMutex]), holder := [WatcherMutex \<mapsto> IoThread 0]\<rparr>"
  have "service_runs WebSocket ?s"
    by (rule run_alone [of "connection_send_accesses 0 @ track_accesses" connectedUsers_accesses "service_pieces WebSocket" _ guarded_by lock_rank])
      (auto simp: at_rest_def track_accesses_def connection_requests_def connection_send_accesses_def timer_accesses_def)
  moreover have "threads_step (service_pieces WebSocket) ?s ?s1"
    by (rule acts [of "IoThread 0"]) (simp add: act.simps connectedUsers_accesses_def at_rest_def)
  moreover have "threads_step (service_pieces WebSocket) ?s1 update_waits"
    using begins [of ?s1 UpdateThread "update_accesses None" "service_pieces WebSocket"] by (simp add: update_waits_def at_rest_def update_accesses_def)
  ultimately show ?thesis by (meson rtranclp.rtrancl_into_rtrancl)
qed

theorem guarded_state_is_safe_witness:
  "\<not> race ConnectedUsers update_waits \<and> act UpdateThread update_waits = None \<and> (\<exists>j. act j update_waits \<noteq> None)"
  using guarded_state_is_safe [OF update_waits_reached, of UpdateThread] by (simp add: update_waits_def act.simps)

section \<open>What is not guarded\<close>

text \<open>Two threads that each come to the point before an access of the same place.\<close>

lemma both_come:
  assumes "i \<noteq> j" and "p @ q \<in> service_pieces t i" and "p' @ q' \<in> service_pieces t j"
    and "well_locked {} p" and "well_locked {} p'"
  shows "\<exists>s. service_runs t s \<and> pending s i = q \<and> pending s j = q'"
proof -
  let ?s = "at_rest\<lparr>pending := (pending at_rest)(i := q)\<rparr> :: (worker, service_mutex, place) threads"
  have "service_runs t ?s"
    by (rule run_alone [of p q "service_pieces t", OF assms(2,4)]) (simp_all add: at_rest_def)
  moreover have "(threads_step (service_pieces t))\<^sup>*\<^sup>* ?s (?s\<lparr>pending := (pending ?s)(j := q')\<rparr>)"
    by (rule run_alone [of p' q' "service_pieces t", OF assms(3,5)]) (use assms(1) in \<open>simp_all add: at_rest_def\<close>)
  ultimately have "service_runs t (?s\<lparr>pending := (pending ?s)(j := q')\<rparr>)" by (rule rtranclp_trans)
  with assms(1) show ?thesis by (intro exI [of _ "?s\<lparr>pending := (pending ?s)(j := q')\<rparr>"]) simp
qed

text \<open>The same when the second thread comes there with a mutex that it has taken last.\<close>

lemma both_come_locked:
  assumes "i \<noteq> j" and "p @ q \<in> service_pieces t i" and "p' @ Acquire m # map Reads ls @ q' \<in> service_pieces t j"
    and "well_locked {} p" and "well_locked {} p'"
  shows "\<exists>s. service_runs t s \<and> pending s i = q \<and> pending s j = q'"
proof -
  let ?s = "at_rest\<lparr>pending := (pending at_rest)(i := q)\<rparr> :: (worker, service_mutex, place) threads"
  let ?s1 = "?s\<lparr>pending := (pending ?s)(j := Acquire m # map Reads ls @ q')\<rparr>"
  let ?s2 = "?s1\<lparr>pending := (pending ?s1)(j := map Reads ls @ q'), holder := (holder ?s1)(m \<mapsto> j)\<rparr>"
  let ?s3 = "?s2\<lparr>pending := (pending ?s2)(j := q')\<rparr>"
  have "service_runs t ?s"
    by (rule run_alone [of p q "service_pieces t", OF assms(2,4)]) (simp_all add: at_rest_def)
  moreover have "(threads_step (service_pieces t))\<^sup>*\<^sup>* ?s ?s1"
    by (rule run_alone [of p' _ "service_pieces t", OF assms(3,5)]) (use assms(1) in \<open>simp_all add: at_rest_def\<close>)
  moreover have "threads_step (service_pieces t) ?s1 ?s2" by (rule acts [of j]) (simp add: act.simps at_rest_def)
  moreover have "(threads_step (service_pieces t))\<^sup>*\<^sup>* ?s2 ?s3" by (rule reading_goes [of _ j ls]) simp
  ultimately have "service_runs t ?s3" by (meson rtranclp.rtrancl_into_rtrancl rtranclp_trans)
  with assms(1) show ?thesis by (intro exI [of _ ?s3]) simp
qed

definition before_handler :: "transport_kind \<Rightarrow> accesses" where
  "before_handler t = (case t of WebSocket \<Rightarrow> connection_send_accesses 0 | Grpc \<Rightarrow> stream_accesses)"

lemma before_handler_locked: "well_locked {} (before_handler t)"
  by (simp add: before_handler_def stream_accesses_def sending_well_locked split: transport_kind.split)

lemma handler_piece: "p \<in> user_requests \<Longrightarrow> before_handler t @ p \<in> service_pieces t (IoThread n)"
  by (cases t) (auto simp: before_handler_def)

lemma rating_piece: "n \<le> 1 \<Longrightarrow> rating_accesses present accepted [n] [] \<in> ratings t"
  unfolding ratings_def by fastforce

lemma cycle_piece:
  assumes "r \<in> ratings t"
  shows "[Acquire WatcherMutex, Reads ConnectedUsers, Reads ConnectedUsers, Release WatcherMutex] @ r \<in> service_pieces t UpdateThread"
proof -
  have "update_accesses (Some [r]) \<in> service_pieces t UpdateThread" using assms by auto
  then show ?thesis by (simp add: update_accesses_def)
qed

lemmas race_pieces = rating_accesses_def isUserPresent_accesses_def positions_accesses_def

lemma adding_meets_lookup:
  "\<exists>s. service_runs t s \<and> pending s (IoThread n) = [Writes UserRegistry] \<and>
    pending s UpdateThread = [Reads UserRegistry, Release StoreMutex]"
proof (rule both_come_locked)
  show "[Acquire WatcherMutex, Reads ConnectedUsers, Reads ConnectedUsers, Release WatcherMutex, Reads DealTable] @
      Acquire StoreMutex # map Reads [DealTable] @ [Reads UserRegistry, Release StoreMutex] \<in> service_pieces t UpdateThread"
    using cycle_piece [OF rating_piece [of 1 True False t]] by (simp add: race_pieces)
  have "addUser_accesses False \<in> user_requests" by (simp add: user_requests_def)
  from handler_piece [OF this, of t n]
  show "(before_handler t @ [Reads UserRegistry]) @ [Writes UserRegistry] \<in> service_pieces t (IoThread n)"
    by (simp add: addUser_accesses_def)
  show "well_locked {} (before_handler t @ [Reads UserRegistry])" by (rule disciplined_append [OF before_handler_locked]) simp
qed simp_all

lemma deal_piece: "before_handler t @ addDeal_accesses True \<in> service_pieces t (IoThread n)"
  by (rule handler_piece) (simp add: user_requests_def)

lemma deal_meets_test:
  "\<exists>s. service_runs t s \<and> pending s UpdateThread = isUserPresent_accesses @ positions_accesses 1 \<and>
    pending s (IoThread n) = [Writes DealTable, Release StoreMutex]"
proof (rule both_come_locked)
  show "[Acquire WatcherMutex, Reads ConnectedUsers, Reads ConnectedUsers, Release WatcherMutex] @
      isUserPresent_accesses @ positions_accesses 1 \<in> service_pieces t UpdateThread"
    using cycle_piece [OF rating_piece [of 1 True False t]] by (simp add: rating_accesses_def)
  show "(before_handler t @ [Reads PeriodBounds]) @ Acquire StoreMutex # map Reads [] @ [Writes DealTable, Release StoreMutex] \<in>
      service_pieces t (IoThread n)"
    using deal_piece [of t n] by (simp add: addDeal_accesses_def)
  show "well_locked {} (before_handler t @ [Reads PeriodBounds])" by (rule disciplined_append [OF before_handler_locked]) simp
qed simp_all

lemma period_meets_deal:
  "\<exists>s. service_runs t s \<and> pending s PeriodThread = [Writes PeriodBounds, Reads PeriodBounds] \<and>
    pending s (IoThread n) = addDeal_accesses True"
proof (rule both_come)
  show "[Reads PeriodBounds, Acquire StoreMutex, Writes DealTable, Release StoreMutex, Reads PeriodBounds] @
      [Writes PeriodBounds, Reads PeriodBounds] \<in> service_pieces t PeriodThread" by (simp add: period_accesses_def)
  show "before_handler t @ addDeal_accesses True \<in> service_pieces t (IoThread n)" by (rule deal_piece)
  show "well_locked {} (before_handler t)" by (rule before_handler_locked)
qed simp_all

text \<open>A push by a handler, and one in an update cycle.\<close>

definition before_push :: accesses where
  "before_push = Reads DealTable # concat (map positions_accesses [1, 1, 0, 0]) @
     [Acquire ConnectionsMutex, Reads Routes, Release ConnectionsMutex]"

lemma pushing_rating: "before_push @ sendMessage_accesses (Some c) \<in> ratings WebSocket"
proof -
  have "sendToUser_accesses True (Some c) \<in> pushes WebSocket" by auto
  then have "rating_accesses True False [1, 1, 0, 0] (sendToUser_accesses True (Some c)) \<in> ratings WebSocket"
    unfolding ratings_def by fastforce
  then show ?thesis by (simp add: before_push_def rating_accesses_def sendToUser_accesses_def isUserPresent_accesses_def)
qed

lemma before_push_locked: "well_locked {} before_push"
  by (simp add: before_push_def positions_accesses_def eval_nat_numeral)

lemma pushes_meet:
  "\<exists>s. service_runs WebSocket s \<and> pending s UpdateThread = drop 1 (sendMessage_accesses (Some c)) \<and>
    pending s (IoThread n) = sendMessage_accesses (Some d)"
proof (rule both_come)
  let ?cycle = "[Acquire WatcherMutex, Reads ConnectedUsers, Reads ConnectedUsers, Release WatcherMutex]"
  let ?handler = "connection_send_accesses d @ track_accesses @ connectedUsers_accesses"
  show "(?cycle @ before_push @ [Reads OutCounter]) @ drop 1 (sendMessage_accesses (Some c)) \<in> service_pieces WebSocket UpdateThread"
    using cycle_piece [OF pushing_rating [of c]] by (simp add: sendMessage_accesses_def)
  have "connectedUsers_accesses @ before_push @ sendMessage_accesses (Some d) \<in> connection_requests WebSocket"
    using pushing_rating [of d] by (auto simp: connection_requests_def)
  then show "(?handler @ before_push) @ sendMessage_accesses (Some d) \<in> service_pieces WebSocket (IoThread n)" by auto
  have "well_locked {} (before_push @ [Reads OutCounter])" by (rule disciplined_append [OF before_push_locked]) simp
  then show "well_locked {} (?cycle @ before_push @ [Reads OutCounter])" by simp
  have "well_locked {} ?handler"
    by (simp add: connection_send_accesses_def timer_accesses_def track_accesses_def connectedUsers_accesses_def)
  then show "well_locked {} (?handler @ before_push)" by (rule disciplined_append [OF _ before_push_locked])
qed simp

text \<open>C20. The users, the table of ratings, the bounds of the period and, over WebSockets, the counter of messages are touched
  without a common mutex, and races for each of them happen, in whichever thread the handler runs: a handler that has
  looked for a user is about to add it while the update thread, at the position of a user, is about to look one up; a
  handler is about to insert a deal while the update thread is about to ask whether a user is present; the
  period thread is about to replace the period while a handler is about to test a deal against it; the update thread is
  about to write the counter while a handler, pushing too, is about to read it.\<close>

theorem unguarded_state_races:
  "(\<exists>s. service_runs t s \<and> pending s (IoThread n) = drop 1 (addUser_accesses False) \<and>
      pending s UpdateThread = drop 2 (positions_accesses 1) \<and> race_between UpdateThread (IoThread n) UserRegistry s) \<and>
   (\<exists>s. service_runs t s \<and> pending s (IoThread n) = drop 2 (addDeal_accesses True) \<and>
      pending s UpdateThread = isUserPresent_accesses @ positions_accesses 1 \<and> race_between UpdateThread (IoThread n) DealTable s) \<and>
   (\<exists>s. service_runs t s \<and> pending s PeriodThread = drop 5 period_accesses \<and>
      pending s (IoThread n) = addDeal_accesses True \<and> race_between (IoThread n) PeriodThread PeriodBounds s) \<and>
   (\<exists>s. service_runs WebSocket s \<and> pending s UpdateThread = drop 1 (sendMessage_accesses (Some c)) \<and>
      pending s (IoThread n) = sendMessage_accesses (Some d) \<and> race_between (IoThread n) UpdateThread OutCounter s)"
proof (intro conjI)
  show "\<exists>s. service_runs t s \<and> pending s (IoThread n) = drop 1 (addUser_accesses False) \<and>
      pending s UpdateThread = drop 2 (positions_accesses 1) \<and> race_between UpdateThread (IoThread n) UserRegistry s"
    using adding_meets_lookup [of t n] by (auto simp: addUser_accesses_def positions_accesses_def race_between_def)
  show "\<exists>s. service_runs t s \<and> pending s (IoThread n) = drop 2 (addDeal_accesses True) \<and>
      pending s UpdateThread = isUserPresent_accesses @ positions_accesses 1 \<and> race_between UpdateThread (IoThread n) DealTable s"
    using deal_meets_test [of t n] by (auto simp: addDeal_accesses_def isUserPresent_accesses_def race_between_def)
  show "\<exists>s. service_runs t s \<and> pending s PeriodThread = drop 5 period_accesses \<and>
      pending s (IoThread n) = addDeal_accesses True \<and> race_between (IoThread n) PeriodThread PeriodBounds s"
    using period_meets_deal [of t n] by (auto simp: period_accesses_def addDeal_accesses_def race_between_def)
  show "\<exists>s. service_runs WebSocket s \<and> pending s UpdateThread = drop 1 (sendMessage_accesses (Some c)) \<and>
      pending s (IoThread n) = sendMessage_accesses (Some d) \<and> race_between (IoThread n) UpdateThread OutCounter s"
    using pushes_meet [of c n d] by (auto simp: sendMessage_accesses_def race_between_def)
qed

end
