(* ===== verification/Unit_Tests.thy ===== *)
theory Unit_Tests
  imports Rating_Table Time_Helper Ws_Message User_Data_Store
begin

text \<open>
  The unit tests of the repository (\<^verbatim>\<open>core/test\<close>, \<^verbatim>\<open>tempstore/test\<close>, \<^verbatim>\<open>webapi/test\<close>), run against the model. A test case
  is what its checks come to: whether they all hold, or the exception that leaves it. The \<^verbatim>\<open>double\<close> values that amounts are compared
  with are taken as tenths; a variable that a test leaves uninitialised is a parameter.
\<close>

section \<open>Checks\<close>

text \<open>\<^verbatim>\<open>BOOST_REQUIRE\<close> and \<^verbatim>\<open>BOOST_TEST\<close>; \<^verbatim>\<open>BOOST_REQUIRE_THROW\<close> for the two exception classes.\<close>

definition passes :: "bool result \<Rightarrow> bool" where
  "passes test \<longleftrightarrow> test = Inr True"

fun throws_base_exception :: "'a result \<Rightarrow> bool" where
  "throws_base_exception (Inl (BaseException m)) = True"
| "throws_base_exception _ = False"

fun throws_serializer_exception :: "'a result \<Rightarrow> bool" where
  "throws_serializer_exception (Inl (SerializerException m)) = True"
| "throws_serializer_exception _ = False"

text \<open>\<^verbatim>\<open>tolerance(0.001)\<close>: the difference is at most a thousandth of either number. The second number is in tenths.\<close>

definition close_to :: "f32 \<Rightarrow> int \<Rightarrow> bool" where
  "close_to x n \<longleftrightarrow> f32_finite x \<and>
     (let d = \<bar>10 * f32_scaled x - n * 2 ^ 149\<bar> in 1000 * d \<le> \<bar>10 * f32_scaled x\<bar> \<and> 1000 * d \<le> \<bar>n * 2 ^ 149\<bar>)"

section \<open>The container\<close>

text \<open>The literals \<^verbatim>\<open>0.0\<close> to \<^verbatim>\<open>0.9\<close> as \<^verbatim>\<open>float\<close>: the nearest ones.\<close>

fun tenths :: "nat \<Rightarrow> f32" where
  "tenths n = [0, 0x3DCCCCCD, 0x3E4CCCCD, 0x3E99999A, 0x3ECCCCCD, 0x3F000000, 0x3F19999A, 0x3F333333, 0x3F4CCCCD, 0x3F666666] ! n"

declare tenths.simps [simp del]

lemma tenths_values:
  "f32_scaled (tenths 0) = 0" "f32_scaled (tenths 1) = 13421773 * 2 ^ 122" "f32_scaled (tenths 2) = 13421773 * 2 ^ 123"
  "f32_scaled (tenths 3) = 10066330 * 2 ^ 124" "f32_scaled (tenths 4) = 13421773 * 2 ^ 124"
  "f32_scaled (tenths 5) = 8388608 * 2 ^ 125" "f32_scaled (tenths 6) = 10066330 * 2 ^ 125"
  "f32_scaled (tenths 7) = 11744051 * 2 ^ 125" "f32_scaled (tenths 8) = 13421773 * 2 ^ 125"
  "f32_scaled (tenths 9) = 15099494 * 2 ^ 125"
  by (simp_all add: tenths.simps f32_defs)

lemma tenths_nearest:
  "2 * \<bar>10 * f32_scaled (tenths 1) - 1 * 2 ^ 149\<bar> \<le> 10 * 2 ^ 122" "2 * \<bar>10 * f32_scaled (tenths 2) - 2 * 2 ^ 149\<bar> \<le> 10 * 2 ^ 123"
  "2 * \<bar>10 * f32_scaled (tenths 3) - 3 * 2 ^ 149\<bar> \<le> 10 * 2 ^ 124" "2 * \<bar>10 * f32_scaled (tenths 4) - 4 * 2 ^ 149\<bar> \<le> 10 * 2 ^ 124"
  "2 * \<bar>10 * f32_scaled (tenths 5) - 5 * 2 ^ 149\<bar> \<le> 10 * 2 ^ 125" "2 * \<bar>10 * f32_scaled (tenths 6) - 6 * 2 ^ 149\<bar> \<le> 10 * 2 ^ 125"
  "2 * \<bar>10 * f32_scaled (tenths 7) - 7 * 2 ^ 149\<bar> \<le> 10 * 2 ^ 125" "2 * \<bar>10 * f32_scaled (tenths 8) - 8 * 2 ^ 149\<bar> \<le> 10 * 2 ^ 125"
  "2 * \<bar>10 * f32_scaled (tenths 9) - 9 * 2 ^ 149\<bar> \<le> 10 * 2 ^ 125"
  by (simp_all add: tenths_values [unfolded One_nat_def])

lemma below_ten: "n < 10 \<Longrightarrow> n = 0 \<or> n = 1 \<or> n = 2 \<or> n = 3 \<or> n = 4 \<or> n = 5 \<or> n = 6 \<or> n = 7 \<or> n = 8 \<or> n = 9"
  for n :: nat
  by presburger

lemma tenths_finite: "n < 10 \<Longrightarrow> f32_finite (tenths n)"
  by (drule below_ten, elim disjE) (simp_all add: tenths.simps f32_defs)

lemma tenths_nonneg: "n < 10 \<Longrightarrow> f32_nonneg (tenths n)"
  by (drule below_ten, elim disjE) (simp_all add: tenths.simps f32_defs)

lemma tenths_close: "n < 10 \<Longrightarrow> close_to (tenths n) (int n)"
  by (frule below_ten, elim disjE) (simp_all add: close_to_def tenths_finite tenths_values [unfolded One_nat_def])

lemma tenths_step: "Suc n < 10 \<Longrightarrow> f32_scaled (tenths n) < f32_scaled (tenths (Suc n))"
  by (frule Suc_lessD, drule below_ten, elim disjE) (simp_all add: tenths_values [unfolded One_nat_def] flip: numeral_2_eq_2)

lemma tenths_mono: "n < m \<Longrightarrow> m < 10 \<Longrightarrow> f32_scaled (tenths n) < f32_scaled (tenths m)"
proof (induction m)
  case (Suc m)
  then show ?case using tenths_step [of m] by (cases "n = m") auto
qed simp

lemma tenths_order: "m < 10 \<Longrightarrow> n < 10 \<Longrightarrow> f32_greater (tenths m) (tenths n) \<longleftrightarrow> n < m"
  using tenths_mono [of n m] tenths_mono [of m n] f32_finite_not_nan [OF tenths_finite]
  by (cases n m rule: linorder_cases) (auto simp: f32_greater_def)

definition fixture_users :: "(user_identifier \<times> f32) list" where
  "fixture_users = [(5, tenths 4), (9, tenths 0), (1, tenths 8), (0, tenths 9), (2, tenths 7), (4, tenths 5), (6, tenths 3),
     (7, tenths 2), (3, tenths 6), (8, tenths 1)]"

definition container_fixture :: "deal_container result" where
  "container_fixture = fold_result insert_amount fixture_users empty_container"

definition at_position :: "nat \<Rightarrow> f32 positioned_data \<Rightarrow> bool" where
  "at_position i p \<longleftrightarrow> pd_position p = i \<and> close_to (mk_amount (pd_value p)) (9 - int i)"

definition sort_items_when_inserted :: "deal_container \<Rightarrow> bool result" where
  "sort_items_when_inserted c =
     bindr (transform (\<lambda>position. getPosition f32_greater (of_nat position) c) [0..<10]) (\<lambda>ps.
       Inr (list_all2 at_position [0..<10] ps))"

definition sort_items_when_updated :: "deal_container \<Rightarrow> bool result" where
  "sort_items_when_updated c =
     bindr (insert_amount (8, tenths 9) c) (\<lambda>c.
     bindr (getPosition f32_greater 8 c) (\<lambda>p.
       Inr (pd_position p = 0 \<and> close_to (mk_amount (pd_value p)) 10)))"

definition sorted_head_positions :: "deal_container \<Rightarrow> bool result" where
  "sorted_head_positions c =
     (let ps = getHeadPositions 9 c
      in if length ps < 9 then Inl UndefinedBehaviour else Inr (list_all2 at_position [0..<9] (take 9 ps)))"

definition sorted_high_positions :: "deal_container \<Rightarrow> bool result" where
  "sorted_high_positions c =
     bindr (getHighPositions f32_greater 4 5 c) (\<lambda>ps.
       Inr (length ps = 4 \<and> list_all2 at_position [0..<min 5 (length ps)] (take 5 ps)))"

definition sorted_low_positions :: "deal_container \<Rightarrow> bool result" where
  "sorted_low_positions c =
     bindr (getLowPositions f32_greater 4 5 c) (\<lambda>ps.
       Inr (length ps = 5 \<and> list_all2 at_position [5..<5 + min 5 (length ps)] (take 5 ps)))"

lemma insertions_rank:
  assumes "rating_inv c" and "\<forall>d \<in> set ds. f32_nonneg (snd d)"
  shows "\<exists>c'. fold_result insert_amount ds c = Inr c' \<and> rating_inv c' \<and>
    table c' = fold (\<lambda>d. spec_insert f32_add f32_greater \<lparr>mk_id = fst d, mk_amount = snd d\<rparr>) ds (table c)"
  using assms
proof (induction ds arbitrary: c)
  case (Cons d ds)
  from insert_amount_refines [of c "snd d" "fst d"] Cons.prems obtain c1 where
    "insert_amount d c = Inr c1" "rating_inv c1" "table c1 = spec_insert f32_add f32_greater \<lparr>mk_id = fst d, mk_amount = snd d\<rparr> (table c)"
    by auto
  with Cons.IH [of c1] Cons.prems show ?case by auto
qed simp

text \<open>The fixture has user \<open>n\<close> at position \<open>n\<close>.\<close>

lemma container_fixture_made:
  "\<exists>c. container_fixture = Inr c \<and> rating_inv c \<and> table c = map (\<lambda>n. \<lparr>mk_id = of_nat n, mk_amount = tenths (9 - n)\<rparr>) [0..<10]"
proof -
  have "\<forall>d \<in> set fixture_users. f32_nonneg (snd d)" by (simp add: fixture_users_def tenths_nonneg)
  from insertions_rank [OF deals.inv_init this] obtain c where c: "container_fixture = Inr c" "rating_inv c"
    "table c = fold (\<lambda>d. spec_insert f32_add f32_greater \<lparr>mk_id = fst d, mk_amount = snd d\<rparr>) fixture_users (table empty_container)"
    unfolding container_fixture_def by blast
  have "table c = map (\<lambda>n. \<lparr>mk_id = of_nat n, mk_amount = tenths (9 - n)\<rparr>) [0..<10]"
    unfolding c(3) fixture_users_def
    by (simp add: table_def empty_container_def spec_insert_def rank_in_def tenths_order upt_rec)
  with c show ?thesis by blast
qed

lemma bit_len_eq:
  assumes "2 ^ n \<le> k" and "k < 2 ^ Suc n"
  shows "bit_len k = Suc n"
proof -
  have "0 < k" using assms(1) by (rule less_le_trans [rotated]) simp
  from bit_len_bounds [OF this] have k: "2 ^ (bit_len k - 1) \<le> k" "k < 2 ^ bit_len k" by simp_all
  from le_less_trans [OF assms(1) k(2)] have "n < bit_len k" by simp
  moreover from le_less_trans [OF k(1) assms(2)] have "bit_len k - 1 < Suc n" by (rule power_less_imp_less_exp [rotated]) simp
  ultimately show ?thesis by simp
qed

lemma amount_one:
  "f32_add (tenths 1) (tenths 9) = 0x3F800000" "close_to 0x3F800000 10" "n < 10 \<Longrightarrow> f32_greater 0x3F800000 (tenths n)"
  "n < 10 \<Longrightarrow> \<not> f32_greater (tenths n) 0x3F800000"
proof -
  show "f32_add (tenths 1) (tenths 9) = 0x3F800000"
    using bit_len_eq [of 148 713623830402243991110152509879062844827238400]
    by (simp add: tenths.simps f32_defs)
  show "close_to 0x3F800000 10" by (simp add: close_to_def f32_defs)
  have "f32_greater 0x3F800000 (tenths 9)" by (simp add: tenths.simps f32_defs)
  moreover have "f32_scaled (tenths n) \<le> f32_scaled (tenths 9)" if "n < 10" for n
    using tenths_mono [of n 9] that by (cases "n = 9") auto
  ultimately show "n < 10 \<Longrightarrow> f32_greater 0x3F800000 (tenths n)" "n < 10 \<Longrightarrow> \<not> f32_greater (tenths n) 0x3F800000"
    using f32_finite_not_nan [OF tenths_finite] by (fastforce simp: f32_greater_def)+
qed

lemma updated_test:
  assumes "rating_inv c" and "table c = map (\<lambda>n. \<lparr>mk_id = of_nat n, mk_amount = tenths (9 - n)\<rparr>) [0..<10]"
  shows "passes (sort_items_when_updated c)"
proof -
  from insert_amount_refines [OF assms(1) tenths_nonneg [of 9], of 8] obtain c' where
    c': "insert_amount (8, tenths 9) c = Inr c'" "rating_inv c'"
    "table c' = spec_insert f32_add f32_greater \<lparr>mk_id = 8, mk_amount = tenths 9\<rparr> (table c)" by auto
  have first: "\<exists>us. table c' = \<lparr>mk_id = 8, mk_amount = 0x3F800000\<rparr> # us"
    unfolding c'(3) assms(2)
    by (simp add: spec_insert_def rank_in_def upt_rec amount_one amount_one(1) [unfolded One_nat_def])
  with f32_won.getPosition_table [OF c'(2) [unfolded rating_inv_def], of 8]
  have "getPosition f32_greater 8 c' = Inr \<lparr>pd_position = 0, pd_value = \<lparr>mk_id = 8, mk_amount = 0x3F800000\<rparr>\<rparr>"
    by (auto simp: rank_of_def)
  with c'(1) show ?thesis by (simp add: sort_items_when_updated_def passes_def amount_one)
qed

lemma container_tests:
  "\<exists>c. container_fixture = Inr c \<and> passes (sort_items_when_inserted c) \<and> passes (sort_items_when_updated c) \<and>
    passes (sorted_head_positions c) \<and> passes (sorted_high_positions c) \<and> passes (sorted_low_positions c)"
proof -
  from container_fixture_made obtain c where c: "container_fixture = Inr c" "rating_inv c"
    "table c = map (\<lambda>n. \<lparr>mk_id = of_nat n, mk_amount = tenths (9 - n)\<rparr>) [0..<10]" by blast
  note inv = c(2) [unfolded rating_inv_def]
  have close: "close_to (tenths (9 - n)) (9 - int n)" if "n < 10" for n
    using tenths_close [of "9 - n"] that by (simp add: of_nat_diff)
  have behind: "close_to (tenths (4 - n)) (4 - int n)" if "n < 5" for n
    using tenths_close [of "4 - n"] that by (simp add: of_nat_diff)
  have size: "length (sortData c) = 10" using c(3) length_table [of c] by simp
  have rank: "rank_of (of_nat n) (table c) = n \<and> of_nat n \<in> mk_id ` set (table c)" if "n < 10" for n
    using below_ten [OF that] by (elim disjE) (simp_all add: c(3) rank_of_def upt_rec)
  have "getPosition f32_greater (of_nat n) c = Inr \<lparr>pd_position = n, pd_value = table c ! n\<rparr>" if "n < 10" for n
    using f32_won.getPosition_table [OF inv] rank [OF that] by simp
  then have "transform (\<lambda>n. getPosition f32_greater (of_nat n) c) [0..<10] =
      Inr (map (\<lambda>n. \<lparr>pd_position = n, pd_value = table c ! n\<rparr>) [0..<10])"
    by (intro transform_all_ok) simp
  then have "passes (sort_items_when_inserted c)"
    by (simp add: sort_items_when_inserted_def passes_def list_all2_conv_all_nth at_position_def c(3) close)
  moreover have "passes (sorted_head_positions c)"
    by (simp add: sorted_head_positions_def passes_def f32_won.getHeadPositions_table enumerated_def size list_all2_conv_all_nth
        at_position_def c(3) close)
  moreover have "getHighPositions f32_greater 4 5 c = Inr (enumerated 0 (take 4 (table c)))"
    using f32_won.getHighPositions_table [OF inv, of 4] rank [of 4] by simp
  then have "passes (sorted_high_positions c)"
    by (simp add: sorted_high_positions_def passes_def enumerated_def size list_all2_conv_all_nth at_position_def c(3) close)
  moreover have "getLowPositions f32_greater 4 5 c = Inr (enumerated 5 (drop 5 (table c)))"
    using f32_won.getLowPositions_table [OF inv, of 4] rank [of 4] size by (simp add: c(3))
  then have "passes (sorted_low_positions c)"
    by (simp add: sorted_low_positions_def passes_def enumerated_def size list_all2_conv_all_nth at_position_def c(3)
        behind del: upt_rec_numeral)
  moreover have "passes (sort_items_when_updated c)" by (rule updated_test [OF c(2,3)])
  ultimately show ?thesis using c(1) by blast
qed

lemma container_suite:
  "list_all passes (map (bindr container_fixture)
     [sort_items_when_inserted, sort_items_when_updated, sorted_head_positions, sorted_high_positions, sorted_low_positions])"
proof -
  from container_tests obtain c where c: "container_fixture = Inr c" "passes (sort_items_when_inserted c)"
    "passes (sort_items_when_updated c)" "passes (sorted_head_positions c)" "passes (sorted_high_positions c)"
    "passes (sorted_low_positions c)" by blast
  have "bindr container_fixture t = t c" for t :: "deal_container \<Rightarrow> bool result" by (simp add: c(1))
  with c(2-) show ?thesis by simp
qed

section \<open>Enumerations, dates and users\<close>

datatype test_enum = Value1 | Value2

definition test_enum_converter :: "(char \<Rightarrow> char \<Rightarrow> bool) \<Rightarrow> test_enum enum_converter" where
  "test_enum_converter iless =
     addConversion iless Value2 ''value2'' (addConversion iless Value1 ''value1'' empty_converter)"

definition convert_enum_to_string :: "(char \<Rightarrow> char \<Rightarrow> bool) \<Rightarrow> bool result" where
  "convert_enum_to_string iless =
     bindr (enum_toString (test_enum_converter iless) Value1) (\<lambda>value1.
     bindr (enum_toString (test_enum_converter iless) Value2) (\<lambda>value2.
       Inr (value1 = ''value1'' \<and> value2 = ''value2'')))"

definition convert_incase_string_to_enum :: "(char \<Rightarrow> char \<Rightarrow> bool) \<Rightarrow> bool result" where
  "convert_incase_string_to_enum iless =
     bindr (toEnum iless (test_enum_converter iless) ''Value1'') (\<lambda>value1.
     bindr (toEnum iless (test_enum_converter iless) ''vALUE2'') (\<lambda>value2.
       Inr (value1 = Value1 \<and> value2 = Value2)))"

lemma capital_letters:
  "char_of (86 :: nat) = CHR ''V''" "char_of (65 :: nat) = CHR ''A''" "char_of (76 :: nat) = CHR ''L''"
  "char_of (85 :: nat) = CHR ''U''" "char_of (69 :: nat) = CHR ''E''"
  by (simp_all add: char_of_def bit_iff_odd)

lemma enum_tests:
  assumes "iless_law iless"
  shows "passes (convert_enum_to_string iless)" and "passes (convert_incase_string_to_enum iless)"
  by (simp_all add: passes_def convert_enum_to_string_def convert_incase_string_to_enum_def test_enum_converter_def
      addConversion_def empty_converter_def enum_toString_def toEnum_def find_name_iff [OF assms] toupper_def capital_letters)

text \<open>The tests of the week days leave \<^verbatim>\<open>tm_wday\<close> uninitialised.\<close>

definition get_previous_week_day :: "int \<Rightarrow> int \<Rightarrow> bool result" where
  "get_previous_week_day junk junk' =
     (let tmTime = \<lparr>tm_sec = 12, tm_min = 12, tm_hour = 12, tm_mday = 14, tm_mon = 0, tm_year = 118, tm_wday = junk\<rparr>;
          tmExpectedTime = \<lparr>tm_sec = 0, tm_min = 0, tm_hour = 0, tm_mday = 8, tm_mon = 0, tm_year = 118, tm_wday = junk'\<rparr>
      in Inr (to_time_t (getPreviousWeekDay (from_time_t (timegm tmTime)) Monday) = timegm tmExpectedTime))"

definition get_next_week_day :: "int \<Rightarrow> int \<Rightarrow> bool result" where
  "get_next_week_day junk junk' =
     (let tmTime = \<lparr>tm_sec = 12, tm_min = 12, tm_hour = 12, tm_mday = 14, tm_mon = 0, tm_year = 118, tm_wday = junk\<rparr>;
          tmExpectedTime = \<lparr>tm_sec = 0, tm_min = 0, tm_hour = 0, tm_mday = 19, tm_mon = 0, tm_year = 118, tm_wday = junk'\<rparr>
      in Inr (to_time_t (getNextWeekDay (from_time_t (timegm tmTime)) Friday) = timegm tmExpectedTime))"

lemma date_tests: "passes (get_previous_week_day w w')" "passes (get_next_week_day w w')"
proof -
  have junk: "timegm \<lparr>tm_sec = a, tm_min = b, tm_hour = c, tm_mday = d, tm_mon = e, tm_year = f, tm_wday = g\<rparr> =
      timegm \<lparr>tm_sec = a, tm_min = b, tm_hour = c, tm_mday = d, tm_mon = e, tm_year = f, tm_wday = 0\<rparr>" for a b c d e f g
    by (simp add: timegm_def)
  show "passes (get_previous_week_day w w')" "passes (get_next_week_day w w')"
    using week_day_tests unfolding passes_def get_previous_week_day_def get_next_week_day_def Let_def
      junk [of _ _ _ _ _ _ w] junk [of _ _ _ _ _ _ w'] by simp_all
qed

definition throw_when_asking_for_nonpresent_user :: "bool result" where
  "throw_when_asking_for_nonpresent_user = Inr (throws_base_exception (getUserInformation 123 empty_user_data_store))"

definition return_added_user :: "bool result" where
  "return_added_user =
     (let userInformation = \<lparr>ui_id = 123, ui_name = ''User123''\<rparr>
      in bindr (addUser userInformation empty_user_data_store) (\<lambda>s.
         bindr (getUserInformation (ui_id userInformation) s) (\<lambda>returned.
           Inr (user_information_eq userInformation returned))))"

definition throw_when_renaming_for_nonpresent_user :: "bool result" where
  "throw_when_renaming_for_nonpresent_user = Inr (throws_base_exception (renameUser 123 ''NewUser123'' empty_user_data_store))"

definition rename_user :: "bool result" where
  "rename_user =
     (let userInformation = \<lparr>ui_id = 123, ui_name = ''User123''\<rparr>
      in bindr (addUser userInformation empty_user_data_store) (\<lambda>s.
         bindr (renameUser (ui_id userInformation) ''NewUser123'' s) (\<lambda>s.
         bindr (getUserInformation (ui_id userInformation) s) (\<lambda>returned.
           Inr (ui_id userInformation = ui_id returned \<and> ''NewUser123'' = ui_name returned)))))"

lemma user_tests:
  "passes throw_when_asking_for_nonpresent_user" "passes return_added_user"
  "passes throw_when_renaming_for_nonpresent_user" "passes rename_user"
  by (simp_all add: passes_def throw_when_asking_for_nonpresent_user_def return_added_user_def Let_def base_exception_def
      throw_when_renaming_for_nonpresent_user_def rename_user_def addUser_def renameUser_def getUserInformation_def
      empty_user_data_store_def user_information_eq_def)

section \<open>Serialization\<close>

text \<open>A message is read back by the deserializer of its own type.\<close>

definition user_information_read_back :: "('t, 'w) ptree_ops \<Rightarrow> bool result" where
  "user_information_read_back ops =
     (let userInformation = \<lparr>ui_id = 12345, ui_name = ''user''\<rparr>
      in bindr (parse_user_information ops (serialize_user_information ops userInformation)) (\<lambda>deserialized.
           Inr (user_information_eq userInformation deserialized)))"

definition user_message_read_back :: "('t, 'w) ptree_ops \<Rightarrow> (char \<Rightarrow> char \<Rightarrow> bool) \<Rightarrow> bool result" where
  "user_message_read_back ops iless =
     (let userInformation = \<lparr>ui_id = 12345, ui_name = ''user''\<rparr>;
          message = \<lparr>msg_type = UserRegistered, msg_data = PUserInformation userInformation\<rparr>
      in bindr (serialize_message ops iless UserRegistered (serialize_user_information ops userInformation)) (\<lambda>tree.
         bindr (parse_message ops iless (parse_user_information ops) PUserInformation tree) (\<lambda>deserialized.
           Inr (message_eq message deserialized))))"

definition test_rating :: user_relative_rating where
  "test_rating =
     (let positions = map (\<lambda>pos. \<lparr>up_userInformation = \<lparr>ui_id = 12345, ui_name = ''user''\<rparr>, up_position = of_nat pos, up_amount = 0x4640E6AE\<rparr>)
      in \<lparr>ur_userPosition = hd (positions [21]), ur_headPositions = positions [1..<11], ur_highPositions = positions [11..<21],
          ur_lowPositions = positions [22..<32]\<rparr>)"

definition rating_message_read_back :: "('t, 'w) ptree_ops \<Rightarrow> (char \<Rightarrow> char \<Rightarrow> bool) \<Rightarrow> bool result" where
  "rating_message_read_back ops iless =
     (let message = \<lparr>msg_type = UserRelativeRating, msg_data = PUserRelativeRating test_rating\<rparr>
      in bindr (serialize_message ops iless UserRelativeRating (serialize_user_relative_rating ops test_rating)) (\<lambda>tree.
         bindr (parse_message ops iless (parse_user_relative_rating ops) PUserRelativeRating tree) (\<lambda>deserialized.
           Inr (message_eq message deserialized))))"

definition deserialize_empty_throw :: "('t, 'w) ptree_ops \<Rightarrow> bool result" where
  "deserialize_empty_throw ops = Inr (throws_serializer_exception (parse_user_information ops (new_tree ops)))"

definition vector_read_back :: "('t, 'w) ptree_ops \<Rightarrow> bool result" where
  "vector_read_back ops =
     (let users = [\<lparr>ui_id = 1234, ui_name = ''user1''\<rparr>, \<lparr>ui_id = 12345, ui_name = ''user2''\<rparr>];
          tree = add_child ops ''users'' (serialize_vector ops (serialize_user_information ops) users) (new_tree ops)
      in bindr (at_child ops ''users'' (parse_vector ops (parse_user_information ops)) tree) (\<lambda>deserialized.
           Inr (length users = length deserialized \<and> list_all2 user_information_eq users deserialized)))"

lemma message_read_back:
  assumes "tree_laws ops" and "iless_law iless" and "parse payload = Inr d"
  shows "\<exists>tree. serialize_message ops iless t payload = Inr tree \<and>
    parse_message ops iless parse wrap tree = Inr \<lparr>msg_type = t, msg_data = wrap d\<rparr>"
proof -
  obtain s where s: "enum_toString (message_type_converter iless) t = Inr s" using message_type_toString by blast
  then have "serialize_message ops iless t payload = Inr (message_tree ops s payload)"
    by (simp add: serialize_message_def serialize_enum_def message_tree_def)
  with parse_message_tree [where f = parse, OF assms(1,2) s assms(3)] show ?thesis by blast
qed

lemma test_amount: "f32_finite 0x4640E6AE"
  by (simp add: f32_defs)

lemma test_rating_finite: "rating_finite test_rating"
  by (simp add: test_rating_def Let_def rating_finite_def position_finite_def list_all_iff test_amount)

lemma test_rating_eq: "user_relative_rating_eq test_rating test_rating"
  by (simp add: test_rating_def Let_def user_relative_rating_eq_def user_position_eq_def user_information_eq_def
      list_all2_same f32_eq_refl f32_finite_not_nan [OF test_amount])

lemma model_serialization_tests:
  assumes "tree_laws ops" and "iless_law iless"
  shows "passes (user_information_read_back ops)" and "passes (user_message_read_back ops iless)"
    and "passes (rating_message_read_back ops iless)" and "passes (deserialize_empty_throw ops)"
    and "passes (vector_read_back ops)"
proof -
  show "passes (user_information_read_back ops)"
    by (simp add: passes_def user_information_read_back_def user_information_roundtrip [OF assms(1)] user_information_eq_def)
  show "passes (user_message_read_back ops iless)"
    using message_read_back [where parse = "parse_user_information ops", OF assms user_information_roundtrip [OF assms(1), of "\<lparr>ui_id = 12345, ui_name = ''user''\<rparr>"],
        of UserRegistered PUserInformation]
    by (auto simp: passes_def user_message_read_back_def message_eq_def user_information_eq_def)
  show "passes (rating_message_read_back ops iless)"
    using message_read_back [where parse = "parse_user_relative_rating ops", OF assms user_relative_rating_roundtrip [OF assms(1) test_rating_finite],
        of UserRelativeRating PUserRelativeRating]
    by (auto simp: passes_def rating_message_read_back_def message_eq_def test_rating_eq)
  show "passes (deserialize_empty_throw ops)"
    by (simp add: passes_def deserialize_empty_throw_def parse_user_information_def throw_on_empty_value_def tree_empty_def
        children_new [OF assms(1)] serializer_exception_def)
  show "passes (vector_read_back ops)"
    using vector_roundtrip [OF assms(1) user_information_roundtrip [OF assms(1)]]
    by (simp add: passes_def vector_read_back_def at_child_def get_child_eq [OF assms(1)] children_add [OF assms(1)]
        children_new [OF assms(1)] user_information_eq_def)
qed

text \<open>How the tests of the protocol messages compare them. The operator for \<^verbatim>\<open>WsData\<close> is a template whose parameter
  the operands do not give, so \<^verbatim>\<open>==\<close> on two of them is the operator of their base class.\<close>

definition ws_message_eq :: "ws_message \<Rightarrow> ws_message \<Rightarrow> bool" where
  "ws_message_eq lhs rhs \<longleftrightarrow> ws_getType lhs = ws_getType rhs \<and> ws_getId lhs = ws_getId rhs"

fun ws_error_eq :: "ws_message \<Rightarrow> ws_message \<Rightarrow> bool" where
  "ws_error_eq (WsError i m c) (WsError i' m' c') = (ws_message_eq (WsError i m c) (WsError i' m' c') \<and> c = c' \<and> m = m')"
| "ws_error_eq _ _ = False"

definition ws_error_read_back :: "('t, 'w) ptree_ops \<Rightarrow> (char \<Rightarrow> char \<Rightarrow> bool) \<Rightarrow> bool result" where
  "ws_error_read_back ops iless =
     (let wsError = WsError 123 ''Base error'' 0
      in bindr (serialize_ws_message ops iless wsError) (\<lambda>tree.
         bindr (parse_ws_error ops tree) (\<lambda>deserialized. Inr (ws_error_eq wsError deserialized))))"

definition ws_data_read_back :: "('t, 'w) ptree_ops \<Rightarrow> (char \<Rightarrow> char \<Rightarrow> bool) \<Rightarrow> bool result" where
  "ws_data_read_back ops iless =
     (let wsData = WsData 123 \<lparr>msg_type = UserRegistered, msg_data = PUserInformation \<lparr>ui_id = 1234, ui_name = ''user''\<rparr>\<rparr>
      in bindr (serialize_ws_message ops iless wsData) (\<lambda>tree.
         bindr (parse_ws_data ops iless tree) (\<lambda>deserialized. Inr (ws_message_eq wsData deserialized))))"

definition ws_deal_read_back :: "('t, 'w) ptree_ops \<Rightarrow> (char \<Rightarrow> char \<Rightarrow> bool) \<Rightarrow> bool result" where
  "ws_deal_read_back ops iless =
     (let wsDealInformation = WsData 124 \<lparr>msg_type = UserDealWon,
        msg_data = PDealInformation \<lparr>di_userId = 1234, di_timestamp = 777, di_amount = 0x42F6E979\<rparr>\<rparr>
      in bindr (serialize_ws_message ops iless wsDealInformation) (\<lambda>tree.
         bindr (parse_ws_data ops iless tree) (\<lambda>deserialized. Inr (ws_message_eq wsDealInformation deserialized))))"

lemma data_not_compared: "ws_message_eq (WsData i d) (WsData i d')"
  by (simp add: ws_message_eq_def)

lemma parsed_kind:
  assumes "parse_ws_message ops iless t = Inr v"
  shows "ws_getType v = Error \<Longrightarrow> parse_ws_error ops t = Inr v" and "ws_getType v = Data \<Longrightarrow> parse_ws_data ops iless t = Inr v"
proof -
  from assms obtain kind i where "(case kind of Ack \<Rightarrow> Inr (WsAck i) | Error \<Rightarrow> parse_ws_error ops t | Data \<Rightarrow> parse_ws_data ops iless t) = Inr v"
    by (auto simp: parse_ws_message_def throw_on_empty_value_def split: if_splits)
  then consider "v = WsAck i" | "parse_ws_error ops t = Inr v" | "parse_ws_data ops iless t = Inr v" by (cases kind) auto
  note cases = this
  show "ws_getType v = Error \<Longrightarrow> parse_ws_error ops t = Inr v"
    by (rule cases) (auto simp: parse_ws_data_def throw_on_empty_value_def split: if_splits)
  show "ws_getType v = Data \<Longrightarrow> parse_ws_data ops iless t = Inr v"
    by (rule cases) (auto simp: parse_ws_error_def throw_on_empty_value_def split: if_splits)
qed

lemma ws_read_back:
  assumes "tree_laws ops" and "iless_law iless" and "ws_ordinary v"
  obtains t where "serialize_ws_message ops iless v = Inr t" and "ws_getType v = Error \<Longrightarrow> parse_ws_error ops t = Inr v"
    and "ws_getType v = Data \<Longrightarrow> parse_ws_data ops iless t = Inr v"
proof -
  from ws_message_roundtrip [OF assms] obtain t where t: "serialize_ws_message ops iless v = Inr t" "parse_ws_message ops iless t = Inr v"
    by blast
  show thesis by (rule that [OF t(1) parsed_kind [OF t(2)]])
qed

lemma ws_data_tests:
  assumes "tree_laws ops" and "iless_law iless" and "ws_ordinary (WsData i d)"
  shows "bindr (serialize_ws_message ops iless (WsData i d)) (\<lambda>tree.
    bindr (parse_ws_data ops iless tree) (\<lambda>deserialized. Inr (ws_message_eq (WsData i d) deserialized))) = Inr True"
  by (rule ws_read_back [OF assms]) (simp add: ws_message_eq_def)

lemma ws_serialization_tests:
  assumes "tree_laws ops" and "iless_law iless"
  shows "passes (ws_error_read_back ops iless)" and "passes (ws_data_read_back ops iless)" and "passes (ws_deal_read_back ops iless)"
proof -
  have "ws_ordinary (WsError 123 ''Base error'' 0)" by (simp add: plain_text_def)
  from ws_read_back [OF assms this] obtain t where "serialize_ws_message ops iless (WsError 123 ''Base error'' 0) = Inr t"
    "parse_ws_error ops t = Inr (WsError 123 ''Base error'' 0)" by auto
  then show "passes (ws_error_read_back ops iless)" by (simp add: passes_def ws_error_read_back_def Let_def ws_message_eq_def)
  show "passes (ws_data_read_back ops iless)"
    unfolding passes_def ws_data_read_back_def Let_def by (rule ws_data_tests [OF assms]) (simp add: plain_text_def)
  show "passes (ws_deal_read_back ops iless)"
    unfolding passes_def ws_deal_read_back_def Let_def by (rule ws_data_tests [OF assms]) (simp add: f32_defs)
qed

section \<open>All of them\<close>

text \<open>\<open>junk\<close>: what the four structures hold where the tests do not initialise them.\<close>

definition unit_tests :: "('t, 'w) ptree_ops \<Rightarrow> (char \<Rightarrow> char \<Rightarrow> bool) \<Rightarrow> (nat \<Rightarrow> int) \<Rightarrow> bool result list" where
  "unit_tests ops iless junk =
     map (bindr container_fixture)
       [sort_items_when_inserted, sort_items_when_updated, sorted_head_positions, sorted_high_positions, sorted_low_positions] @
     [convert_enum_to_string iless, convert_incase_string_to_enum iless, get_previous_week_day (junk 0) (junk 1),
      get_next_week_day (junk 2) (junk 3),
      throw_when_asking_for_nonpresent_user, return_added_user, throw_when_renaming_for_nonpresent_user, rename_user,
      user_information_read_back ops, user_message_read_back ops iless, rating_message_read_back ops iless,
      deserialize_empty_throw ops, vector_read_back ops,
      ws_error_read_back ops iless, ws_data_read_back ops iless, ws_deal_read_back ops iless]"

text \<open>C15. The model passes the unit tests of the repository, whatever the variables hold that the tests leave uninitialised.\<close>

theorem unit_tests_pass:
  assumes "tree_laws ops" and "iless_law iless"
  shows "list_all passes (unit_tests ops iless junk)"
  unfolding unit_tests_def list_all_append
  using container_suite enum_tests [OF assms(2)] date_tests user_tests model_serialization_tests [OF assms]
    ws_serialization_tests [OF assms]
  by simp

theorem unit_tests_pass_witness: "list_all passes (unit_tests plain_ops reference_iless int)"
  by (rule unit_tests_pass [OF plain_tree_laws reference_iless_law])

end
