(* ===== verification/Ws_Client_Reader.thy ===== *)
theory Ws_Client_Reader
  imports Ws_Client_Life Ws_Client_Frame
begin

text \<open>
  An open connection of the client, \<^verbatim>\<open>webapi/websockets/client_ws.hpp\<close>: what the reader of \<open>Ws_Client_Frame\<close> does, now
  with its calls of the timer, and what the owner sends. It begins where \<open>Ws_Client_Life\<close> ends. With its idle timer
  the client is an \<open>idle_end\<close>, like a connection of the server.
\<close>

section \<open>The reader with its timer\<close>

record client_session = conn_timer +
  reader :: client_connection

text \<open>The session of a client whose connection has been opened; the bytes behind the answer are in its message.\<close>

definition session_of :: "client_life \<Rightarrow> client_connection \<Rightarrow> client_session" where
  "session_of c r = conn_timer.extend (conn_timer.truncate c) (client_session.fields r)"

definition on_reader :: "(client_connection \<Rightarrow> client_connection) \<Rightarrow> client_session \<Rightarrow> client_session" where
  "on_reader f c = c\<lparr>reader := f (reader c)\<rparr>"

definition session_send :: "u8 \<Rightarrow> u8 list \<Rightarrow> client_session \<Rightarrow> client_session" where
  "session_send opcode msg c = on_reader (cl_send opcode msg) (restart_timeout c)"

definition session_send_close :: "int \<Rightarrow> u8 list \<Rightarrow> client_session \<Rightarrow> client_session" where
  "session_send_close status reason c =
     (if cl_closed (reader c) then c
      else session_send 136 (close_payload status reason) (on_reader (\<lambda>r. r\<lparr>cl_closed := True\<rparr>) c))"

definition session_close :: "int \<Rightarrow> u8 list \<Rightarrow> client_session \<Rightarrow> client_session" where
  "session_close status reason c = on_reader (cl_connection_close status reason) (restart_timeout c)"

definition session_error :: "ws_error \<Rightarrow> client_session \<Rightarrow> client_session" where
  "session_error e c = on_reader (cl_call (ConnectionFailed e)) (restart_timeout c)"

definition reader_goes :: "client_stage \<Rightarrow> client_session \<Rightarrow> client_session" where
  "reader_goes s c = on_reader (\<lambda>r. r\<lparr>cl_stage := s\<rparr>) c"

definition session_message_content :: "u64 \<Rightarrow> u64 \<Rightarrow> nat \<Rightarrow> client_session \<Rightarrow> client_session" where
  "session_message_content max_message_size l num_additional_bytes c =
     (let c = on_reader (\<lambda>r. r\<lparr>cl_message := (cl_message r)\<lparr>cm_length := l\<rparr>\<rparr>) c
      in if l + (case cl_fragmented (reader c) of None \<Rightarrow> 0 | Some m \<Rightarrow> cm_length m) > max_message_size then
           reader_goes ClientStopped (session_close 1009 (bytes_of ''message too big'')
             (session_send_close 1009 (bytes_of ''message too big'') (session_error MessageSize c)))
         else reader_goes (ClientContent num_additional_bytes) c)"

definition session_header_read :: "u64 \<Rightarrow> (nat \<Rightarrow> u8) \<Rightarrow> nat \<Rightarrow> nat \<Rightarrow> client_session \<Rightarrow> client_session" where
  "session_header_read max_message_size junk bytes_transferred num_additional_bytes c =
     (if bytes_transferred = 0 \<and> buffer (cm_stream (cl_message (reader c))) = [] then reader_goes (ClientHeader 0) c
      else
        let (got, s) = stream_read 2 (cm_stream (cl_message (reader c)));
            first_bytes = (\<lambda>i. if i < length got then got ! i else junk i);
            c = on_reader (\<lambda>r. r\<lparr>cl_message := (cl_message r)\<lparr>cm_stream := s, cm_opcode := first_bytes 0\<rparr>\<rparr>) c
        in if 128 \<le> first_bytes 1 then
             reader_goes ClientStopped (session_close 1002 (bytes_of ''message from server masked'')
               (session_send_close 1002 (bytes_of ''message from server masked'') c))
           else if first_bytes 1 AND 127 = 126 then reader_goes (ClientLength2 num_additional_bytes) c
           else if first_bytes 1 AND 127 = 127 then reader_goes (ClientLength8 num_additional_bytes) c
           else session_message_content max_message_size (ucast (first_bytes 1 AND 127)) num_additional_bytes c)"

definition session_length_read :: "u64 \<Rightarrow> (nat \<Rightarrow> u8) \<Rightarrow> nat \<Rightarrow> nat \<Rightarrow> client_session \<Rightarrow> client_session" where
  "session_length_read max_message_size junk num_bytes num_additional_bytes c =
     (let (got, s) = stream_read num_bytes (cm_stream (cl_message (reader c)));
          length_bytes = map (\<lambda>i. if i < length got then got ! i else junk i) [0..<num_bytes]
      in session_message_content max_message_size (length_value length_bytes) num_additional_bytes (on_reader (set_stream s) c))"

text \<open>A fragment that is not the last one leaves the timer alone.\<close>

definition session_close_received :: "client_session \<Rightarrow> client_session" where
  "session_close_received c =
     (let c = restart_timeout c; m = cl_message (reader c);
          (b, s) = (if 2 \<le> cm_length m then stream_get 2 (cm_stream m) else ([0, 0], cm_stream m));
          status = uint (b ! 0) * 256 + uint (b ! 1); reason = buffer s
      in reader_goes ClientStopped (session_close status reason (session_send_close status reason (on_reader (set_stream s) c))))"

definition session_content_read :: "nat \<Rightarrow> client_session \<Rightarrow> client_session" where
  "session_content_read num_additional_bytes c =
     (let (next_message, r) = split_message (num_additional_bytes, reader c); m = cl_message r; opcode = cm_opcode m;
          c = c\<lparr>reader := r\<rparr>; goes_on = on_reader (cl_next num_additional_bytes next_message)
      in if opcode AND 0x0f = 8 then session_close_received c
         else if opcode AND 0x0f = 9 then
           goes_on (on_reader (cl_call PingReceived) (session_send (opcode + 1) [] (restart_timeout c)))
         else if opcode AND 0x0f = 10 then goes_on (on_reader (cl_call PongReceived) (restart_timeout c))
         else if opcode AND 0x80 = 0 then
           goes_on (on_reader (\<lambda>r. r\<lparr>cl_fragmented := Some (case cl_fragmented r of
             None \<Rightarrow> m\<lparr>cm_opcode := opcode OR 0x80\<rparr> | Some f \<Rightarrow> cl_append f m)\<rparr>) c)
         else
           goes_on (on_reader (\<lambda>r. r\<lparr>cl_fragmented := None\<rparr>)
             (on_reader (cl_call (MessageReceived (delivered (case cl_fragmented r of None \<Rightarrow> m | Some f \<Rightarrow> cl_append f m))))
               (restart_timeout c))))"

definition session_read :: "nat \<Rightarrow> (nat \<Rightarrow> client_session \<Rightarrow> client_session) \<Rightarrow> client_session \<Rightarrow> client_session option" where
  "session_read t handler c = map_option (\<lambda>(num_additional_bytes, r). handler num_additional_bytes (c\<lparr>reader := r\<rparr>)) (cl_read t (reader c))"

definition session_reads :: "u64 \<Rightarrow> (nat \<Rightarrow> u8) \<Rightarrow> client_session \<Rightarrow> client_session option" where
  "session_reads max_message_size junk c =
     (case cl_stage (reader c) of
        ClientHeader num \<Rightarrow> session_read (missing num 2) (session_header_read max_message_size junk (missing num 2)) c
      | ClientLength2 num \<Rightarrow> session_read (missing num 2) (session_length_read max_message_size junk 2) c
      | ClientLength8 num \<Rightarrow> session_read (missing num 8) (session_length_read max_message_size junk 8) c
      | ClientContent num \<Rightarrow> session_read (missing num (unat (cm_length (cl_message (reader c))))) session_content_read c
      | ClientStopped \<Rightarrow> None)"

text \<open>The handler of the timer.\<close>

definition session_timer_handler :: "bool \<Rightarrow> client_session \<Rightarrow> client_session" where
  "session_timer_handler idle c = (if idle then session_send_close 1000 (bytes_of ''idle timeout'') c else close_socket c)"

datatype session_event =
    FrameBytes "u8 list"
  | SessionReads
  | SessionReadFails
  | SessionSends u8 "u8 list"
  | SessionTimerExpires
  | SessionTimerHandler
  | SessionTimePasses nat

fun session_step :: "u64 \<Rightarrow> (nat \<Rightarrow> u8) \<Rightarrow> session_event \<Rightarrow> client_session \<Rightarrow> client_session option" where
  "session_step max_message_size junk (FrameBytes bytes) c =
     (if socket_open c then Some (on_reader (\<lambda>r. r\<lparr>cl_incoming := cl_incoming r @ bytes\<rparr>) c) else None)"
| "session_step max_message_size junk SessionReads c = session_reads max_message_size junk c"
| "session_step max_message_size junk SessionReadFails c =
     (if cl_stage (reader c) \<noteq> ClientStopped then Some (reader_goes ClientStopped (session_error SocketError c)) else None)"
| "session_step max_message_size junk (SessionSends opcode msg) c = Some (session_send opcode msg c)"
| "session_step max_message_size junk SessionTimerExpires c = timer_expires c"
| "session_step max_message_size junk SessionTimerHandler c =
     (case due c of [] \<Rightarrow> None | idle # later \<Rightarrow> Some (session_timer_handler idle (c\<lparr>due := later\<rparr>)))"
| "session_step max_message_size junk (SessionTimePasses n) c = time_passes n c"

section \<open>The reader with its timer is the reader\<close>

lemma reader_of_timers [simp]:
  "reader (set_timeout s c) = reader c" "reader (cancel_timeout c) = reader c" "reader (restart_timeout c) = reader c"
  "reader (close_socket c) = reader c" "reader (on_reader f c) = f (reader c)"
  by (simp_all add: timer_defs Let_def on_reader_def)

lemma reader_of_session [simp]:
  "reader (session_send opcode msg c) = cl_send opcode msg (reader c)"
  "reader (session_send_close status reason c) = cl_send_close status reason (reader c)"
  "reader (session_close status reason c) = cl_connection_close status reason (reader c)"
  "reader (session_error e c) = cl_call (ConnectionFailed e) (reader c)"
  "reader (reader_goes s c) = (reader c)\<lparr>cl_stage := s\<rparr>"
  by (simp_all add: session_send_def session_send_close_def cl_send_close_def session_close_def session_error_def reader_goes_def)

lemma reader_message_content:
  "reader (session_message_content m l num c) = cl_read_message_content m l num (reader c)"
  by (simp add: session_message_content_def cl_read_message_content_def Let_def)

lemma reader_header_read: "reader (session_header_read m junk t num c) = cl_header_read m junk t (num, reader c)"
  by (simp add: session_header_read_def cl_header_read_def reader_message_content Let_def split: prod.split)

lemma reader_length_read: "reader (session_length_read m junk n num c) = cl_length_read m junk n (num, reader c)"
  by (simp add: session_length_read_def cl_length_read_def reader_message_content Let_def split: prod.split)

lemma reader_content_read: "reader (session_content_read num c) = cl_content_read (num, reader c)"
  by (simp add: session_content_read_def cl_content_read_def session_close_received_def cl_close_received_def Let_def
      split: prod.split)

lemma session_read_reads:
  "(\<And>num c. reader (f num c) = g (num, reader c)) \<Longrightarrow> map_option reader (session_read t f c) = map_option g (cl_read t (reader c))"
  by (cases "cl_read t (reader c)") (auto simp: session_read_def)

lemma session_reads_reads: "map_option reader (session_reads m junk c) = client_step m junk (reader c)"
  by (cases "cl_stage (reader c)")
    (simp_all add: session_reads_def client_step.simps session_read_reads reader_header_read reader_length_read reader_content_read)

section \<open>The timers of an open client\<close>

lemma idle_only_reader [simp]: "idle_only (on_reader f c) = idle_only c" "idle_only (c\<lparr>reader := r\<rparr>) = idle_only c"
  by (simp_all add: idle_only_def on_reader_def)

lemma idle_only_restart [simp]: "idle_only c \<Longrightarrow> idle_only (restart_timeout c)"
  by (simp add: restart_timeout_def)

lemma idle_only_session [simp]:
  assumes "idle_only c"
  shows "idle_only (session_send opcode msg c)" "idle_only (session_send_close status reason c)"
    "idle_only (session_close status reason c)" "idle_only (session_error e c)" "idle_only (reader_goes s c)"
  using assms by (simp_all add: session_send_def session_send_close_def session_close_def session_error_def reader_goes_def)

lemma idle_only_message_content [simp]: "idle_only c \<Longrightarrow> idle_only (session_message_content m l num c)"
  by (simp add: session_message_content_def Let_def)

lemma idle_only_readers:
  assumes "idle_only c"
  shows "idle_only (session_header_read m junk t num c)" "idle_only (session_length_read m junk n num c)"
    "idle_only (session_content_read num c)"
  using assms
  by (simp_all add: session_header_read_def session_length_read_def session_content_read_def session_close_received_def Let_def
      split: prod.split)

lemma idle_only_session_read:
  "session_read t f c = Some c' \<Longrightarrow> idle_only c \<Longrightarrow> (\<And>num c. idle_only c \<Longrightarrow> idle_only (f num c)) \<Longrightarrow> idle_only c'"
  by (auto simp: session_read_def)

lemma idle_only_reads: "session_reads m junk c = Some c' \<Longrightarrow> idle_only c \<Longrightarrow> idle_only c'"
  by (cases "cl_stage (reader c)")
    (auto simp: session_reads_def elim!: idle_only_session_read intro: idle_only_readers)

lemma session_timer_steps:
  "timer_expires c = Some c' \<Longrightarrow> reader c' = reader c \<and> (idle_only c \<longrightarrow> idle_only c')"
  "time_passes n c = Some c' \<Longrightarrow> reader c' = reader c \<and> (idle_only c \<longrightarrow> idle_only c')"
  by (auto simp: timer_expires_def time_passes_def idle_only_def split: option.splits if_splits prod.splits)

lemma session_idle_handler:
  assumes "idle_only c" and "due c = idle # later"
  shows "idle_only (session_timer_handler idle (c\<lparr>due := later\<rparr>)) \<and>
    reader (session_timer_handler idle (c\<lparr>due := later\<rparr>)) = cl_send_close 1000 (bytes_of ''idle timeout'') (reader c)"
proof -
  from assms have "idle" and "idle_only (c\<lparr>due := later\<rparr>)" by (auto simp: idle_only_def)
  then show ?thesis by (simp add: session_timer_handler_def)
qed

lemma session_handler_step:
  assumes "session_step m junk SessionTimerHandler c = Some c'" and "idle_only c"
  shows "idle_only c' \<and> reader c' = cl_send_close 1000 (bytes_of ''idle timeout'') (reader c) \<and> due c \<noteq> []"
proof -
  from assms(1) obtain idle later where "due c = idle # later" "c' = session_timer_handler idle (c\<lparr>due := later\<rparr>)"
    by (auto split: list.splits)
  with session_idle_handler [OF assms(2)] show ?thesis by auto
qed

lemma idle_only_step: "session_step m junk e c = Some c' \<Longrightarrow> idle_only c \<Longrightarrow> idle_only c'"
  by (cases e) (auto simp del: session_step.simps(6) dest: session_handler_step idle_only_reads session_timer_steps split: if_splits)

section \<open>One close frame\<close>

definition close_frames :: "client_connection \<Rightarrow> (u8 \<times> u8 list) list" where
  "close_frames r = filter (\<lambda>f. fst f = 136) (cl_sent r)"

definition closes_once :: "client_connection \<Rightarrow> bool" where
  "closes_once r \<longleftrightarrow> length (close_frames r) = (if cl_closed r then 1 else 0)"

lemma closes_once_simps [simp]:
  "closes_once (cl_call cb r) = closes_once r" "closes_once (set_stream s r) = closes_once r"
  "closes_once (cl_next n next_message r) = closes_once r" "closes_once (cl_connection_close status reason r) = closes_once r"
  "closes_once (r\<lparr>cl_stage := st\<rparr>) = closes_once r" "closes_once (r\<lparr>cl_incoming := i\<rparr>) = closes_once r"
  "closes_once (r\<lparr>cl_message := msg\<rparr>) = closes_once r" "closes_once (r\<lparr>cl_fragmented := f\<rparr>) = closes_once r"
  by (simp_all add: closes_once_def close_frames_def cl_call_def set_stream_def cl_next_def cl_connection_close_def)

lemma closes_once_send: "opcode \<noteq> 136 \<Longrightarrow> closes_once (cl_send opcode msg r) = closes_once r"
  by (simp add: closes_once_def close_frames_def cl_send_def)

lemma closes_once_send_close [simp]: "closes_once r \<Longrightarrow> closes_once (cl_send_close status reason r)"
  by (simp add: closes_once_def close_frames_def cl_send_close_def cl_send_def)

lemma pong_not_close: "opcode AND 0x0f = 9 \<Longrightarrow> opcode + 1 \<noteq> 136" for opcode :: u8
proof
  assume "opcode + 1 = 136"
  then have "opcode = 136 - 1" by (simp only: eq_diff_eq)
  then have "opcode = 135" by simp
  moreover assume "opcode AND 0x0f = 9"
  ultimately show False by simp
qed

lemma closes_once_content: "closes_once r \<Longrightarrow> closes_once (cl_read_message_content m l num r)"
  by (simp add: cl_read_message_content_def Let_def)

lemma split_closes_once: "split_message (num, r) = (next_message, r') \<Longrightarrow> closes_once r \<Longrightarrow> closes_once r'"
  by (auto simp: split_message_def split: if_splits prod.splits)

lemma closes_once_readers:
  assumes "closes_once r"
  shows "closes_once (cl_header_read m junk t (num, r))" "closes_once (cl_length_read m junk n (num, r))"
    "closes_once (cl_content_read (num, r))"
proof -
  show "closes_once (cl_header_read m junk t (num, r))" "closes_once (cl_length_read m junk n (num, r))"
    using assms by (simp_all add: cl_header_read_def cl_length_read_def closes_once_content Let_def split: prod.split)
  show "closes_once (cl_content_read (num, r))"
    using split_closes_once [OF _ assms, of num]
    by (simp add: cl_content_read_def cl_close_received_def closes_once_send pong_not_close Let_def split: prod.split)
qed

lemma cl_read_closes_once: "cl_read t r = Some (num, r') \<Longrightarrow> closes_once r \<Longrightarrow> closes_once r'"
  by (auto simp: cl_read_def Let_def split: if_splits)

lemma client_step_closes_once: "client_step m junk r = Some r' \<Longrightarrow> closes_once r \<Longrightarrow> closes_once r'"
  by (cases "cl_stage r")
    (auto simp: client_step.simps intro: closes_once_readers dest: cl_read_closes_once)

fun owner_closes :: "session_event \<Rightarrow> bool" where
  "owner_closes (SessionSends opcode msg) = (opcode = 136)"
| "owner_closes _ = False"

lemma closes_once_step:
  assumes "session_step m junk e c = Some c'" and "\<not> owner_closes e" and "idle_only c" and "closes_once (reader c)"
  shows "closes_once (reader c')"
proof (cases e)
  case SessionReads
  with assms(1) have "client_step m junk (reader c) = Some (reader c')" using session_reads_reads [of m junk c] by simp
  with assms(4) show ?thesis by (rule client_step_closes_once [rotated])
next
  case SessionTimerHandler
  with session_handler_step [OF _ assms(3)] assms(1,4) show ?thesis by (simp del: session_step.simps)
qed (use assms in \<open>auto simp: closes_once_send dest: session_timer_steps split: if_splits\<close>)

section \<open>The owner of the session\<close>

text \<open>
  What \<^verbatim>\<open>WsTransportClient\<close> makes of it: from its callbacks \<^verbatim>\<open>on_close\<close> and \<^verbatim>\<open>on_error\<close> it asks its thread to stop, which
  runs \<^verbatim>\<open>SocketClientBase::stop\<close> on the spot: the socket is closed and the context stopped, so that no handler runs any
  more, and what the present one still sends is only posted. \<^verbatim>\<open>disconnect\<close> does the same from outside.
\<close>

record owned_session =
  session :: client_session
  context_stopped :: bool

fun closing_callback :: "ws_error callback \<Rightarrow> bool" where
  "closing_callback (ConnectionClosed status reason) = True"
| "closing_callback (ConnectionFailed e) = True"
| "closing_callback _ = False"

definition owner_stop :: "owned_session \<Rightarrow> owned_session" where
  "owner_stop c = c\<lparr>session := close_socket (session c), context_stopped := True\<rparr>"

definition new_callbacks :: "client_session \<Rightarrow> client_session \<Rightarrow> ws_error callback list" where
  "new_callbacks c c' = drop (length (cl_callbacks (reader c))) (cl_callbacks (reader c'))"

datatype owned_event = SessionEvent session_event | Disconnect

fun owned_step :: "u64 \<Rightarrow> (nat \<Rightarrow> u8) \<Rightarrow> owned_event \<Rightarrow> owned_session \<Rightarrow> owned_session option" where
  "owned_step max_message_size junk (SessionEvent e) c =
     (if context_stopped c then None
      else
        case session_step max_message_size junk e (session c) of
          None \<Rightarrow> None
        | Some s \<Rightarrow> Some (if list_ex closing_callback (new_callbacks (session c) s) then owner_stop (c\<lparr>session := s\<rparr>)
                          else c\<lparr>session := s\<rparr>))"
| "owned_step max_message_size junk Disconnect c = Some (owner_stop c)"

lemma split_callbacks: "split_message (num, r) = (next_message, r') \<Longrightarrow> cl_callbacks r' = cl_callbacks r"
  by (auto simp: split_message_def split: if_splits prod.splits)

lemma client_callbacks_simps [simp]:
  "cl_callbacks (set_stream s r) = cl_callbacks r" "cl_callbacks (cl_next n next_message r) = cl_callbacks r"
  "cl_callbacks (cl_send opcode msg r) = cl_callbacks r" "cl_callbacks (cl_send_close status reason r) = cl_callbacks r"
  by (simp_all add: set_stream_def cl_next_def cl_send_def cl_send_close_def)

lemma content_callbacks: "\<exists>cbs. cl_callbacks (cl_content_read (num, r)) = cl_callbacks r @ cbs"
proof -
  obtain next_message r' where r': "split_message (num, r) = (next_message, r')" by fastforce
  have "\<exists>cbs. cl_callbacks (cl_content_read (num, r)) = cl_callbacks r' @ cbs"
    by (simp add: cl_content_read_def r' cl_close_received_def cl_call_def cl_connection_close_def Let_def split: prod.split)
  then show ?thesis using split_callbacks [OF r'] by simp
qed

lemma message_content_callbacks: "\<exists>cbs. cl_callbacks (cl_read_message_content m l num r) = cl_callbacks r @ cbs"
  by (simp add: cl_read_message_content_def cl_call_def cl_connection_close_def Let_def)

lemma header_callbacks: "\<exists>cbs. cl_callbacks (cl_header_read m junk t (num, r)) = cl_callbacks r @ cbs"
proof -
  have "\<exists>cbs. cl_callbacks (cl_read_message_content m l num (r\<lparr>cl_message := msg\<rparr>)) = cl_callbacks r @ cbs" for l msg
    using message_content_callbacks [of m l num "r\<lparr>cl_message := msg\<rparr>"] by simp
  then show ?thesis by (simp add: cl_header_read_def cl_call_def cl_connection_close_def Let_def split: prod.split)
qed

lemma length_callbacks: "\<exists>cbs. cl_callbacks (cl_length_read m junk n (num, r)) = cl_callbacks r @ cbs"
  using message_content_callbacks [where r = "set_stream s r" for s] by (simp add: cl_length_read_def Let_def split: prod.split)

lemma client_step_callbacks: "client_step m junk r = Some r' \<Longrightarrow> \<exists>cbs. cl_callbacks r' = cl_callbacks r @ cbs"
proof -
  assume step: "client_step m junk r = Some r'"
  have read: "cl_callbacks r1 = cl_callbacks r" if "cl_read t r = Some (num, r1)" for t num r1
    using that by (auto simp: cl_read_def Let_def split: if_splits)
  have goes: "\<exists>cbs. cl_callbacks r' = cl_callbacks r @ cbs"
    if "map_option f (cl_read t r) = Some r'" "\<And>num r1. \<exists>cbs. cl_callbacks (f (num, r1)) = cl_callbacks r1 @ cbs" for f t
    using that(1) that(2) read by (auto, metis)
  show ?thesis
  proof (cases "cl_stage r")
    case (ClientHeader num)
    with step show ?thesis by (intro goes [OF _ header_callbacks]) (simp add: client_step.simps)
  next
    case (ClientLength2 num)
    with step show ?thesis by (intro goes [OF _ length_callbacks]) (simp add: client_step.simps)
  next
    case (ClientLength8 num)
    with step show ?thesis by (intro goes [OF _ length_callbacks]) (simp add: client_step.simps)
  next
    case (ClientContent num)
    with step show ?thesis by (intro goes [OF _ content_callbacks]) (simp add: client_step.simps)
  next
    case ClientStopped
    with step show ?thesis by (simp add: client_step.simps)
  qed
qed

lemma session_step_callbacks:
  assumes "session_step m junk e c = Some c'"
  shows "cl_callbacks (reader c') = cl_callbacks (reader c) @ new_callbacks c c'"
proof -
  have "\<exists>cbs. cl_callbacks (reader c') = cl_callbacks (reader c) @ cbs"
  proof (cases e)
    case SessionReads
    with assms have "client_step m junk (reader c) = Some (reader c')" using session_reads_reads [of m junk c] by simp
    then show ?thesis by (rule client_step_callbacks)
  next
    case SessionTimerHandler
    with assms show ?thesis by (auto simp: session_timer_handler_def split: list.splits)
  qed (use assms in \<open>auto simp: cl_call_def dest: session_timer_steps split: if_splits\<close>)
  then show ?thesis by (auto simp: new_callbacks_def)
qed

fun owner_sends_close :: "owned_event \<Rightarrow> bool" where
  "owner_sends_close (SessionEvent e) = owner_closes e"
| "owner_sends_close Disconnect = False"

text \<open>\<open>d\<close>: the owner has disconnected.\<close>

definition owned_inv :: "bool \<Rightarrow> owned_session \<Rightarrow> bool" where
  "owned_inv d c \<longleftrightarrow> closes_once (reader (session c)) \<and>
     (context_stopped c \<longleftrightarrow> d \<or> list_ex closing_callback (cl_callbacks (reader (session c)))) \<and>
     (if context_stopped c then \<not> socket_open (session c) else idle_only (session c))"

lemma owned_inv_stop: "closes_once (reader (session c)) \<Longrightarrow> owned_inv True (owner_stop c)"
  by (simp add: owned_inv_def owner_stop_def close_socket_def)

lemma owned_inv_step:
  assumes "owned_step m junk e c = Some c'" and "\<not> owner_sends_close e" and "owned_inv d c"
  shows "owned_inv (d \<or> e = Disconnect) c'"
proof (cases e)
  case (SessionEvent e')
  with assms(1) obtain s where s: "\<not> context_stopped c" "session_step m junk e' (session c) = Some s"
    "c' = (if list_ex closing_callback (new_callbacks (session c) s) then owner_stop (c\<lparr>session := s\<rparr>) else c\<lparr>session := s\<rparr>)"
    by (auto split: if_splits option.splits)
  from s(1) assms(3) have c: "idle_only (session c)" "closes_once (reader (session c))" "\<not> d"
    "\<not> list_ex closing_callback (cl_callbacks (reader (session c)))" by (auto simp: owned_inv_def)
  from assms(2) SessionEvent have "\<not> owner_closes e'" by simp
  note closes_once_step [OF s(2) this c(1,2)] idle_only_step [OF s(2) c(1)] session_step_callbacks [OF s(2)]
  with s(1,3) c SessionEvent show ?thesis
    by (auto simp: owned_inv_def owner_stop_def close_socket_def)
next
  case Disconnect
  with assms show ?thesis using owned_inv_stop [of c] by (simp add: owned_inv_def [of d])
qed


text \<open>A client with an idle timeout of ten seconds, from \<^verbatim>\<open>connect\<close> on, with a server that says nothing: the
  timer runs out, and is not set again by the second time.\<close>

definition idle_config :: timer_config where
  "idle_config = \<lparr>timeout_request = 5, config_timeout_idle = 10, max_size = - 1\<rparr>"

definition opened_client :: client_life where
  "opened_client = client_open (request_written idle_config True (host_connected idle_config True
     (host_resolved idle_config True (connect idle_config 0))))"

lemma opened_client_reached:
  "run_events (client_life_step idle_config)
     [HostResolved True, HostConnected True, RequestWritten True, AnswerRead (Some (HandshakeDone []))] (connect idle_config 0) = Some opened_client"
  by (simp add: opened_client_def connect_def host_resolved_def client_defs timer_defs idle_config_def Let_def)

lemma opened_client_session:
  "session_of opened_client r = \<lparr>timeout_idle = 10, clock = 0, timer = Some (10, True), due = [], socket_open = True, reader = r\<rparr>"
  by (simp add: session_of_def opened_client_def connect_def host_resolved_def client_defs timer_defs idle_config_def
      conn_timer.defs client_session.defs Let_def)

lemmas session_defs =
  session_timer_handler_def session_send_close_def session_send_def on_reader_def timer_expires_def time_passes_def timer_defs


section \<open>A silent server\<close>

fun session_silent :: "session_event \<Rightarrow> bool" where
  "session_silent (SessionTimePasses n) = True"
| "session_silent SessionTimerExpires = True"
| "session_silent SessionTimerHandler = True"
| "session_silent _ = False"

definition session_idle_close :: "client_connection \<Rightarrow> client_connection" where
  "session_idle_close = cl_send_close 1000 (bytes_of ''idle timeout'')"

lemma session_view: "timer_expires c = Some c' \<Longrightarrow> timer_expires (conn_timer.truncate c) = Some (conn_timer.truncate c')"
  "time_passes n c = Some c' \<Longrightarrow> time_passes n (conn_timer.truncate c) = Some (conn_timer.truncate c')" for c :: client_session
  by (rule view_expires, simp) (rule view_passes, simp)

interpretation idle_client:
  idle_end "session_step m junk" session_silent "\<lambda>_. True" conn_timer.truncate reader session_idle_close for m junk
proof unfold_locales
  show "session_idle_close (session_idle_close r) = session_idle_close r" for r
    by (simp add: session_idle_close_def cl_send_close_def cl_send_def)
  fix e c c'
  assume step: "session_step m junk e c = Some c'" "session_silent e" and "idle_only (conn_timer.truncate c)"
  then have idle: "idle_only c" by simp
  show "True \<and> idle_only (conn_timer.truncate c') \<and>
    (reader c' = reader c \<and> (timer_expires (conn_timer.truncate c) = Some (conn_timer.truncate c') \<or>
       (\<exists>n. time_passes n (conn_timer.truncate c) = Some (conn_timer.truncate c'))) \<or>
     due (conn_timer.truncate c) \<noteq> [] \<and> reader c' = session_idle_close (reader c))"
  proof (cases e)
    case SessionTimerHandler
    with session_handler_step [OF _ idle] step show ?thesis by (simp add: session_idle_close_def del: session_step.simps)
  next
    case SessionTimerExpires
    with step(1) have "timer_expires c = Some c'" by simp
    from session_view(1) [OF this] session_timer_steps(1) [OF this] idle show ?thesis by simp
  next
    case (SessionTimePasses n)
    with step(1) have "time_passes n c = Some c'" by simp
    from session_view(2) [OF this] session_timer_steps(2) [OF this] idle show ?thesis by auto
  qed (use step in simp_all)
qed

text \<open>A server that has fallen silent is waited for: the client sends it one close frame, when the idle timeout has run
  out, and waits on.\<close>

lemma silent_server_waited_for:
  assumes "run_events (session_step m junk) es c = Some c'" and "list_all session_silent es" and "idle_only c"
  shows "socket_open c' \<and> (reader c' = reader c \<or> reader c' = cl_send_close 1000 (bytes_of ''idle timeout'') (reader c)) \<and>
    (\<forall>d. timer c = Some (d, True) \<and> d < clock c' \<and> clock c \<le> d \<longrightarrow> reader c' = cl_send_close 1000 (bytes_of ''idle timeout'') (reader c))"
  using idle_client.silent_end_kept [OF assms(1,2)] assms(3) by (simp add: idle_only_def session_idle_close_def)

end
