(* ===== verification/Ws_Upgrade.thy ===== *)
theory Ws_Upgrade
  imports Ws_Timer Ws_Handshake
begin

text \<open>
  The parts of \<^verbatim>\<open>server_ws.hpp\<close> that the service itself does not use: \<^verbatim>\<open>upgrade\<close>, which takes over a connection that
  another server has accepted and whose request it has read, and the end of the peer.
\<close>

section \<open>Upgrading\<close>

text \<open>The connection as its public constructor makes it, over a socket of the other server.\<close>

definition handed_over :: "int \<Rightarrow> timed_connection" where
  "handed_over now =
     \<lparr>timeout_idle = 0, clock = now, timer = None, due = [], socket_open = True, phase = ReadingRequest, conn = new_ws_connection\<rparr>"

definition upgrade ::
  "timer_config \<Rightarrow> crypto_ops \<Rightarrow> (string list \<Rightarrow> string) \<Rightarrow> (string \<Rightarrow> string \<Rightarrow> bool) \<Rightarrow> string list \<Rightarrow> http_request
    \<Rightarrow> timed_connection \<Rightarrow> timed_connection" where
  "upgrade cfg ops pick matches endpoints request c =
     (let c = c\<lparr>timeout_idle := config_timeout_idle cfg\<rparr>
      in case write_handshake ops pick matches endpoints request of
           None \<Rightarrow> released c
         | Some (endpoint, answer) \<Rightarrow> (set_timeout (timeout_request cfg) c)\<lparr>phase := WritingAnswer\<rparr>)"

text \<open>From then on it is a connection like the others: as if the server had accepted it and read that request.\<close>

lemma upgraded_like_accepted:
  "upgrade cfg ops pick matches endpoints request (handed_over now) =
    request_read cfg (write_handshake ops pick matches endpoints request) (accepted cfg now)"
  by (simp add: upgrade_def handed_over_def request_read_def accepted_def released_def timer_defs Let_def split: option.split prod.split)

lemma upgraded_run:
  "life_run cfg junk es (upgrade cfg ops pick matches endpoints request (handed_over now)) =
    life_run cfg junk (RequestRead (write_handshake ops pick matches endpoints request) # es) (accepted cfg now)"
proof -
  have "phase (accepted cfg now) = ReadingRequest" by (simp add: accepted_def)
  then show ?thesis by (simp add: life_run_def upgraded_like_accepted)
qed

text \<open>So it is opened in time, or given up.\<close>

lemma upgrade_cut_off:
  assumes "0 < timeout_request cfg"
    and "life_run cfg junk es (upgrade cfg ops pick matches endpoints request (handed_over now)) = Some c"
    and "now + 2 * timeout_request cfg < clock c"
  shows "phase c = Serving \<or> phase c = Ended \<or> \<not> socket_open c"
  using slow_handshake_cut_off [OF assms(1) assms(2) [unfolded upgraded_run] assms(3)] .

section \<open>The end of the peer\<close>

text \<open>\<open>asked\<close>: what the socket says of its peer, \<open>None\<close> where it throws; then the end stays as it was made.\<close>

definition read_remote_endpoint :: "'e option \<Rightarrow> 'e \<Rightarrow> 'e" where
  "read_remote_endpoint asked remote_endpoint = (case asked of None \<Rightarrow> remote_endpoint | Some e \<Rightarrow> e)"

text \<open>The client also prints what was thrown.\<close>

definition client_read_remote_endpoint :: "string + 'e \<Rightarrow> 'e \<Rightarrow> 'e \<times> string list" where
  "client_read_remote_endpoint asked remote_endpoint =
     (case asked of Inl what \<Rightarrow> (remote_endpoint, [what @ [newline]]) | Inr e \<Rightarrow> (e, []))"

definition remote_endpoint_address :: "('e \<Rightarrow> string option) \<Rightarrow> 'e \<Rightarrow> string" where
  "remote_endpoint_address to_string remote_endpoint =
     (case to_string remote_endpoint of None \<Rightarrow> [] | Some address \<Rightarrow> address)"

lemma lost_peer:
  "read_remote_endpoint None e = e" "fst (client_read_remote_endpoint (Inl what) e) = e" "snd (client_read_remote_endpoint (Inr e') e) = []"
  by (simp_all add: read_remote_endpoint_def client_read_remote_endpoint_def)

end
