(* ===== verification/Thread_Helper.thy ===== *)
theory Thread_Helper
  imports Ws_Protocol Ws_Handshake Logging
begin

text \<open>
  \<^verbatim>\<open>core/ThreadHelper.hpp\<close>, and its one use, in the log statement of \<^verbatim>\<open>WsProtocol::removeFromResendStoreUnsafe\<close>. What
  \<^verbatim>\<open><<\<close> prints of a thread identifier is up to the standard library, and a parameter.
\<close>

section \<open>Reading a number\<close>

text \<open>\<^verbatim>\<open>std::stol\<close>, which throws \<^verbatim>\<open>std::invalid_argument\<close> or \<^verbatim>\<open>std::out_of_range\<close>.\<close>

datatype stol_error = NoConversion | BeyondLong

definition stol :: "string \<Rightarrow> stol_error + int" where
  "stol s =
     (let s = dropWhile is_space s;
          negative = (s \<noteq> [] \<and> hd s = CHR ''-'');
          ds = takeWhile is_digit (if s \<noteq> [] \<and> (hd s = CHR ''-'' \<or> hd s = CHR ''+'') then tl s else s);
          v = (if negative then - int (decimal ds) else int (decimal ds))
      in if ds = [] then Inl NoConversion else if v < - (2 ^ 63) \<or> 2 ^ 63 \<le> v then Inl BeyondLong else Inr v)"

definition threadIdToString :: "('i \<Rightarrow> string) \<Rightarrow> 'i \<Rightarrow> string" where
  "threadIdToString print_id this_id = print_id this_id"

text \<open>The \<^verbatim>\<open>long\<close> is returned as a \<^verbatim>\<open>size_t\<close>.\<close>

definition threadIdToInt :: "('i \<Rightarrow> string) \<Rightarrow> 'i \<Rightarrow> stol_error + u64" where
  "threadIdToInt print_id this_id =
     (case stol (threadIdToString print_id this_id) of Inl e \<Rightarrow> Inl e | Inr v \<Rightarrow> Inr (word_of_int v))"

text \<open>The statement: its arguments are evaluated when the message is gone from the store already.\<close>

definition removal_log :: "ws_message_identifier \<Rightarrow> u64 \<Rightarrow> string result" where
  "removal_log messageId thread =
     build_buffer (''Going to remove message with id '' @ quoted ''%d'' @ '' from the resend store.'')
       [IntArgument (uint messageId), SizeArgument thread]"

definition removeFromResendStore_logged ::
  "('i \<Rightarrow> string) \<Rightarrow> 'i \<Rightarrow> ws_message_identifier \<Rightarrow> 'w protocol \<Rightarrow> 'w protocol \<times> (stol_error + string result)" where
  "removeFromResendStore_logged print_id this_id messageId p =
     (let p = removeFromResendStore messageId p
      in (p, case threadIdToInt print_id this_id of Inl e \<Rightarrow> Inl e | Inr thread \<Rightarrow> Inr (removal_log messageId thread)))"

section \<open>Numbers that were printed\<close>

lemma digit_not_space: "is_digit c \<Longrightarrow> \<not> is_space c \<and> c \<noteq> CHR ''-'' \<and> c \<noteq> CHR ''+''"
  by (auto simp: is_digit_def is_space_def char_code_def)

lemma stol_show_nat: "stol (show_nat n) = (if n < 2 ^ 63 then Inr (int n) else Inl BeyondLong)"
proof -
  have digits: "\<forall>c \<in> set (show_nat n). is_digit c" and some: "show_nat n \<noteq> []" and n: "decimal (show_nat n) = n"
    using show_nat_digits [of n] by (simp_all add: list_all_iff)
  from some obtain c cs where s: "show_nat n = c # cs" by (cases "show_nat n") auto
  with digits digit_not_space [of c] have c: "\<not> is_space c" "c \<noteq> CHR ''-''" "c \<noteq> CHR ''+''" by auto
  have all: "takeWhile is_digit (c # cs) = c # cs" using digits unfolding s by (rule takeWhile_eq_all_conv [THEN iffD2])
  from n have "decimal (c # cs) = n" unfolding s .
  with c show ?thesis by (simp add: stol_def s Let_def all del: takeWhile.simps)
qed

text \<open>Where identifiers are printed as decimal numbers, as by the GNU library, they are read back below the bound of \<^verbatim>\<open>long\<close>.\<close>

lemma thread_id_read_back:
  assumes "print_id t = show_nat n"
  shows "threadIdToInt print_id t = (if n < 2 ^ 63 then Inr (of_nat n) else Inl BeyondLong)"
  by (simp add: threadIdToInt_def threadIdToString_def assms stol_show_nat)

text \<open>Elsewhere: a hexadecimal number is read as 0, and a text without a number ends the removal with an exception.\<close>

lemma other_thread_ids:
  "threadIdToInt (\<lambda>_. ''0x7f02'') t = Inr 0" "threadIdToInt (\<lambda>_. ''thread 7'') t = Inl NoConversion"
  by (simp_all add: threadIdToInt_def threadIdToString_def stol_def is_space_def is_digit_def char_code_def decimal_def)

text \<open>The log line has no place for the thread: the same is printed for each.\<close>

lemma removal_line:
  "removal_log messageId thread =
    Inr (take 4095 (''Going to remove message with id '' @ quoted (show_int (uint messageId)) @ '' from the resend store.''))"
  by (simp add: removal_log_def build_buffer_def c_string_def quoted_def max_input_size_def)

lemma removal_goes_on:
  assumes "print_id t = show_nat n" and "n < 2 ^ 63"
  shows "\<exists>text. removeFromResendStore_logged print_id t messageId p = (removeFromResendStore messageId p, Inr (Inr text))"
  using thread_id_read_back [where print_id = print_id and t = t, OF assms(1)] assms(2) by (simp add: removeFromResendStore_logged_def removal_line)

end
