(* ===== verification/Spec2Isabelle.thy ===== *)
theory Spec2Isabelle
  imports Application Grpc_Transport Ws_Loop Web_Status Web_Attributes Web_Base64 Ws_Handshake Send_Queue Scope_Runner
    Test_Service Ws_Client_Life Ws_Server Service_Process Grpc_Lifecycle Transport_Agreement Data_Store_Factory
    Shared_State Unit_Tests Ws_Client_Reader Ws_Upgrade Thread_Helper Transport_Survival
begin

text \<open>
  A model of \<^verbatim>\<open>ratingcalculator\<close>, a service that ranks users by the deals they have won in the current week
  and pushes each connected user an excerpt of the ranking around the user's own place.

  \<^bold>\<open>The program and its model.\<close> Clients send messages (\<^verbatim>\<open>core/Model.hpp\<close>: a user is registered or renamed,
  connects or disconnects, wins a deal) over WebSockets or gRPC. \<^verbatim>\<open>ApplicationService::dispatchMessage\<close>
  passes each to a store: users to \<^verbatim>\<open>UserDataStore\<close>, deals through \<^verbatim>\<open>UserDealDataStore\<close> to \<^verbatim>\<open>UserRatingProvider\<close>,
  which adds them up in a \<^verbatim>\<open>MultiKeyVolatileContainer\<close> for the week. \<^verbatim>\<open>UserRatingWatcher\<close> sends the
  connected users their rating when they connect and once per update cycle. A second thread of the
  provider clears the table and begins a new period every week.

    \<^item> \<open>Prelude\<close>, \<open>Float32\<close>, \<open>Core_Types\<close>: machine integers, exceptions and results; \<^verbatim>\<open>float\<close> as a 32-bit word with
      IEEE addition and comparison; the structures and messages of \<^verbatim>\<open>core/Types.hpp\<close> and \<^verbatim>\<open>core/Model.hpp\<close>.
    \<^item> \<open>Enum_Converter\<close>, \<open>Time_Helper\<close>, \<open>Logging\<close>: \<^verbatim>\<open>core/EnumConverter.hpp\<close>; \<^verbatim>\<open>core/TimeHelper.cpp\<close> on a model of
      \<^verbatim>\<open>gmtime\<close>; \<^verbatim>\<open>core/ulog.c\<close> and its macros.
    \<^item> \<open>MultiKey_Container\<close>, \<open>Ranking_Order\<close>, \<open>Rating_Table\<close>: \<^verbatim>\<open>core/MultiKeyVolatileContainer.hpp\<close> with the shared
      nodes on an explicit heap; the locale \<open>ranking_order\<close> on its comparator; its instance for ratings,
      and the locale \<open>rating_table\<close> on what its clients rely on.
    \<^item> \<open>User_Data_Store\<close> (locale \<open>user_store\<close>), \<open>User_Rating_Provider\<close>, \<open>User_Rating_Watcher\<close>, \<open>Application_Service\<close>,
      \<open>Application\<close>: \<^verbatim>\<open>tempstore/src\<close> and \<^verbatim>\<open>service/src\<close>; \<open>service_step\<close> runs the service as a sequence of events.
    \<^item> \<open>Transport_Interface\<close> (locale \<open>transport_server\<close> for \<^verbatim>\<open>core/ITransportServer.hpp\<close>), \<open>Grpc_Transport\<close>
      (\<^verbatim>\<open>grpcapi/src\<close>), \<open>Json_Serialization\<close>, \<open>Ws_Message\<close>, \<open>Ws_Protocol\<close>, \<open>Ws_Transport\<close> (\<^verbatim>\<open>webapi/serialization\<close>,
      \<^verbatim>\<open>webapi/transport\<close>): both transports, with the acknowledgements and resends of the WebSocket one.
    \<^item> \<open>Web_Status\<close>, \<open>Web_Utility\<close>, \<open>Web_Attributes\<close>, \<open>Web_Crypto\<close>, \<open>Web_Base64\<close>, \<open>Ws_Handshake\<close>, \<open>Ws_Frame\<close>, \<open>Ws_Client_Frame\<close>, \<open>Send_Queue\<close> (locale \<open>write_queue\<close>,
      interpreted for both ends), \<open>Scope_Runner\<close>: \<^verbatim>\<open>webapi/websockets\<close>, the library below \<open>Ws_Transport\<close>: status
      codes, HTTP text, digests, the opening handshake, frames as bytes, the queue of writes, and the lock that
      keeps handlers out once a client is destroyed.
    \<^item> \<open>Ws_Timer\<close>, \<open>Ws_Client_Life\<close>, \<open>Ws_Client_Reader\<close> (locales \<open>request_chain\<close> and \<open>idle_end\<close>, interpreted for both ends),
      \<open>Ws_Upgrade\<close>, \<open>Ws_Lifecycle\<close>, \<open>Worker_Threads\<close> (locale
      \<open>stoppable_thread\<close>, interpreted for the three threads that work in a loop), \<open>Service_Process\<close>, \<open>Grpc_Lifecycle\<close>:
      the timers of a connection and its life from \<^verbatim>\<open>accept\<close> or \<^verbatim>\<open>connect\<close> on, starting and stopping, the
      threads of \<^verbatim>\<open>ApplicationService::run\<close> (\<open>Service_Run\<close>: locale \<open>served_process\<close>, interpreted for both transports), and the client of gRPC.
    \<^item> \<open>Transport_Survival\<close> (locale \<open>served_transport\<close>, interpreted for both transports): the service with its transport as
      one sequence of arrivals, pushes, cycles, period steps and resend passes; \<open>Ws_Total\<close>: no push over WebSockets fails.
    \<^item> \<open>Grpc_Service\<close>: the service behind gRPC, and its listening server; \<open>Transport_Agreement\<close>: locale \<open>transport_client\<close> for
      \<^verbatim>\<open>core/ITransportClient.hpp\<close>, and the two transports against each other; \<open>Data_Store_Factory\<close>: the stores as static objects.
    \<^item> \<open>Ws_Server\<close>: all connections of a server with their timers, the acceptor, \<^verbatim>\<open>stop\<close>, and the service behind them.
    \<^item> \<open>Lock_Discipline\<close> (locale \<open>lock_discipline\<close>), \<open>Shared_State\<close>: what the threads of the service do to mutexes and shared
      objects over either transport, interleaved at every action. \<open>Thread_Helper\<close>: \<^verbatim>\<open>core/ThreadHelper.hpp\<close> and its use in a log statement.
    \<^item> \<open>Test_Client\<close>, \<open>Test_Service\<close>: \<^verbatim>\<open>testClient/src\<close>, and the test client against the service.
    \<^item> \<open>Unit_Tests\<close>: the unit tests of the repository, run against the model.
    \<^item> \<open>Ws_Service\<close>, \<open>Ws_Stack\<close>, \<open>Ws_Loop\<close> and this theory: texts, and the bytes that carry them, from the socket
      to the stores (\<open>ws_receive\<close>, \<open>bytes_arrive\<close>), and from a push to the client's handler and back.

  Records carry the members of the classes, one definition stands for one function (named after it),
  and every exception, early return and undefined access is a branch. Undefined behaviour is the exception
  \<open>UndefinedBehaviour\<close>, or \<open>Undefined\<close> on the strand of a connection; no handler stops it.

  \<^bold>\<open>What is shown.\<close> The table: an insertion that moves a node along its neighbours implements insertion
  into the sorted ranking, amounts accumulate, positions and excerpts are those of the ranking. The
  provider refines a log of the deals of the period; periods are weeks. The service, with either transport, lives through any
  sequence of events of clients that register users first, and the test client is such a client when its
  registrations are not overtaken; requests have the same effect over both transports. The WebSocket protocol delivers and acknowledges, resends at most as
  often as configured, and its store drains. Below it: the two ends agree on the handshake, what one
  end queues is what the other end's message handler gets, whatever the fragments, masks, pieces and
  interleaving, readers come to rest, and no handler uses the front of an empty queue. A peer that is slow to
  ask is cut off in time whatever the other connections do, one that falls silent is kept, by either end, once no request timer is
  left over, and sent one close frame at most; a user is routed
  only to a connection of the endpoint; a stop is heeded once the server is under way,
  and threads asked to stop do one more piece of work at most; over gRPC a port that
  is taken ends the service. The mutexes of the service, with those of the connections' timers, never block it for good, and what they guard is never
  raced for; the users, the table, the period and the counter of messages are raced for. Trees and
  texts of messages are read back as they were. Several theorems show what the code gets wrong;
  each says so in its text.

  \<^bold>\<open>Parameters and hypotheses.\<close> Code outside the repository is an argument: \<open>emit\<close> (how \<^verbatim>\<open>boost::signals2\<close> calls
  its slots; \<open>emits_single\<close>: a single slot is just called), \<open>ops\<close> (\<^verbatim>\<open>boost::property_tree\<close>; \<open>tree_laws\<close>, \<open>json_laws\<close>
  and \<open>wire_laws\<close>: what is put is read back; \<open>printer_ok\<close>: it throws exceptions at most; \<open>writer_law\<close>: every tree without values at inner nodes can be written;
  \<open>parser_law\<close>: reading throws nothing but standard exceptions), \<open>iless\<close> (\<^verbatim>\<open>boost::is_iless\<close>), \<open>send\<close> (the transport, for theories
  below it), \<open>bound\<close> and \<open>wait\<close> (gRPC: which addresses can be listened on, and when \<^verbatim>\<open>Wait\<close> returns; \<open>wait_law\<close>: not before a shutdown), \<open>parse\<close> (option parsers), \<open>crypto_ops\<close> with \<open>crypto_laws\<close> (the functions of
  \<^verbatim>\<open>Crypto\<close>; \<open>wrapped_crypto_laws\<close> has them from those of OpenSSL), \<open>matches\<close> (regular expressions), \<open>hash_ops\<close> with
  \<open>hash_laws\<close> and \<open>bio_ops\<close> with \<open>bio_laws\<close> (OpenSSL), \<open>localtime\<close> (the time zone), \<open>decode\<close> (the text the bytes of a message are
  read as; \<open>encode\<close>: the bytes of a text), \<open>pick\<close> (which of several equal header fields \<^verbatim>\<open>find\<close> returns), \<open>hash\<close>, \<open>junk\<close> (bytes of an
  uninitialised array), and the draws of random numbers (\<open>fair_draw\<close>). Witnesses instantiate each with a
  concrete function: \<open>plain_ops\<close> is a property tree with its printer and reader.

  \<^bold>\<open>Bounds and fuel.\<close> The reader of header lines and the run of the client's reader have fuel, since the
  loops need not end: \<open>header_parse_returns_iff\<close> says exactly when a header is read, the theorems on the
  client say that enough fuel gives the result. \<open>server_run\<close> ends on every input by a measure. Sizes and
  identifiers are words of their width; the time is an \<open>int\<close>, the counter of \<^verbatim>\<open>ScopeRunner\<close> too. The ranks of
  \<open>stoppable_thread\<close> bound the steps of a thread that was asked to stop.

  \<^bold>\<open>Simplifications.\<close> Handlers, cycles, period steps and resend passes are taken one at a time, where the code
  holds a mutex or runs on one strand (\<open>Shared_State\<close> says where it does not); where it does not, the steps between are events of their own (the period
  thread, the test client, the scope runner, the strand of a connection). A resend pass reads the clock once. Texts
  handed to a connection are a list, the wire; how they become frames is the subject of \<open>Send_Queue\<close>. Timers are
  punctual, with their handlers possibly behind others that are queued; a pool of threads that run one I/O
  context is taken as one thread.
  Numbers are printed by \<^verbatim>\<open>boost::format\<close> and \<^verbatim>\<open>std::to_string\<close> in decimal. \<^verbatim>\<open>reserve\<close> has no
  effect; a log statement (\<open>Logging\<close>) has none outside \<open>Application\<close>, also where C leaves it undefined.

  \<^bold>\<open>Not modelled.\<close> The effect of a data race; how long waits last; the channels of gRPC; the
  Kafka and RabbitMQ transports that \<^verbatim>\<open>Application.cpp\<close> names, whose sources are not in the repository.
\<close>

section \<open>Properties\<close>

text \<open>From text to text: when the text of a \<^verbatim>\<open>UserConnected\<close> message of a registered user arrives on a
  living connection, inside the period and while everybody in the table is registered, the user joins
  the connected users and is routed to that connection, and the next data message on it is a rating
  message with the user's registered record and the user's rating, readable by the client.\<close>

theorem connecting_user_gets_rating:
  assumes "wire_laws ops iless" and "ws_of_text ops iless js = Inr (WsData i (connect_message k))"
    and "c \<in> live (transport s)" and "service_ok s"
    and "all_registered (userDataStore s) (userRatingProvider s)" and "users (userDataStore s) k = Some u"
    and "within (startTime (userRatingProvider s)) (endTime (userRatingProvider s)) (unsigned_time now)"
    and "\<forall>j b. rating_of (sortedDealContainer (userRatingProvider s)) j = Some b \<longrightarrow> f32_finite b"
    and "\<forall>j v. users (userDataStore s) j = Some v \<longrightarrow> plain_text (ui_name v)"
  shows "\<exists>s' r. ws_receive emit ops iless now c js s = (s', None) \<and> k \<in> connectedUsers s' \<and>
    ws_route (transport s') k = Some c \<and>
    ws_received ops iless (transport s') c = ws_received ops iless (transport s) c @ [rating_message r] \<and>
    up_userInformation (ur_userPosition r) = u \<and>
    rating_of (sortedDealContainer (userRatingProvider s')) k = Some (up_amount (ur_userPosition r))"
  using assms by (rule connect_gets_rating)

theorem connecting_user_gets_rating_witness:
  "\<exists>js s' r. ws_receive single_emit plain_ops reference_iless 1515931932000000000 5 js example_ws_service = (s', None) \<and>
    ws_received plain_ops reference_iless (transport s') 5 = [rating_message r] \<and>
    up_userInformation (ur_userPosition r) = \<lparr>ui_id = 2, ui_name = ''b''\<rparr>"
proof -
  obtain js where js: "ws_of_text plain_ops reference_iless js = Inr (WsData 0 (connect_message 2))"
    using example_connect_text by blast
  from connecting_user_gets_rating [OF plain_wire_laws js example_ready(2) example_ws_service_ok(1) example_ready(3,4,1,6,5), of single_emit]
  show ?thesis using example_ready(7) by auto
qed

text \<open>C37. Delivery is at least once, and deals are not idempotent: in a service in order, when the text of a deal of an amount that
  is not negative, won inside the current period, arrives twice on a connection, as it does when its acknowledgement was lost
  and the client sends it again, each copy is acknowledged, those two answers and nothing else are written, and the user's
  rating grows by the amount twice.\<close>

theorem retransmitted_deal_counts_twice:
  assumes "wire_laws ops iless" and "ws_of_text ops iless js = Inr (WsData i (deal_message d))"
    and "service_ok s" and "wired emit s" and "f32_nonneg (di_amount d)"
    and "within (startTime (userRatingProvider s)) (endTime (userRatingProvider s)) (di_timestamp d)"
  shows "\<exists>s' s'' ack ack'. ws_receive emit ops iless now c js s = (s', None) \<and> ws_receive emit ops iless now' c js s' = (s'', None) \<and>
    ws_of_text ops iless ack = Inr (WsAck i) \<and> ws_of_text ops iless ack' = Inr (WsAck i) \<and>
    wire (protocol (transport s'')) = wire (protocol (transport s)) @ [(c, ack), (c, ack')] \<and>
    rating_of (sortedDealContainer (userRatingProvider s'')) (di_userId d) =
      Some (f32_add (add_to (rating_of (sortedDealContainer (userRatingProvider s)) (di_userId d)) (di_amount d)) (di_amount d))"
proof -
  note once = deal_counted [OF assms(1,2) _ _ assms(5), where c = c]
  from once [OF assms(3,4,6), of now] obtain s' ack where s': "ws_receive emit ops iless now c js s = (s', None)"
    "service_ok s'" "wired emit s'" "startTime (userRatingProvider s') = startTime (userRatingProvider s)"
    "endTime (userRatingProvider s') = endTime (userRatingProvider s)"
    "rating_of (sortedDealContainer (userRatingProvider s')) (di_userId d) =
      Some (add_to (rating_of (sortedDealContainer (userRatingProvider s)) (di_userId d)) (di_amount d))"
    and ack: "ws_of_text ops iless ack = Inr (WsAck i)" "wire (protocol (transport s')) = wire (protocol (transport s)) @ [(c, ack)]"
    by blast
  have "within (startTime (userRatingProvider s')) (endTime (userRatingProvider s')) (di_timestamp d)"
    using s'(4,5) assms(6) by simp
  from once [OF s'(2,3) this, of now'] obtain s'' ack' where "ws_receive emit ops iless now' c js s' = (s'', None)"
    "ws_of_text ops iless ack' = Inr (WsAck i)" "wire (protocol (transport s'')) = wire (protocol (transport s')) @ [(c, ack')]"
    "rating_of (sortedDealContainer (userRatingProvider s'')) (di_userId d) =
      Some (add_to (rating_of (sortedDealContainer (userRatingProvider s')) (di_userId d)) (di_amount d))" by blast
  with s'(1,6) ack show ?thesis
    by (intro exI [of _ s'] exI [of _ s''] exI [of _ ack] exI [of _ ack']) (simp add: add_to_def)
qed

theorem retransmitted_deal_counts_twice_witness:
  "\<exists>js s' s''. ws_receive single_emit plain_ops reference_iless 0 5 js example_ws_service = (s', None) \<and>
    ws_receive single_emit plain_ops reference_iless 0 5 js s' = (s'', None) \<and>
    length (wire (protocol (transport s''))) = length (wire (protocol (transport example_ws_service))) + 2 \<and>
    rating_of (sortedDealContainer (userRatingProvider s'')) 2 = Some 0x40400000"
proof -
  let ?d = "\<lparr>di_userId = 2, di_timestamp = 1515931932, di_amount = 0x3F800000\<rparr>"
  have won: "f32_nonneg (di_amount ?d)" "f32_finite 0x3F800000" by (simp_all add: f32_defs)
  obtain js where js: "ws_of_text plain_ops reference_iless js = Inr (WsData 0 (deal_message ?d))"
    using ws_text_roundtrip [OF plain_wire_laws, of "WsData 0 (deal_message ?d)"] won(2) by (auto simp: deal_message_def)
  have "within (startTime (userRatingProvider example_ws_service)) (endTime (userRatingProvider example_ws_service)) (di_timestamp ?d)"
    using example_within by (simp add: example_ws_service_def)
  from retransmitted_deal_counts_twice [OF plain_wire_laws js example_ws_service_ok won(1) this, of 0 5 0] obtain s' s''
    where "ws_receive single_emit plain_ops reference_iless 0 5 js example_ws_service = (s', None)"
      "ws_receive single_emit plain_ops reference_iless 0 5 js s' = (s'', None)"
      "length (wire (protocol (transport s''))) = length (wire (protocol (transport example_ws_service))) + 2"
      "rating_of (sortedDealContainer (userRatingProvider s'')) 2 =
        Some (f32_add (add_to (rating_of example_table 2) 0x3F800000) 0x3F800000)"
    by (auto simp: example_ws_service_def example_provider_def)
  moreover have "f32_add (add_to (rating_of example_table 2) 0x3F800000) 0x3F800000 = 0x40400000"
    by (simp add: example_table_rating add_to_def f32_defs bit_len.simps)
  ultimately show ?thesis by metis
qed

end
